(* ===== verification/Ig_Prelude.thy ===== *)
theory Ig_Prelude
  imports Main "HOL-Library.Word"
begin

text \<open>
  Shared vocabulary of the development: machine integers and byte buffers, the results of
  C functions that work on buffers, C character arrays, and the network byte order of
  \<^verbatim>\<open>htons\<close>/\<^verbatim>\<open>htonl\<close>.  The collection \<open>ig_wire\<close> gathers the rewrite rules that evaluate
  writers and readers, \<open>ig_arr\<close> those about arrays and index lists.
\<close>

named_theorems ig_wire "evaluation rules of the buffer writers and readers"
named_theorems ig_arr "rules on fixed arrays, index lists and updates"

unbundle bit_operations_syntax

section \<open>Machine integers and buffers\<close>

type_synonym u8 = "8 word"
type_synonym u16 = "16 word"
type_synonym u32 = "32 word"
type_synonym u64 = "64 word"
type_synonym bytes = "8 word list"

text \<open>
  A C function over buffers returns a value, returns a negative error code, or touches
  memory outside the object it was given.  The last case is undefined behaviour in C; it
  is a value of its own here, so that memory safety is a theorem and not a convention.
\<close>

datatype 'a cres = Ok 'a | Err int | Oob

fun cbind :: "'a cres \<Rightarrow> ('a \<Rightarrow> 'b cres) \<Rightarrow> 'b cres" where
  "cbind (Ok x) f = f x"
| "cbind (Err e) f = Err e"
| "cbind Oob f = Oob"

lemma cbind_Ok_iff: "cbind m f = Ok y \<longleftrightarrow> (\<exists>x. m = Ok x \<and> f x = Ok y)"
  by (cases m) auto

lemma cbind_Oob_iff: "cbind m f = Oob \<longleftrightarrow> m = Oob \<or> (\<exists>x. m = Ok x \<and> f x = Oob)"
  by (cases m) auto

lemma cbind_Err_iff: "cbind m f = Err e \<longleftrightarrow> m = Err e \<or> (\<exists>x. m = Ok x \<and> f x = Err e)"
  by (cases m) auto

lemma cbind_assoc: "cbind (cbind m f) g = cbind m (\<lambda>x. cbind (f x) g)"
  by (cases m) auto

lemma cbind_cong_Ok: "m = Ok x \<Longrightarrow> cbind m f = f x"
  by simp

section \<open>C character arrays\<close>

text \<open>
  A \<^verbatim>\<open>char[N]\<close> is the list of its bytes; bytes past the end of the list are NUL.  The C string
  stored in it is the part before the first NUL.
\<close>

definition nul :: char where
  "nul = CHR 0x00"

definition cstr :: "string \<Rightarrow> string" where
  "cstr s = takeWhile (\<lambda>c. c \<noteq> nul) s"

definition strnlen :: "string \<Rightarrow> nat \<Rightarrow> nat" where
  "strnlen s n = length (cstr (take n s))"

text \<open>
  \<^verbatim>\<open>strncpy(dst, src, n - 1); dst[n - 1] = 0\<close> leaves in \<^verbatim>\<open>dst[n]\<close> the first \<open>n - 1\<close>
  characters of the string \<open>src\<close>, the rest zero.
\<close>

definition strncpy0 :: "nat \<Rightarrow> string \<Rightarrow> string" where
  "strncpy0 n src = take (n - 1) (cstr src)"

definition has_no_nul :: "string \<Rightarrow> bool" where
  "has_no_nul s \<longleftrightarrow> nul \<notin> set s"

lemma cstr_id [simp]: "has_no_nul s \<Longrightarrow> cstr s = s"
  by (auto simp: cstr_def has_no_nul_def takeWhile_eq_all_conv)

lemma has_no_nul_cstr [simp]: "has_no_nul (cstr s)"
  by (auto simp: cstr_def has_no_nul_def dest: set_takeWhileD)

lemma has_no_nul_take [simp]: "has_no_nul s \<Longrightarrow> has_no_nul (take n s)"
  by (auto simp: has_no_nul_def dest: in_set_takeD)

lemma strnlen_le: "strnlen s n \<le> n"
  using length_takeWhile_le [of "\<lambda>c. c \<noteq> nul" "take n s"]
  by (simp add: strnlen_def cstr_def)

lemma strnlen_le_length: "strnlen s n \<le> length s"
  using length_takeWhile_le [of "\<lambda>c. c \<noteq> nul" "take n s"]
  by (simp add: strnlen_def cstr_def)

lemma length_strncpy0: "0 < n \<Longrightarrow> length (strncpy0 n s) < n"
  by (auto simp: strncpy0_def)

lemma has_no_nul_strncpy0 [simp]: "has_no_nul (strncpy0 n s)"
  by (simp add: strncpy0_def)

lemma strncpy0_short: "has_no_nul s \<Longrightarrow> length s < n \<Longrightarrow> strncpy0 n s = s"
  by (simp add: strncpy0_def)

lemma strncpy0_idem [simp]: "strncpy0 n (strncpy0 n s) = strncpy0 n s"
  by (simp add: strncpy0_def)

text \<open>Characters on the wire are their bytes.\<close>

definition byte_of_char :: "char \<Rightarrow> u8" where
  "byte_of_char c = word_of_nat (of_char c)"

definition char_of_byte :: "u8 \<Rightarrow> char" where
  "char_of_byte b = char_of (unat b)"

lemma of_char_less_256: "(of_char c :: nat) < 256"
  by (metis nat_of_char_less_256)

lemma char_of_byte_of_char [simp, ig_wire]: "char_of_byte (byte_of_char c) = c"
proof -
  have "unat (word_of_nat (of_char c) :: u8) = of_char c"
    using of_char_less_256 [of c] by (simp add: unat_of_nat take_bit_eq_mod)
  then show ?thesis by (simp add: char_of_byte_def byte_of_char_def)
qed

lemma comp_char_of_byte_of_char [simp, ig_wire]: "char_of_byte \<circ> byte_of_char = id"
  by (simp add: fun_eq_iff)

section \<open>Network byte order\<close>

text \<open>
  The bytes of \<^verbatim>\<open>htons\<close>, \<^verbatim>\<open>htonl\<close> in memory, and the 64-bit value as two 32-bit halves, high
  half first, as \<^verbatim>\<open>write_u64\<close> lays it out.
\<close>

definition be16 :: "u16 \<Rightarrow> bytes" where
  "be16 v = [ucast (drop_bit 8 v), ucast v]"

definition be32 :: "u32 \<Rightarrow> bytes" where
  "be32 v = [ucast (drop_bit 24 v), ucast (drop_bit 16 v), ucast (drop_bit 8 v), ucast v]"

definition be64 :: "u64 \<Rightarrow> bytes" where
  "be64 v = be32 (ucast (drop_bit 32 v)) @ be32 (ucast (v AND 0xFFFFFFFF))"

definition of_be16 :: "u8 \<Rightarrow> u8 \<Rightarrow> u16" where
  "of_be16 a b = push_bit 8 (ucast a) OR ucast b"

definition of_be32 :: "u8 \<Rightarrow> u8 \<Rightarrow> u8 \<Rightarrow> u8 \<Rightarrow> u32" where
  "of_be32 a b c d = push_bit 24 (ucast a) OR push_bit 16 (ucast b) OR push_bit 8 (ucast c) OR ucast d"

definition of_hi_lo :: "u32 \<Rightarrow> u32 \<Rightarrow> u64" where
  "of_hi_lo hi lo = push_bit 32 (ucast hi) OR ucast lo"

lemma length_be [simp]: "length (be16 v) = 2" "length (be32 w) = 4" "length (be64 x) = 8"
  by (simp_all add: be16_def be32_def be64_def)

lemma of_be16_be16: "of_be16 (ucast (drop_bit 8 v)) (ucast v) = v"
  by (rule bit_word_eqI) (auto simp: of_be16_def bit_simps)

lemma of_be32_be32:
  "of_be32 (ucast (drop_bit 24 v)) (ucast (drop_bit 16 v)) (ucast (drop_bit 8 v)) (ucast v) = v"
  by (rule bit_word_eqI)
     (auto simp: of_be32_def bit_simps not_less less_diff_conv2; metis le_add_diff_inverse not_less)

lemma of_hi_lo_halves:
  "of_hi_lo (ucast (drop_bit 32 v)) (ucast (v AND 0xFFFFFFFF)) = v"
proof -
  have m: "(0xFFFFFFFF :: u64) = mask 32" by (simp add: mask_eq_exp_minus_1)
  show ?thesis
    unfolding m by (rule bit_word_eqI) (auto simp: of_hi_lo_def bit_simps not_less)
qed

section \<open>Lists as arrays\<close>

lemma nth_append_length_plus [ig_arr]: "(xs @ ys) ! (length xs + n) = ys ! n"
  by simp

lemma remove1_notin [simp, ig_arr]: "x \<notin> set xs \<Longrightarrow> remove1 x xs = xs"
  by (rule remove1_idem)

lemma length_filter_update:
  assumes "i < length xs"
  shows "length (filter P (xs[i := x])) + (if P (xs ! i) then 1 else 0)
       = length (filter P xs) + (if P x then 1 else 0)"
  using assms
proof (induction xs arbitrary: i)
  case Nil
  then show ?case by simp
next
  case (Cons a as)
  then show ?case by (cases i) auto
qed

text \<open>
  Linked lists of nodes found by a key: writing to the first node that matches, and unlinking
  it.
\<close>

fun update_first :: "('a \<Rightarrow> bool) \<Rightarrow> ('a \<Rightarrow> 'a) \<Rightarrow> 'a list \<Rightarrow> 'a list" where
  "update_first P f [] = []"
| "update_first P f (x # xs) = (if P x then f x # xs else x # update_first P f xs)"

fun remove_first :: "('a \<Rightarrow> bool) \<Rightarrow> 'a list \<Rightarrow> 'a list" where
  "remove_first P [] = []"
| "remove_first P (x # xs) = (if P x then xs else x # remove_first P xs)"

lemma find_update_first:
  "(\<And>x. P x \<Longrightarrow> P (f x)) \<Longrightarrow> List.find P (update_first P f xs) = map_option f (List.find P xs)"
  by (induction xs) auto

lemma find_update_first_other:
  "(\<And>x. P x \<Longrightarrow> \<not> Q x) \<Longrightarrow> (\<And>x. P x \<Longrightarrow> \<not> Q (f x)) \<Longrightarrow>
     List.find Q (update_first P f xs) = List.find Q xs"
  by (induction xs) auto

lemma find_remove_first_other:
  "(\<And>x. P x \<Longrightarrow> \<not> Q x) \<Longrightarrow> List.find Q (remove_first P xs) = List.find Q xs"
  by (induction xs) auto

lemma set_remove_first: "set (remove_first P xs) \<subseteq> set xs"
  by (induction xs) auto

lemma distinct_remove_first:
  "distinct (map g xs) \<Longrightarrow> distinct (map g (remove_first P xs))"
  by (induction xs) (auto dest: subsetD [OF set_remove_first])

lemma map_key_update_first:
  "(\<And>x. P x \<Longrightarrow> g (f x) = g x) \<Longrightarrow> map g (update_first P f xs) = map g xs"
  by (induction xs) auto

lemma length_update_first [simp]: "length (update_first P f xs) = length xs"
  by (induction xs) auto

lemma length_remove_first:
  "List.find P xs \<noteq> None \<Longrightarrow> Suc (length (remove_first P xs)) = length xs"
  by (induction xs) auto

lemma remove_first_none: "List.find P xs = None \<Longrightarrow> remove_first P xs = xs"
  by (induction xs) auto

lemma remove_first_key_gone:
  "distinct (map g xs) \<Longrightarrow> k \<notin> g ` set (remove_first (\<lambda>x. g x = k) xs)"
  by (induction xs) auto

lemma find_key_None: "List.find (\<lambda>x. g x = k) xs = None \<longleftrightarrow> k \<notin> g ` set xs"
  by (auto simp: find_None_iff)

lemma find_key_Some: "List.find (\<lambda>x. g x = k) xs = Some x \<Longrightarrow> g x = k \<and> x \<in> set xs"
  by (auto simp: find_Some_iff)

lemma find_key_member:
  "distinct (map g xs) \<Longrightarrow> x \<in> set xs \<Longrightarrow> List.find (\<lambda>y. g y = g x) xs = Some x"
  by (induction xs) (auto simp: image_iff)

lemma find_append: "List.find P (xs @ ys) = (case List.find P xs of None \<Rightarrow> List.find P ys | Some x \<Rightarrow> Some x)"
  by (induction xs) auto

end
