(* ===== verification/Proc_Types.thy ===== *)
theory Proc_Types
  imports Ig_Prelude
begin

text \<open>
  The process description and the ancestry chain of \<^verbatim>\<open>Agent/src/scanner/pid_ancestry.h\<close>,
  shared by the resolver, the kernel events, the event queue and the wire format.  Signed
  C types (\<^verbatim>\<open>pid_t\<close>) are read with \<open>sint\<close> where the code compares them.
\<close>

definition IG_PA_MAX_DEPTH :: nat where "IG_PA_MAX_DEPTH = 16"
definition IG_PA_COMM_LEN :: nat where "IG_PA_COMM_LEN = 16"
definition IG_PA_TTY_LEN :: nat where "IG_PA_TTY_LEN = 32"
definition IG_PA_EXE_LEN :: nat where "IG_PA_EXE_LEN = 256"
definition IG_PA_CMDLINE_LEN :: nat where "IG_PA_CMDLINE_LEN = 512"

lemmas pa_lens = IG_PA_MAX_DEPTH_def IG_PA_COMM_LEN_def IG_PA_TTY_LEN_def
  IG_PA_EXE_LEN_def IG_PA_CMDLINE_LEN_def

record ig_proc_info =
  pi_pid :: u32
  pi_ppid :: u32
  pi_uid :: u32
  pi_euid :: u32
  pi_sid :: u32
  pi_tty :: string
  pi_comm :: string
  pi_exe :: string
  pi_cmdline :: string
  pi_start_ticks :: u64
  pi_start_time_ns :: u64

record ig_pid_chain =
  c_depth :: int
  c_truncated :: int
  c_chain :: "ig_proc_info list"

definition zero_proc_info :: ig_proc_info where
  "zero_proc_info = \<lparr>pi_pid = 0, pi_ppid = 0, pi_uid = 0, pi_euid = 0, pi_sid = 0,
     pi_tty = [], pi_comm = [], pi_exe = [], pi_cmdline = [],
     pi_start_ticks = 0, pi_start_time_ns = 0\<rparr>"

definition zero_chain :: ig_pid_chain where
  "zero_chain = \<lparr>c_depth = 0, c_truncated = 0, c_chain = replicate IG_PA_MAX_DEPTH zero_proc_info\<rparr>"

text \<open>
  Well-formed chains: the array has its sixteen entries, at most that many are filled, and
  every string field holds a terminated C string of its array.
\<close>

definition proc_info_wf :: "ig_proc_info \<Rightarrow> bool" where
  "proc_info_wf e \<longleftrightarrow>
     has_no_nul (pi_tty e) \<and> length (pi_tty e) < IG_PA_TTY_LEN \<and>
     has_no_nul (pi_comm e) \<and> length (pi_comm e) < IG_PA_COMM_LEN \<and>
     has_no_nul (pi_exe e) \<and> length (pi_exe e) < IG_PA_EXE_LEN \<and>
     has_no_nul (pi_cmdline e) \<and> length (pi_cmdline e) < IG_PA_CMDLINE_LEN"

definition chain_wf :: "ig_pid_chain \<Rightarrow> bool" where
  "chain_wf c \<longleftrightarrow> 0 \<le> c_depth c \<and> c_depth c \<le> int IG_PA_MAX_DEPTH \<and>
     length (c_chain c) = IG_PA_MAX_DEPTH \<and> list_all proc_info_wf (c_chain c)"

lemma zero_proc_info_wf [simp]: "proc_info_wf zero_proc_info"
  by (simp add: proc_info_wf_def zero_proc_info_def has_no_nul_def pa_lens)

lemma zero_chain_wf [simp]: "chain_wf zero_chain"
  by (simp add: chain_wf_def zero_chain_def pa_lens list_all_iff)

end
