(* ===== verification/Protocol.thy ===== *)
theory Protocol
  imports Proc_Types
begin

text \<open>
  The wire format of the agent: \<^verbatim>\<open>Agent/src/transport/protocol.h\<close> and \<^verbatim>\<open>protocol.c\<close>.

  A write cursor (\<^verbatim>\<open>uint8_t **p\<close> into a buffer of known end) is the pair of the bytes still
  free behind it and the bytes written so far; a read cursor is the list of the bytes
  between it and the end.  Reading or writing past the end is \<open>Oob\<close>.  A function that returns
  the number of bytes it wrote returns those bytes.
\<close>

section \<open>Messages\<close>

definition IG_FRAME_HEADER_SIZE :: nat where "IG_FRAME_HEADER_SIZE = 9"
definition IG_MAX_FRAME_SIZE :: nat where "IG_MAX_FRAME_SIZE = 65535"
definition IG_MAX_PAYLOAD :: nat where "IG_MAX_PAYLOAD = IG_MAX_FRAME_SIZE - IG_FRAME_HEADER_SIZE"

datatype ig_msg_type = IG_MSG_REGISTER | IG_MSG_HEARTBEAT | IG_MSG_FILE_EVENT

fun msg_type_code :: "ig_msg_type \<Rightarrow> u8" where
  "msg_type_code IG_MSG_REGISTER = 1"
| "msg_type_code IG_MSG_HEARTBEAT = 2"
| "msg_type_code IG_MSG_FILE_EVENT = 3"

definition IG_EVT_CREATE :: u8 where "IG_EVT_CREATE = 1"
definition IG_EVT_MODIFY :: u8 where "IG_EVT_MODIFY = 2"
definition IG_EVT_DELETE :: u8 where "IG_EVT_DELETE = 3"
definition IG_EVT_ATTRIB :: u8 where "IG_EVT_ATTRIB = 4"
definition IG_EVT_MOVE :: u8 where "IG_EVT_MOVE = 5"
definition IG_MON_LKM :: u8 where "IG_MON_LKM = 2"
definition IG_MON_EBPF :: u8 where "IG_MON_EBPF = 3"
definition IG_MON_FANOTIFY :: u8 where "IG_MON_FANOTIFY = 4"
definition IG_STATUS_HEALTHY :: u8 where "IG_STATUS_HEALTHY = 3"

record ig_frame_header =
  fh_length :: u32
  fh_type :: u8
  fh_seq_num :: u32

record ig_msg_register =
  rg_hostname_len :: u16
  rg_hostname :: "string option"
  rg_ip :: u32
  rg_monitor_type :: u8
  rg_os_len :: u16
  rg_os :: "string option"

record ig_msg_heartbeat =
  hb_agent_id :: u64
  hb_status :: u8
  hb_timestamp :: u32

record ig_msg_file_event =
  fe_agent_id :: u64
  fe_event_type :: u8
  fe_file_path_len :: u16
  fe_file_path :: "string option"
  fe_file_name_len :: u16
  fe_file_name :: "string option"
  fe_file_permission :: u16
  fe_detected_by :: u8
  fe_pid :: u32
  fe_timestamp :: u32
  fe_target_dev :: u64
  fe_target_ino :: u64
  fe_blocked :: u8
  fe_uid :: u32
  fe_sid :: u32
  fe_comm_len :: u16
  fe_comm :: "string option"
  fe_chain :: "ig_pid_chain option"

section \<open>Writers\<close>

type_synonym wptr = "nat \<times> bytes"

definition write_bytes :: "bytes \<Rightarrow> wptr \<Rightarrow> wptr cres" where
  "write_bytes bs w =
     (if length bs \<le> fst w then Ok (fst w - length bs, snd w @ bs) else Oob)"

definition write_u8 :: "u8 \<Rightarrow> wptr \<Rightarrow> wptr cres" where
  "write_u8 v w = write_bytes [v] w"

definition write_u16 :: "u16 \<Rightarrow> wptr \<Rightarrow> wptr cres" where
  "write_u16 v w = write_bytes (be16 v) w"

definition write_u32 :: "u32 \<Rightarrow> wptr \<Rightarrow> wptr cres" where
  "write_u32 v w = write_bytes (be32 v) w"

definition write_u64 :: "u64 \<Rightarrow> wptr \<Rightarrow> wptr cres" where
  "write_u64 v w = write_bytes (be64 v) w"

text \<open>
  \<^verbatim>\<open>memcpy(*p, s, len)\<close> reads \<^verbatim>\<open>len\<close> bytes of the object \<^verbatim>\<open>s\<close> points to; a NULL pointer or a
  shorter object is an invalid read.
\<close>

definition mem_read :: "string option \<Rightarrow> nat \<Rightarrow> bytes cres" where
  "mem_read s len = (case s of None \<Rightarrow> Oob
     | Some cs \<Rightarrow> if len \<le> length cs then Ok (map byte_of_char (take len cs)) else Oob)"

definition write_str :: "string option \<Rightarrow> u16 \<Rightarrow> wptr \<Rightarrow> wptr cres" where
  "write_str s len w =
     cbind (write_u16 len w) (\<lambda>w.
     if len > 0 then cbind (mem_read s (unat len)) (\<lambda>bs. write_bytes bs w) else Ok w)"

section \<open>Readers\<close>

definition read_u8 :: "bytes \<Rightarrow> (u8 \<times> bytes) cres" where
  "read_u8 r = (case r of a # r \<Rightarrow> Ok (a, r) | _ \<Rightarrow> Oob)"

definition read_u16 :: "bytes \<Rightarrow> (u16 \<times> bytes) cres" where
  "read_u16 r = (case r of a # b # r \<Rightarrow> Ok (of_be16 a b, r) | _ \<Rightarrow> Oob)"

definition read_u32 :: "bytes \<Rightarrow> (u32 \<times> bytes) cres" where
  "read_u32 r = (case r of a # b # c # d # r \<Rightarrow> Ok (of_be32 a b c d, r) | _ \<Rightarrow> Oob)"

definition read_u64 :: "bytes \<Rightarrow> (u64 \<times> bytes) cres" where
  "read_u64 r = cbind (read_u32 r) (\<lambda>(hi, r). cbind (read_u32 r) (\<lambda>(lo, r). Ok (of_hi_lo hi lo, r)))"

text \<open>
  \<^verbatim>\<open>read_str\<close> yields the pointer (NULL when the length is zero) and the length; it fails
  with -1 when the length field or the content does not fit.  \<^verbatim>\<open>malloc\<close> is taken to succeed.
\<close>

definition read_str :: "bytes \<Rightarrow> ((string option \<times> u16) \<times> bytes) cres" where
  "read_str r =
     (if length r < 2 then Err (-1)
      else cbind (read_u16 r) (\<lambda>(len, r).
        if len = 0 then Ok ((None, 0), r)
        else if length r < unat len then Err (-1)
        else Ok ((Some (map char_of_byte (take (unat len) r)), len), drop (unat len) r)))"

section \<open>Frame header, REGISTER, HEARTBEAT\<close>

definition ig_frame_header_encode :: "ig_frame_header \<Rightarrow> nat \<Rightarrow> bytes cres" where
  "ig_frame_header_encode h room =
     cbind (write_u32 (fh_length h) (room, [])) (\<lambda>w.
     cbind (write_u8 (fh_type h) w) (\<lambda>w.
     cbind (write_u32 (fh_seq_num h) w) (\<lambda>w. Ok (snd w))))"

definition ig_frame_header_decode :: "bytes \<Rightarrow> ig_frame_header cres" where
  "ig_frame_header_decode buf =
     cbind (read_u32 buf) (\<lambda>(len, r).
     cbind (read_u8 r) (\<lambda>(ty, r).
     cbind (read_u32 r) (\<lambda>(sq, r).
     Ok \<lparr>fh_length = len, fh_type = ty, fh_seq_num = sq\<rparr>)))"

definition ig_register_encode :: "ig_msg_register \<Rightarrow> nat \<Rightarrow> bytes cres" where
  "ig_register_encode msg buf_size =
     (let need = 2 + unat (rg_hostname_len msg) + 4 + 1 + 2 + unat (rg_os_len msg) in
      if need > buf_size then Err (-1)
      else
        cbind (write_str (rg_hostname msg) (rg_hostname_len msg) (buf_size, [])) (\<lambda>w.
        cbind (write_u32 (rg_ip msg) w) (\<lambda>w.
        cbind (write_u8 (rg_monitor_type msg) w) (\<lambda>w.
        cbind (write_str (rg_os msg) (rg_os_len msg) w) (\<lambda>w. Ok (snd w))))))"

definition ig_register_decode :: "bytes \<Rightarrow> (ig_msg_register \<times> nat) cres" where
  "ig_register_decode buf =
     cbind (read_str buf) (\<lambda>((hs, hl), r).
     if length r < 5 then Err (-1)
     else
       cbind (read_u32 r) (\<lambda>(i, r).
       cbind (read_u8 r) (\<lambda>(mt, r).
       cbind (read_str r) (\<lambda>((ostr, ol), r).
       Ok (\<lparr>rg_hostname_len = hl, rg_hostname = hs, rg_ip = i, rg_monitor_type = mt,
             rg_os_len = ol, rg_os = ostr\<rparr>, length buf - length r)))))"

definition ig_register_free :: "ig_msg_register \<Rightarrow> ig_msg_register" where
  "ig_register_free msg = msg\<lparr>rg_hostname := None, rg_os := None\<rparr>"

definition ig_heartbeat_encode :: "ig_msg_heartbeat \<Rightarrow> nat \<Rightarrow> bytes cres" where
  "ig_heartbeat_encode msg buf_size =
     (if buf_size < 13 then Err (-1)
      else
        cbind (write_u64 (hb_agent_id msg) (buf_size, [])) (\<lambda>w.
        cbind (write_u8 (hb_status msg) w) (\<lambda>w.
        cbind (write_u32 (hb_timestamp msg) w) (\<lambda>w. Ok (snd w)))))"

definition ig_heartbeat_decode :: "bytes \<Rightarrow> (ig_msg_heartbeat \<times> nat) cres" where
  "ig_heartbeat_decode buf =
     (if length buf < 13 then Err (-1)
      else
        cbind (read_u64 buf) (\<lambda>(a, r).
        cbind (read_u8 r) (\<lambda>(s, r).
        cbind (read_u32 r) (\<lambda>(t, r).
        Ok (\<lparr>hb_agent_id = a, hb_status = s, hb_timestamp = t\<rparr>, 13)))))"

section \<open>FILE_EVENT\<close>

definition chain_entry_need :: "ig_proc_info \<Rightarrow> nat" where
  "chain_entry_need e = 28 + 8 + strnlen (pi_comm e) IG_PA_COMM_LEN
     + strnlen (pi_tty e) IG_PA_TTY_LEN + strnlen (pi_exe e) IG_PA_EXE_LEN
     + strnlen (pi_cmdline e) IG_PA_CMDLINE_LEN"

definition chain_entry_encode :: "ig_proc_info \<Rightarrow> wptr \<Rightarrow> wptr cres" where
  "chain_entry_encode e w =
     (let comm_l = strnlen (pi_comm e) IG_PA_COMM_LEN;
          tty_l = strnlen (pi_tty e) IG_PA_TTY_LEN;
          exe_l = strnlen (pi_exe e) IG_PA_EXE_LEN;
          cmd_l = strnlen (pi_cmdline e) IG_PA_CMDLINE_LEN;
          need = 28 + 8 + comm_l + tty_l + exe_l + cmd_l
      in if fst w < need then Err (-1)
      else
        cbind (write_u32 (pi_pid e) w) (\<lambda>w.
        cbind (write_u32 (pi_ppid e) w) (\<lambda>w.
        cbind (write_u32 (pi_uid e) w) (\<lambda>w.
        cbind (write_u32 (pi_euid e) w) (\<lambda>w.
        cbind (write_u32 (pi_sid e) w) (\<lambda>w.
        cbind (write_u64 (pi_start_time_ns e) w) (\<lambda>w.
        cbind (write_str (Some (pi_comm e)) (of_nat comm_l) w) (\<lambda>w.
        cbind (write_str (Some (pi_tty e)) (of_nat tty_l) w) (\<lambda>w.
        cbind (write_str (Some (pi_exe e)) (of_nat exe_l) w) (\<lambda>w.
        write_str (Some (pi_cmdline e)) (of_nat cmd_l) w))))))))))"

fun chain_encode :: "ig_proc_info list \<Rightarrow> wptr \<Rightarrow> wptr cres" where
  "chain_encode [] w = Ok w"
| "chain_encode (e # es) w = cbind (chain_entry_encode e w) (chain_encode es)"

text \<open>
  \<^verbatim>\<open>depth\<close> and \<^verbatim>\<open>trunc\<close> are \<^verbatim>\<open>uint8_t\<close>; the loop visits the entries below both the written
  depth and the array bound.
\<close>

definition chain_depth_byte :: "ig_pid_chain option \<Rightarrow> u8" where
  "chain_depth_byte co = (case co of None \<Rightarrow> 0
     | Some c \<Rightarrow> word_of_int (if c_depth c > int IG_PA_MAX_DEPTH then int IG_PA_MAX_DEPTH else c_depth c))"

definition chain_trunc_byte :: "ig_pid_chain option \<Rightarrow> u8" where
  "chain_trunc_byte co = (case co of None \<Rightarrow> 0
     | Some c \<Rightarrow> if c_truncated c \<noteq> 0 then 1 else 0)"

definition chain_visited :: "ig_pid_chain option \<Rightarrow> ig_proc_info list" where
  "chain_visited co = (case co of None \<Rightarrow> []
     | Some c \<Rightarrow> take (min (unat (chain_depth_byte co)) IG_PA_MAX_DEPTH) (c_chain c))"

definition file_event_need :: "ig_msg_file_event \<Rightarrow> nat" where
  "file_event_need msg =
     8 + 1 + 2 + unat (fe_file_path_len msg) + 2 + unat (fe_file_name_len msg) + 2 + 1 + 4 + 4
     + (8 + 8 + 1 + 4 + 4 + 2 + unat (fe_comm_len msg)) + (1 + 1)"

definition ig_file_event_encode :: "ig_msg_file_event \<Rightarrow> nat \<Rightarrow> bytes cres" where
  "ig_file_event_encode msg buf_size =
     (if file_event_need msg > buf_size then Err (-1)
      else
        cbind (write_u64 (fe_agent_id msg) (buf_size, [])) (\<lambda>w.
        cbind (write_u8 (fe_event_type msg) w) (\<lambda>w.
        cbind (write_str (fe_file_path msg) (fe_file_path_len msg) w) (\<lambda>w.
        cbind (write_str (fe_file_name msg) (fe_file_name_len msg) w) (\<lambda>w.
        cbind (write_u16 (fe_file_permission msg) w) (\<lambda>w.
        cbind (write_u8 (fe_detected_by msg) w) (\<lambda>w.
        cbind (write_u32 (fe_pid msg) w) (\<lambda>w.
        cbind (write_u32 (fe_timestamp msg) w) (\<lambda>w.
        cbind (write_u64 (fe_target_dev msg) w) (\<lambda>w.
        cbind (write_u64 (fe_target_ino msg) w) (\<lambda>w.
        cbind (write_u8 (fe_blocked msg) w) (\<lambda>w.
        cbind (write_u32 (fe_uid msg) w) (\<lambda>w.
        cbind (write_u32 (fe_sid msg) w) (\<lambda>w.
        cbind (write_str (fe_comm msg) (fe_comm_len msg) w) (\<lambda>w.
        cbind (write_u8 (chain_depth_byte (fe_chain msg)) w) (\<lambda>w.
        cbind (write_u8 (chain_trunc_byte (fe_chain msg)) w) (\<lambda>w.
        cbind (chain_encode (chain_visited (fe_chain msg)) w) (\<lambda>w.
        Ok (snd w)))))))))))))))))))"

definition zero_file_event :: ig_msg_file_event where
  "zero_file_event = \<lparr>fe_agent_id = 0, fe_event_type = 0, fe_file_path_len = 0, fe_file_path = None,
     fe_file_name_len = 0, fe_file_name = None, fe_file_permission = 0, fe_detected_by = 0, fe_pid = 0,
     fe_timestamp = 0, fe_target_dev = 0, fe_target_ino = 0, fe_blocked = 0, fe_uid = 0, fe_sid = 0,
     fe_comm_len = 0, fe_comm = None, fe_chain = None\<rparr>"

text \<open>Every early return frees what was read and returns -1.\<close>

definition ig_file_event_decode :: "bytes \<Rightarrow> (ig_msg_file_event \<times> nat) cres" where
  "ig_file_event_decode buf =
     (if length buf < 24 then Err (-1)
      else
        cbind (read_u64 buf) (\<lambda>(aid, r).
        cbind (read_u8 r) (\<lambda>(et, r).
        cbind (read_str r) (\<lambda>((fp, fpl), r).
        cbind (read_str r) (\<lambda>((fn, fnl), r).
        if length r < 11 then Err (-1)
        else
        cbind (read_u16 r) (\<lambda>(perm, r).
        cbind (read_u8 r) (\<lambda>(det, r).
        cbind (read_u32 r) (\<lambda>(p, r).
        cbind (read_u32 r) (\<lambda>(ts, r).
        if length r < 25 then Err (-1)
        else
        cbind (read_u64 r) (\<lambda>(tdev, r).
        cbind (read_u64 r) (\<lambda>(tino, r).
        cbind (read_u8 r) (\<lambda>(bl, r).
        cbind (read_u32 r) (\<lambda>(ui, r).
        cbind (read_u32 r) (\<lambda>(si, r).
        cbind (read_str r) (\<lambda>((cm, cml), r).
        Ok (\<lparr>fe_agent_id = aid, fe_event_type = et, fe_file_path_len = fpl, fe_file_path = fp,
              fe_file_name_len = fnl, fe_file_name = fn, fe_file_permission = perm, fe_detected_by = det,
              fe_pid = p, fe_timestamp = ts, fe_target_dev = tdev, fe_target_ino = tino, fe_blocked = bl,
              fe_uid = ui, fe_sid = si, fe_comm_len = cml, fe_comm = cm, fe_chain = None\<rparr>,
            length buf - length r))))))))))))))))"

definition ig_file_event_free :: "ig_msg_file_event \<Rightarrow> ig_msg_file_event" where
  "ig_file_event_free msg = msg\<lparr>fe_file_path := None, fe_file_name := None, fe_comm := None\<rparr>"


section \<open>What a writer appends, what a reader consumes\<close>

text \<open>
  \<open>writes f bs\<close>: \<open>f\<close> appends exactly \<open>bs\<close> when they fit and is an invalid write otherwise.
  \<open>reads f bs v\<close>: on \<open>bs\<close> followed by anything, \<open>f\<close> returns \<open>v\<close> and what follows.
  Both are closed under sequencing, so the contract of a message is read off its code.
\<close>

definition writes :: "(wptr \<Rightarrow> wptr cres) \<Rightarrow> bytes \<Rightarrow> bool" where
  "writes f bs \<longleftrightarrow> (\<forall>room out. f (room, out) =
     (if length bs \<le> room then Ok (room - length bs, out @ bs) else Oob))"

definition reads :: "(bytes \<Rightarrow> ('v \<times> bytes) cres) \<Rightarrow> bytes \<Rightarrow> 'v \<Rightarrow> bool" where
  "reads f bs v \<longleftrightarrow> (\<forall>rest. f (bs @ rest) = Ok (v, rest))"

lemma writes_seq:
  assumes "writes f a" and "writes g b"
  shows "writes (\<lambda>w. cbind (f w) g) (a @ b)"
  using assms by (auto simp: writes_def)

lemma writes_Ok: "writes Ok []"
  by (simp add: writes_def)

lemma writes_bytes: "writes (write_bytes bs) bs"
  by (simp add: writes_def write_bytes_def)

lemma writes_u8: "writes (write_u8 v) [v]"
  unfolding write_u8_def by (rule writes_bytes)

lemma writes_u16: "writes (write_u16 v) (be16 v)"
  unfolding write_u16_def by (rule writes_bytes)

lemma writes_u32: "writes (write_u32 v) (be32 v)"
  unfolding write_u32_def by (rule writes_bytes)

lemma writes_u64: "writes (write_u64 v) (be64 v)"
  unfolding write_u64_def by (rule writes_bytes)

definition str_bytes :: "string option \<Rightarrow> u16 \<Rightarrow> bytes" where
  "str_bytes s len = be16 len @ (case s of None \<Rightarrow> []
     | Some cs \<Rightarrow> map byte_of_char (take (unat len) cs))"

text \<open>A \<^verbatim>\<open>char *\<close> with its length field is readable when its object is at least that long.\<close>

definition str_ok :: "string option \<Rightarrow> u16 \<Rightarrow> bool" where
  "str_ok s len \<longleftrightarrow> (case s of None \<Rightarrow> len = 0 | Some cs \<Rightarrow> unat len \<le> length cs)"

lemma length_str_bytes: "str_ok s len \<Longrightarrow> length (str_bytes s len) = 2 + unat len"
  by (auto simp: str_ok_def str_bytes_def split: option.splits)

lemma writes_str: 
  assumes "str_ok s len"
  shows "writes (write_str s len) (str_bytes s len)"
proof (cases "len = 0")
  case True
  then have "str_bytes s len = be16 len @ []"
    by (auto simp: str_bytes_def split: option.splits)
  moreover have "write_str s len = (\<lambda>w. cbind (write_u16 len w) Ok)"
    using True by (simp add: write_str_def fun_eq_iff)
  ultimately show ?thesis
    using writes_seq [OF writes_u16 writes_Ok] by simp
next
  case False
  then obtain cs where s: "s = Some cs" "unat len \<le> length cs"
    using assms by (cases s) (auto simp: str_ok_def)
  with False have "write_str s len =
      (\<lambda>w. cbind (write_u16 len w) (write_bytes (map byte_of_char (take (unat len) cs))))"
    by (simp add: write_str_def fun_eq_iff mem_read_def word_neq_0_conv)
  then show ?thesis
    using writes_seq [OF writes_u16 writes_bytes] s by (simp add: str_bytes_def)
qed

lemmas writes_intros = writes_u8 writes_u16 writes_u32 writes_u64 writes_str writes_Ok

lemma writes_start:
  assumes "writes f bs"
  shows "cbind (f (room, [])) (\<lambda>w. Ok (snd w)) = (if length bs \<le> room then Ok bs else Oob)"
  using assms by (simp add: writes_def)

lemma reads_seq:
  assumes "reads f a v" and "reads (\<lambda>r. g (v, r)) b w"
  shows "reads (\<lambda>r. cbind (f r) g) (a @ b) w"
  using assms by (simp add: reads_def)

lemma reads_u8: "reads read_u8 [v] v"
  by (simp add: reads_def read_u8_def)

lemma reads_u16: "reads read_u16 (be16 v) v"
  by (simp add: reads_def read_u16_def be16_def of_be16_be16)

lemma reads_u32: "reads read_u32 (be32 v) v"
  by (simp add: reads_def read_u32_def be32_def of_be32_be32)

lemma read_u32_be32: "read_u32 (be32 v @ rest) = Ok (v, rest)"
  using reads_u32 by (simp add: reads_def)

lemma reads_u64: "reads read_u64 (be64 v) v"
  by (simp add: reads_def read_u64_def be64_def read_u32_be32 of_hi_lo_halves)

text \<open>\<open>read_str\<close> yields NULL for the empty string.\<close>

definition norm_str :: "string option \<Rightarrow> u16 \<Rightarrow> string option" where
  "norm_str s len = (if len = 0 then None else map_option (take (unat len)) s)"

lemma reads_str:
  assumes "str_ok s len"
  shows "reads read_str (str_bytes s len) (norm_str s len, len)"
proof -
  have 16: "read_u16 (be16 len @ xs) = Ok (len, xs)" for xs
    using reads_u16 by (simp add: reads_def)
  show ?thesis
    using assms
    by (auto simp: reads_def read_str_def str_bytes_def 16 norm_str_def str_ok_def
             split: option.splits)
qed

lemmas reads_intros = reads_u8 reads_u16 reads_u32 reads_u64 reads_str

text \<open>Readers on any input: they run out of the buffer exactly when it is too short.\<close>

lemma read_u8_any [ig_wire]: "read_u8 r = Oob \<longleftrightarrow> length r < 1"
    "read_u8 r \<noteq> Err e" "read_u8 r = Ok (v, r') \<Longrightarrow> length r' = length r - 1"
  by (auto simp: read_u8_def split: list.splits)

lemma read_u16_any [ig_wire]: "read_u16 r = Oob \<longleftrightarrow> length r < 2"
    "read_u16 r \<noteq> Err e" "read_u16 r = Ok (w, r') \<Longrightarrow> length r' = length r - 2"
  by (auto simp: read_u16_def split: list.splits)

lemma read_u32_any [ig_wire]: "read_u32 r = Oob \<longleftrightarrow> length r < 4"
    "read_u32 r \<noteq> Err e" "read_u32 r = Ok (x, r') \<Longrightarrow> length r' = length r - 4"
  by (auto simp: read_u32_def split: list.splits)

lemma read_u64_any [ig_wire]: "read_u64 r = Oob \<longleftrightarrow> length r < 8"
    "read_u64 r \<noteq> Err e" "read_u64 r = Ok (y, r') \<Longrightarrow> length r' = length r - 8"
proof -
  show "read_u64 r = Oob \<longleftrightarrow> length r < 8"
    by (cases "read_u32 r") (auto simp: read_u64_def cbind_Oob_iff ig_wire)
  show "read_u64 r \<noteq> Err e"
    by (auto simp: read_u64_def cbind_Err_iff ig_wire)
  show "read_u64 r = Ok (y, r') \<Longrightarrow> length r' = length r - 8"
    by (auto simp: read_u64_def cbind_Ok_iff dest!: read_u32_any(3))
qed

definition in_bounds :: "'a cres \<Rightarrow> bool" where
  "in_bounds m \<longleftrightarrow> m \<noteq> Oob"

lemma in_bounds_simps [simp]: "in_bounds (Ok x)" "in_bounds (Err e)" "\<not> in_bounds Oob"
  by (simp_all add: in_bounds_def)

lemma read_safe:
  "1 \<le> length r \<Longrightarrow> (\<And>v r'. length r = length r' + 1 \<Longrightarrow> in_bounds (k1 v r')) \<Longrightarrow> in_bounds (cbind (read_u8 r) (\<lambda>(v, r'). k1 v r'))"
  "2 \<le> length r \<Longrightarrow> (\<And>v r'. length r = length r' + 2 \<Longrightarrow> in_bounds (k2 v r')) \<Longrightarrow> in_bounds (cbind (read_u16 r) (\<lambda>(v, r'). k2 v r'))"
  "4 \<le> length r \<Longrightarrow> (\<And>v r'. length r = length r' + 4 \<Longrightarrow> in_bounds (k4 v r')) \<Longrightarrow> in_bounds (cbind (read_u32 r) (\<lambda>(v, r'). k4 v r'))"
  "8 \<le> length r \<Longrightarrow> (\<And>v r'. length r = length r' + 8 \<Longrightarrow> in_bounds (k8 v r')) \<Longrightarrow> in_bounds (cbind (read_u64 r) (\<lambda>(v, r'). k8 v r'))"
  by (auto simp: in_bounds_def cbind_Oob_iff ig_wire
      dest!: read_u8_any(3) read_u16_any(3) read_u32_any(3) read_u64_any(3))

lemma read_str_not_Oob [ig_wire]: "read_str r \<noteq> Oob"
  by (auto simp: read_str_def cbind_Oob_iff ig_wire split: prod.splits if_splits)

lemma read_str_safe:
  "(\<And>x l r'. in_bounds (k x l r')) \<Longrightarrow> in_bounds (cbind (read_str r) (\<lambda>((x, l), r'). k x l r'))"
  by (auto simp: in_bounds_def cbind_Oob_iff ig_wire split: prod.splits)

lemma if_safe: "(c \<Longrightarrow> in_bounds a) \<Longrightarrow> (\<not> c \<Longrightarrow> in_bounds b) \<Longrightarrow> in_bounds (if c then a else b)"
  by simp

lemmas safe_intros = if_safe in_bounds_simps(1,2) read_safe read_str_safe

lemma read_str_length: "read_str r = Ok (x, r') \<Longrightarrow> length r' \<le> length r - 2"
  by (auto simp: read_str_def cbind_Ok_iff split: if_splits dest!: read_u16_any(3))


section \<open>The contracts of the messages\<close>

definition frame_header_bytes :: "ig_frame_header \<Rightarrow> bytes" where
  "frame_header_bytes h = be32 (fh_length h) @ [fh_type h] @ be32 (fh_seq_num h)"

definition register_bytes :: "ig_msg_register \<Rightarrow> bytes" where
  "register_bytes msg = str_bytes (rg_hostname msg) (rg_hostname_len msg) @ be32 (rg_ip msg)
     @ [rg_monitor_type msg] @ str_bytes (rg_os msg) (rg_os_len msg)"

definition heartbeat_bytes :: "ig_msg_heartbeat \<Rightarrow> bytes" where
  "heartbeat_bytes msg = be64 (hb_agent_id msg) @ [hb_status msg] @ be32 (hb_timestamp msg)"

definition chain_entry_bytes :: "ig_proc_info \<Rightarrow> bytes" where
  "chain_entry_bytes e = be32 (pi_pid e) @ be32 (pi_ppid e) @ be32 (pi_uid e) @ be32 (pi_euid e)
     @ be32 (pi_sid e) @ be64 (pi_start_time_ns e)
     @ str_bytes (Some (pi_comm e)) (of_nat (strnlen (pi_comm e) IG_PA_COMM_LEN))
     @ str_bytes (Some (pi_tty e)) (of_nat (strnlen (pi_tty e) IG_PA_TTY_LEN))
     @ str_bytes (Some (pi_exe e)) (of_nat (strnlen (pi_exe e) IG_PA_EXE_LEN))
     @ str_bytes (Some (pi_cmdline e)) (of_nat (strnlen (pi_cmdline e) IG_PA_CMDLINE_LEN))"

definition file_event_base_bytes :: "ig_msg_file_event \<Rightarrow> bytes" where
  "file_event_base_bytes msg = be64 (fe_agent_id msg) @ [fe_event_type msg]
     @ str_bytes (fe_file_path msg) (fe_file_path_len msg)
     @ str_bytes (fe_file_name msg) (fe_file_name_len msg)
     @ be16 (fe_file_permission msg) @ [fe_detected_by msg] @ be32 (fe_pid msg)
     @ be32 (fe_timestamp msg) @ be64 (fe_target_dev msg) @ be64 (fe_target_ino msg)
     @ [fe_blocked msg] @ be32 (fe_uid msg) @ be32 (fe_sid msg)
     @ str_bytes (fe_comm msg) (fe_comm_len msg)"

definition file_event_bytes :: "ig_msg_file_event \<Rightarrow> bytes" where
  "file_event_bytes msg = file_event_base_bytes msg
     @ [chain_depth_byte (fe_chain msg), chain_trunc_byte (fe_chain msg)]
     @ concat (map chain_entry_bytes (chain_visited (fe_chain msg)))"

definition register_ok :: "ig_msg_register \<Rightarrow> bool" where
  "register_ok msg \<longleftrightarrow> str_ok (rg_hostname msg) (rg_hostname_len msg) \<and> str_ok (rg_os msg) (rg_os_len msg)"

definition file_event_ok :: "ig_msg_file_event \<Rightarrow> bool" where
  "file_event_ok msg \<longleftrightarrow> str_ok (fe_file_path msg) (fe_file_path_len msg)
     \<and> str_ok (fe_file_name msg) (fe_file_name_len msg) \<and> str_ok (fe_comm msg) (fe_comm_len msg)"

lemma writes_step:
  "writes f bs \<Longrightarrow> length bs \<le> room \<Longrightarrow> cbind (f (room, out)) k = k (room - length bs, out @ bs)"
  by (simp add: writes_def)

lemma reads_step: "reads f bs v \<Longrightarrow> cbind (f (bs @ rest)) k = k (v, rest)"
  by (simp add: reads_def)

lemma reads_u8_step: "cbind (read_u8 (v # rest)) k = k (v, rest)"
  by (simp add: read_u8_def)

lemmas read_steps = reads_step [OF reads_u16] reads_step [OF reads_u32] reads_step [OF reads_u64]
  reads_step [OF reads_str] reads_u8_step

lemma frame_header_encode_eq:
  "9 \<le> room \<Longrightarrow> ig_frame_header_encode h room = Ok (frame_header_bytes h)"
  by (simp add: ig_frame_header_encode_def frame_header_bytes_def
      writes_step [OF writes_u32] writes_step [OF writes_u8])

lemma frame_header_decode_eq:
  "ig_frame_header_decode (frame_header_bytes h @ rest) = Ok h"
  by (simp add: ig_frame_header_decode_def frame_header_bytes_def read_steps)

lemma length_register_bytes:
  "register_ok msg \<Longrightarrow> length (register_bytes msg) = 9 + unat (rg_hostname_len msg) + unat (rg_os_len msg)"
  by (simp add: register_bytes_def register_ok_def length_str_bytes)

lemma register_encode_eq:
  assumes "register_ok msg"
  shows "ig_register_encode msg n =
    (if length (register_bytes msg) \<le> n then Ok (register_bytes msg) else Err (-1))"
  using assms
  by (auto simp: ig_register_encode_def length_register_bytes register_ok_def Let_def
      register_bytes_def length_str_bytes writes_step [OF writes_str] writes_step [OF writes_u32]
      writes_step [OF writes_u8])

lemma heartbeat_encode_eq:
  "ig_heartbeat_encode msg n = (if 13 \<le> n then Ok (heartbeat_bytes msg) else Err (-1))"
  by (simp add: ig_heartbeat_encode_def heartbeat_bytes_def
      writes_step [OF writes_u64] writes_step [OF writes_u32] writes_step [OF writes_u8])

lemma unat_strnlen [simp]: "n < 65536 \<Longrightarrow> unat (of_nat (strnlen s n) :: u16) = strnlen s n"
  using strnlen_le [of s n] by (simp add: unat_of_nat take_bit_eq_mod)

lemma str_ok_strnlen: "n < 65536 \<Longrightarrow> str_ok (Some s) (of_nat (strnlen s n))"
  by (simp add: str_ok_def strnlen_le_length)

lemmas str_ok_pa = 
  str_ok_strnlen [of IG_PA_COMM_LEN] str_ok_strnlen [of IG_PA_TTY_LEN]
  str_ok_strnlen [of IG_PA_EXE_LEN] str_ok_strnlen [of IG_PA_CMDLINE_LEN]

lemma pa_len_small [simp]:
  "IG_PA_COMM_LEN < 65536" "IG_PA_TTY_LEN < 65536" "IG_PA_EXE_LEN < 65536" "IG_PA_CMDLINE_LEN < 65536"
  by (simp_all add: pa_lens)

lemma length_chain_entry_bytes: "length (chain_entry_bytes e) = chain_entry_need e"
  by (simp add: chain_entry_bytes_def chain_entry_need_def length_str_bytes str_ok_pa)

lemma chain_entry_encode_eq:
  "chain_entry_encode e (room, out) =
     (if length (chain_entry_bytes e) \<le> room
      then Ok (room - length (chain_entry_bytes e), out @ chain_entry_bytes e) else Err (-1))"
proof (cases "chain_entry_need e \<le> room")
  case True
  have "writes (\<lambda>w.
        cbind (write_u32 (pi_pid e) w) (\<lambda>w.
        cbind (write_u32 (pi_ppid e) w) (\<lambda>w.
        cbind (write_u32 (pi_uid e) w) (\<lambda>w.
        cbind (write_u32 (pi_euid e) w) (\<lambda>w.
        cbind (write_u32 (pi_sid e) w) (\<lambda>w.
        cbind (write_u64 (pi_start_time_ns e) w) (\<lambda>w.
        cbind (write_str (Some (pi_comm e)) (of_nat (strnlen (pi_comm e) IG_PA_COMM_LEN)) w) (\<lambda>w.
        cbind (write_str (Some (pi_tty e)) (of_nat (strnlen (pi_tty e) IG_PA_TTY_LEN)) w) (\<lambda>w.
        cbind (write_str (Some (pi_exe e)) (of_nat (strnlen (pi_exe e) IG_PA_EXE_LEN)) w) (\<lambda>w.
        write_str (Some (pi_cmdline e)) (of_nat (strnlen (pi_cmdline e) IG_PA_CMDLINE_LEN)) w))))))))))
      (chain_entry_bytes e)"
    unfolding chain_entry_bytes_def by (intro writes_seq writes_intros str_ok_pa pa_len_small)
  with True show ?thesis
    by (simp add: chain_entry_encode_def writes_def length_chain_entry_bytes Let_def
        chain_entry_need_def)
next
  case False
  then show ?thesis
    by (simp add: chain_entry_encode_def length_chain_entry_bytes Let_def chain_entry_need_def)
qed

lemma chain_encode_eq:
  "chain_encode es (room, out) =
     (let bs = concat (map chain_entry_bytes es)
      in if length bs \<le> room then Ok (room - length bs, out @ bs) else Err (-1))"
  by (induction es arbitrary: room out) (auto simp: chain_entry_encode_eq Let_def)

lemma length_file_event_base:
  "file_event_ok msg \<Longrightarrow> length (file_event_base_bytes msg) + 2 = file_event_need msg"
  by (simp add: file_event_base_bytes_def file_event_need_def file_event_ok_def length_str_bytes)


lemma file_event_base_writes:
  assumes "file_event_ok msg" and "file_event_need msg \<le> n"
  shows "ig_file_event_encode msg n =
    cbind (chain_encode (chain_visited (fe_chain msg))
       (n - file_event_need msg, file_event_base_bytes msg
          @ [chain_depth_byte (fe_chain msg), chain_trunc_byte (fe_chain msg)]))
     (\<lambda>w. Ok (snd w))"
  using assms
  by (simp add: ig_file_event_encode_def file_event_need_def file_event_ok_def length_str_bytes
      writes_step [OF writes_str] writes_step [OF writes_u64]
      writes_step [OF writes_u32] writes_step [OF writes_u16] writes_step [OF writes_u8])
     (simp add: file_event_base_bytes_def length_str_bytes)

lemma length_file_event_bytes:
  "file_event_ok msg \<Longrightarrow> length (file_event_bytes msg) = file_event_need msg
     + length (concat (map chain_entry_bytes (chain_visited (fe_chain msg))))"
  using length_file_event_base [of msg] by (simp add: file_event_bytes_def)

lemma file_event_encode_eq:
  assumes "file_event_ok msg"
  shows "ig_file_event_encode msg n =
    (if length (file_event_bytes msg) \<le> n then Ok (file_event_bytes msg) else Err (-1))"
proof (cases "file_event_need msg \<le> n")
  case True
  then show ?thesis
    using length_file_event_bytes [OF assms]
    by (auto simp: file_event_base_writes [OF assms] chain_encode_eq Let_def file_event_bytes_def)
next
  case False
  then show ?thesis
    using length_file_event_bytes [OF assms] by (simp add: ig_file_event_encode_def)
qed

text \<open>The message a decoder returns for an encoded one: NULL for empty strings, no chain.\<close>

definition norm_register :: "ig_msg_register \<Rightarrow> ig_msg_register" where
  "norm_register msg = msg\<lparr>rg_hostname := norm_str (rg_hostname msg) (rg_hostname_len msg),
     rg_os := norm_str (rg_os msg) (rg_os_len msg)\<rparr>"

definition norm_file_event :: "ig_msg_file_event \<Rightarrow> ig_msg_file_event" where
  "norm_file_event msg = msg\<lparr>fe_file_path := norm_str (fe_file_path msg) (fe_file_path_len msg),
     fe_file_name := norm_str (fe_file_name msg) (fe_file_name_len msg),
     fe_comm := norm_str (fe_comm msg) (fe_comm_len msg), fe_chain := None\<rparr>"

lemma register_decode_eq:
  "register_ok msg \<Longrightarrow> ig_register_decode (register_bytes msg @ rest) =
     Ok (norm_register msg, length (register_bytes msg))"
  by (simp add: ig_register_decode_def register_bytes_def register_ok_def read_steps
      norm_register_def length_str_bytes)

lemma heartbeat_decode_eq:
  "ig_heartbeat_decode (heartbeat_bytes msg @ rest) = Ok (msg, 13)"
  by (simp add: ig_heartbeat_decode_def heartbeat_bytes_def read_steps)

lemma file_event_decode_eq:
  "file_event_ok msg \<Longrightarrow> ig_file_event_decode (file_event_base_bytes msg @ rest) =
     Ok (norm_file_event msg, length (file_event_base_bytes msg))"
  by (simp add: ig_file_event_decode_def file_event_base_bytes_def file_event_ok_def read_steps
      norm_file_event_def length_str_bytes)

section \<open>Properties\<close>

text \<open>C19. The FILE_EVENT encoder implements the wire format: for a message whose strings are
  readable, it fills the buffer with exactly the bytes of the format, chain entries included,
  when they fit, returns -1 when they do not, and never writes past the end of the buffer.\<close>

theorem ig_file_event_encode_wire:
  assumes "file_event_ok msg"
  shows "ig_file_event_encode msg n =
    (if length (file_event_bytes msg) \<le> n then Ok (file_event_bytes msg) else Err (-1))"
  using assms by (rule file_event_encode_eq)

definition sample_entry :: ig_proc_info where
  "sample_entry = zero_proc_info\<lparr>pi_pid := 7, pi_ppid := 1, pi_comm := ''sh'', pi_exe := ''/bin/sh''\<rparr>"

definition sample_event :: ig_msg_file_event where
  "sample_event = zero_file_event\<lparr>fe_agent_id := 5, fe_event_type := 3, fe_file_path_len := 4,
     fe_file_path := Some ''/etc'', fe_pid := 7, fe_comm_len := 2, fe_comm := Some ''sh'',
     fe_chain := Some (zero_chain\<lparr>c_depth := 1, c_chain := (c_chain zero_chain)[0 := sample_entry]\<rparr>)\<rparr>"

lemma sample_event_ok: "file_event_ok sample_event"
  by (simp add: file_event_ok_def str_ok_def sample_event_def zero_file_event_def)

theorem ig_file_event_encode_wire_witness:
  "ig_file_event_encode sample_event 200 =
    (if length (file_event_bytes sample_event) \<le> 200 then Ok (file_event_bytes sample_event) else Err (-1))
   \<and> ig_file_event_encode sample_event 20 =
    (if length (file_event_bytes sample_event) \<le> 20 then Ok (file_event_bytes sample_event) else Err (-1))"
  using ig_file_event_encode_wire [OF sample_event_ok] by blast

text \<open>Encoding a FILE_EVENT and decoding it with the agent's own decoder gives the message
  back (empty strings as NULL, the chain left undecoded), whatever the buffer size was.\<close>

theorem ig_file_event_roundtrip:
  assumes "file_event_ok msg" and "ig_file_event_encode msg n = Ok bs"
  shows "\<exists>used. ig_file_event_decode bs = Ok (norm_file_event msg, used) \<and> used \<le> length bs"
proof -
  have "bs = file_event_bytes msg"
    using assms by (simp add: file_event_encode_eq split: if_splits)
  then show ?thesis
    using file_event_decode_eq [OF assms(1)] by (simp add: file_event_bytes_def)
qed

theorem ig_file_event_roundtrip_witness:
  "\<exists>used. ig_file_event_decode (file_event_bytes sample_event)
      = Ok (norm_file_event sample_event, used) \<and> used \<le> length (file_event_bytes sample_event)"
  by (rule ig_file_event_roundtrip [OF sample_event_ok,
        where n = "length (file_event_bytes sample_event)"])
     (simp add: file_event_encode_eq [OF sample_event_ok])


text \<open>REGISTER, HEARTBEAT and the frame header survive the trip over the wire.\<close>

theorem ig_control_roundtrip:
  assumes "register_ok rm" and "ig_register_encode rm n = Ok bs"
  shows "ig_register_decode bs = Ok (norm_register rm, length bs)
    \<and> ig_heartbeat_decode (heartbeat_bytes hm) = Ok (hm, 13)
    \<and> ig_heartbeat_encode hm 13 = Ok (heartbeat_bytes hm)
    \<and> cbind (ig_frame_header_encode h IG_FRAME_HEADER_SIZE) ig_frame_header_decode = Ok h"
proof -
  have "bs = register_bytes rm"
    using assms by (simp add: register_encode_eq split: if_splits)
  then show ?thesis
    using register_decode_eq [OF assms(1), of "[]"] heartbeat_decode_eq [of hm "[]"]
      frame_header_decode_eq [of h "[]"]
    by (simp add: heartbeat_encode_eq frame_header_encode_eq IG_FRAME_HEADER_SIZE_def)
qed

definition sample_register :: ig_msg_register where
  "sample_register = \<lparr>rg_hostname_len = 3, rg_hostname = Some ''plc'', rg_ip = 0x0A000001,
     rg_monitor_type = IG_MON_LKM, rg_os_len = 5, rg_os = Some ''Linux''\<rparr>"

theorem ig_control_roundtrip_witness:
  "ig_register_decode (register_bytes sample_register)
     = Ok (norm_register sample_register, length (register_bytes sample_register))"
  using ig_control_roundtrip [of sample_register "length (register_bytes sample_register)"
     "register_bytes sample_register"]
  by (simp add: register_ok_def str_ok_def sample_register_def register_encode_eq)

end
