(* ===== verification/Collector.thy ===== *)
theory Collector
  imports Protocol
begin

text \<open>
  The receiving side of the wire format: the frame decoders of the central server,
  \<^verbatim>\<open>Backend/internal/collector/protocol.go\<close>.  A \<^verbatim>\<open>binReader\<close> is the list of the bytes after
  its position; a Go error is a value of \<open>go_error\<close>.  The theorems say that what the agent
  encodes is what the collector stores.
\<close>

section \<open>The reader\<close>

datatype go_error = ShortBuffer | TooSmall nat | DepthExceeded nat | TrailingBytes nat | FrameTooLarge nat

definition FrameHeaderSize :: nat where "FrameHeaderSize = 9"
definition MaxFrameSize :: nat where "MaxFrameSize = 65535"
definition MaxProcessChainDepth :: nat where "MaxProcessChainDepth = 16"

fun gbind :: "go_error + 'a \<Rightarrow> ('a \<Rightarrow> go_error + 'b) \<Rightarrow> go_error + 'b" where
  "gbind (Inl e) f = Inl e"
| "gbind (Inr x) f = f x"

definition readU8 :: "bytes \<Rightarrow> go_error + (u8 \<times> bytes)" where
  "readU8 r = (if length r < 1 then Inl ShortBuffer else Inr (r ! 0, drop 1 r))"

definition readU16 :: "bytes \<Rightarrow> go_error + (u16 \<times> bytes)" where
  "readU16 r = (if length r < 2 then Inl ShortBuffer
     else Inr (of_be16 (r ! 0) (r ! 1), drop 2 r))"

definition readU32 :: "bytes \<Rightarrow> go_error + (u32 \<times> bytes)" where
  "readU32 r = (if length r < 4 then Inl ShortBuffer
     else Inr (of_be32 (r ! 0) (r ! 1) (r ! 2) (r ! 3), drop 4 r))"

definition readU64 :: "bytes \<Rightarrow> go_error + (u64 \<times> bytes)" where
  "readU64 r = (if length r < 8 then Inl ShortBuffer
     else Inr (of_hi_lo (of_be32 (r ! 0) (r ! 1) (r ! 2) (r ! 3))
                        (of_be32 (r ! 4) (r ! 5) (r ! 6) (r ! 7)), drop 8 r))"

definition readStr :: "bytes \<Rightarrow> go_error + (string \<times> bytes)" where
  "readStr r = gbind (readU16 r) (\<lambda>(len, r).
     if length r < unat len then Inl ShortBuffer
     else Inr (map char_of_byte (take (unat len) r), drop (unat len) r))"

section \<open>Frames\<close>

text \<open>\<^verbatim>\<open>io.ReadFull\<close> takes the bytes it wants from the stream or fails; \<^verbatim>\<open>WriteFrame\<close> is what a
  stream that does not fail receives.\<close>

record FrameHeader =
  Length :: u32
  Type :: u8
  SeqNum :: u32

definition ReadFull :: "nat \<Rightarrow> bytes \<Rightarrow> go_error + (bytes \<times> bytes)" where
  "ReadFull n s = (if length s < n then Inl ShortBuffer else Inr (take n s, drop n s))"

definition ReadFrame :: "bytes \<Rightarrow> go_error + ((FrameHeader \<times> bytes) \<times> bytes)" where
  "ReadFrame s = gbind (ReadFull FrameHeaderSize s) (\<lambda>(hdrBuf, s).
     let hdr = \<lparr>Length = of_be32 (hdrBuf ! 0) (hdrBuf ! 1) (hdrBuf ! 2) (hdrBuf ! 3), Type = hdrBuf ! 4,
           SeqNum = of_be32 (hdrBuf ! 5) (hdrBuf ! 6) (hdrBuf ! 7) (hdrBuf ! 8)\<rparr>
     in if unat (Length hdr) > MaxFrameSize then Inl (FrameTooLarge (unat (Length hdr)))
        else if Length hdr > 0 then gbind (ReadFull (unat (Length hdr)) s) (\<lambda>(payload, s). Inr ((hdr, payload), s))
        else Inr ((hdr, []), s))"

definition WriteFrame :: "u8 \<Rightarrow> u32 \<Rightarrow> bytes \<Rightarrow> bytes" where
  "WriteFrame msgType seqNum payload = be32 (of_nat (length payload)) @ [msgType] @ be32 seqNum @ payload"

section \<open>Messages and decoders\<close>

record ProcessInfoMsg =
  p_pid :: u32
  p_ppid :: u32
  p_uid :: u32
  p_euid :: u32
  p_sid :: u32
  p_start :: u64
  p_comm :: string
  p_tty :: string
  p_exe :: string
  p_cmdline :: string

record FileEventMsg =
  AgentID :: u64
  EventType :: u8
  FilePath :: string
  FileName :: string
  FilePermission :: u16
  DetectedBy :: u8
  Pid :: u32
  Timestamp :: u32
  TargetDev :: u64
  TargetIno :: u64
  Blocked :: bool
  UID :: u32
  SID :: u32
  Comm :: string
  ChainDepth :: u8
  ChainTruncated :: bool
  ChainEntries :: "ProcessInfoMsg list"

definition decodeProcessInfo :: "bytes \<Rightarrow> go_error + (ProcessInfoMsg \<times> bytes)" where
  "decodeProcessInfo r =
     gbind (readU32 r) (\<lambda>(pid, r).
     gbind (readU32 r) (\<lambda>(ppid, r).
     gbind (readU32 r) (\<lambda>(uid, r).
     gbind (readU32 r) (\<lambda>(euid, r).
     gbind (readU32 r) (\<lambda>(sid, r).
     gbind (readU64 r) (\<lambda>(start, r).
     gbind (readStr r) (\<lambda>(comm, r).
     gbind (readStr r) (\<lambda>(tty, r).
     gbind (readStr r) (\<lambda>(exe, r).
     gbind (readStr r) (\<lambda>(cmdline, r).
     Inr (\<lparr>p_pid = pid, p_ppid = ppid, p_uid = uid, p_euid = euid, p_sid = sid,
           p_start = start, p_comm = comm, p_tty = tty, p_exe = exe, p_cmdline = cmdline\<rparr>, r)))))))))))"

fun decodeChain :: "nat \<Rightarrow> bytes \<Rightarrow> go_error + (ProcessInfoMsg list \<times> bytes)" where
  "decodeChain 0 r = Inr ([], r)"
| "decodeChain (Suc n) r =
     gbind (decodeProcessInfo r) (\<lambda>(e, r). gbind (decodeChain n r) (\<lambda>(es, r). Inr (e # es, r)))"

definition DecodeFileEvent :: "bytes \<Rightarrow> go_error + FileEventMsg" where
  "DecodeFileEvent data =
     (if length data < 24 then Inl (TooSmall (length data))
      else
     gbind (readU64 data) (\<lambda>(aid, r).
     gbind (readU8 r) (\<lambda>(et, r).
     gbind (readStr r) (\<lambda>(fp, r).
     gbind (readStr r) (\<lambda>(fn, r).
     gbind (readU16 r) (\<lambda>(perm, r).
     gbind (readU8 r) (\<lambda>(det, r).
     gbind (readU32 r) (\<lambda>(pid, r).
     gbind (readU32 r) (\<lambda>(ts, r).
     gbind (readU64 r) (\<lambda>(tdev, r).
     gbind (readU64 r) (\<lambda>(tino, r).
     gbind (readU8 r) (\<lambda>(bl, r).
     gbind (readU32 r) (\<lambda>(uid, r).
     gbind (readU32 r) (\<lambda>(sid, r).
     gbind (readStr r) (\<lambda>(comm, r).
     gbind (readU8 r) (\<lambda>(depth, r).
     if unat depth > MaxProcessChainDepth then Inl (DepthExceeded (unat depth))
     else
     gbind (readU8 r) (\<lambda>(trunc, r).
     gbind (decodeChain (unat depth) r) (\<lambda>(es, r).
     if r \<noteq> [] then Inl (TrailingBytes (length r))
     else Inr \<lparr>AgentID = aid, EventType = et, FilePath = fp, FileName = fn,
       FilePermission = perm, DetectedBy = det, Pid = pid, Timestamp = ts, TargetDev = tdev,
       TargetIno = tino, Blocked = (bl \<noteq> 0), UID = uid, SID = sid, Comm = comm,
       ChainDepth = depth, ChainTruncated = (trunc \<noteq> 0), ChainEntries = es\<rparr>))))))))))))))))))"

definition DecodeRegister :: "bytes \<Rightarrow> go_error + (string \<times> u32 \<times> u8 \<times> string)" where
  "DecodeRegister data =
     gbind (readStr data) (\<lambda>(hn, r).
     gbind (readU32 r) (\<lambda>(ipRaw, r).
     gbind (readU8 r) (\<lambda>(mt, r).
     gbind (readStr r) (\<lambda>(osn, r). Inr (hn, ipRaw, mt, osn)))))"

definition DecodeHeartbeat :: "bytes \<Rightarrow> go_error + (u64 \<times> u8 \<times> u32)" where
  "DecodeHeartbeat data = (if length data < 13 then Inl (TooSmall (length data))
     else gbind (readU64 data) (\<lambda>(agentID, r). gbind (readU8 r) (\<lambda>(status, r). gbind (readU32 r) (\<lambda>(timestamp, r).
       Inr (agentID, status, timestamp)))))"

definition EncodeRegisterResp :: "u64 \<Rightarrow> bytes" where
  "EncodeRegisterResp agentID = be64 agentID"

section \<open>The reader on what the agent writes\<close>

lemma readU8_step: "gbind (readU8 (v # rest)) k = k (v, rest)"
  by (simp add: readU8_def)

lemma readU16_step: "gbind (readU16 (be16 v @ rest)) k = k (v, rest)"
  by (simp add: readU16_def be16_def of_be16_be16)

lemma readU32_step: "gbind (readU32 (be32 v @ rest)) k = k (v, rest)"
  by (simp add: readU32_def be32_def of_be32_be32 numeral_3_eq_3 numeral_2_eq_2)

lemma nth_be32_append:
  "(be32 v @ xs) ! 0 = ucast (drop_bit 24 v)" "(be32 v @ xs) ! 1 = ucast (drop_bit 16 v)"
  "(be32 v @ xs) ! 2 = ucast (drop_bit 8 v)" "(be32 v @ xs) ! 3 = ucast v"
  "(be32 v @ xs) ! 4 = xs ! 0" "(be32 v @ xs) ! 5 = xs ! 1"
  "(be32 v @ xs) ! 6 = xs ! 2" "(be32 v @ xs) ! 7 = xs ! 3"
  by (simp_all add: be32_def)

lemma readU64_step: "gbind (readU64 (be64 v @ rest)) k = k (v, rest)"
  by (simp only: readU64_def be64_def append_assoc nth_be32_append of_be32_be32
      of_hi_lo_halves) simp

definition str_view :: "string option \<Rightarrow> u16 \<Rightarrow> string" where
  "str_view s len = (case s of None \<Rightarrow> [] | Some cs \<Rightarrow> take (unat len) cs)"

lemma readStr_step:
  "str_ok s len \<Longrightarrow> gbind (readStr (str_bytes s len @ rest)) k = k (str_view s len, rest)"
  by (auto simp: readStr_def str_bytes_def readU16_step str_ok_def str_view_def
      split: option.splits)

lemmas go_steps = readU8_step readU16_step readU32_step readU64_step readStr_step

text \<open>What the collector is meant to store for a process and for an event.\<close>

lemma ReadFrame_step:
  assumes "length payload \<le> MaxFrameSize"
  shows "ReadFrame (WriteFrame ty seq payload @ rest)
    = Inr ((\<lparr>Length = of_nat (length payload), Type = ty, SeqNum = seq\<rparr>, payload), rest)"
proof -
  have len: "unat (of_nat (length payload) :: u32) = length payload"
    using assms by (simp add: unat_of_nat take_bit_nat_eq_self MaxFrameSize_def)
  then have pos: "(0 :: u32) < of_nat (length payload) \<longleftrightarrow> payload \<noteq> []"
    by (metis length_greater_0_conv unat_0 word_less_nat_alt)
  have hd: "ReadFull FrameHeaderSize (WriteFrame ty seq payload @ rest)
      = Inr (be32 (of_nat (length payload)) @ [ty] @ be32 seq, payload @ rest)"
    by (simp add: ReadFull_def FrameHeaderSize_def WriteFrame_def)
  have zero: "of_be32 0 0 0 0 = 0" by (simp add: of_be32_def)
  show ?thesis
    using assms unfolding ReadFrame_def hd
    by (simp add: Let_def be32_def of_be32_be32 len pos ReadFull_def zero)
qed

definition process_view :: "ig_proc_info \<Rightarrow> ProcessInfoMsg" where
  "process_view e = \<lparr>p_pid = pi_pid e, p_ppid = pi_ppid e, p_uid = pi_uid e, p_euid = pi_euid e,
     p_sid = pi_sid e, p_start = pi_start_time_ns e,
     p_comm = cstr (take IG_PA_COMM_LEN (pi_comm e)), p_tty = cstr (take IG_PA_TTY_LEN (pi_tty e)),
     p_exe = cstr (take IG_PA_EXE_LEN (pi_exe e)),
     p_cmdline = cstr (take IG_PA_CMDLINE_LEN (pi_cmdline e))\<rparr>"

definition event_view :: "ig_msg_file_event \<Rightarrow> FileEventMsg" where
  "event_view msg = \<lparr>AgentID = fe_agent_id msg, EventType = fe_event_type msg,
     FilePath = str_view (fe_file_path msg) (fe_file_path_len msg),
     FileName = str_view (fe_file_name msg) (fe_file_name_len msg),
     FilePermission = fe_file_permission msg, DetectedBy = fe_detected_by msg,
     Pid = fe_pid msg, Timestamp = fe_timestamp msg, TargetDev = fe_target_dev msg,
     TargetIno = fe_target_ino msg, Blocked = (fe_blocked msg \<noteq> 0), UID = fe_uid msg,
     SID = fe_sid msg, Comm = str_view (fe_comm msg) (fe_comm_len msg),
     ChainDepth = chain_depth_byte (fe_chain msg),
     ChainTruncated = (chain_trunc_byte (fe_chain msg) \<noteq> 0),
     ChainEntries = map process_view (chain_visited (fe_chain msg))\<rparr>"

lemma take_strnlen: "take (strnlen s n) s = cstr (take n s)"
proof -
  have "take (strnlen s n) (take n s) = cstr (take n s)"
    unfolding strnlen_def cstr_def by (metis takeWhile_eq_take)
  then show ?thesis by (simp add: min_absorb1 strnlen_le)
qed

lemma str_view_strnlen:
  "n < 65536 \<Longrightarrow> str_view (Some s) (of_nat (strnlen s n)) = cstr (take n s)"
  by (simp add: str_view_def take_strnlen)

lemma decodeProcessInfo_step:
  "decodeProcessInfo (chain_entry_bytes e @ rest) = Inr (process_view e, rest)"
  by (simp add: decodeProcessInfo_def chain_entry_bytes_def go_steps str_ok_pa str_view_strnlen
      process_view_def)

lemma decodeChain_step:
  "decodeChain (length es) (concat (map chain_entry_bytes es) @ rest) = Inr (map process_view es, rest)"
  by (induction es) (simp_all add: decodeProcessInfo_step)

lemma decodeChain_all:
  "n = length es \<Longrightarrow> decodeChain n (concat (map chain_entry_bytes es)) = Inr (map process_view es, [])"
  using decodeChain_step [of es "[]"] by simp

section \<open>Properties\<close>

definition chain_shape :: "ig_pid_chain option \<Rightarrow> bool" where
  "chain_shape co \<longleftrightarrow> (case co of None \<Rightarrow> True
     | Some c \<Rightarrow> 0 \<le> c_depth c \<and> length (c_chain c) = IG_PA_MAX_DEPTH)"

lemma chain_depth_byte_bound:
  "chain_shape co \<Longrightarrow> unat (chain_depth_byte co) \<le> IG_PA_MAX_DEPTH
     \<and> length (chain_visited co) = unat (chain_depth_byte co)"
proof (cases co)
  case None
  then show ?thesis by (simp add: chain_depth_byte_def chain_visited_def)
next
  case (Some c)
  assume "chain_shape co"
  with Some have c: "0 \<le> c_depth c" "length (c_chain c) = 16" by (auto simp: chain_shape_def pa_lens)
  define d where "d = (if c_depth c > 16 then 16 else c_depth c)"
  have d: "0 \<le> d" "d \<le> 16" using c by (auto simp: d_def)
  then have "unat (word_of_int d :: u8) = nat d"
    by (simp add: unat_eq_nat_uint uint_word_of_int)
  moreover have "chain_depth_byte co = word_of_int d"
    by (simp add: chain_depth_byte_def Some d_def pa_lens)
  ultimately show ?thesis
    using d c by (simp add: chain_visited_def Some pa_lens)
qed

lemma decode_file_event_bytes:
  assumes "file_event_ok msg" and "chain_shape (fe_chain msg)"
  shows "DecodeFileEvent (file_event_bytes msg) = Inr (event_view msg)"
proof -
  have long: "24 \<le> length (file_event_bytes msg)"
    using length_file_event_bytes [OF assms(1)] by (simp add: file_event_need_def)
  note depth = chain_depth_byte_bound [OF assms(2)]
  have fe: "str_ok (fe_file_path msg) (fe_file_path_len msg)"
    "str_ok (fe_file_name msg) (fe_file_name_len msg)" "str_ok (fe_comm msg) (fe_comm_len msg)"
    using assms(1) by (simp_all add: file_event_ok_def)
  have all: "decodeChain (unat (chain_depth_byte (fe_chain msg)))
      (concat (map chain_entry_bytes (chain_visited (fe_chain msg))))
      = Inr (map process_view (chain_visited (fe_chain msg)), [])"
    by (rule decodeChain_all) (use depth in simp)
  have le: "\<not> MaxProcessChainDepth < unat (chain_depth_byte (fe_chain msg))"
    using depth by (simp add: MaxProcessChainDepth_def pa_lens)
  show ?thesis
    using long le fe
    by (simp add: DecodeFileEvent_def file_event_bytes_def file_event_base_bytes_def go_steps
        all event_view_def)
qed

text \<open>End to end: every FILE_EVENT the agent encodes is accepted by the collector, which
  decodes it to the same event, process chain included, with no byte left over.\<close>

theorem collector_decodes_agent_event:
  assumes "file_event_ok msg" and "chain_shape (fe_chain msg)"
    and "ig_file_event_encode msg n = Ok bs"
  shows "DecodeFileEvent bs = Inr (event_view msg)"
  using decode_file_event_bytes [OF assms(1,2)] assms(3)
  by (simp add: file_event_encode_eq [OF assms(1)] split: if_splits)

lemma sample_event_shape: "chain_shape (fe_chain sample_event)"
  by (simp add: chain_shape_def sample_event_def zero_chain_def)

lemma sample_event_encodes:
  "ig_file_event_encode sample_event (length (file_event_bytes sample_event))
     = Ok (file_event_bytes sample_event)"
  by (simp add: file_event_encode_eq [OF sample_event_ok])

theorem collector_decodes_agent_event_witness:
  "DecodeFileEvent (file_event_bytes sample_event) = Inr (event_view sample_event)"
  by (rule collector_decodes_agent_event [OF sample_event_ok sample_event_shape
        sample_event_encodes])

lemma decode_register_bytes:
  assumes "register_ok msg"
  shows "DecodeRegister (register_bytes msg) = Inr (str_view (rg_hostname msg) (rg_hostname_len msg), rg_ip msg,
      rg_monitor_type msg, str_view (rg_os msg) (rg_os_len msg))"
proof -
  have "str_ok (rg_hostname msg) (rg_hostname_len msg)" "str_ok (rg_os msg) (rg_os_len msg)"
    using assms by (simp_all add: register_ok_def)
  then show ?thesis
    by (simp only: DecodeRegister_def register_bytes_def append_assoc append_Cons append_Nil go_steps prod.case)
       (simp add: go_steps [where rest = "[]", simplified])
qed

lemma sample_register_decodes:
  "DecodeRegister (register_bytes sample_register) = Inr (''plc'', 0x0A000001, IG_MON_LKM, ''Linux'')"
  using decode_register_bytes [of sample_register] by (simp add: register_ok_def str_ok_def sample_register_def str_view_def)

text \<open>The registration exchange: the collector reads back the host name, address, monitor
  type and operating system the agent registered, and the agent id in its answer is the eight
  bytes from which the client rebuilds the same number.\<close>

theorem collector_register_exchange:
  assumes "register_ok msg" and "ig_register_encode msg n = Ok bs"
  shows "DecodeRegister bs = Inr (str_view (rg_hostname msg) (rg_hostname_len msg), rg_ip msg,
      rg_monitor_type msg, str_view (rg_os msg) (rg_os_len msg))
    \<and> read_u64 (EncodeRegisterResp aid) = Ok (aid, [])"
proof -
  have "bs = register_bytes msg" using assms by (simp add: register_encode_eq split: if_splits)
  moreover have "read_u64 (be64 aid @ []) = Ok (aid, [])"
    using reads_u64 by (auto simp only: reads_def)
  ultimately show ?thesis using decode_register_bytes [OF assms(1)] by (simp add: EncodeRegisterResp_def)
qed

theorem collector_register_exchange_witness:
  "DecodeRegister (register_bytes sample_register)
     = Inr (''plc'', 0x0A000001, IG_MON_LKM, ''Linux'')"
  using collector_register_exchange [of sample_register "length (register_bytes sample_register)"
     "register_bytes sample_register"]
  by (simp add: register_ok_def str_ok_def sample_register_def register_encode_eq str_view_def)

end
