(* ===== verification/Queue_Interface.thy ===== *)
theory Queue_Interface
  imports Ig_Prelude
begin

text \<open>
  The contract of the two event queues of the agent.  Both are bounded FIFO queues; they
  differ in what a push into a full queue loses: the user-space queue drops the oldest event
  (\<open>drop_oldest\<close>, provided by \<open>Event_Queue\<close>), the kernel queue the new one (\<open>drop_newest\<close>,
  provided by \<open>Lkm_Events\<close>).
\<close>

locale bounded_fifo =
  fixes cap :: nat
    and inv :: "'q \<Rightarrow> bool"
    and items :: "'q \<Rightarrow> 'e list"
    and push :: "'q \<Rightarrow> 'e \<Rightarrow> 'q"
    and pop :: "'q \<Rightarrow> ('e \<times> 'q) option"
  assumes items_bound: "inv q \<Longrightarrow> length (items q) \<le> cap"
    and inv_push: "inv q \<Longrightarrow> inv (push q e)"
    and push_room: "inv q \<Longrightarrow> length (items q) < cap \<Longrightarrow> items (push q e) = items q @ [e]"
    and pop_empty: "inv q \<Longrightarrow> items q = [] \<Longrightarrow> pop q = None"
    and pop_front: "inv q \<Longrightarrow> items q = x # xs \<Longrightarrow> \<exists>q'. pop q = Some (x, q') \<and> items q' = xs \<and> inv q'"
begin

lemma inv_pushes: "inv q \<Longrightarrow> inv (foldl push q es)"
  by (induction es arbitrary: q) (auto intro: inv_push)

lemma pop_cases:
  assumes "inv q"
  obtains (empty) "items q = []" "pop q = None"
  | (front) x q' where "items q = x # items q'" "pop q = Some (x, q')" "inv q'"
proof (cases "items q")
  case Nil
  with assms show ?thesis by (intro empty pop_empty)
next
  case (Cons x xs)
  with pop_front [OF assms] obtain q' where "pop q = Some (x, q')" "items q' = xs" "inv q'"
    by blast
  with Cons show ?thesis by (intro front) simp_all
qed

lemma pop_None_iff: "inv q \<Longrightarrow> pop q = None \<longleftrightarrow> items q = []"
  by (erule pop_cases) auto

lemma pop_SomeD:
  "inv q \<Longrightarrow> pop q = Some (x, q') \<Longrightarrow> items q = x # items q' \<and> inv q'"
  by (erule pop_cases) auto

text \<open>A queue with room for them delivers what was pushed, in the order of the pushes.\<close>

lemma pushes_room:
  "inv q \<Longrightarrow> length (items q) + length es \<le> cap \<Longrightarrow> items (foldl push q es) = items q @ es"
  by (induction es arbitrary: q) (auto simp: push_room inv_push)

end

locale drop_oldest = bounded_fifo +
  assumes cap_pos: "0 < cap"
    and push_full_oldest: "inv q \<Longrightarrow> length (items q) = cap \<Longrightarrow> items (push q e) = tl (items q) @ [e]"
begin

lemma push_items:
  "inv q \<Longrightarrow> items (push q e) = drop (Suc (length (items q)) - cap) (items q @ [e])"
  using items_bound [of q] cap_pos push_room [of q e] push_full_oldest [of q e]
  by (cases "length (items q) = cap")
     (auto simp: drop_Suc Suc_diff_le)

text \<open>After any pushes the queue holds the newest \<open>cap\<close> events, oldest first.\<close>

lemma pushes_items:
  "inv q \<Longrightarrow> items (foldl push q es) = drop (length (items q) + length es - cap) (items q @ es)"
proof (induction es rule: rev_induct)
  case Nil
  then show ?case using items_bound [of q] by simp
next
  case (snoc e es)
  let ?q = "foldl push q es"
  have IH: "items ?q = drop (length (items q) + length es - cap) (items q @ es)"
    using snoc by simp
  have arith: "Suc 0 - (cap - length es) + (length es - cap) = Suc (length es) - cap"
    by arith
  have "items (push ?q e) = drop (Suc (length (items ?q)) - cap) (items ?q @ [e])"
    by (intro push_items inv_pushes snoc.prems)
  also have "\<dots> = drop (length (items q) + length (es @ [e]) - cap) (items q @ es @ [e])"
    using cap_pos arith by (cases "length (items q) + length es < cap") (auto simp: IH Suc_diff_le)
  finally show ?case by simp
qed

end

locale drop_newest = bounded_fifo +
  assumes push_full_newest: "inv q \<Longrightarrow> length (items q) = cap \<Longrightarrow> items (push q e) = items q"
begin

lemma push_items: "inv q \<Longrightarrow> items (push q e) = take cap (items q @ [e])"
  using items_bound [of q] push_room [of q e] push_full_newest [of q e]
  by (cases "length (items q) = cap") auto

text \<open>After any pushes the queue holds the first events that fitted, in order.\<close>

lemma pushes_items: "inv q \<Longrightarrow> items (foldl push q es) = take cap (items q @ es)"
proof (induction es arbitrary: q)
  case Nil
  then show ?case using items_bound [of q] by simp
next
  case (Cons e es)
  then have "items (foldl push (push q e) es) = take cap (items (push q e) @ es)"
    using inv_push by blast
  also have "\<dots> = take cap (items q @ e # es)"
    using items_bound [OF Cons.prems]
    by (cases "length (items q) < cap") (auto simp: push_items [OF Cons.prems])
  finally show ?case by simp
qed

end

end
