(* ===== verification/Monitor.thy ===== *)
theory Monitor
  imports Proc_Types
begin

text \<open>
  The event of the agent and its configuration: \<^verbatim>\<open>Agent/src/realtime/monitor.h\<close>.
\<close>

definition IG_MAX_PATH :: nat where "IG_MAX_PATH = 4096"
definition IG_MAX_WATCHES :: nat where "IG_MAX_WATCHES = 64"
definition IG_MAX_PROTECT :: nat where "IG_MAX_PROTECT = 32"
definition IG_EVENT_QUEUE_SIZE :: nat where "IG_EVENT_QUEUE_SIZE = 512"

text \<open>
  The enumerators with their numbers; a C enum variable may hold other numbers, which the
  code's \<^verbatim>\<open>default:\<close> branches treat, so events carry the number itself.
\<close>

definition IG_EVENT_CREATE :: u32 where "IG_EVENT_CREATE = 0x01"
definition IG_EVENT_MODIFY :: u32 where "IG_EVENT_MODIFY = 0x02"
definition IG_EVENT_DELETE :: u32 where "IG_EVENT_DELETE = 0x04"
definition IG_EVENT_ATTRIB :: u32 where "IG_EVENT_ATTRIB = 0x08"
definition IG_EVENT_MOVE :: u32 where "IG_EVENT_MOVE = 0x10"
definition IG_EVENT_ACCESS :: u32 where "IG_EVENT_ACCESS = 0x20"
definition IG_EVENT_UNKNOWN :: u32 where "IG_EVENT_UNKNOWN = 0x00"

definition IG_SOURCE_INOTIFY :: u32 where "IG_SOURCE_INOTIFY = 0"
definition IG_SOURCE_EBPF :: u32 where "IG_SOURCE_EBPF = 1"
definition IG_SOURCE_LKM :: u32 where "IG_SOURCE_LKM = 2"
definition IG_SOURCE_FANOTIFY :: u32 where "IG_SOURCE_FANOTIFY = 3"

lemmas ig_event_codes = IG_EVENT_CREATE_def IG_EVENT_MODIFY_def IG_EVENT_DELETE_def
  IG_EVENT_ATTRIB_def IG_EVENT_MOVE_def IG_EVENT_ACCESS_def IG_EVENT_UNKNOWN_def
lemmas ig_source_codes = IG_SOURCE_INOTIFY_def IG_SOURCE_EBPF_def IG_SOURCE_LKM_def
  IG_SOURCE_FANOTIFY_def

record ig_event =
  ev_type :: u32
  ev_source :: u32
  ev_path :: string
  ev_filename :: string
  ev_timestamp :: int
  ev_dev :: u64
  ev_ino :: u64
  ev_blocked :: int
  ev_pid :: u32
  ev_uid :: u32
  ev_sid :: u32
  ev_comm :: string
  ev_chain :: ig_pid_chain

definition zero_event :: ig_event where
  "zero_event = \<lparr>ev_type = 0, ev_source = 0, ev_path = [], ev_filename = [], ev_timestamp = 0,
     ev_dev = 0, ev_ino = 0, ev_blocked = 0, ev_pid = 0, ev_uid = 0, ev_sid = 0,
     ev_comm = [], ev_chain = zero_chain\<rparr>"

record ig_watch_entry =
  w_path :: string
  w_recursive :: int

record ig_config =
  daemonize :: int
  log_file :: string
  log_to_syslog :: int
  verbose :: int
  ebpf_enabled :: int
  watches :: "ig_watch_entry list"
  protect_paths :: "ig_watch_entry list"

text \<open>\<^verbatim>\<open>watch_count\<close> and \<^verbatim>\<open>protect_count\<close> are the lengths of the lists of filled slots.\<close>

abbreviation watch_count :: "ig_config \<Rightarrow> nat" where
  "watch_count cfg \<equiv> length (watches cfg)"

definition ig_event_type_str :: "u32 \<Rightarrow> string" where
  "ig_event_type_str t =
     (if t = IG_EVENT_CREATE then ''CREATED''
      else if t = IG_EVENT_MODIFY then ''MODIFIED''
      else if t = IG_EVENT_DELETE then ''DELETED''
      else if t = IG_EVENT_ATTRIB then ''ATTRIB_CHANGED''
      else if t = IG_EVENT_MOVE then ''MOVED''
      else if t = IG_EVENT_ACCESS then ''ACCESSED''
      else ''UNKNOWN'')"

definition ig_source_str :: "u32 \<Rightarrow> string" where
  "ig_source_str s =
     (if s = IG_SOURCE_INOTIFY then ''inotify''
      else if s = IG_SOURCE_EBPF then ''ebpf''
      else if s = IG_SOURCE_LKM then ''lkm''
      else if s = IG_SOURCE_FANOTIFY then ''fanotify''
      else ''unknown'')"

text \<open>\<^verbatim>\<open>ig_log\<close>: the lines the agent wrote, newest first, with the syslog priority of a level.\<close>

datatype log_level = LInfo | LWarn | LError | LAlert

fun syslog_prio :: "log_level \<Rightarrow> nat" where
  "syslog_prio LInfo = 6"
| "syslog_prio LWarn = 4"
| "syslog_prio LError = 3"
| "syslog_prio LAlert = 1"

end
