(* ===== verification/Event_Queue.thy ===== *)
theory Event_Queue
  imports Queue_Interface Monitor
begin

text \<open>
  The thread-safe event queue between the kernel event threads and the main thread:
  \<^verbatim>\<open>Agent/src/ig_queue.c\<close>, a ring of \<open>IG_EVENT_QUEUE_SIZE\<close> slots.  Every operation holds the
  queue's lock from start to end, so each is one atomic step on the record; \<^verbatim>\<open>ig_queue_pop\<close>
  gives the lock up only while it waits, and what other threads push meanwhile is an argument.
\<close>

record 'e ig_event_queue =
  q_events :: "'e list"
  q_head :: nat
  q_tail :: nat
  q_count :: nat
  q_dropped :: u64

section \<open>Operations\<close>

definition ig_queue_init :: "'e \<Rightarrow> 'e ig_event_queue" where
  "ig_queue_init z = \<lparr>q_events = replicate IG_EVENT_QUEUE_SIZE z, q_head = 0, q_tail = 0,
     q_count = 0, q_dropped = 0\<rparr>"

definition ig_queue_push :: "'e ig_event_queue \<Rightarrow> 'e \<Rightarrow> 'e ig_event_queue" where
  "ig_queue_push q ev =
     (let q = (if q_count q \<ge> IG_EVENT_QUEUE_SIZE
               then q\<lparr>q_head := (q_head q + 1) mod IG_EVENT_QUEUE_SIZE,
                      q_count := q_count q - 1, q_dropped := q_dropped q + 1\<rparr>
               else q)
      in q\<lparr>q_events := (q_events q)[q_tail q := ev],
           q_tail := (q_tail q + 1) mod IG_EVENT_QUEUE_SIZE,
           q_count := q_count q + 1\<rparr>)"

definition ig_queue_dropped :: "'e ig_event_queue \<Rightarrow> u64" where
  "ig_queue_dropped q = q_dropped q"

text \<open>The part of \<^verbatim>\<open>ig_queue_pop\<close> behind the wait loop; the loop guard is its \<open>None\<close>.\<close>

definition queue_take :: "'e ig_event_queue \<Rightarrow> ('e \<times> 'e ig_event_queue) option" where
  "queue_take q =
     (if q_count q = 0 then None
      else Some (q_events q ! q_head q,
                 q\<lparr>q_head := (q_head q + 1) mod IG_EVENT_QUEUE_SIZE, q_count := q_count q - 1\<rparr>))"

text \<open>
  The deadline handed to \<^verbatim>\<open>pthread_cond_timedwait\<close>: the current time \<open>tv_sec\<close>, \<open>tv_usec\<close> plus
  the timeout, with one carry of nanoseconds.  The timeout is positive there, so C's \<^verbatim>\<open>/\<close>, \<^verbatim>\<open>%\<close>
  agree with \<open>div\<close> and \<open>mod\<close>.
\<close>

definition pop_deadline :: "int \<Rightarrow> int \<Rightarrow> int \<Rightarrow> int \<times> int" where
  "pop_deadline tv_sec tv_usec timeout_ms =
     (let ts_sec = tv_sec + timeout_ms div 1000;
          ts_nsec = tv_usec * 1000 + (timeout_ms mod 1000) * 1000000
      in if ts_nsec \<ge> 1000000000 then (ts_sec + 1, ts_nsec - 1000000000) else (ts_sec, ts_nsec))"

text \<open>
  The wait loop.  Each element of \<open>waits\<close> is one return of \<^verbatim>\<open>pthread_cond_timedwait\<close>: its result
  and the events other threads pushed while the lock was free.  \<open>PopBlocked\<close> is a call still
  waiting when the list ends.
\<close>

datatype 'e pop_result = Popped 'e "'e ig_event_queue" | PopFail "'e ig_event_queue"
  | PopBlocked "'e ig_event_queue"

fun ig_queue_pop :: "'e ig_event_queue \<Rightarrow> int \<Rightarrow> (int \<times> 'e list) list \<Rightarrow> 'e pop_result" where
  "ig_queue_pop q timeout_ms waits =
     (case queue_take q of
        Some (e, q') \<Rightarrow> Popped e q'
      | None \<Rightarrow>
          if timeout_ms \<le> 0 then PopFail q
          else (case waits of
             [] \<Rightarrow> PopBlocked q
           | (rc, pushed) # waits' \<Rightarrow>
               let q = foldl ig_queue_push q pushed in
               if rc \<noteq> 0 then PopFail q else ig_queue_pop q timeout_ms waits'))"

declare ig_queue_pop.simps [simp del]

section \<open>The ring as a list\<close>

definition queue_inv :: "'e ig_event_queue \<Rightarrow> bool" where
  "queue_inv q \<longleftrightarrow> length (q_events q) = IG_EVENT_QUEUE_SIZE \<and> q_head q < IG_EVENT_QUEUE_SIZE
     \<and> q_count q \<le> IG_EVENT_QUEUE_SIZE \<and> q_tail q = (q_head q + q_count q) mod IG_EVENT_QUEUE_SIZE"

definition queue_items :: "'e ig_event_queue \<Rightarrow> 'e list" where
  "queue_items q = map (\<lambda>i. q_events q ! ((q_head q + i) mod IG_EVENT_QUEUE_SIZE)) [0..<q_count q]"

lemma queue_size_pos [simp]: "0 < IG_EVENT_QUEUE_SIZE"
  by (simp add: IG_EVENT_QUEUE_SIZE_def)

lemma length_queue_items [simp]: "length (queue_items q) = q_count q"
  by (simp add: queue_items_def)

lemma queue_inv_init: "queue_inv (ig_queue_init z)" and queue_items_init: "queue_items (ig_queue_init z) = []"
  by (simp_all add: queue_inv_def ig_queue_init_def queue_items_def)

lemma ring_slot_free:
  fixes n :: nat
  assumes "h < n" and "c < n" and "i < c"
  shows "(h + c) mod n \<noteq> (h + i) mod n"
proof
  assume "(h + c) mod n = (h + i) mod n"
  then have "n dvd c - i"
    using assms by (metis add_diff_cancel_left le_add1 less_imp_le_nat mod_eq_dvd_iff_nat nat_add_left_cancel_le)
  with assms show False by (auto dest: dvd_imp_le)
qed

lemma ring_back:
  fixes n :: nat
  assumes "h < n"
  shows "(Suc h mod n + (n - Suc 0)) mod n = h"
proof -
  have "(Suc h mod n + (n - Suc 0)) mod n = (Suc h + (n - Suc 0)) mod n"
    by (rule mod_add_left_eq)
  also have "\<dots> = (h + n) mod n" using assms by simp
  finally show ?thesis using assms by simp
qed

lemma queue_inv_push: 
  assumes "queue_inv q" shows "queue_inv (ig_queue_push q e)"
proof (cases "q_count q \<ge> IG_EVENT_QUEUE_SIZE")
  case True
  with assms have "q_count q = IG_EVENT_QUEUE_SIZE" by (simp add: queue_inv_def)
  with assms show ?thesis
    by (simp add: queue_inv_def ig_queue_push_def mod_Suc_eq mod_add_left_eq)
next
  case False
  with assms show ?thesis
    by (simp add: queue_inv_def ig_queue_push_def mod_Suc_eq)
qed

lemma queue_push_room:
  assumes "queue_inv q" and "q_count q < IG_EVENT_QUEUE_SIZE"
  shows "queue_items (ig_queue_push q e) = queue_items q @ [e]"
  using assms ring_slot_free [of "q_head q" IG_EVENT_QUEUE_SIZE "q_count q"]
  by (auto simp: queue_items_def ig_queue_push_def queue_inv_def)

lemma queue_push_full:
  assumes "queue_inv q" and "q_count q = IG_EVENT_QUEUE_SIZE"
  shows "queue_items (ig_queue_push q e) = tl (queue_items q) @ [e]"
proof -
  define q1 where "q1 = q\<lparr>q_head := (q_head q + 1) mod IG_EVENT_QUEUE_SIZE,
      q_count := q_count q - 1, q_dropped := q_dropped q + 1\<rparr>"
  have "queue_inv q1"
    using assms ring_back [of "q_head q" IG_EVENT_QUEUE_SIZE] by (simp add: queue_inv_def q1_def)
  moreover have "q_count q1 < IG_EVENT_QUEUE_SIZE"
    using assms queue_size_pos by (simp add: q1_def)
  ultimately have "queue_items (ig_queue_push q1 e) = queue_items q1 @ [e]"
    by (rule queue_push_room)
  moreover have "queue_items (ig_queue_push q e) = queue_items (ig_queue_push q1 e)"
    using assms \<open>q_count q1 < _\<close> queue_size_pos
    by (simp add: ig_queue_push_def q1_def queue_items_def not_le)
  moreover have "queue_items q1 = tl (queue_items q)"
    by (rule nth_equalityI) (auto simp: queue_items_def q1_def nth_tl mod_add_left_eq)
  ultimately show ?thesis by simp
qed

lemma queue_take_front:
  assumes "queue_inv q" and "queue_items q = x # xs"
  shows "\<exists>q'. queue_take q = Some (x, q') \<and> queue_items q' = xs \<and> queue_inv q'"
proof -
  have c: "q_count q = Suc (length xs)"
    using assms(2) length_queue_items [of q] by simp
  have x: "x = q_events q ! q_head q"
    using assms c by (auto simp: queue_items_def queue_inv_def upt_conv_Cons simp del: upt_Suc)
  let ?q' = "q\<lparr>q_head := (q_head q + 1) mod IG_EVENT_QUEUE_SIZE, q_count := q_count q - 1\<rparr>"
  have "queue_items ?q' = tl (queue_items q)"
    by (rule nth_equalityI) (auto simp: queue_items_def nth_tl mod_add_left_eq)
  moreover have "queue_inv ?q'"
    using assms(1) c by (simp add: queue_inv_def mod_add_left_eq)
  ultimately show ?thesis
    using assms(2) c x by (auto simp: queue_take_def)
qed

interpretation eq: drop_oldest IG_EVENT_QUEUE_SIZE queue_inv queue_items ig_queue_push queue_take
proof (unfold_locales, goal_cases)
  case (1 q) then show ?case by (simp add: queue_inv_def)
next
  case (2 q e) then show ?case by (rule queue_inv_push)
next
  case (3 q e) then show ?case by (simp add: queue_push_room)
next
  case (4 q) then show ?case by (metis length_0_conv length_queue_items queue_take_def)
next
  case (5 q x xs) then show ?case by (rule queue_take_front)
next
  case 6 show ?case by simp
next
  case (7 q e) then show ?case by (simp add: queue_push_full)
qed

section \<open>Properties\<close>

lemma queue_dropped_push:
  "queue_inv q \<Longrightarrow> q_dropped (ig_queue_push q e) + of_nat (q_count (ig_queue_push q e))
     = q_dropped q + of_nat (q_count q) + 1"
  by (auto simp: ig_queue_push_def queue_inv_def of_nat_diff)

text \<open>C17. The ring refines a bounded list: from the initial queue, any sequence of pushes leaves
  exactly the last 512 events in their order, the invariant holds, and the overflow counter
  accounts for every event that is gone.\<close>

theorem ig_queue_keeps_newest:
  fixes z :: 'e and es :: "'e list"
  defines "q \<equiv> foldl ig_queue_push (ig_queue_init z) es"
  shows "queue_items q = drop (length es - IG_EVENT_QUEUE_SIZE) es \<and> queue_inv q
    \<and> ig_queue_dropped q = of_nat (length es - IG_EVENT_QUEUE_SIZE)"
proof -
  have inv: "queue_inv q" and items: "queue_items q = drop (length es - IG_EVENT_QUEUE_SIZE) es"
    using eq.pushes_items [OF queue_inv_init, of z es] eq.inv_pushes [OF queue_inv_init]
    by (simp_all add: q_def queue_items_init)
  have "q_dropped (foldl ig_queue_push p es) + of_nat (q_count (foldl ig_queue_push p es))
      = q_dropped p + of_nat (q_count p) + of_nat (length es)" if "queue_inv p" for p
    using that
  proof (induction es arbitrary: p)
    case Nil
    then show ?case by simp
  next
    case (Cons e es)
    then show ?case
      using queue_dropped_push [of p e] queue_inv_push [of p e] by (simp add: algebra_simps)
  qed
  from this [OF queue_inv_init [of z]]
  have "q_dropped q + of_nat (q_count q) = of_nat (length es)"
    by (simp add: q_def ig_queue_init_def)
  moreover have "q_count q = length es - (length es - IG_EVENT_QUEUE_SIZE)"
    using items length_queue_items [of q] by simp
  ultimately show ?thesis
    using items inv by (simp add: ig_queue_dropped_def of_nat_diff algebra_simps)
qed

text \<open>Popping refines taking the head of the list: it returns the oldest event of the queue
  as it stands after some of the waits (after none when an event was there), fails without
  touching an empty queue when no timeout is given, and keeps waiting only on an empty queue.\<close>

abbreviation after_waits :: "'e ig_event_queue \<Rightarrow> (int \<times> 'e list) list \<Rightarrow> 'e ig_event_queue" where
  "after_waits q waits \<equiv> foldl ig_queue_push q (concat (map snd waits))"

theorem ig_queue_pop_fifo:
  assumes "queue_inv q"
  shows "case ig_queue_pop q timeout_ms waits of
      Popped e q' \<Rightarrow> queue_inv q' \<and> (\<exists>n. queue_items (after_waits q (take n waits)) = e # queue_items q'
        \<and> (queue_items q \<noteq> [] \<longrightarrow> n = 0))
    | PopFail q' \<Rightarrow> queue_items q = [] \<and> (timeout_ms \<le> 0 \<longrightarrow> q' = q)
    | PopBlocked q' \<Rightarrow> queue_items q = [] \<and> timeout_ms > 0"
  using assms
proof (induction q timeout_ms waits rule: ig_queue_pop.induct)
  case (1 q timeout_ms waits)
  note unfold = ig_queue_pop.simps [of q timeout_ms waits]
  show ?case
    using "1.prems"
  proof (cases rule: eq.pop_cases)
    case (front x q')
    then have "queue_items (after_waits q (take 0 waits)) = x # queue_items q'" by simp
    with front show ?thesis by (auto simp: unfold)
  next
    case empty
    show ?thesis
    proof (cases "timeout_ms \<le> 0 \<or> waits = [] \<or> fst (hd waits) \<noteq> 0")
      case True
      with empty show ?thesis by (cases waits) (auto simp: ig_queue_pop.simps)
    next
      case False
      then obtain pushed waits' where w: "waits = (0, pushed) # waits'"
        by (cases waits) auto
      let ?q = "foldl ig_queue_push q pushed"
      have step: "ig_queue_pop q timeout_ms waits = ig_queue_pop ?q timeout_ms waits'"
        using empty False w by (subst ig_queue_pop.simps) simp
      have more: "after_waits ?q (take n waits') = after_waits q (take (Suc n) waits)" for n
        by (simp add: w)
      have "queue_inv ?q" using "1.prems" by (rule eq.inv_pushes)
      then show ?thesis
        using "1.IH" [OF empty(2) _ w refl refl] False empty unfolding step more
        by (auto split: pop_result.splits)
    qed
  qed
qed

theorem ig_queue_pop_fifo_witness:
  "case ig_queue_pop (ig_queue_push (ig_queue_init (0::nat)) (7::nat)) 500 [] of
      Popped e q' \<Rightarrow> queue_inv q' \<and> (\<exists>n. queue_items (after_waits
            (ig_queue_push (ig_queue_init (0::nat)) 7) (take n [])) = e # queue_items q'
        \<and> (queue_items (ig_queue_push (ig_queue_init (0::nat)) 7) \<noteq> [] \<longrightarrow> n = 0))
    | PopFail q' \<Rightarrow> queue_items (ig_queue_push (ig_queue_init (0::nat)) (7::nat)) = []
        \<and> ((500::int) \<le> 0 \<longrightarrow> q' = ig_queue_push (ig_queue_init (0::nat)) 7)
    | PopBlocked q' \<Rightarrow> queue_items (ig_queue_push (ig_queue_init (0::nat)) (7::nat)) = [] \<and> (500::int) > 0"
  by (rule ig_queue_pop_fifo [OF queue_inv_push [OF queue_inv_init]])

text \<open>The deadline of a timed wait is a valid \<^verbatim>\<open>timespec\<close> (nanoseconds below one second) and
  lies exactly \<^verbatim>\<open>timeout_ms\<close> milliseconds after the current time, carry included.\<close>

theorem pop_deadline_normalised:
  assumes "0 \<le> tv_usec" and "tv_usec < 1000000" and "0 < timeout_ms"
  shows "case pop_deadline tv_sec tv_usec timeout_ms of (s, ns) \<Rightarrow> 0 \<le> ns \<and> ns < 1000000000
    \<and> s * 1000000000 + ns = tv_sec * 1000000000 + tv_usec * 1000 + timeout_ms * 1000000"
  using assms by (auto simp: pop_deadline_def Let_def) presburger+

theorem pop_deadline_normalised_witness:
  "case pop_deadline 10 999999 500 of (s, ns) \<Rightarrow> 0 \<le> ns \<and> ns < 1000000000
    \<and> s * 1000000000 + ns = 10 * 1000000000 + 999999 * 1000 + 500 * 1000000"
  by (rule pop_deadline_normalised) simp_all

end
