(* ===== verification/Policy_Interface.thy ===== *)
theory Policy_Interface
  imports Ig_Prelude
begin

text \<open>
  The contract of an inode policy store: a table from inodes (device and inode number) to
  policies (operation mask, block mode, path).  Its clients are the kernel hooks, which only
  look up and remove, and the user-space injector, which adds and clears.  The contract is the
  one of a finite map, except that adding may fail and that a store may keep less of a policy
  than it is given (a path cut to the length of its buffer), which is \<open>keep\<close>.
\<close>

type_synonym inode_key = "u64 \<times> u64"

record policy =
  pol_mask :: u32
  pol_block :: u32
  pol_path :: string

definition IG_OP_WRITE :: u32 where "IG_OP_WRITE = 1"
definition IG_OP_DELETE :: u32 where "IG_OP_DELETE = 2"
definition IG_OP_RENAME :: u32 where "IG_OP_RENAME = 4"
definition IG_BLOCK_AUDIT :: u32 where "IG_BLOCK_AUDIT = 0"
definition IG_BLOCK_DENY :: u32 where "IG_BLOCK_DENY = 1"

lemmas ig_op_codes = IG_OP_WRITE_def IG_OP_DELETE_def IG_OP_RENAME_def
  IG_BLOCK_AUDIT_def IG_BLOCK_DENY_def

locale policy_store =
  fixes inv :: "'s \<Rightarrow> bool"
    and pol :: "'s \<Rightarrow> inode_key \<Rightarrow> policy option"
    and keep :: "policy \<Rightarrow> policy"
    and add :: "'s \<Rightarrow> inode_key \<Rightarrow> policy \<Rightarrow> 's option"
    and remove :: "'s \<Rightarrow> inode_key \<Rightarrow> 's"
    and clear :: "'s \<Rightarrow> 's"
  assumes inv_add: "inv s \<Longrightarrow> add s k p = Some s' \<Longrightarrow> inv s'"
    and pol_add: "inv s \<Longrightarrow> add s k p = Some s' \<Longrightarrow> pol s' = (pol s)(k \<mapsto> keep p)"
    and inv_remove: "inv s \<Longrightarrow> inv (remove s k)"
    and pol_remove: "inv s \<Longrightarrow> pol (remove s k) = (pol s)(k := None)"
    and inv_clear: "inv (clear s)"
    and pol_clear: "pol (clear s) = Map.empty"
begin

lemma add_remove:
  assumes "inv s" and "add s k p = Some s'"
  shows "pol (remove s' k) = (pol s)(k := None)"
  by (simp add: pol_remove [OF inv_add [OF assms]] pol_add [OF assms])

text \<open>Injecting a list of policies; failed additions are skipped and not counted.\<close>

fun inject :: "'s \<Rightarrow> (inode_key \<times> policy) list \<Rightarrow> 's \<times> nat" where
  "inject s [] = (s, 0)"
| "inject s ((k, p) # ps) =
     (case add s k p of None \<Rightarrow> inject s ps
      | Some s' \<Rightarrow> let (s'', n) = inject s' ps in (s'', Suc n))"

lemma inject_inv: "inv s \<Longrightarrow> inv (fst (inject s ps))"
  by (induction s ps rule: inject.induct) (auto simp: split_beta Let_def inv_add split: option.splits)

lemma inject_dom:
  "inv s \<Longrightarrow> dom (pol (fst (inject s ps))) \<subseteq> dom (pol s) \<union> fst ` set ps"
proof (induction s ps rule: inject.induct)
  case (2 s k p ps)
  show ?case
  proof (cases "add s k p")
    case None
    then show ?thesis using 2 by auto
  next
    case (Some s')
    have "dom (pol (fst (inject s' ps))) \<subseteq> dom (pol s') \<union> fst ` set ps"
      by (rule "2.IH"(2) [OF Some inv_add [OF "2.prems" Some]])
    then show ?thesis
      by (auto simp: Some split_beta Let_def pol_add [OF "2.prems" Some])
  qed
qed simp

text \<open>When every addition succeeds, the store ends up as the map built from the list.\<close>

lemma inject_all:
  "inv s \<Longrightarrow> (\<And>s k p. inv s \<Longrightarrow> add s k p \<noteq> None) \<Longrightarrow>
     pol (fst (inject s ps)) = pol s ++ map_of (rev (map (apsnd keep) ps)) \<and> snd (inject s ps) = length ps"
proof (induction s ps rule: inject.induct)
  case (2 s k p ps)
  obtain s' where s': "add s k p = Some s'" using "2.prems" by fastforce
  have "pol (fst (inject s' ps)) = pol s' ++ map_of (rev (map (apsnd keep) ps))
      \<and> snd (inject s' ps) = length ps"
    by (rule "2.IH"(2) [OF s' inv_add [OF "2.prems"(1) s'] "2.prems"(2)])
  then show ?case
    by (simp add: s' split_beta Let_def pol_add [OF "2.prems"(1) s'] map_of_append map_add_assoc)
qed simp

end

end
