(* ===== verification/Lkm_Policy.thy ===== *)
theory Lkm_Policy
  imports Policy_Interface
begin

text \<open>
  The policy table of the kernel module: \<^verbatim>\<open>Agent/src/lkm/ig_lkm_policy.c\<close> and the ioctl
  handler of \<^verbatim>\<open>ig_lkm_chardev.c\<close>.  The kernel's \<^verbatim>\<open>jhash2\<close> and the bucket choice
  \<^verbatim>\<open>hash_min\<close> of \<^verbatim>\<open>linux/hashtable.h\<close> are parameters; nothing depends on them, so the table is
  correct for every hash function.
\<close>

definition IG_POLICY_BITS :: nat where "IG_POLICY_BITS = 8"
definition IG_MAX_LKM_PATH :: nat where "IG_MAX_LKM_PATH = 256"

record ig_policy_entry =
  pe_dev :: u64
  pe_ino :: u64
  pe_mask :: u32
  pe_block :: u32
  pe_path :: string

type_synonym policy_ht = "nat \<Rightarrow> ig_policy_entry list"
type_synonym jhash = "u32 list \<Rightarrow> u32 \<Rightarrow> u32"

section \<open>The table\<close>

definition make_key :: "jhash \<Rightarrow> u64 \<Rightarrow> u64 \<Rightarrow> u32" where
  "make_key jhash2 dev ino =
     (jhash2 [ucast (drop_bit 32 dev), ucast (dev AND 0xFFFFFFFF),
              ucast (drop_bit 32 ino), ucast (ino AND 0xFFFFFFFF)] 0)
     AND (push_bit IG_POLICY_BITS 1 - 1)"

definition ig_policy_init :: policy_ht where
  "ig_policy_init = (\<lambda>_. [])"

text \<open>\<^verbatim>\<open>find_entry\<close> walks the bucket of the key and stops at the first entry that matches.\<close>

definition entry_is :: "u64 \<Rightarrow> u64 \<Rightarrow> ig_policy_entry \<Rightarrow> bool" where
  "entry_is dev ino e \<longleftrightarrow> pe_dev e = dev \<and> pe_ino e = ino"

definition find_entry :: "(u64 \<Rightarrow> u64 \<Rightarrow> nat) \<Rightarrow> policy_ht \<Rightarrow> u64 \<Rightarrow> u64 \<Rightarrow> ig_policy_entry option" where
  "find_entry bkt ht dev ino = List.find (entry_is dev ino) (ht (bkt dev ino))"

text \<open>Writing through the pointer \<^verbatim>\<open>find_entry\<close> returned changes that entry in place.\<close>

definition set_policy :: "u32 \<Rightarrow> u32 \<Rightarrow> string option \<Rightarrow> ig_policy_entry \<Rightarrow> ig_policy_entry" where
  "set_policy msk block path e =
     (let e = e\<lparr>pe_mask := msk, pe_block := block\<rparr>
      in case path of None \<Rightarrow> e | Some p \<Rightarrow> e\<lparr>pe_path := strncpy0 IG_MAX_LKM_PATH p\<rparr>)"

definition new_entry :: "u64 \<Rightarrow> u64 \<Rightarrow> u32 \<Rightarrow> u32 \<Rightarrow> string option \<Rightarrow> ig_policy_entry" where
  "new_entry dev ino msk block path =
     \<lparr>pe_dev = dev, pe_ino = ino, pe_mask = msk, pe_block = block,
      pe_path = (case path of None \<Rightarrow> [] | Some p \<Rightarrow> strncpy0 IG_MAX_LKM_PATH p)\<rparr>"

text \<open>
  \<^verbatim>\<open>inode_policy_add\<close> is two critical sections with an allocation between them: the first
  updates an existing entry and finishes, the second links a new one at the head of its bucket.
\<close>

definition add_update :: "(u64 \<Rightarrow> u64 \<Rightarrow> nat) \<Rightarrow> policy_ht \<Rightarrow> u64 \<Rightarrow> u64 \<Rightarrow> u32 \<Rightarrow> u32 \<Rightarrow> string option
    \<Rightarrow> policy_ht option" where
  "add_update bkt ht dev ino msk block path =
     (case find_entry bkt ht dev ino of
        None \<Rightarrow> None
      | Some _ \<Rightarrow> Some (ht(bkt dev ino :=
          update_first (entry_is dev ino) (set_policy msk block path) (ht (bkt dev ino)))))"

definition add_link :: "(u64 \<Rightarrow> u64 \<Rightarrow> nat) \<Rightarrow> policy_ht \<Rightarrow> ig_policy_entry \<Rightarrow> policy_ht" where
  "add_link bkt ht e = ht(bkt (pe_dev e) (pe_ino e) := e # ht (bkt (pe_dev e) (pe_ino e)))"

definition ENOMEM :: int where "ENOMEM = 12"
definition EPERM :: int where "EPERM = 1"
definition EFAULT :: int where "EFAULT = 14"
definition ENOTTY :: int where "ENOTTY = 25"

definition inode_policy_add :: "(u64 \<Rightarrow> u64 \<Rightarrow> nat) \<Rightarrow> bool \<Rightarrow> policy_ht \<Rightarrow> u64 \<Rightarrow> u64 \<Rightarrow> u32 \<Rightarrow> u32
    \<Rightarrow> string option \<Rightarrow> int \<times> policy_ht" where
  "inode_policy_add bkt alloc_ok ht dev ino msk block path =
     (case add_update bkt ht dev ino msk block path of
        Some ht' \<Rightarrow> (0, ht')
      | None \<Rightarrow>
          if \<not> alloc_ok then (- ENOMEM, ht)
          else (0, add_link bkt ht (new_entry dev ino msk block path)))"

definition inode_policy_remove :: "(u64 \<Rightarrow> u64 \<Rightarrow> nat) \<Rightarrow> policy_ht \<Rightarrow> u64 \<Rightarrow> u64 \<Rightarrow> policy_ht" where
  "inode_policy_remove bkt ht dev ino =
     (case find_entry bkt ht dev ino of
        None \<Rightarrow> ht
      | Some _ \<Rightarrow> ht(bkt dev ino := remove_first (entry_is dev ino) (ht (bkt dev ino))))"

definition inode_policy_clear :: "policy_ht \<Rightarrow> policy_ht" where
  "inode_policy_clear ht = (\<lambda>_. [])"

text \<open>\<^verbatim>\<open>*out_block\<close> is written exactly when the function returns 1.\<close>

definition inode_policy_lookup :: "(u64 \<Rightarrow> u64 \<Rightarrow> nat) \<Rightarrow> policy_ht \<Rightarrow> u64 \<Rightarrow> u64 \<Rightarrow> u32 \<Rightarrow> u32 option" where
  "inode_policy_lookup bkt ht dev ino op =
     (case find_entry bkt ht dev ino of
        Some e \<Rightarrow> if pe_mask e AND op \<noteq> 0 then Some (pe_block e) else None
      | None \<Rightarrow> None)"

definition inode_policy_path :: "(u64 \<Rightarrow> u64 \<Rightarrow> nat) \<Rightarrow> policy_ht \<Rightarrow> u64 \<Rightarrow> u64 \<Rightarrow> string" where
  "inode_policy_path bkt ht dev ino =
     (case find_entry bkt ht dev ino of Some e \<Rightarrow> pe_path e | None \<Rightarrow> [])"

section \<open>The ioctl interface\<close>

record ig_lkm_policy_req =
  rq_dev :: u64
  rq_ino :: u64
  rq_mask :: u32
  rq_block :: u32
  rq_path :: string

datatype ioctl_cmd = IG_IOC_ADD_INODE | IG_IOC_REMOVE_INODE | IG_IOC_CLEAR_ALL | IG_IOC_OTHER u32

text \<open>
  \<open>arg\<close> is what \<^verbatim>\<open>copy_from_user\<close> delivers, \<open>None\<close> when it faults.  The handler terminates the
  path at its 256th byte.
\<close>

definition ig_ioctl :: "(u64 \<Rightarrow> u64 \<Rightarrow> nat) \<Rightarrow> bool \<Rightarrow> policy_ht \<Rightarrow> ioctl_cmd \<Rightarrow> ig_lkm_policy_req option
    \<Rightarrow> int \<times> policy_ht" where
  "ig_ioctl bkt alloc_ok ht cmd arg =
     (case cmd of
        IG_IOC_ADD_INODE \<Rightarrow>
          (case arg of None \<Rightarrow> (- EFAULT, ht)
           | Some req \<Rightarrow> inode_policy_add bkt alloc_ok ht (rq_dev req) (rq_ino req)
               (rq_mask req) (rq_block req) (Some (take (IG_MAX_LKM_PATH - 1) (rq_path req))))
      | IG_IOC_REMOVE_INODE \<Rightarrow>
          (case arg of None \<Rightarrow> (- EFAULT, ht)
           | Some req \<Rightarrow> (0, inode_policy_remove bkt ht (rq_dev req) (rq_ino req)))
      | IG_IOC_CLEAR_ALL \<Rightarrow> (0, inode_policy_clear ht)
      | IG_IOC_OTHER _ \<Rightarrow> (- ENOTTY, ht))"

section \<open>The table as a map\<close>

definition entry_policy :: "ig_policy_entry \<Rightarrow> policy" where
  "entry_policy e = \<lparr>pol_mask = pe_mask e, pol_block = pe_block e, pol_path = pe_path e\<rparr>"

definition ht_pol :: "(u64 \<Rightarrow> u64 \<Rightarrow> nat) \<Rightarrow> policy_ht \<Rightarrow> inode_key \<Rightarrow> policy option" where
  "ht_pol bkt ht k = map_option entry_policy (find_entry bkt ht (fst k) (snd k))"

text \<open>No inode has two entries, and every entry is in the bucket of its key.\<close>

definition ht_inv :: "(u64 \<Rightarrow> u64 \<Rightarrow> nat) \<Rightarrow> policy_ht \<Rightarrow> bool" where
  "ht_inv bkt ht \<longleftrightarrow>
     (\<forall>b. distinct (map (\<lambda>e. (pe_dev e, pe_ino e)) (ht b)) \<and>
          (\<forall>e \<in> set (ht b). bkt (pe_dev e) (pe_ino e) = b))"

lemma find_entry_key: "List.find (entry_is d i) xs = Some e \<Longrightarrow> entry_is d i e \<and> e \<in> set xs"
  by (auto simp: find_Some_iff)

lemma find_none_key:
  "List.find (entry_is d i) xs = None \<longleftrightarrow> (d, i) \<notin> (\<lambda>e. (pe_dev e, pe_ino e)) ` set xs"
  by (auto simp: find_None_iff entry_is_def)

lemma find_remove_first_same:
  "distinct (map (\<lambda>e. (pe_dev e, pe_ino e)) xs) \<Longrightarrow>
     List.find (entry_is d i) (remove_first (entry_is d i) xs) = None"
  by (induction xs) (auto simp: find_none_key entry_is_def)

lemma set_policy_key [simp]:
  "pe_dev (set_policy m b p e) = pe_dev e" "pe_ino (set_policy m b p e) = pe_ino e"
  by (auto simp: set_policy_def Let_def split: option.splits)

lemma set_update_first_key:
  "e \<in> set (update_first P (set_policy m b p) xs) \<Longrightarrow>
     \<exists>e' \<in> set xs. pe_dev e = pe_dev e' \<and> pe_ino e = pe_ino e'"
  by (induction xs) (auto split: if_splits)

lemma ht_inv_init: "ht_inv bkt ig_policy_init"
  by (simp add: ht_inv_def ig_policy_init_def)

lemma add_update_inv:
  "ht_inv bkt ht \<Longrightarrow> add_update bkt ht d i m b p = Some ht' \<Longrightarrow> ht_inv bkt ht'"
  by (auto simp: ht_inv_def add_update_def map_key_update_first split: option.splits if_splits
      dest!: set_update_first_key)

lemma add_update_pol:
  assumes "add_update bkt ht d i m b (Some p) = Some ht'"
  shows "ht_pol bkt ht' = (ht_pol bkt ht)((d, i) \<mapsto>
     \<lparr>pol_mask = m, pol_block = b, pol_path = strncpy0 IG_MAX_LKM_PATH p\<rparr>)"
proof
  fix k
  from assms obtain e where e: "List.find (entry_is d i) (ht (bkt d i)) = Some e"
    and ht': "ht' = ht(bkt d i := update_first (entry_is d i) (set_policy m b (Some p)) (ht (bkt d i)))"
    by (auto simp: add_update_def find_entry_def split: option.splits)
  show "ht_pol bkt ht' k = ((ht_pol bkt ht)((d, i) \<mapsto>
     \<lparr>pol_mask = m, pol_block = b, pol_path = strncpy0 IG_MAX_LKM_PATH p\<rparr>)) k"
  proof (cases "k = (d, i)")
    case True
    have "List.find (entry_is d i) (update_first (entry_is d i) (set_policy m b (Some p)) (ht (bkt d i)))
        = Some (set_policy m b (Some p) e)"
      using e by (subst find_update_first) (simp_all add: entry_is_def)
    with True show ?thesis
      by (simp add: ht_pol_def find_entry_def ht' entry_policy_def set_policy_def Let_def)
  next
    case False
    then have "List.find (entry_is (fst k) (snd k))
        (update_first (entry_is d i) (set_policy m b (Some p)) (ht (bkt d i)))
       = List.find (entry_is (fst k) (snd k)) (ht (bkt d i))"
      by (intro find_update_first_other) (auto simp: entry_is_def prod_eq_iff)
    with False show ?thesis by (simp add: ht_pol_def find_entry_def ht')
  qed
qed

lemma add_link_inv:
  "ht_inv bkt ht \<Longrightarrow> find_entry bkt ht d i = None \<Longrightarrow> ht_inv bkt (add_link bkt ht (new_entry d i m b p))"
  by (auto simp: ht_inv_def add_link_def new_entry_def find_entry_def find_none_key image_iff)

lemma add_link_pol:
  "ht_pol bkt (add_link bkt ht (new_entry d i m b (Some p))) = (ht_pol bkt ht)((d, i) \<mapsto>
     \<lparr>pol_mask = m, pol_block = b, pol_path = strncpy0 IG_MAX_LKM_PATH p\<rparr>)"
  by (auto simp: fun_eq_iff ht_pol_def find_entry_def add_link_def new_entry_def entry_is_def
      entry_policy_def)

text \<open>A policy as the module stores it: the path cut to 255 characters.\<close>

definition stored :: "policy \<Rightarrow> policy" where
  "stored p = p\<lparr>pol_path := strncpy0 IG_MAX_LKM_PATH (pol_path p)\<rparr>"

definition lkm_add :: "(u64 \<Rightarrow> u64 \<Rightarrow> nat) \<Rightarrow> bool \<Rightarrow> policy_ht \<Rightarrow> inode_key \<Rightarrow> policy \<Rightarrow> policy_ht option" where
  "lkm_add bkt alloc_ok ht k p =
     (case inode_policy_add bkt alloc_ok ht (fst k) (snd k) (pol_mask p) (pol_block p) (Some (pol_path p)) of
        (rc, ht') \<Rightarrow> if rc = 0 then Some ht' else None)"

definition lkm_remove :: "(u64 \<Rightarrow> u64 \<Rightarrow> nat) \<Rightarrow> policy_ht \<Rightarrow> inode_key \<Rightarrow> policy_ht" where
  "lkm_remove bkt ht k = inode_policy_remove bkt ht (fst k) (snd k)"

lemma inode_policy_add_cases:
  assumes "inode_policy_add bkt ok ht d i m b p = (rc, ht')"
  obtains (updated) "rc = 0" "add_update bkt ht d i m b p = Some ht'"
  | (nomem) "rc = - ENOMEM" "ht' = ht" "\<not> ok" "find_entry bkt ht d i = None"
  | (linked) "rc = 0" "ok" "find_entry bkt ht d i = None" "ht' = add_link bkt ht (new_entry d i m b p)"
  using assms
  by (auto simp: inode_policy_add_def add_update_def split: option.splits if_splits)

lemma remove_inv: "ht_inv bkt ht \<Longrightarrow> ht_inv bkt (inode_policy_remove bkt ht d i)"
  by (auto simp: ht_inv_def inode_policy_remove_def distinct_remove_first split: option.splits
      dest: subsetD [OF set_remove_first])

lemma remove_pol:
  assumes "ht_inv bkt ht"
  shows "ht_pol bkt (inode_policy_remove bkt ht d i) = (ht_pol bkt ht)((d, i) := None)"
proof (cases "find_entry bkt ht d i")
  case None
  then show ?thesis by (auto simp: fun_eq_iff inode_policy_remove_def ht_pol_def)
next
  case (Some e)
  show ?thesis
  proof
    fix k
    have same: "List.find (entry_is d i) (remove_first (entry_is d i) (ht (bkt d i))) = None"
      using assms by (intro find_remove_first_same) (simp add: ht_inv_def)
    have other: "List.find (entry_is (fst k) (snd k)) (remove_first (entry_is d i) (ht (bkt d i)))
        = List.find (entry_is (fst k) (snd k)) (ht (bkt d i))" if "k \<noteq> (d, i)"
      using that by (intro find_remove_first_other) (auto simp: entry_is_def prod_eq_iff)
    show "ht_pol bkt (inode_policy_remove bkt ht d i) k = ((ht_pol bkt ht)((d, i) := None)) k"
      using Some same other by (auto simp: ht_pol_def inode_policy_remove_def find_entry_def)
  qed
qed

interpretation lkm: policy_store "ht_inv bkt" "ht_pol bkt" stored "lkm_add bkt ok" "lkm_remove bkt"
    inode_policy_clear
  for bkt :: "u64 \<Rightarrow> u64 \<Rightarrow> nat" and ok :: bool
proof (unfold_locales, goal_cases)
  case (1 s k p s')
  then show ?case
    by (auto simp: lkm_add_def split: prod.splits if_splits elim!: inode_policy_add_cases
        intro: add_update_inv add_link_inv)
next
  case (2 s k p s')
  then show ?case
    by (cases k)
       (auto simp: lkm_add_def stored_def add_update_pol add_link_pol ENOMEM_def
         split: prod.splits if_splits elim!: inode_policy_add_cases)
next
  case (3 s k)
  then show ?case by (simp add: lkm_remove_def remove_inv)
next
  case (4 s k)
  then show ?case by (simp add: lkm_remove_def remove_pol)
next
  case (5 s)
  then show ?case by (simp add: ht_inv_def inode_policy_clear_def)
next
  case (6 s)
  then show ?case by (simp add: ht_pol_def inode_policy_clear_def find_entry_def fun_eq_iff)
qed

section \<open>Properties\<close>

text \<open>C9. Whatever the hash function, the policy table refines a finite map from inodes to
  policies: after an addition a lookup answers from the new policy for that inode and as before
  for every other, and a removal makes exactly that inode unprotected.\<close>

lemma lookup_pol:
  "inode_policy_lookup bkt ht d i op = (case ht_pol bkt ht (d, i) of
     Some p \<Rightarrow> if pol_mask p AND op \<noteq> 0 then Some (pol_block p) else None | None \<Rightarrow> None)"
  by (simp add: inode_policy_lookup_def ht_pol_def entry_policy_def split: option.splits)

theorem lkm_policy_table_is_map:
  assumes "ht_inv bkt ht" and "inode_policy_add bkt ok ht d i m b (Some path) = (0, ht')"
  shows "ht_inv bkt ht'
    \<and> inode_policy_lookup bkt ht' d' i' op =
        (if (d', i') = (d, i) then (if m AND op \<noteq> 0 then Some b else None)
         else inode_policy_lookup bkt ht d' i' op)
    \<and> inode_policy_path bkt ht' d i = strncpy0 IG_MAX_LKM_PATH path
    \<and> inode_policy_lookup bkt (inode_policy_remove bkt ht' d i) d' i' op =
        (if (d', i') = (d, i) then None else inode_policy_lookup bkt ht d' i' op)"
proof -
  let ?p = "\<lparr>pol_mask = m, pol_block = b, pol_path = path\<rparr>"
  have add: "lkm_add bkt ok ht (d, i) ?p = Some ht'"
    using assms(2) by (simp add: lkm_add_def)
  note inv = lkm.inv_add [OF assms(1) add]
  note pol = lkm.pol_add [OF assms(1) add]
  note rem = lkm.add_remove [OF assms(1) add]
  have "inode_policy_path bkt ht' d i = strncpy0 IG_MAX_LKM_PATH path"
    using fun_cong [OF pol, of "(d, i)"]
    by (auto simp: ht_pol_def inode_policy_path_def stored_def entry_policy_def)
  with inv pol rem show ?thesis
    by (auto simp: lookup_pol stored_def lkm_remove_def)
qed

theorem lkm_policy_table_is_map_witness:
  "inode_policy_lookup (\<lambda>_ _. 0)
     (snd (inode_policy_add (\<lambda>_ _. 0) True ig_policy_init 8 77 7 1 (Some ''/etc/passwd''))) 8 77 IG_OP_WRITE
   = Some 1"
proof -
  let ?r = "inode_policy_add (\<lambda>_ _. 0) True ig_policy_init 8 77 7 1 (Some ''/etc/passwd'')"
  have "?r = (0, snd ?r)"
    by (simp add: inode_policy_add_def add_update_def find_entry_def ig_policy_init_def)
  from lkm_policy_table_is_map [OF ht_inv_init this, of 8 77 IG_OP_WRITE]
  show ?thesis by (simp add: ig_op_codes)
qed

text \<open>Every ioctl keeps the table invariant, an unknown command or a faulting argument
  changes nothing and fails, and clearing leaves no inode protected.\<close>

theorem ig_ioctl_safe:
  assumes "ht_inv bkt ht"
  shows "(case ig_ioctl bkt ok ht cmd arg of (rc, ht') \<Rightarrow>
      ht_inv bkt ht' \<and> (rc < 0 \<longrightarrow> ht' = ht) \<and> (rc \<ge> 0 \<longrightarrow> rc = 0))
    \<and> (case arg of None \<Rightarrow> cmd \<noteq> IG_IOC_CLEAR_ALL \<longrightarrow> fst (ig_ioctl bkt ok ht cmd arg) < 0
       | Some _ \<Rightarrow> True)
    \<and> inode_policy_lookup bkt (snd (ig_ioctl bkt ok ht IG_IOC_CLEAR_ALL arg)) d i op = None"
proof -
  have "ht_inv bkt ht' \<and> (rc < 0 \<longrightarrow> ht' = ht) \<and> (rc \<ge> 0 \<longrightarrow> rc = 0)"
    if "inode_policy_add bkt ok ht d i m b p = (rc, ht')" for d i m b p rc ht'
    using that assms
    by (auto elim!: inode_policy_add_cases simp: ENOMEM_def intro: add_update_inv add_link_inv)
  then have "case ig_ioctl bkt ok ht cmd arg of (rc, ht') \<Rightarrow>
      ht_inv bkt ht' \<and> (rc < 0 \<longrightarrow> ht' = ht) \<and> (rc \<ge> 0 \<longrightarrow> rc = 0)"
    using assms lkm.inv_clear
    by (auto simp: ig_ioctl_def remove_inv EFAULT_def ENOTTY_def split: ioctl_cmd.splits option.splits)
  then show ?thesis
    by (auto simp: ig_ioctl_def EFAULT_def ENOTTY_def lookup_pol lkm.pol_clear
        split: ioctl_cmd.splits option.splits)
qed

theorem ig_ioctl_safe_witness:
  "inode_policy_lookup (\<lambda>_ _. 0)
     (snd (ig_ioctl (\<lambda>_ _. 0) True ig_policy_init IG_IOC_CLEAR_ALL None)) 8 77 IG_OP_WRITE = None"
  using ig_ioctl_safe [OF ht_inv_init, of "\<lambda>_ _. 0" True IG_IOC_CLEAR_ALL None 8 77 IG_OP_WRITE]
  by blast

end
