(* ===== verification/Lkm_Policy_Race.thy ===== *)
theory Lkm_Policy_Race
  imports Lkm_Policy
begin

text \<open>
  The policy table under concurrency.  \<^verbatim>\<open>inode_policy_add\<close> gives the lock up between its
  lookup and its insertion (the allocation may sleep), so its two critical sections are two
  steps of a thread, and steps of other threads, ioctl callers and hooks alike, fall between.
\<close>

record add_args =
  aa_dev :: u64
  aa_ino :: u64
  aa_mask :: u32
  aa_block :: u32
  aa_path :: "string option"

text \<open>\<open>pcs s t\<close>: what thread \<open>t\<close> is about to link, when it is between its critical sections.\<close>

record policy_sys =
  tab :: policy_ht
  pcs :: "nat \<Rightarrow> add_args option"

definition init_policy_sys :: policy_sys where
  "init_policy_sys = \<lparr>tab = ig_policy_init, pcs = (\<lambda>_. None)\<rparr>"

inductive policy_step :: "(u64 \<Rightarrow> u64 \<Rightarrow> nat) \<Rightarrow> nat set \<Rightarrow> policy_sys \<Rightarrow> policy_sys \<Rightarrow> bool"
  for bkt adders where
  add_found: "t \<in> adders \<Longrightarrow> pcs s t = None \<Longrightarrow>
     add_update bkt (tab s) (aa_dev (a :: add_args)) (aa_ino a) (aa_mask a) (aa_block a) (aa_path a) = Some ht' \<Longrightarrow>
     policy_step bkt adders s (s\<lparr>tab := ht'\<rparr>)"
| add_missing: "t \<in> adders \<Longrightarrow> pcs s t = None \<Longrightarrow> find_entry bkt (tab s) (aa_dev a) (aa_ino a) = None \<Longrightarrow>
     policy_step bkt adders s (s\<lparr>pcs := (pcs s)(t := Some a)\<rparr>)"
| add_nomem: "pcs s t = Some a \<Longrightarrow> policy_step bkt adders s (s\<lparr>pcs := (pcs s)(t := None)\<rparr>)"
| add_insert: "pcs s t = Some a \<Longrightarrow>
     policy_step bkt adders s (s\<lparr>tab := add_link bkt (tab s)
       (new_entry (aa_dev a) (aa_ino a) (aa_mask a) (aa_block a) (aa_path a)),
       pcs := (pcs s)(t := None)\<rparr>)"
| remove: "policy_step bkt adders s (s\<lparr>tab := inode_policy_remove bkt (tab s) d i\<rparr>)"
| clear: "policy_step bkt adders s (s\<lparr>tab := inode_policy_clear (tab s)\<rparr>)"

inductive policy_reachable :: "(u64 \<Rightarrow> u64 \<Rightarrow> nat) \<Rightarrow> nat set \<Rightarrow> policy_sys \<Rightarrow> bool"
  for bkt adders where
  start: "policy_reachable bkt adders init_policy_sys"
| step: "policy_reachable bkt adders s \<Longrightarrow> policy_step bkt adders s s' \<Longrightarrow> policy_reachable bkt adders s'"

section \<open>One adder\<close>

definition adder_inv :: "(u64 \<Rightarrow> u64 \<Rightarrow> nat) \<Rightarrow> nat \<Rightarrow> policy_sys \<Rightarrow> bool" where
  "adder_inv bkt t s \<longleftrightarrow> ht_inv bkt (tab s) \<and> (\<forall>u. u \<noteq> t \<longrightarrow> pcs s u = None) \<and>
     (\<forall>a. pcs s t = Some a \<longrightarrow> find_entry bkt (tab s) (aa_dev a) (aa_ino a) = None)"

lemma find_entry_pol: "find_entry bkt ht d i = None \<longleftrightarrow> ht_pol bkt ht (d, i) = None"
  by (simp add: ht_pol_def)

lemma remove_keeps_missing:
  "ht_inv bkt ht \<Longrightarrow> find_entry bkt ht d i = None \<Longrightarrow>
     find_entry bkt (inode_policy_remove bkt ht d' i') d i = None"
  by (simp add: find_entry_pol remove_pol)

lemma adder_inv_step:
  assumes "policy_step bkt {t} s s'" and "adder_inv bkt t s"
  shows "adder_inv bkt t s'"
  using assms
proof (induction rule: policy_step.induct)
  case (add_found u s a ht')
  then show ?case by (auto simp: adder_inv_def intro: add_update_inv)
next
  case (add_missing u s a)
  then show ?case by (auto simp: adder_inv_def)
next
  case (add_nomem s u a)
  then show ?case by (auto simp: adder_inv_def)
next
  case (add_insert s u a)
  moreover from add_insert have "u = t" by (auto simp: adder_inv_def)
  ultimately show ?case by (auto simp: adder_inv_def intro: add_link_inv)
next
  case (remove s d i)
  then show ?case by (auto simp: adder_inv_def remove_inv remove_keeps_missing)
next
  case (clear s)
  then show ?case
    by (auto simp: adder_inv_def lkm.inv_clear find_entry_pol lkm.pol_clear)
qed

lemma adder_inv_reachable: "policy_reachable bkt {t} s \<Longrightarrow> adder_inv bkt t s"
proof (induction rule: policy_reachable.induct)
  case start
  show ?case by (simp add: adder_inv_def init_policy_sys_def ht_inv_init)
next
  case (step s s')
  then show ?case by (blast intro: adder_inv_step)
qed

section \<open>Properties\<close>

text \<open>With a single thread adding policies, as the agent does, every interleaving with
  hook removals and clears keeps the table free of duplicates, so that at any moment a removal
  makes its inode unprotected.\<close>

theorem single_adder_no_duplicates:
  assumes "policy_reachable bkt {t} s"
  shows "ht_inv bkt (tab s)
    \<and> inode_policy_lookup bkt (inode_policy_remove bkt (tab s) d i) d i op = None"
proof -
  have "ht_inv bkt (tab s)"
    using adder_inv_reachable [OF assms] by (simp add: adder_inv_def)
  then show ?thesis by (simp add: lookup_pol remove_pol)
qed

theorem single_adder_no_duplicates_witness:
  "ht_inv (\<lambda>_ _. 0) (tab init_policy_sys)
    \<and> inode_policy_lookup (\<lambda>_ _. 0) (inode_policy_remove (\<lambda>_ _. 0) (tab init_policy_sys) 8 77) 8 77
        IG_OP_WRITE = None"
  by (rule single_adder_no_duplicates [OF policy_reachable.start])

text \<open>With two threads adding, the interleaving in which both look up before either
  inserts is possible for every inode and hash function: the inode then has two entries, and
  after its removal it is still denied.\<close>

theorem two_adders_removal_ineffective:
  "\<exists>s. policy_reachable bkt {0, 1} s \<and> \<not> ht_inv bkt (tab s)
     \<and> inode_policy_lookup bkt (inode_policy_remove bkt (tab s) d i) d i IG_OP_WRITE = Some IG_BLOCK_DENY"
proof -
  define a where "a = \<lparr>aa_dev = d, aa_ino = i, aa_mask = IG_OP_WRITE, aa_block = IG_BLOCK_DENY,
    aa_path = None\<rparr>"
  define e where "e = new_entry d i IG_OP_WRITE IG_BLOCK_DENY None"
  define s0 where "s0 = init_policy_sys"
  define s1 where "s1 = s0\<lparr>pcs := (pcs s0)(0 := Some a)\<rparr>"
  define s2 where "s2 = s1\<lparr>pcs := (pcs s1)(1 := Some a)\<rparr>"
  define s3 where "s3 = s2\<lparr>tab := add_link bkt (tab s2) e, pcs := (pcs s2)(0 := None)\<rparr>"
  define s4 where "s4 = s3\<lparr>tab := add_link bkt (tab s3) e, pcs := (pcs s3)(1 := None)\<rparr>"
  note sys = s0_def s1_def s2_def s3_def s4_def a_def e_def init_policy_sys_def
    ig_policy_init_def find_entry_def
  have "policy_step bkt {0, 1} s0 s1"
    unfolding s1_def by (rule policy_step.add_missing) (simp_all add: sys)
  moreover have "policy_step bkt {0, 1} s1 s2"
    unfolding s2_def by (rule policy_step.add_missing) (simp_all add: sys)
  moreover have "policy_step bkt {0, 1} s2 s3"
    using policy_step.add_insert [of s2 0 a bkt "{0, 1}"] by (simp add: s3_def e_def a_def s2_def s1_def)
  moreover have "policy_step bkt {0, 1} s3 s4"
    using policy_step.add_insert [of s3 1 a bkt "{0, 1}"] by (simp add: s4_def e_def a_def s3_def s2_def)
  ultimately have "policy_reachable bkt {0, 1} s4"
    by (metis s0_def policy_reachable.start policy_reachable.step)
  moreover have tab4: "tab s4 (bkt d i) = [e, e]"
    by (simp add: sys add_link_def new_entry_def)
  then have "\<not> ht_inv bkt (tab s4)"
    by (auto simp: ht_inv_def intro!: exI [of _ "bkt d i"])
  moreover have "inode_policy_lookup bkt (inode_policy_remove bkt (tab s4) d i) d i IG_OP_WRITE
      = Some IG_BLOCK_DENY"
    using tab4 by (simp add: inode_policy_lookup_def inode_policy_remove_def find_entry_def e_def
        new_entry_def entry_is_def IG_OP_WRITE_def)
  ultimately show ?thesis by blast
qed

end
