(* ===== verification/Ancestry.thy ===== *)
theory Ancestry
  imports Ig_Prelude
begin

text \<open>
  Three loops of the agent climb from a process to its ancestors: the kernel's fork-time
  cache, its fallback over live tasks, and the \<^verbatim>\<open>/proc\<close> resolver of user space.  They share one
  shape: look the current pid up, stop with a truncated chain when it is missing, record the
  entry, stop when it is a root (its parent is init, the swapper or itself), else go on with
  the parent, and mark the chain truncated when the array is full.  \<open>walk\<close> is that loop, the
  array bound its fuel.
\<close>

fun walk :: "('k \<Rightarrow> 'e option) \<Rightarrow> ('k \<Rightarrow> 'e \<Rightarrow> bool) \<Rightarrow> ('e \<Rightarrow> 'k) \<Rightarrow> nat \<Rightarrow> 'k \<Rightarrow> 'e list \<times> bool" where
  "walk look root par 0 cur = ([], True)"
| "walk look root par (Suc n) cur =
     (case look cur of
        None \<Rightarrow> ([], True)
      | Some e \<Rightarrow>
          if root cur e then ([e], False)
          else (case walk look root par n (par e) of (es, t) \<Rightarrow> (e # es, t)))"

text \<open>
  \<open>links look root par cur es\<close>: \<open>es\<close> is a run of recorded entries from \<open>cur\<close>, each the entry of
  the previous one's parent, with no root before the last.
\<close>

fun links :: "('k \<Rightarrow> 'e option) \<Rightarrow> ('k \<Rightarrow> 'e \<Rightarrow> bool) \<Rightarrow> ('e \<Rightarrow> 'k) \<Rightarrow> 'k \<Rightarrow> 'e list \<Rightarrow> bool" where
  "links look root par cur [] = True"
| "links look root par cur (e # es) =
     (look cur = Some e \<and> (es \<noteq> [] \<longrightarrow> \<not> root cur e) \<and> links look root par (par e) es)"

text \<open>The pid at which the walk of a run of entries stands.\<close>

fun after :: "('e \<Rightarrow> 'k) \<Rightarrow> 'k \<Rightarrow> 'e list \<Rightarrow> 'k" where
  "after par cur [] = cur"
| "after par cur (e # es) = after par (par e) es"

lemma walk_length: "walk look root par n cur = (es, t) \<Longrightarrow> length es \<le> n"
  by (induction look root par n cur arbitrary: es t rule: walk.induct)
     (auto split: option.splits if_splits prod.splits)

lemma walk_links: "walk look root par n cur = (es, t) \<Longrightarrow> links look root par cur es"
  by (induction look root par n cur arbitrary: es t rule: walk.induct)
     (auto split: option.splits if_splits prod.splits)

text \<open>The flag says why the walk ended: a full array or a missing pid, or else a root.\<close>

lemma walk_truncated:
  "walk look root par n cur = (es, True) \<Longrightarrow> length es = n \<or> look (after par cur es) = None"
  by (induction look root par n cur arbitrary: es rule: walk.induct)
     (auto split: option.splits if_splits prod.splits)

lemma walk_complete:
  "walk look root par n cur = (es, False) \<Longrightarrow>
     es \<noteq> [] \<and> root (after par cur (butlast es)) (last es)"
  by (induction look root par n cur arbitrary: es rule: walk.induct)
     (auto split: option.splits if_splits prod.splits)

lemma walk_root:
  assumes "\<And>k e. look k = Some e \<Longrightarrow> key e = k"
  shows "walk look root par n cur = (es, False) \<Longrightarrow> es \<noteq> [] \<and> root (key (last es)) (last es)"
  using assms
  by (induction look root par n cur arbitrary: es rule: walk.induct)
     (auto split: option.splits if_splits prod.splits)

lemma walk_empty: "walk look root par (Suc n) cur = ([], t) \<longleftrightarrow> look cur = None \<and> t"
  by (auto split: option.splits prod.splits)

lemma links_nth:
  "links look root par cur es \<Longrightarrow> Suc i < length es \<Longrightarrow> look (par (es ! i)) = Some (es ! Suc i)"
proof (induction es arbitrary: cur i)
  case (Cons e es)
  then show ?case by (cases i; cases es) auto
qed simp

lemma links_hd: "links look root par cur es \<Longrightarrow> es \<noteq> [] \<Longrightarrow> look cur = Some (hd es)"
  by (cases es) auto

lemma links_last:
  "links look root par cur es \<Longrightarrow> es \<noteq> [] \<Longrightarrow> look (after par cur (butlast es)) = Some (last es)"
proof (induction es arbitrary: cur)
  case (Cons e es)
  then show ?case by (cases es) auto
qed simp

lemmas walk_facts = walk_length walk_links walk_truncated walk_complete

end
