(* ===== verification/Lkm_Proc_Cache.thy ===== *)
theory Lkm_Proc_Cache
  imports Ancestry
begin

text \<open>
  The fork-time process cache of the kernel module: \<^verbatim>\<open>Agent/src/lkm/ig_lkm_proc_cache.c\<close>.

  Every entry is a node of a hash table, by pid, and of one LRU list; each operation links and
  unlinks it in both at once, under one spinlock.  The state is the LRU list, most recent
  first; a hash lookup is the search of that list for the pid.  The entry counter
  \<^verbatim>\<open>ig_pc_count\<close> is separate state, as in the code, and an invariant ties the two together.
  Tasks are records of what the callbacks read from \<^verbatim>\<open>task_struct\<close>.
\<close>

definition IG_PC_MAX_ENTRIES :: nat where "IG_PC_MAX_ENTRIES = 8192"
definition IG_PC_GRACE_NS :: u64 where "IG_PC_GRACE_NS = 5 * 60 * 1000000000"
definition IG_PC_THROTTLE_RATE :: int where "IG_PC_THROTTLE_RATE = 10000"
definition IG_PC_GC_BATCH :: nat where "IG_PC_GC_BATCH = 256"
definition IG_LKM_CHAIN_MAX :: nat where "IG_LKM_CHAIN_MAX = 16"
definition IG_LKM_EXE_LEN :: nat where "IG_LKM_EXE_LEN = 128"
definition IG_LKM_CMDLINE_LEN :: nat where "IG_LKM_CMDLINE_LEN = 256"
definition IG_LKM_TTY_LEN :: nat where "IG_LKM_TTY_LEN = 16"
definition TASK_COMM_LEN :: nat where "TASK_COMM_LEN = 16"
definition PC_EXE_LEN :: nat where "PC_EXE_LEN = 256"
definition PC_CMDLINE_LEN :: nat where "PC_CMDLINE_LEN = 512"

record ig_pc_entry =
  pc_pid :: u32
  pc_ppid :: u32
  pc_uid :: u32
  pc_euid :: u32
  pc_sid :: u32
  pc_comm :: string
  pc_tty :: string
  pc_start_time_ns :: u64
  pc_exe :: string
  pc_cmdline :: string
  pc_exit_time_ns :: u64

record proc_cache =
  pc_lru :: "ig_pc_entry list"
  pc_count :: int
  pc_inserts :: u32
  pc_hits :: u32
  pc_misses :: u32
  pc_evicts :: u32
  pc_throttle :: u32
  pc_window_jiffies :: u64
  pc_window_count :: int

text \<open>\<open>t_tty = None\<close>: no signal struct or no controlling terminal.\<close>

record task =
  t_pid :: u32
  t_ppid :: u32
  t_uid :: u32
  t_euid :: u32
  t_sid :: u32
  t_start_ns :: u64
  t_comm :: string
  t_tty :: "string option"

section \<open>Helpers\<close>

definition capture_tty :: "task \<Rightarrow> nat \<Rightarrow> string" where
  "capture_tty t outlen = (case t_tty t of None \<Rightarrow> [] | Some name \<Rightarrow> strncpy0 outlen name)"

definition ig_pc_find_locked :: "proc_cache \<Rightarrow> u32 \<Rightarrow> ig_pc_entry option" where
  "ig_pc_find_locked c pid = List.find (\<lambda>e. pc_pid e = pid) (pc_lru c)"

definition pc_unlink :: "u32 \<Rightarrow> ig_pc_entry list \<Rightarrow> ig_pc_entry list" where
  "pc_unlink pid l = remove_first (\<lambda>e. pc_pid e = pid) l"

definition ig_pc_evict_one_locked :: "proc_cache \<Rightarrow> proc_cache" where
  "ig_pc_evict_one_locked c =
     (if pc_lru c = [] then c
      else c\<lparr>pc_lru := butlast (pc_lru c), pc_count := pc_count c - 1,
             pc_evicts := pc_evicts c + 1\<rparr>)"

text \<open>\<^verbatim>\<open>time_after(a, b)\<close> compares jiffies as a signed difference.\<close>

definition time_after :: "u64 \<Rightarrow> u64 \<Rightarrow> bool" where
  "time_after a b \<longleftrightarrow> sint (b - a) < 0"

definition ig_pc_should_throttle :: "u64 \<Rightarrow> u64 \<Rightarrow> proc_cache \<Rightarrow> bool \<times> proc_cache" where
  "ig_pc_should_throttle hz jiffies c =
     (let c = (if time_after jiffies (pc_window_jiffies c + hz)
               then c\<lparr>pc_window_jiffies := jiffies, pc_window_count := 0\<rparr> else c);
          c = c\<lparr>pc_window_count := pc_window_count c + 1\<rparr>
      in if pc_window_count c > IG_PC_THROTTLE_RATE
         then (True, c\<lparr>pc_throttle := pc_throttle c + 1\<rparr>) else (False, c))"

text \<open>
  \<^verbatim>\<open>capture_exec_meta\<close>: \<open>exe_path\<close> is what \<^verbatim>\<open>d_path\<close> yields for the executable, \<open>None\<close> when there
  is no \<^verbatim>\<open>mm\<close>, no executable, no page or an error; \<open>args\<close> the argument area of the process,
  \<open>None\<close> without an \<^verbatim>\<open>mm\<close>, and \<open>got\<close> how many bytes of the wanted ones
  \<^verbatim>\<open>access_process_vm\<close> copies.
\<close>

definition nul_to_space :: "string \<Rightarrow> string" where
  "nul_to_space s = map (\<lambda>c. if c = nul then CHR '' '' else c) (butlast s) @ (if s = [] then [] else [last s])"

definition capture_exec_meta :: "string option \<Rightarrow> nat \<Rightarrow> string option \<Rightarrow> (nat \<Rightarrow> nat) \<Rightarrow> nat \<Rightarrow> string \<times> string" where
  "capture_exec_meta exe_path exe_len args got cmd_len =
     ((case exe_path of None \<Rightarrow> [] | Some p \<Rightarrow> strncpy0 exe_len p),
      (case args of None \<Rightarrow> []
       | Some a \<Rightarrow>
           if length a = 0 then []
           else (let want = min (length a) (cmd_len - 1);
                     copied = min want (got want)
                 in if copied = 0 then [] else cstr (nul_to_space (take copied a)))))"

section \<open>Tracepoint callbacks\<close>

definition task_entry :: "task \<Rightarrow> u32 \<Rightarrow> ig_pc_entry" where
  "task_entry t ppid = \<lparr>pc_pid = t_pid t, pc_ppid = ppid, pc_uid = t_uid t, pc_euid = t_euid t,
     pc_sid = t_sid t, pc_comm = strncpy0 TASK_COMM_LEN (t_comm t),
     pc_tty = capture_tty t IG_LKM_TTY_LEN, pc_start_time_ns = t_start_ns t,
     pc_exe = [], pc_cmdline = [], pc_exit_time_ns = 0\<rparr>"

definition pc_drop_old :: "u32 \<Rightarrow> proc_cache \<Rightarrow> proc_cache" where
  "pc_drop_old pid c =
     (case ig_pc_find_locked c pid of
        None \<Rightarrow> c
      | Some _ \<Rightarrow> c\<lparr>pc_lru := pc_unlink pid (pc_lru c), pc_count := pc_count c - 1\<rparr>)"

definition pc_insert :: "ig_pc_entry \<Rightarrow> proc_cache \<Rightarrow> proc_cache" where
  "pc_insert e c = c\<lparr>pc_lru := e # pc_lru c, pc_count := pc_count c + 1, pc_inserts := pc_inserts c + 1\<rparr>"

definition ig_pc_on_fork :: "u64 \<Rightarrow> u64 \<Rightarrow> bool \<Rightarrow> u32 option \<Rightarrow> task option \<Rightarrow> proc_cache \<Rightarrow> proc_cache" where
  "ig_pc_on_fork hz jiffies alloc_ok parent child c =
     (case child of
        None \<Rightarrow> c
      | Some t \<Rightarrow>
          (case ig_pc_should_throttle hz jiffies c of
             (True, c) \<Rightarrow> c
           | (False, c) \<Rightarrow>
               if \<not> alloc_ok then c
               else
                 (let e = task_entry t (case parent of None \<Rightarrow> 0 | Some p \<Rightarrow> p);
                      c = pc_drop_old (pc_pid e) c;
                      c = (if pc_count c \<ge> int IG_PC_MAX_ENTRIES then ig_pc_evict_one_locked c else c)
                  in pc_insert e c)))"

definition ig_pc_on_exec :: "task option \<Rightarrow> string \<Rightarrow> string \<Rightarrow> proc_cache \<Rightarrow> proc_cache" where
  "ig_pc_on_exec task exe_buf cmd_buf c =
     (case task of
        None \<Rightarrow> c
      | Some t \<Rightarrow>
          (case ig_pc_find_locked c (t_pid t) of
             None \<Rightarrow> c
           | Some e \<Rightarrow>
               let e = (if exe_buf \<noteq> [] then e\<lparr>pc_exe := strncpy0 PC_EXE_LEN exe_buf\<rparr> else e);
                   e = (if cmd_buf \<noteq> [] then e\<lparr>pc_cmdline := strncpy0 PC_CMDLINE_LEN cmd_buf\<rparr> else e);
                   e = e\<lparr>pc_comm := strncpy0 TASK_COMM_LEN (t_comm t),
                         pc_tty := capture_tty t IG_LKM_TTY_LEN\<rparr>
               in c\<lparr>pc_lru := e # pc_unlink (t_pid t) (pc_lru c)\<rparr>))"

definition ig_pc_on_exit :: "u64 \<Rightarrow> task option \<Rightarrow> proc_cache \<Rightarrow> proc_cache" where
  "ig_pc_on_exit now_ns task c =
     (case task of
        None \<Rightarrow> c
      | Some t \<Rightarrow>
          (case ig_pc_find_locked c (t_pid t) of
             None \<Rightarrow> c
           | Some e \<Rightarrow> c\<lparr>pc_lru := pc_unlink (t_pid t) (pc_lru c) @ [e\<lparr>pc_exit_time_ns := now_ns\<rparr>]\<rparr>))"

section \<open>Chain collection and lookups\<close>

record ig_lkm_chain_entry =
  ce_pid :: u32
  ce_ppid :: u32
  ce_uid :: u32
  ce_euid :: u32
  ce_sid :: u32
  ce_comm :: string
  ce_tty :: string
  ce_start_time_ns :: u64
  ce_exe :: string
  ce_cmdline :: string

definition chain_entry_of :: "ig_pc_entry \<Rightarrow> ig_lkm_chain_entry" where
  "chain_entry_of e = \<lparr>ce_pid = pc_pid e, ce_ppid = pc_ppid e, ce_uid = pc_uid e, ce_euid = pc_euid e,
     ce_sid = pc_sid e, ce_comm = pc_comm e, ce_tty = pc_tty e, ce_start_time_ns = pc_start_time_ns e,
     ce_exe = strncpy0 IG_LKM_EXE_LEN (pc_exe e), ce_cmdline = strncpy0 IG_LKM_CMDLINE_LEN (pc_cmdline e)\<rparr>"

definition pc_root :: "u32 \<Rightarrow> ig_pc_entry \<Rightarrow> bool" where
  "pc_root cur e \<longleftrightarrow> pc_ppid e \<le> 1 \<or> pc_ppid e = cur"

text \<open>Returns the filled entries (their number is the C result) and \<^verbatim>\<open>*truncated_out\<close>.\<close>

definition ig_proc_cache_collect_chain ::
    "proc_cache \<Rightarrow> u32 \<Rightarrow> nat \<Rightarrow> (ig_lkm_chain_entry list \<times> u8) \<times> proc_cache" where
  "ig_proc_cache_collect_chain c start_pid max_depth =
     (if max_depth = 0 then (([], 0), c)
      else
        (case walk (ig_pc_find_locked c) pc_root pc_ppid max_depth start_pid of
           (es, trunc) \<Rightarrow>
             ((map chain_entry_of es, if trunc then 1 else 0),
              c\<lparr>pc_hits := pc_hits c + of_nat (length es),
                pc_misses := pc_misses c + (if trunc \<and> length es < max_depth then 1 else 0)\<rparr>)))"

definition ig_proc_cache_lookup_full :: "proc_cache \<Rightarrow> u32 \<Rightarrow> nat \<Rightarrow> nat \<Rightarrow> nat \<Rightarrow> (string \<times> string \<times> string) option" where
  "ig_proc_cache_lookup_full c pid comm_len exe_len cmd_len =
     map_option (\<lambda>e. (strncpy0 comm_len (pc_comm e), strncpy0 exe_len (pc_exe e),
                      strncpy0 cmd_len (pc_cmdline e))) (ig_pc_find_locked c pid)"

definition ig_proc_cache_get_stats :: "proc_cache \<Rightarrow> u32 \<times> u32 \<times> u32 \<times> u32 \<times> u32 \<times> u32" where
  "ig_proc_cache_get_stats c =
     (word_of_int (pc_count c), pc_inserts c, pc_hits c, pc_misses c, pc_evicts c, pc_throttle c)"

section \<open>Garbage collection, preload, load and unload\<close>

definition pc_expired :: "u64 \<Rightarrow> ig_pc_entry \<Rightarrow> bool" where
  "pc_expired now_ns e \<longleftrightarrow> pc_exit_time_ns e \<noteq> 0 \<and> \<not> (now_ns - pc_exit_time_ns e < IG_PC_GRACE_NS)"

text \<open>One pass from the tail, given as the reversed list; stops after \<^verbatim>\<open>reaped >= 256\<close>.\<close>

fun gc_pass :: "u64 \<Rightarrow> nat \<Rightarrow> ig_pc_entry list \<Rightarrow> ig_pc_entry list \<times> nat" where
  "gc_pass now_ns reaped [] = ([], reaped)"
| "gc_pass now_ns reaped (e # rest) =
     (if pc_exit_time_ns e = 0 \<or> now_ns - pc_exit_time_ns e < IG_PC_GRACE_NS
      then (case gc_pass now_ns reaped rest of (l, r) \<Rightarrow> (e # l, r))
      else if Suc reaped \<ge> IG_PC_GC_BATCH then (rest, Suc reaped)
      else gc_pass now_ns (Suc reaped) rest)"

definition ig_pc_gc_work :: "u64 \<Rightarrow> proc_cache \<Rightarrow> proc_cache" where
  "ig_pc_gc_work now_ns c =
     (case gc_pass now_ns 0 (rev (pc_lru c)) of
        (l, reaped) \<Rightarrow> c\<lparr>pc_lru := rev l, pc_count := pc_count c - int reaped\<rparr>)"

text \<open>The tasks of \<^verbatim>\<open>for_each_process\<close>, each with the outcome of its allocation.\<close>

fun ig_pc_preload :: "(task \<times> bool) list \<Rightarrow> proc_cache \<Rightarrow> proc_cache" where
  "ig_pc_preload [] c = c"
| "ig_pc_preload ((t, alloc_ok) # ts) c =
     (if \<not> alloc_ok then ig_pc_preload ts c
      else if pc_count c \<ge> int IG_PC_MAX_ENTRIES then c
      else if ig_pc_find_locked c (t_pid t) \<noteq> None then ig_pc_preload ts c
      else ig_pc_preload ts (pc_insert (task_entry t (t_ppid t)) c))"

definition empty_cache :: "u64 \<Rightarrow> proc_cache" where
  "empty_cache jiffies = \<lparr>pc_lru = [], pc_count = 0, pc_inserts = 0, pc_hits = 0, pc_misses = 0,
     pc_evicts = 0, pc_throttle = 0, pc_window_jiffies = jiffies, pc_window_count = 0\<rparr>"

text \<open>
  Registration of the three tracepoints: \<open>regs\<close> gives the return codes of the kernel's
  \<^verbatim>\<open>tracepoint_probe_register\<close> for fork, exec and exit.  The result names the tracepoints still
  registered, so that the unwinding of the error paths is visible.
\<close>

datatype tracepoint = TpFork | TpExec | TpExit

definition register_tracepoints :: "(tracepoint \<Rightarrow> int) \<Rightarrow> int \<times> tracepoint list" where
  "register_tracepoints regs =
     (if regs TpFork \<noteq> 0 then (regs TpFork, [])
      else if regs TpExec \<noteq> 0 then (regs TpExec, remove1 TpFork [TpFork])
      else if regs TpExit \<noteq> 0 then (regs TpExit, remove1 TpFork (remove1 TpExec [TpFork, TpExec]))
      else (0, [TpFork, TpExec, TpExit]))"

text \<open>
  \<open>kallsyms\<close> is the result of \<^verbatim>\<open>pc_resolve_kallsyms\<close>, \<open>syms\<close> whether all three symbols were found
  (kernels from 3.15 on).
\<close>

definition ig_proc_cache_init ::
    "int \<Rightarrow> bool \<Rightarrow> (tracepoint \<Rightarrow> int) \<Rightarrow> u64 \<Rightarrow> (task \<times> bool) list \<Rightarrow> int \<times> tracepoint list \<times> proc_cache" where
  "ig_proc_cache_init kallsyms syms regs jiffies tasks =
     (if kallsyms \<noteq> 0 then (kallsyms, [], empty_cache jiffies)
      else if \<not> syms then (-2, [], empty_cache jiffies)
      else (case register_tracepoints regs of
        (rc, tps) \<Rightarrow> if rc \<noteq> 0 then (rc, tps, empty_cache jiffies)
          else (0, tps, ig_pc_preload tasks (empty_cache jiffies))))"

text \<open>A tracepoint is unregistered when its registration flag is set, that is when it is listed.\<close>

definition ig_proc_cache_exit :: "tracepoint list \<times> proc_cache \<Rightarrow> tracepoint list \<times> proc_cache" where
  "ig_proc_cache_exit s = (case s of (tps, c) \<Rightarrow>
     (remove1 TpFork (remove1 TpExec (remove1 TpExit tps)), c\<lparr>pc_lru := [], pc_count := 0\<rparr>))"


section \<open>The invariant\<close>

definition pc_inv :: "proc_cache \<Rightarrow> bool" where
  "pc_inv c \<longleftrightarrow> distinct (map pc_pid (pc_lru c)) \<and> pc_count c = int (length (pc_lru c))
     \<and> length (pc_lru c) \<le> IG_PC_MAX_ENTRIES"

named_theorems pc_step "preservation of the cache invariant"

lemma pc_find_Some: "ig_pc_find_locked c pid = Some e \<Longrightarrow> pc_pid e = pid \<and> e \<in> set (pc_lru c)"
  unfolding ig_pc_find_locked_def by (rule find_key_Some)

lemma pc_find_None: "ig_pc_find_locked c pid = None \<longleftrightarrow> pid \<notin> pc_pid ` set (pc_lru c)"
  unfolding ig_pc_find_locked_def by (rule find_key_None)

lemma pc_unlink_facts:
  assumes "pc_inv c"
  shows "distinct (map pc_pid (pc_unlink pid (pc_lru c)))"
    and "pid \<notin> pc_pid ` set (pc_unlink pid (pc_lru c))"
    and "ig_pc_find_locked c pid \<noteq> None \<Longrightarrow> Suc (length (pc_unlink pid (pc_lru c))) = length (pc_lru c)"
    and "q \<noteq> pid \<Longrightarrow> List.find (\<lambda>e. pc_pid e = q) (pc_unlink pid (pc_lru c)) = ig_pc_find_locked c q"
  using assms
  by (auto simp: pc_unlink_def pc_inv_def distinct_remove_first remove_first_key_gone
      length_remove_first ig_pc_find_locked_def find_remove_first_other)

lemma pc_drop_old_facts:
  assumes "pc_inv c"
  shows "pc_inv (pc_drop_old pid c)" and "ig_pc_find_locked (pc_drop_old pid c) pid = None"
    and "q \<noteq> pid \<Longrightarrow> ig_pc_find_locked (pc_drop_old pid c) q = ig_pc_find_locked c q"
proof -
  show "pc_inv (pc_drop_old pid c)"
    using assms pc_unlink_facts [OF assms, of pid]
    by (auto simp: pc_drop_old_def pc_inv_def split: option.splits)
  show "ig_pc_find_locked (pc_drop_old pid c) pid = None"
    using pc_unlink_facts(2) [OF assms, of pid]
    by (auto simp: pc_drop_old_def pc_find_None split: option.splits)
  show "q \<noteq> pid \<Longrightarrow> ig_pc_find_locked (pc_drop_old pid c) q = ig_pc_find_locked c q"
    using pc_unlink_facts(4) [OF assms]
    by (auto simp: pc_drop_old_def ig_pc_find_locked_def split: option.splits)
qed

lemma pc_evict_facts:
  assumes "pc_inv c"
  shows "pc_inv (ig_pc_evict_one_locked c)"
    and "pc_lru c \<noteq> [] \<Longrightarrow> length (pc_lru (ig_pc_evict_one_locked c)) < IG_PC_MAX_ENTRIES"
    and "ig_pc_find_locked c pid = None \<Longrightarrow> ig_pc_find_locked (ig_pc_evict_one_locked c) pid = None"
  using assms
  by (auto simp: ig_pc_evict_one_locked_def pc_inv_def map_butlast distinct_butlast pc_find_None
      of_nat_diff Suc_le_eq neq_Nil_conv dest: in_set_butlastD)

lemma pc_insert_inv:
  "pc_inv c \<Longrightarrow> ig_pc_find_locked c (pc_pid e) = None \<Longrightarrow> length (pc_lru c) < IG_PC_MAX_ENTRIES \<Longrightarrow>
     pc_inv (pc_insert e c)"
  by (auto simp: pc_inv_def pc_insert_def pc_find_None)

lemma pc_throttle_frame [simp]:
  "ig_pc_should_throttle hz j c = (b, c') \<Longrightarrow> pc_lru c' = pc_lru c \<and> pc_count c' = pc_count c"
  by (auto simp: ig_pc_should_throttle_def Let_def split: if_splits)

lemma pc_max_pos: "0 < IG_PC_MAX_ENTRIES"
  by (simp add: IG_PC_MAX_ENTRIES_def)

text \<open>Making room: what the fork callback does between the lookup and the insertion.\<close>

definition pc_room :: "proc_cache \<Rightarrow> proc_cache" where
  "pc_room c = (if pc_count c \<ge> int IG_PC_MAX_ENTRIES then ig_pc_evict_one_locked c else c)"

lemma pc_room_facts:
  assumes "pc_inv c"
  shows "pc_inv (pc_room c)" "length (pc_lru (pc_room c)) < IG_PC_MAX_ENTRIES"
    "ig_pc_find_locked c pid = None \<Longrightarrow> ig_pc_find_locked (pc_room c) pid = None"
proof -
  have "pc_lru c \<noteq> []" if "pc_count c \<ge> int IG_PC_MAX_ENTRIES"
    using that assms pc_max_pos by (auto simp: pc_inv_def)
  then show "pc_inv (pc_room c)" "length (pc_lru (pc_room c)) < IG_PC_MAX_ENTRIES"
    "ig_pc_find_locked c pid = None \<Longrightarrow> ig_pc_find_locked (pc_room c) pid = None"
    using assms pc_evict_facts [OF assms] by (auto simp: pc_room_def pc_inv_def)
qed

lemma on_fork_eq:
  "ig_pc_on_fork hz j alloc_ok parent (Some t) c =
     (case ig_pc_should_throttle hz j c of
        (True, c) \<Rightarrow> c
      | (False, c) \<Rightarrow> if \<not> alloc_ok then c
          else pc_insert (task_entry t (case parent of None \<Rightarrow> 0 | Some p \<Rightarrow> p))
                 (pc_room (pc_drop_old (t_pid t) c)))"
  by (simp add: ig_pc_on_fork_def pc_room_def task_entry_def Let_def split: prod.splits bool.splits)

lemma on_fork_inv [pc_step]:
  assumes "pc_inv c" shows "pc_inv (ig_pc_on_fork hz j ok parent child c)"
proof (cases child)
  case None
  with assms show ?thesis by (simp add: ig_pc_on_fork_def)
next
  case (Some t)
  obtain b c1 where th: "ig_pc_should_throttle hz j c = (b, c1)" by fastforce
  then have inv1: "pc_inv c1" using assms pc_throttle_frame [OF th] by (simp add: pc_inv_def)
  note dropped = pc_drop_old_facts [OF inv1, of "t_pid t"]
  have "pc_inv (pc_insert e (pc_room (pc_drop_old (t_pid t) c1)))" if "pc_pid e = t_pid t" for e
    using that dropped by (intro pc_insert_inv pc_room_facts) simp_all
  then show ?thesis
    using Some th inv1 by (auto simp: on_fork_eq task_entry_def split: bool.splits)
qed

lemma on_exec_inv [pc_step]:
  assumes "pc_inv c" shows "pc_inv (ig_pc_on_exec task exe cmd c)"
proof (cases "task = None \<or> ig_pc_find_locked c (t_pid (the task)) = None")
  case True
  with assms show ?thesis by (auto simp: ig_pc_on_exec_def split: option.splits)
next
  case False
  then obtain t e where t: "task = Some t" "ig_pc_find_locked c (t_pid t) = Some e" by auto
  then show ?thesis
    using assms pc_unlink_facts [OF assms, of "t_pid t"] pc_find_Some [OF t(2)]
    by (auto simp: ig_pc_on_exec_def Let_def pc_inv_def)
qed

lemma on_exit_inv [pc_step]:
  assumes "pc_inv c" shows "pc_inv (ig_pc_on_exit now task c)"
proof (cases "task = None \<or> ig_pc_find_locked c (t_pid (the task)) = None")
  case True
  with assms show ?thesis by (auto simp: ig_pc_on_exit_def split: option.splits)
next
  case False
  then obtain t e where t: "task = Some t" "ig_pc_find_locked c (t_pid t) = Some e" by auto
  then show ?thesis
    using assms pc_unlink_facts [OF assms, of "t_pid t"] pc_find_Some [OF t(2)]
    by (auto simp: ig_pc_on_exit_def pc_inv_def)
qed

lemma collect_chain_inv [pc_step]:
  "pc_inv c \<Longrightarrow> pc_inv (snd (ig_proc_cache_collect_chain c pid n))"
  by (auto simp: ig_proc_cache_collect_chain_def pc_inv_def split: prod.splits)

lemma preload_inv [pc_step]: "pc_inv c \<Longrightarrow> pc_inv (ig_pc_preload ts c)"
proof (induction ts c rule: ig_pc_preload.induct)
  case (2 t ok ts c)
  show ?case
  proof (cases "ok \<and> \<not> pc_count c \<ge> int IG_PC_MAX_ENTRIES \<and> ig_pc_find_locked c (t_pid t) = None")
    case True
    then have "pc_inv (pc_insert (task_entry t (t_ppid t)) c)"
      using "2.prems" by (intro pc_insert_inv) (auto simp: task_entry_def pc_inv_def)
    with True 2 show ?thesis by simp
  next
    case False
    with 2 show ?thesis by auto
  qed
qed simp

lemma gc_pass_facts:
  "gc_pass now r l = (l', r') \<Longrightarrow>
     length l + r = length l' + r' \<and> set l' \<subseteq> set l
     \<and> (distinct (map pc_pid l) \<longrightarrow> distinct (map pc_pid l')) \<and> (\<forall>e \<in> set l. \<not> pc_expired now e \<longrightarrow> e \<in> set l')"
proof (induction now r l arbitrary: l' r' rule: gc_pass.induct)
  case (1 now r)
  then show ?case by auto
next
  case (2 now r e rest)
  consider (keep) "\<not> pc_expired now e" | (last) "pc_expired now e" "Suc r \<ge> IG_PC_GC_BATCH"
    | (reap) "pc_expired now e" "\<not> Suc r \<ge> IG_PC_GC_BATCH" by blast
  then show ?case
  proof cases
    case keep
    then obtain l1 where l1: "gc_pass now r rest = (l1, r')" "l' = e # l1"
      using "2.prems" by (auto simp: pc_expired_def split: prod.splits)
    show ?thesis
      using "2.IH"(1) [OF _ l1(1)] keep l1(2) by (fastforce simp: pc_expired_def)
  next
    case last
    then have "l' = rest" "r' = Suc r" using "2.prems" by (auto simp: pc_expired_def)
    with last show ?thesis by auto
  next
    case reap
    then have l': "gc_pass now (Suc r) rest = (l', r')"
      using "2.prems" by (auto simp: pc_expired_def)
    show ?thesis
      using "2.IH"(2) [OF _ _ l'] reap by (auto simp: pc_expired_def)
  qed
qed

lemma gc_work_facts:
  obtains reaped where "length (pc_lru c) = length (pc_lru (ig_pc_gc_work now c)) + reaped"
    and "set (pc_lru (ig_pc_gc_work now c)) \<subseteq> set (pc_lru c)"
    and "distinct (map pc_pid (pc_lru c)) \<Longrightarrow> distinct (map pc_pid (pc_lru (ig_pc_gc_work now c)))"
    and "pc_count (ig_pc_gc_work now c) = pc_count c - int reaped"
    and "\<forall>e \<in> set (pc_lru c). \<not> pc_expired now e \<longrightarrow> e \<in> set (pc_lru (ig_pc_gc_work now c))"
proof -
  obtain l r where gc: "gc_pass now 0 (rev (pc_lru c)) = (l, r)" by fastforce
  with gc_pass_facts [OF gc] show ?thesis
    by (intro that [of r]) (auto simp: ig_pc_gc_work_def rev_map [symmetric])
qed

lemma gc_inv [pc_step]: 
  assumes "pc_inv c" shows "pc_inv (ig_pc_gc_work now c)"
  by (rule gc_work_facts [of c now]) (use assms in \<open>auto simp: pc_inv_def\<close>)


section \<open>Runs\<close>

text \<open>Any sequence of callbacks, chain collections and collector passes, in the order of the lock.\<close>

datatype pc_event =
    PcFork u64 bool "u32 option" "task option"
  | PcExec "task option" string string
  | PcExit u64 "task option"
  | PcCollect u32 nat
  | PcGc u64

fun pc_apply :: "u64 \<Rightarrow> proc_cache \<Rightarrow> pc_event \<Rightarrow> proc_cache" where
  "pc_apply hz c (PcFork j ok parent child) = ig_pc_on_fork hz j ok parent child c"
| "pc_apply hz c (PcExec t exe cmd) = ig_pc_on_exec t exe cmd c"
| "pc_apply hz c (PcExit now t) = ig_pc_on_exit now t c"
| "pc_apply hz c (PcCollect p n) = snd (ig_proc_cache_collect_chain c p n)"
| "pc_apply hz c (PcGc now) = ig_pc_gc_work now c"

lemma pc_apply_inv: "pc_inv c \<Longrightarrow> pc_inv (pc_apply hz c ev)"
  by (cases ev) (auto simp: pc_step)

lemma pc_run_inv: "pc_inv c \<Longrightarrow> pc_inv (foldl (pc_apply hz) c evs)"
  by (induction evs arbitrary: c) (auto intro: pc_apply_inv)

lemma empty_cache_inv: "pc_inv (empty_cache j)"
  by (simp add: pc_inv_def empty_cache_def)

lemma proc_cache_init_inv: "ig_proc_cache_init k syms regs j ts = (rc, tps, c) \<Longrightarrow> pc_inv c"
  by (auto simp: ig_proc_cache_init_def empty_cache_inv preload_inv split: if_splits prod.splits)

section \<open>Properties\<close>

text \<open>C20. From module load on, whatever sequence of forks, execs, exits, chain collections and
  collector passes runs, the cache holds at most 8192 entries, one per pid, and the counter the
  fork path trusts is exactly their number.\<close>

theorem proc_cache_bounded:
  fixes hz :: u64 and evs :: "pc_event list"
  assumes "ig_proc_cache_init k syms regs j tasks = (rc, tps, c0)"
  defines "c \<equiv> foldl (pc_apply hz) c0 evs"
  shows "pc_count c = int (length (pc_lru c)) \<and> length (pc_lru c) \<le> IG_PC_MAX_ENTRIES
    \<and> distinct (map pc_pid (pc_lru c))"
  using pc_run_inv [OF proc_cache_init_inv [OF assms(1)], of hz evs] by (simp add: pc_inv_def c_def)

definition sample_task :: "u32 \<Rightarrow> u32 \<Rightarrow> task" where
  "sample_task p pp = \<lparr>t_pid = p, t_ppid = pp, t_uid = 0, t_euid = 0, t_sid = p, t_start_ns = 0,
     t_comm = ''bash'', t_tty = None\<rparr>"

theorem proc_cache_bounded_witness:
  "pc_count (foldl (pc_apply 250) (empty_cache 0) [PcFork 1 True (Some 1) (Some (sample_task 5 1))])
   = int (length (pc_lru (foldl (pc_apply 250) (empty_cache 0) [PcFork 1 True (Some 1) (Some (sample_task 5 1))])))"
  using proc_cache_bounded [of 0 True "\<lambda>_. 0" 0 "[]" 0 "[TpFork, TpExec, TpExit]" "empty_cache 0" 250
      "[PcFork 1 True (Some 1) (Some (sample_task 5 1))]"]
  by (simp add: ig_proc_cache_init_def register_tracepoints_def)

lemma find_pc_insert:
  "ig_pc_find_locked (pc_insert e c) q = (if q = pc_pid e then Some e else ig_pc_find_locked c q)"
  by (auto simp: ig_pc_find_locked_def pc_insert_def)

lemma find_pc_room:
  assumes "pc_inv c"
  shows "ig_pc_find_locked (pc_room c) q =
    (if length (pc_lru c) \<ge> IG_PC_MAX_ENTRIES \<and> q = pc_pid (last (pc_lru c)) then None
     else ig_pc_find_locked c q)"
proof (cases "length (pc_lru c) \<ge> IG_PC_MAX_ENTRIES")
  case False
  with assms show ?thesis by (auto simp: pc_room_def pc_inv_def)
next
  case True
  then have ne: "pc_lru c \<noteq> []" using pc_max_pos by auto
  let ?l = "butlast (pc_lru c)" and ?e = "last (pc_lru c)"
  have l: "pc_lru c = ?l @ [?e]" using ne by simp
  then have "distinct (map pc_pid (?l @ [?e]))" using assms by (simp add: pc_inv_def)
  then have fresh: "List.find (\<lambda>e. pc_pid e = pc_pid ?e) ?l = None" by (auto simp: find_key_None)
  have room: "pc_lru (pc_room c) = ?l"
    using True assms ne by (simp add: pc_room_def pc_inv_def ig_pc_evict_one_locked_def)
  have "ig_pc_find_locked c q = List.find (\<lambda>e. pc_pid e = q) (?l @ [?e])"
    using l by (simp add: ig_pc_find_locked_def)
  with room fresh True show ?thesis
    by (auto simp: ig_pc_find_locked_def find_append split: option.splits)
qed

text \<open>A fork that is neither throttled nor out of memory leaves the cache with a live entry
  for the child, replacing any entry of a reused pid; every other process keeps its entry,
  except that a full cache gives up exactly the one at the tail of the LRU list.\<close>

theorem on_fork_lookup:
  fixes pp :: u32 and t :: task
  assumes "pc_inv c" and "ig_pc_should_throttle hz j c = (False, c1)"
  defines "c2 \<equiv> ig_pc_on_fork hz j True (Some pp) (Some t) c"
    and "kept \<equiv> pc_drop_old (t_pid t) c"
  shows "ig_pc_find_locked c2 (t_pid t) = Some (task_entry t pp)
    \<and> pc_exit_time_ns (task_entry t pp) = 0
    \<and> (q \<noteq> t_pid t \<longrightarrow> ig_pc_find_locked c2 q =
         (if length (pc_lru kept) = IG_PC_MAX_ENTRIES \<and> q = pc_pid (last (pc_lru kept)) then None
          else ig_pc_find_locked c q))"
proof -
  have inv1: "pc_inv c1"
    using assms(1) pc_throttle_frame [OF assms(2)] by (simp add: pc_inv_def)
  have lru: "pc_lru (pc_drop_old p c1) = pc_lru (pc_drop_old p c)" for p
    using pc_throttle_frame [OF assms(2)] by (auto simp: pc_drop_old_def ig_pc_find_locked_def split: option.splits)
  have c2: "c2 = pc_insert (task_entry t pp) (pc_room (pc_drop_old (t_pid t) c1))"
    by (simp add: c2_def on_fork_eq assms(2))
  note dropped = pc_drop_old_facts [OF inv1, where pid = "t_pid t"]
  have len: "length (pc_lru kept) \<le> IG_PC_MAX_ENTRIES"
    using dropped(1) lru by (simp add: pc_inv_def kept_def)
  have "ig_pc_find_locked c1 q = ig_pc_find_locked c q" for q
    using pc_throttle_frame [OF assms(2)] by (simp add: ig_pc_find_locked_def)
  with dropped(3) len show ?thesis
    by (auto simp: c2 find_pc_insert find_pc_room [OF dropped(1)] task_entry_def lru kept_def)
qed

theorem on_fork_lookup_witness:
  "ig_pc_find_locked (ig_pc_on_fork 250 0 True (Some 1) (Some (sample_task 5 1)) (empty_cache 0)) 5
    = Some (task_entry (sample_task 5 1) 1)"
proof -
  have "ig_pc_should_throttle 250 0 (empty_cache 0) = (False, (empty_cache 0)\<lparr>pc_window_count := 1\<rparr>)"
    by (simp add: ig_pc_should_throttle_def time_after_def empty_cache_def IG_PC_THROTTLE_RATE_def
        Let_def)
  from on_fork_lookup [OF empty_cache_inv this, of 1 "sample_task 5 1"]
  show ?thesis by (simp add: sample_task_def)
qed

lemma pc_chain_facts:
  assumes "ig_proc_cache_collect_chain c start n = ((es, trunc), c')"
  shows "length es \<le> n
    \<and> (es \<noteq> [] \<longrightarrow> ce_pid (es ! 0) = start)
    \<and> (\<forall>i. Suc i < length es \<longrightarrow> ce_pid (es ! Suc i) = ce_ppid (es ! i))
    \<and> (trunc = 0 \<and> 0 < n \<longrightarrow> es \<noteq> [] \<and> (ce_ppid (last es) \<le> 1 \<or> ce_ppid (last es) = ce_pid (last es)))
    \<and> pc_lru c' = pc_lru c"
proof (cases "n = 0")
  case True
  with assms show ?thesis by (auto simp: ig_proc_cache_collect_chain_def)
next
  case False
  obtain ps b where w: "walk (ig_pc_find_locked c) pc_root pc_ppid n start = (ps, b)" by fastforce
  have es: "es = map chain_entry_of ps" and tr: "trunc = (if b then 1 else 0)"
    and c': "pc_lru c' = pc_lru c"
    using assms False w by (auto simp: ig_proc_cache_collect_chain_def)
  note links = walk_links [OF w]
  have hd: "pc_pid (hd ps) = start" if "ps \<noteq> []"
    using links_hd [OF links that] pc_find_Some by blast
  have nth: "pc_pid (ps ! Suc i) = pc_ppid (ps ! i)" if "Suc i < length ps" for i
    using links_nth [OF links that] pc_find_Some by blast
  have root: "ps \<noteq> [] \<and> (pc_ppid (last ps) \<le> 1 \<or> pc_ppid (last ps) = pc_pid (last ps))" if "\<not> b"
  proof -
    from that w have "walk (ig_pc_find_locked c) pc_root pc_ppid n start = (ps, False)" by simp
    from walk_root [OF _ this, of pc_pid] show ?thesis
      using pc_find_Some by (auto simp: pc_root_def)
  qed
  show ?thesis
    using walk_length [OF w] hd nth root
    by (auto simp: es tr c' chain_entry_of_def last_map hd_conv_nth split: if_splits)
qed



text \<open>The collector pass only reaps tombstones: an entry of a live process, or one whose
  process exited less than five minutes before, survives it; nothing is added or changed.\<close>

theorem gc_reaps_only_expired:
  assumes "pc_inv c" and "e \<in> set (pc_lru c)"
    and "pc_exit_time_ns e = 0 \<or> now - pc_exit_time_ns e < IG_PC_GRACE_NS"
  shows "ig_pc_find_locked (ig_pc_gc_work now c) (pc_pid e) = Some e
    \<and> set (pc_lru (ig_pc_gc_work now c)) \<subseteq> set (pc_lru c)"
proof (rule gc_work_facts [of c now])
  fix reaped
  assume gc: "set (pc_lru (ig_pc_gc_work now c)) \<subseteq> set (pc_lru c)"
    "\<forall>e \<in> set (pc_lru c). \<not> pc_expired now e \<longrightarrow> e \<in> set (pc_lru (ig_pc_gc_work now c))"
  then have "e \<in> set (pc_lru (ig_pc_gc_work now c))"
    using assms(2,3) by (auto simp: pc_expired_def)
  with gc(1) gc_inv [OF assms(1), of now] show ?thesis
    by (auto simp: ig_pc_find_locked_def pc_inv_def find_key_member)
qed

theorem gc_reaps_only_expired_witness:
  "ig_pc_find_locked (ig_pc_gc_work 99 (pc_insert (task_entry (sample_task 5 1) 1) (empty_cache 0))) 5
    = Some (task_entry (sample_task 5 1) 1)"
proof -
  have "pc_inv (pc_insert (task_entry (sample_task 5 1) 1) (empty_cache 0))"
    by (simp add: pc_inv_def pc_insert_def empty_cache_def IG_PC_MAX_ENTRIES_def)
  from gc_reaps_only_expired [OF this, of "task_entry (sample_task 5 1) 1" 99]
  show ?thesis by (simp add: pc_insert_def task_entry_def sample_task_def)
qed

text \<open>The five-minute grace is measured on the wall clock: when that clock is set back by
  any amount up to 2^63 ns between an exit and a collector pass, the unsigned difference wraps
  and the tombstone counts as expired at once.\<close>

theorem gc_grace_lost_on_clock_step:
  assumes "0 < d" and "d \<le> 2 ^ 63" and "pc_exit_time_ns e = now + d" and "now + d \<noteq> 0"
  shows "pc_expired now e"
proof -
  have "unat (- d) = 2 ^ 64 - unat d"
    using assms(1) unat_sub_if' [of 0 d] by (simp add: word_gt_0 unat_gt_0)
  moreover have "unat d \<le> 2 ^ 63"
    using assms(2) by (simp add: word_le_nat_alt)
  ultimately have "\<not> - d < IG_PC_GRACE_NS"
    by (simp add: word_less_nat_alt IG_PC_GRACE_NS_def)
  then show ?thesis
    using assms(3,4) by (simp add: pc_expired_def)
qed

theorem gc_grace_lost_on_clock_step_witness:
  "pc_expired 1000 ((task_entry (sample_task 5 1) 1)\<lparr>pc_exit_time_ns := 1001\<rparr>)"
  by (rule gc_grace_lost_on_clock_step [of 1]) simp_all

text \<open>Fork-bomb protection: over any run of forks that stays in one window (no reset of the
  one-second window), at most 10000 minus those already counted pass the throttle.\<close>

fun throttle_run :: "u64 \<Rightarrow> u64 list \<Rightarrow> proc_cache \<Rightarrow> nat \<times> proc_cache" where
  "throttle_run hz [] c = (0, c)"
| "throttle_run hz (j # js) c =
     (case ig_pc_should_throttle hz j c of
        (b, c') \<Rightarrow> (case throttle_run hz js c' of (n, c'') \<Rightarrow> ((if b then n else Suc n), c'')))"

lemma throttle_same_window:
  "\<not> time_after j (pc_window_jiffies c + hz) \<Longrightarrow> ig_pc_should_throttle hz j c = (b, c') \<Longrightarrow>
     pc_window_jiffies c' = pc_window_jiffies c \<and> pc_window_count c' = pc_window_count c + 1
     \<and> (b \<longleftrightarrow> pc_window_count c + 1 > IG_PC_THROTTLE_RATE)"
  unfolding ig_pc_should_throttle_def Let_def by (clarsimp split: if_split_asm)

theorem fork_throttle_bound:
  assumes "\<forall>j \<in> set js. \<not> time_after j (pc_window_jiffies c + hz)" and "0 \<le> pc_window_count c"
  shows "int (fst (throttle_run hz js c)) \<le> max 0 (IG_PC_THROTTLE_RATE - pc_window_count c)"
  using assms
proof (induction js arbitrary: c)
  case Nil
  then show ?case by simp
next
  case (Cons j js)
  obtain b c' where th: "ig_pc_should_throttle hz j c = (b, c')" by fastforce
  then have c': "pc_window_jiffies c' = pc_window_jiffies c" "pc_window_count c' = pc_window_count c + 1"
    "b \<longleftrightarrow> pc_window_count c + 1 > IG_PC_THROTTLE_RATE"
    using throttle_same_window [OF _ th] Cons.prems(1) by simp_all
  obtain n c'' where run: "throttle_run hz js c' = (n, c'')" by fastforce
  have "int (fst (throttle_run hz js c')) \<le> max 0 (IG_PC_THROTTLE_RATE - pc_window_count c')"
  proof (rule Cons.IH)
    show "\<forall>j \<in> set js. \<not> time_after j (pc_window_jiffies c' + hz)"
      using Cons.prems(1) unfolding c'(1) by simp
    show "0 \<le> pc_window_count c'" using Cons.prems(2) unfolding c'(2) by simp
  qed
  with run c'(2) have n: "int n \<le> max 0 (IG_PC_THROTTLE_RATE - (pc_window_count c + 1))" by simp
  show ?case
    using n c'(3) unfolding throttle_run.simps th run prod.case by (cases b) simp_all
qed

theorem fork_throttle_bound_witness:
  "int (fst (throttle_run 250 [0, 1, 2] (empty_cache 0))) \<le> max 0 (IG_PC_THROTTLE_RATE - 0)"
  using fork_throttle_bound [of "[0, 1, 2]" "empty_cache 0" 250]
  by (simp add: empty_cache_def time_after_def)

end
