(* ===== verification/Lkm_Events.thy ===== *)
theory Lkm_Events
  imports Queue_Interface Lkm_Policy Lkm_Proc_Cache
begin

text \<open>
  The event path of the kernel module: \<^verbatim>\<open>Agent/src/lkm/ig_lkm_events.c\<close> (capture of the process
  chain, the kernel FIFO), the blocking read and poll of \<^verbatim>\<open>ig_lkm_chardev.c\<close>, and the life cycle
  of \<^verbatim>\<open>ig_lkm_main.c\<close>.  The module's state is one record: policy table, process cache, FIFO and
  the pending flag of its work item.
\<close>

definition IG_EVENT_LKM_QUEUE_SIZE :: nat where "IG_EVENT_LKM_QUEUE_SIZE = 64"

record ig_lkm_event =
  le_dev :: u64
  le_ino :: u64
  le_op :: u32
  le_blocked :: u32
  le_pid :: u32
  le_uid :: u32
  le_comm :: string
  le_path :: string
  le_timestamp_ns :: u64
  le_chain_depth :: u8
  le_chain_truncated :: u8
  le_chain :: "ig_lkm_chain_entry list"

text \<open>\<^verbatim>\<open>sizeof(struct ig_lkm_event)\<close>: 320 bytes and sixteen chain entries of 448.\<close>

definition sizeof_lkm_event :: nat where "sizeof_lkm_event = 320 + IG_LKM_CHAIN_MAX * 448"

record lkm =
  lk_table :: policy_ht
  lk_cache :: proc_cache
  lk_fifo :: "ig_lkm_event list"
  lk_work :: bool

text \<open>
  What the code reads of the kernel while it runs in a process: \<open>cx_tasks\<close> is the live task list
  by task pointer, with the \<^verbatim>\<open>real_parent\<close> pointer of each, \<open>cx_current\<close> the pointer of the
  running task and \<open>cx_alloc\<close> whether the atomic allocation succeeds.
\<close>

record live_task =
  lt_task :: task
  lt_parent :: "nat option"

record lkm_ctx =
  cx_tasks :: "nat \<Rightarrow> live_task"
  cx_current :: nat
  cx_tgid :: u32
  cx_uid :: u32
  cx_now :: u64
  cx_alloc :: bool

section \<open>Capturing the chain\<close>

definition live_ppid :: "(nat \<Rightarrow> live_task) \<Rightarrow> nat \<Rightarrow> u32" where
  "live_ppid tasks t = (case lt_parent (tasks t) of None \<Rightarrow> 0 | Some p \<Rightarrow> t_pid (lt_task (tasks p)))"

definition live_entry :: "(nat \<Rightarrow> live_task) \<Rightarrow> nat \<Rightarrow> ig_lkm_chain_entry" where
  "live_entry tasks t = (let k = lt_task (tasks t) in
     \<lparr>ce_pid = t_pid k, ce_ppid = live_ppid tasks t, ce_uid = t_uid k, ce_euid = t_euid k,
      ce_sid = t_sid k, ce_comm = strncpy0 TASK_COMM_LEN (t_comm k), ce_tty = [],
      ce_start_time_ns = t_start_ns k, ce_exe = [], ce_cmdline = []\<rparr>)"

definition live_root :: "nat \<Rightarrow> ig_lkm_chain_entry \<times> nat option \<Rightarrow> bool" where
  "live_root t e \<longleftrightarrow> snd e = None \<or> ce_ppid (fst e) \<le> 1 \<or> snd e = Some t"

definition live_chain :: "(nat \<Rightarrow> live_task) \<Rightarrow> nat \<Rightarrow> ig_lkm_chain_entry list \<times> bool" where
  "live_chain tasks cur =
     (case walk (\<lambda>t. Some (live_entry tasks t, lt_parent (tasks t))) live_root (\<lambda>e. the (snd e))
         IG_LKM_CHAIN_MAX cur of
        (es, trunc) \<Rightarrow> (map fst es, trunc))"

text \<open>The cache first; only when it does not know the current task, the live task list.\<close>

definition ig_collect_chain :: "lkm_ctx \<Rightarrow> proc_cache \<Rightarrow> (ig_lkm_chain_entry list \<times> u8) \<times> proc_cache" where
  "ig_collect_chain cx c =
     (case ig_proc_cache_collect_chain c (t_pid (lt_task (cx_tasks cx (cx_current cx)))) IG_LKM_CHAIN_MAX of
        ((es, trunc), c') \<Rightarrow>
          if es \<noteq> [] then ((es, trunc), c')
          else (case live_chain (cx_tasks cx) (cx_current cx) of
                  (ls, t) \<Rightarrow> ((ls, if t then 1 else 0), c')))"

section \<open>The kernel FIFO\<close>

text \<open>\<^verbatim>\<open>kfifo_in(&ig_fifo, ev, 1)\<close> stores one element when there is room and returns how many it stored.\<close>

definition kfifo_in :: "ig_lkm_event \<Rightarrow> lkm \<Rightarrow> nat \<times> lkm" where
  "kfifo_in ev s =
     (if length (lk_fifo s) < IG_EVENT_LKM_QUEUE_SIZE then (1, s\<lparr>lk_fifo := lk_fifo s @ [ev]\<rparr>) else (0, s))"

definition make_event :: "(u64 \<Rightarrow> u64 \<Rightarrow> nat) \<Rightarrow> lkm_ctx \<Rightarrow> policy_ht \<Rightarrow> u64 \<Rightarrow> u64 \<Rightarrow> u32 \<Rightarrow> u32
    \<Rightarrow> ig_lkm_chain_entry list \<times> u8 \<Rightarrow> ig_lkm_event" where
  "make_event bkt cx ht dev ino op blocked chain =
     \<lparr>le_dev = dev, le_ino = ino, le_op = op, le_blocked = blocked, le_pid = cx_tgid cx,
      le_uid = cx_uid cx, le_comm = strncpy0 16 (t_comm (lt_task (cx_tasks cx (cx_current cx)))),
      le_path = strncpy0 IG_MAX_LKM_PATH (inode_policy_path bkt ht dev ino),
      le_timestamp_ns = cx_now cx, le_chain_depth = of_nat (length (fst chain)),
      le_chain_truncated = snd chain, le_chain = fst chain\<rparr>"

definition ig_event_enqueue :: "(u64 \<Rightarrow> u64 \<Rightarrow> nat) \<Rightarrow> lkm_ctx \<Rightarrow> u64 \<Rightarrow> u64 \<Rightarrow> u32 \<Rightarrow> u32 \<Rightarrow> lkm \<Rightarrow> lkm" where
  "ig_event_enqueue bkt cx dev ino op blocked s =
     (if \<not> cx_alloc cx then s
      else (case ig_collect_chain cx (lk_cache s) of
        (chain, c') \<Rightarrow>
          let s = s\<lparr>lk_cache := c'\<rparr>;
              s = snd (kfifo_in (make_event bkt cx (lk_table s) dev ino op blocked chain) s)
          in s\<lparr>lk_work := True\<rparr>))"

definition ig_event_empty :: "lkm \<Rightarrow> bool" where
  "ig_event_empty s \<longleftrightarrow> lk_fifo s = []"

definition ig_event_pop :: "lkm \<Rightarrow> (ig_lkm_event \<times> lkm) option" where
  "ig_event_pop s = (case lk_fifo s of [] \<Rightarrow> None | e # es \<Rightarrow> Some (e, s\<lparr>lk_fifo := es\<rparr>))"

text \<open>The work item runs once per schedule; it wakes the readers when there is something to read.\<close>

definition ig_event_flush_work :: "lkm \<Rightarrow> bool \<times> lkm" where
  "ig_event_flush_work s = (lk_fifo s \<noteq> [], s\<lparr>lk_work := False\<rparr>)"

definition ig_events_flush_cancel :: "lkm \<Rightarrow> lkm" where
  "ig_events_flush_cancel s = s\<lparr>lk_work := False\<rparr>"

section \<open>Reading the device\<close>

definition EINVAL :: int where "EINVAL = 22"
definition ENOENT :: int where "ENOENT = 2"
definition ERESTARTSYS :: int where "ERESTARTSYS = 512"

text \<open>
  \<open>wait\<close> is the sleep of \<^verbatim>\<open>wait_event_interruptible\<close> on an empty queue: \<open>None\<close> when a signal ends
  it, otherwise the module's state after whatever other threads did meanwhile.  The last
  component is the event copied to the reader.
\<close>

definition ig_read :: "nat \<Rightarrow> (lkm \<Rightarrow> lkm option) \<Rightarrow> bool \<Rightarrow> bool \<Rightarrow> lkm \<Rightarrow> int \<times> lkm \<times> ig_lkm_event option" where
  "ig_read count wait alloc_ok copy_ok s =
     (if count < sizeof_lkm_event then (- EINVAL, s, None)
      else (case (if ig_event_empty s then wait s else Some s) of
          None \<Rightarrow> (- ERESTARTSYS, s, None)
        | Some s \<Rightarrow>
            if \<not> alloc_ok then (- ENOMEM, s, None)
            else (case ig_event_pop s of
                None \<Rightarrow> (0, s, None)
              | Some (ev, s) \<Rightarrow>
                  if \<not> copy_ok then (- EFAULT, s, None)
                  else (int sizeof_lkm_event, s, Some ev))))"

definition POLLIN :: u32 where "POLLIN = 1"
definition POLLRDNORM :: u32 where "POLLRDNORM = 0x40"

definition ig_poll :: "lkm \<Rightarrow> u32" where
  "ig_poll s = (if ig_event_empty s then 0 else POLLIN OR POLLRDNORM)"

section \<open>Creating the device, loading and unloading the module\<close>

text \<open>
  The kernel objects an initialiser holds, in the order it took them.  Each acquisition and
  release of the code is one step on this list, so that the unwinding of an error path can be
  compared with what was taken.
\<close>

datatype kernel_object = ChrRegion | Cdev | DevClass | DevNode

record chardev_env =
  cd_region :: int
  cd_add :: int
  cd_class :: int
  cd_device :: bool

text \<open>The fields are the results of the kernel calls: error codes, zero for success.\<close>

definition ig_chardev_init :: "chardev_env \<Rightarrow> int \<times> kernel_object list" where
  "ig_chardev_init env =
     (if cd_region env \<noteq> 0 then (cd_region env, [])
      else let held = [ChrRegion];
               err_cdev = remove1 ChrRegion;
               err_class = err_cdev \<circ> remove1 Cdev;
               err_device = err_class \<circ> remove1 DevClass
      in if cd_add env \<noteq> 0 then (cd_add env, err_cdev held)
      else let held = Cdev # held
      in if cd_class env \<noteq> 0 then (cd_class env, err_class held)
      else let held = DevClass # held
      in if \<not> cd_device env then (- ENOMEM, err_device held)
      else (0, DevNode # held))"

definition ig_chardev_exit :: "kernel_object list \<Rightarrow> kernel_object list" where
  "ig_chardev_exit held = remove1 ChrRegion (remove1 Cdev (remove1 DevClass (remove1 DevNode held)))"

record ig_module =
  m_tps :: "tracepoint list"
  m_chr :: "kernel_object list"
  m_hooks :: bool
  m_lkm :: lkm

text \<open>
  \<open>pc_init\<close> stands for the call of \<^verbatim>\<open>ig_proc_cache_init\<close> (with its kernel inputs), \<open>hooks_rc\<close> for the
  result of \<^verbatim>\<open>ig_hooks_init\<close>.  On failure the module is not loaded; what is returned beside the
  code is what it then still holds.
\<close>

definition ig_lkm_init :: "int \<times> tracepoint list \<times> proc_cache \<Rightarrow> chardev_env \<Rightarrow> int \<Rightarrow> int \<times> ig_module" where
  "ig_lkm_init pc_init env hooks_rc =
     (case pc_init of (rc, tps, c) \<Rightarrow>
        let loaded = (\<lambda>(tps, c) chr hooks. \<lparr>m_tps = tps, m_chr = chr, m_hooks = hooks,
              m_lkm = \<lparr>lk_table = ig_policy_init, lk_cache = c, lk_fifo = [], lk_work = False\<rparr>\<rparr>)
        in if rc \<noteq> 0 then (rc, loaded (tps, c) [] False)
        else (case ig_chardev_init env of (rc, chr) \<Rightarrow>
          if rc \<noteq> 0 then (rc, loaded (ig_proc_cache_exit (tps, c)) chr False)
          else if hooks_rc \<noteq> 0
          then (hooks_rc, loaded (ig_proc_cache_exit (tps, c)) (ig_chardev_exit chr) False)
          else (0, loaded (tps, c) chr True)))"

definition ig_lkm_exit :: "ig_module \<Rightarrow> ig_module" where
  "ig_lkm_exit m =
     (let m = m\<lparr>m_hooks := False\<rparr>;
          m = m\<lparr>m_lkm := ig_events_flush_cancel (m_lkm m)\<rparr>;
          m = m\<lparr>m_chr := ig_chardev_exit (m_chr m)\<rparr>;
          (tps, c) = ig_proc_cache_exit (m_tps m, lk_cache (m_lkm m));
          m = m\<lparr>m_tps := tps, m_lkm := m_lkm m\<lparr>lk_cache := c\<rparr>\<rparr>
      in m\<lparr>m_lkm := m_lkm m\<lparr>lk_table := inode_policy_clear (lk_table (m_lkm m))\<rparr>\<rparr>)"

section \<open>The FIFO is a drop-newest queue\<close>

definition fifo_inv :: "lkm \<Rightarrow> bool" where
  "fifo_inv s \<longleftrightarrow> length (lk_fifo s) \<le> IG_EVENT_LKM_QUEUE_SIZE"

interpretation kfifo: drop_newest IG_EVENT_LKM_QUEUE_SIZE fifo_inv lk_fifo
    "\<lambda>s ev. snd (kfifo_in ev s)" ig_event_pop
  by unfold_locales
     (auto simp: fifo_inv_def kfifo_in_def ig_event_pop_def split: list.splits)

lemma kfifo_in_frame [simp]:
  "lk_table (snd (kfifo_in ev s)) = lk_table s" "lk_cache (snd (kfifo_in ev s)) = lk_cache s"
  by (simp_all add: kfifo_in_def)

lemma enqueue_no_memory: "\<not> cx_alloc cx \<Longrightarrow> ig_event_enqueue bkt cx dev ino op blocked s = s"
  by (simp add: ig_event_enqueue_def)

lemma enqueue_frame [simp]:
  "lk_table (ig_event_enqueue bkt cx dev ino op blocked s) = lk_table s"
  by (simp add: ig_event_enqueue_def Let_def split: prod.splits)

lemma enqueue_fifo:
  "cx_alloc cx \<Longrightarrow> lk_fifo (ig_event_enqueue bkt cx dev ino op blocked s)
     = take IG_EVENT_LKM_QUEUE_SIZE (lk_fifo s @ [make_event bkt cx (lk_table s) dev ino op blocked
         (fst (ig_collect_chain cx (lk_cache s)))]) \<or> \<not> fifo_inv s"
  by (auto simp: ig_event_enqueue_def Let_def kfifo_in_def fifo_inv_def split: prod.splits)

lemma enqueue_inv: "fifo_inv s \<Longrightarrow> fifo_inv (ig_event_enqueue bkt cx dev ino op blocked s)"
  by (auto simp: ig_event_enqueue_def Let_def kfifo_in_def fifo_inv_def split: prod.splits)

lemma chardev_init_cases:
  "ig_chardev_init env = (rc, chr) \<Longrightarrow>
     rc = 0 \<and> chr = [DevNode, DevClass, Cdev, ChrRegion] \<or> rc \<noteq> 0 \<and> chr = []"
  by (auto simp: ig_chardev_init_def Let_def ENOMEM_def split: if_splits)

lemma proc_cache_init_cases:
  "ig_proc_cache_init k syms regs j ts = (rc, tps, c) \<Longrightarrow>
     rc = 0 \<and> tps = [TpFork, TpExec, TpExit] \<or> rc \<noteq> 0 \<and> tps = []"
  by (auto simp: ig_proc_cache_init_def register_tracepoints_def split: if_splits prod.splits)

lemma proc_cache_exit_all [simp]:
  "ig_proc_cache_exit ([TpFork, TpExec, TpExit], c) = ([], c\<lparr>pc_lru := [], pc_count := 0\<rparr>)"
  by (simp add: ig_proc_cache_exit_def)

lemma chardev_exit_all [simp]: "ig_chardev_exit [DevNode, DevClass, Cdev, ChrRegion] = []"
  by (simp add: ig_chardev_exit_def)

lemma live_root_entry:
  assumes "Some (live_entry tasks k, lt_parent (tasks k)) = Some e" and "live_root k e"
  shows "ce_ppid (fst e) \<le> 1 \<or> ce_ppid (fst e) = ce_pid (fst e)"
proof -
  have e: "e = (live_entry tasks k, lt_parent (tasks k))" using assms(1) by simp
  show ?thesis
    using assms(2) unfolding e
    by (auto simp: live_root_def live_entry_def live_ppid_def Let_def)
qed

lemma live_chain_facts:
  assumes "live_chain tasks cur = (es, t)"
  shows "es \<noteq> [] \<and> length es \<le> IG_LKM_CHAIN_MAX \<and> ce_pid (es ! 0) = t_pid (lt_task (tasks cur))
    \<and> (\<forall>i. Suc i < length es \<longrightarrow> ce_pid (es ! Suc i) = ce_ppid (es ! i))
    \<and> (\<not> t \<longrightarrow> ce_ppid (last es) \<le> 1 \<or> ce_ppid (last es) = ce_pid (last es))"
proof -
  let ?look = "\<lambda>t. Some (live_entry tasks t, lt_parent (tasks t))" and ?par = "\<lambda>e :: ig_lkm_chain_entry \<times> nat option. the (snd e)"
  obtain ws where w: "walk ?look live_root ?par IG_LKM_CHAIN_MAX cur = (ws, t)"
    and es: "es = map fst ws"
    using assms by (auto simp: live_chain_def split: prod.splits)
  note links = walk_links [OF w]
  obtain n where n: "IG_LKM_CHAIN_MAX = Suc n" by (simp add: IG_LKM_CHAIN_MAX_def)
  have ne: "ws \<noteq> []" using walk_empty [of ?look live_root ?par n cur t] w n by auto
  have hd: "ws ! 0 = (live_entry tasks cur, lt_parent (tasks cur))"
    using links_hd [OF links ne] ne by (simp add: hd_conv_nth)
  have ent: "\<exists>k. e = (live_entry tasks k, lt_parent (tasks k))" if "e \<in> set ws" for e
    using links that by (induction ws arbitrary: cur) auto
  have nth: "ws ! Suc i = (live_entry tasks (?par (ws ! i)), lt_parent (tasks (?par (ws ! i))))"
    if "Suc i < length ws" for i
    using links_nth [OF links that] by simp
  have some: "snd (ws ! i) \<noteq> None" if "Suc i < length ws" for i
    using links that
  proof (induction ws arbitrary: cur i)
    case (Cons e ws) then show ?case by (cases i; cases ws) (auto simp: live_root_def)
  qed simp
  have step: "ce_pid (fst (ws ! Suc i)) = ce_ppid (fst (ws ! i))" if i: "Suc i < length ws" for i
  proof -
    obtain k where "ws ! i = (live_entry tasks k, lt_parent (tasks k))"
      using ent [of "ws ! i"] i by (auto simp: Suc_lessD)
    with nth [OF i] some [OF i] show ?thesis
      by (auto simp: live_entry_def live_ppid_def Let_def)
  qed
  have root: "ce_ppid (fst (last ws)) \<le> 1 \<or> ce_ppid (fst (last ws)) = ce_pid (fst (last ws))" if nt: "\<not> t"
  proof -
    have "live_root (after ?par cur (butlast ws)) (last ws)"
      using walk_complete [of ?look live_root ?par IG_LKM_CHAIN_MAX cur ws] w nt by simp
    then show ?thesis by (rule live_root_entry [OF links_last [OF links ne]])
  qed
  show ?thesis
    using walk_length [OF w] ne hd step root
    by (auto simp: es live_entry_def Let_def last_map hd_conv_nth)
qed

section \<open>Properties\<close>

text \<open>Every event carries a usable ancestry, whichever source it comes from: the chain is never
  empty, starts at the acting process, links each process to its parent, fits the sixteen slots,
  and is marked truncated unless its last entry is a root.  The depth byte of the event is the
  number of entries.\<close>

theorem event_chain_is_ancestry:
  assumes "ig_collect_chain cx c = ((es, trunc), c')"
  shows "es \<noteq> [] \<and> length es \<le> IG_LKM_CHAIN_MAX
    \<and> ce_pid (es ! 0) = t_pid (lt_task (cx_tasks cx (cx_current cx)))
    \<and> (\<forall>i. Suc i < length es \<longrightarrow> ce_pid (es ! Suc i) = ce_ppid (es ! i))
    \<and> (trunc = 0 \<longrightarrow> ce_ppid (last es) \<le> 1 \<or> ce_ppid (last es) = ce_pid (last es))
    \<and> unat (le_chain_depth (make_event bkt cx ht dev ino op blocked (es, trunc))) = length es"
proof -
  obtain cs ct where c: "ig_proc_cache_collect_chain c (t_pid (lt_task (cx_tasks cx (cx_current cx))))
      IG_LKM_CHAIN_MAX = ((cs, ct), c')"
    using assms by (auto simp: ig_collect_chain_def split: prod.splits if_splits)
  obtain ls lt where l: "live_chain (cx_tasks cx) (cx_current cx) = (ls, lt)" by fastforce
  have es: "(es, trunc) = (if cs \<noteq> [] then (cs, ct) else (ls, if lt then 1 else 0))"
    using assms c l by (simp add: ig_collect_chain_def split: if_splits)
  note facts = pc_chain_facts [OF c] live_chain_facts [OF l]
  have main: "es \<noteq> [] \<and> length es \<le> IG_LKM_CHAIN_MAX
    \<and> ce_pid (es ! 0) = t_pid (lt_task (cx_tasks cx (cx_current cx)))
    \<and> (\<forall>i. Suc i < length es \<longrightarrow> ce_pid (es ! Suc i) = ce_ppid (es ! i))
    \<and> (trunc = 0 \<longrightarrow> ce_ppid (last es) \<le> 1 \<or> ce_ppid (last es) = ce_pid (last es))"
    using es facts by (cases "cs = []") (auto simp: IG_LKM_CHAIN_MAX_def split: if_splits)
  then show ?thesis
    by (simp add: make_event_def IG_LKM_CHAIN_MAX_def unat_of_nat take_bit_nat_eq_self)
qed

definition sample_ctx :: lkm_ctx where
  "sample_ctx = \<lparr>cx_tasks = (\<lambda>t. \<lparr>lt_task = sample_task (of_nat t) 1, lt_parent = (if t \<le> 1 then None else Some (t - 1))\<rparr>),
     cx_current = 2, cx_tgid = 2, cx_uid = 0, cx_now = 0, cx_alloc = True\<rparr>"

definition sample_lkm :: lkm where
  "sample_lkm = \<lparr>lk_table = ig_policy_init, lk_cache = empty_cache 0, lk_fifo = [], lk_work = False\<rparr>"

theorem event_chain_is_ancestry_witness:
  "fst (fst (ig_collect_chain sample_ctx (empty_cache 0))) \<noteq> []"
  using event_chain_is_ancestry
    [of sample_ctx "empty_cache 0" "fst (fst (ig_collect_chain sample_ctx (empty_cache 0)))"
       "snd (fst (ig_collect_chain sample_ctx (empty_cache 0)))"
       "snd (ig_collect_chain sample_ctx (empty_cache 0))"]
  by simp

text \<open>The kernel queue keeps the first 64 events that no reader has taken and loses the later
  ones: after any burst of captures the FIFO is the old content and the new events in order, cut
  at 64, and the event a capture appends names the inode, the operation, the outcome, the process
  and the path of the policy that fired.\<close>

theorem kernel_queue_keeps_first:
  assumes "fifo_inv s" and "cx_alloc cx"
  shows "lk_fifo (foldl (\<lambda>s ev. snd (kfifo_in ev s)) s evs) = take IG_EVENT_LKM_QUEUE_SIZE (lk_fifo s @ evs)
    \<and> (\<exists>ev. lk_fifo (ig_event_enqueue bkt cx dev ino op blocked s)
            = take IG_EVENT_LKM_QUEUE_SIZE (lk_fifo s @ [ev])
        \<and> le_dev ev = dev \<and> le_ino ev = ino \<and> le_op ev = op \<and> le_blocked ev = blocked
        \<and> le_pid ev = cx_tgid cx \<and> le_uid ev = cx_uid cx
        \<and> le_path ev = strncpy0 IG_MAX_LKM_PATH (inode_policy_path bkt (lk_table s) dev ino))
    \<and> lk_work (ig_event_enqueue bkt cx dev ino op blocked s)"
proof -
  let ?ev = "make_event bkt cx (lk_table s) dev ino op blocked (fst (ig_collect_chain cx (lk_cache s)))"
  have "lk_fifo (ig_event_enqueue bkt cx dev ino op blocked s)
      = take IG_EVENT_LKM_QUEUE_SIZE (lk_fifo s @ [?ev])"
    using enqueue_fifo [OF assms(2)] assms(1) by blast
  moreover have "lk_work (ig_event_enqueue bkt cx dev ino op blocked s)"
    using assms(2) by (simp add: ig_event_enqueue_def Let_def split: prod.splits)
  ultimately show ?thesis
    using kfifo.pushes_items [OF assms(1)] by (auto simp: make_event_def)
qed

theorem kernel_queue_keeps_first_witness:
  "lk_work (ig_event_enqueue (\<lambda>_ _. 0) sample_ctx 8 77 IG_OP_WRITE 1 sample_lkm)"
  using kernel_queue_keeps_first [of sample_lkm sample_ctx "[]" "\<lambda>_ _. 0" 8 77 IG_OP_WRITE 1]
  by (simp add: fifo_inv_def sample_lkm_def sample_ctx_def)

text \<open>A read of the device is all or nothing: a buffer shorter than one event is refused and
  takes nothing; otherwise a full event is returned exactly when one is delivered, and it is the
  oldest of the queue; a signal or a failed allocation takes nothing.  The only loss is a faulting
  copy, which drops the event it could not deliver.\<close>

theorem ig_read_outcomes:
  assumes "ig_read count wait alloc_ok copy_ok s = (n, s', out)"
  shows "(count < sizeof_lkm_event \<longrightarrow> n = - EINVAL \<and> s' = s \<and> out = None)
    \<and> (n = int sizeof_lkm_event \<longleftrightarrow> out \<noteq> None)
    \<and> (\<forall>ev. out = Some ev \<longrightarrow>
         (\<exists>q. (if lk_fifo s = [] then wait s = Some q else q = s) \<and> lk_fifo q = ev # lk_fifo s'))
    \<and> (n = - ENOMEM \<or> n = - ERESTARTSYS \<longrightarrow> lk_fifo s' = lk_fifo s \<or> wait s = Some s')
    \<and> (sizeof_lkm_event \<le> count \<and> lk_fifo s \<noteq> [] \<and> alloc_ok \<and> copy_ok \<longrightarrow> out = Some (hd (lk_fifo s)))"
  using assms
  by (auto simp: ig_read_def ig_event_empty_def ig_event_pop_def sizeof_lkm_event_def
      IG_LKM_CHAIN_MAX_def EINVAL_def ENOMEM_def ERESTARTSYS_def EFAULT_def
      split: if_splits option.splits list.splits)

theorem ig_read_outcomes_witness:
  "ig_read 100 Some True True sample_lkm = (- EINVAL, sample_lkm, None)"
proof -
  have "ig_read 100 Some True True sample_lkm = (- EINVAL, sample_lkm, None)"
    by (simp add: ig_read_def sizeof_lkm_event_def IG_LKM_CHAIN_MAX_def)
  from ig_read_outcomes [OF this] this show ?thesis
    by (simp add: sizeof_lkm_event_def IG_LKM_CHAIN_MAX_def)
qed

text \<open>Loading is all or nothing and unloading releases everything: when any step of the load
  fails, the module holds no tracepoint, no device object and no hook; when it succeeds, all of
  them are in place, and unloading from any state the loaded module reaches gives them all back,
  with no policy, cached process or pending work left.\<close>

theorem module_load_unload:
  assumes "ig_lkm_init (ig_proc_cache_init k syms regs j tasks) env hooks_rc = (rc, m)"
  shows "(rc \<noteq> 0 \<longrightarrow> m_tps m = [] \<and> m_chr m = [] \<and> \<not> m_hooks m)
    \<and> (rc = 0 \<longrightarrow> m_hooks m \<and> set (m_tps m) = {TpFork, TpExec, TpExit}
         \<and> set (m_chr m) = {ChrRegion, Cdev, DevClass, DevNode}
         \<and> (let u = ig_lkm_exit (m\<lparr>m_lkm := l\<rparr>) in
              m_tps u = [] \<and> m_chr u = [] \<and> \<not> m_hooks u \<and> \<not> lk_work (m_lkm u)
              \<and> pc_lru (lk_cache (m_lkm u)) = []
              \<and> inode_policy_lookup bkt (lk_table (m_lkm u)) dev ino op = None))"
proof -
  obtain r tps c where p: "ig_proc_cache_init k syms regs j tasks = (r, tps, c)" by (metis prod_cases3)
  obtain r' chr where d: "ig_chardev_init env = (r', chr)" by fastforce
  note ex = ig_lkm_exit_def ig_events_flush_cancel_def inode_policy_clear_def
    inode_policy_lookup_def find_entry_def Let_def
  from proc_cache_init_cases [OF p] show ?thesis
  proof (elim disjE conjE)
    assume "r \<noteq> 0" "tps = []"
    with assms p show ?thesis by (auto simp: ig_lkm_init_def)
  next
    assume r: "r = 0" "tps = [TpFork, TpExec, TpExit]"
    from chardev_init_cases [OF d] show ?thesis
    proof (elim disjE conjE)
      assume "r' \<noteq> 0" "chr = []"
      with assms p d r show ?thesis by (auto simp: ig_lkm_init_def)
    next
      assume "r' = 0" "chr = [DevNode, DevClass, Cdev, ChrRegion]"
      with assms p d r show ?thesis
        by (cases "hooks_rc = 0") (auto simp: ig_lkm_init_def ex)
    qed
  qed
qed

theorem module_load_unload_witness:
  "m_chr (snd (ig_lkm_init (ig_proc_cache_init 0 True (\<lambda>_. 0) 0 []) \<lparr>cd_region = 0, cd_add = 0, cd_class = -12, cd_device = True\<rparr> 0)) = []"
proof -
  let ?r = "ig_lkm_init (ig_proc_cache_init 0 True (\<lambda>_. 0) 0 []) \<lparr>cd_region = 0, cd_add = 0, cd_class = -12, cd_device = True\<rparr> 0"
  have "fst ?r \<noteq> 0"
    by (simp add: ig_lkm_init_def ig_proc_cache_init_def register_tracepoints_def ig_chardev_init_def Let_def)
  with module_load_unload [of 0 True "\<lambda>_. 0" 0 "[]" "\<lparr>cd_region = 0, cd_add = 0, cd_class = -12, cd_device = True\<rparr>" 0
      "fst ?r" "snd ?r"] show ?thesis by simp
qed

end
