(* ===== verification/Hook_Core.thy ===== *)
theory Hook_Core
  imports Lkm_Events
begin

text \<open>
  What the four hook implementations under \<^verbatim>\<open>Agent/src/lkm/hooks\<close> share: the checks of an inode
  against the policy table, and what these promise about policies and events.  Kernel objects
  are records of the fields the code reads.
\<close>

record inode =
  i_sb :: "u64 option"
  i_ino :: u64
  i_mode :: u32

definition S_ISREG :: "u32 \<Rightarrow> bool" where
  "S_ISREG m \<longleftrightarrow> m AND 0xF000 = 0x8000"

definition AT_FDCWD :: u32 where "AT_FDCWD = - 100"

text \<open>
  \<open>he_path w dfd upath flags\<close> is the kernel's \<^verbatim>\<open>user_path_at\<close> in the world \<open>w\<close> (file system and user
  memory): \<open>None\<close> an error, \<open>Some None\<close> a dentry without inode.  \<open>he_fd w fd\<close> is \<^verbatim>\<open>fdget\<close>: \<open>None\<close> no
  file, \<open>Some None\<close> a file without inode.
\<close>

record 'w hook_env =
  he_bkt :: "u64 \<Rightarrow> u64 \<Rightarrow> nat"
  he_cx :: lkm_ctx
  he_path :: "'w \<Rightarrow> u32 \<Rightarrow> u64 \<Rightarrow> u32 \<Rightarrow> inode option option"
  he_fd :: "'w \<Rightarrow> u32 \<Rightarrow> inode option option"

definition ig_check :: "'w hook_env \<Rightarrow> u64 \<Rightarrow> u64 \<Rightarrow> u32 \<Rightarrow> lkm \<Rightarrow> int \<times> lkm" where
  "ig_check h dev ino op s =
     (case inode_policy_lookup (he_bkt h) (lk_table s) dev ino op of
        None \<Rightarrow> (0, s)
      | Some block_mode \<Rightarrow>
          if block_mode = IG_BLOCK_DENY
          then (- EPERM, ig_event_enqueue (he_bkt h) (he_cx h) dev ino op 1 s)
          else (0, ig_event_enqueue (he_bkt h) (he_cx h) dev ino op 0 s))"

definition ig_check_delete :: "'w hook_env \<Rightarrow> u64 \<Rightarrow> u64 \<Rightarrow> lkm \<Rightarrow> int \<times> lkm" where
  "ig_check_delete h dev ino s =
     (case inode_policy_lookup (he_bkt h) (lk_table s) dev ino IG_OP_DELETE of
        None \<Rightarrow> (0, s)
      | Some block_mode \<Rightarrow>
          if block_mode = IG_BLOCK_DENY
          then (- EPERM, ig_event_enqueue (he_bkt h) (he_cx h) dev ino IG_OP_DELETE 1 s)
          else (let s = ig_event_enqueue (he_bkt h) (he_cx h) dev ino IG_OP_DELETE 0 s
                in (0, s\<lparr>lk_table := inode_policy_remove (he_bkt h) (lk_table s) dev ino\<rparr>)))"

section \<open>The policy decision\<close>

text \<open>The contract of the hooks is stated on the policy map the table stands for.\<close>

definition lkm_pol :: "'w hook_env \<Rightarrow> lkm \<Rightarrow> inode_key \<Rightarrow> policy option" where
  "lkm_pol h s = ht_pol (he_bkt h) (lk_table s)"

definition covered :: "(inode_key \<Rightarrow> policy option) \<Rightarrow> inode_key \<Rightarrow> u32 \<Rightarrow> bool" where
  "covered pm k op \<longleftrightarrow> (\<exists>p. pm k = Some p \<and> pol_mask p AND op \<noteq> 0)"

definition denied :: "(inode_key \<Rightarrow> policy option) \<Rightarrow> inode_key \<Rightarrow> u32 \<Rightarrow> bool" where
  "denied pm k op \<longleftrightarrow> (\<exists>p. pm k = Some p \<and> pol_mask p AND op \<noteq> 0 \<and> pol_block p = IG_BLOCK_DENY)"

lemma denied_covered: "denied pm k op \<Longrightarrow> covered pm k op"
  by (auto simp: denied_def covered_def)

text \<open>
  \<open>reported h s s' k op blocked\<close>: when memory allows, the step from \<open>s\<close> to \<open>s'\<close> has put one event
  for this access at the end of the FIFO, unless the FIFO was full.
\<close>

definition reported :: "'w hook_env \<Rightarrow> lkm \<Rightarrow> lkm \<Rightarrow> inode_key \<Rightarrow> u32 \<Rightarrow> u32 \<Rightarrow> bool" where
  "reported h s s' k op blocked \<longleftrightarrow>
     (cx_alloc (he_cx h) \<and> length (lk_fifo s) < IG_EVENT_LKM_QUEUE_SIZE \<longrightarrow>
       (\<exists>ev. lk_fifo s' = lk_fifo s @ [ev] \<and> le_dev ev = fst k \<and> le_ino ev = snd k
          \<and> le_op ev = op \<and> le_blocked ev = blocked))"

named_theorems ig_hook "what the hooks do to the module's state"

lemma lkm_pol_enqueue [simp]:
  "lkm_pol h (ig_event_enqueue bkt cx dev ino op blocked s) = lkm_pol h s"
  by (simp add: lkm_pol_def)

lemma enqueue_reported:
  "reported h s (ig_event_enqueue (he_bkt h) (he_cx h) dev ino op blocked s) (dev, ino) op blocked"
  by (auto simp: reported_def ig_event_enqueue_def kfifo_in_def make_event_def Let_def split: prod.splits)

lemma lookup_covered:
  "inode_policy_lookup (he_bkt h) (lk_table s) d i op = None \<longleftrightarrow> \<not> covered (lkm_pol h s) (d, i) op"
  "inode_policy_lookup (he_bkt h) (lk_table s) d i op = Some IG_BLOCK_DENY \<longleftrightarrow> denied (lkm_pol h s) (d, i) op"
  by (auto simp: lookup_pol covered_def denied_def lkm_pol_def split: option.splits)

lemma lookup_cases:
  obtains (none) "inode_policy_lookup (he_bkt h) (lk_table s) d i op = None"
      "\<not> covered (lkm_pol h s) (d, i) op" "\<not> denied (lkm_pol h s) (d, i) op"
  | (deny) "inode_policy_lookup (he_bkt h) (lk_table s) d i op = Some IG_BLOCK_DENY"
      "covered (lkm_pol h s) (d, i) op" "denied (lkm_pol h s) (d, i) op"
  | (audit) b where "inode_policy_lookup (he_bkt h) (lk_table s) d i op = Some b" "b \<noteq> IG_BLOCK_DENY"
      "covered (lkm_pol h s) (d, i) op" "\<not> denied (lkm_pol h s) (d, i) op"
  by (metis denied_covered lookup_covered option.exhaust option.inject)

lemma ig_check_rc [ig_hook]:
  "fst (ig_check h d i op s) = (if denied (lkm_pol h s) (d, i) op then - EPERM else 0)"
  by (rule lookup_cases [of h s d i op]) (auto simp: ig_check_def)

lemma ig_check_table [ig_hook]: "lk_table (snd (ig_check h d i op s)) = lk_table s"
  by (auto simp: ig_check_def split: option.splits)

lemma ig_check_pol [ig_hook]: "lkm_pol h (snd (ig_check h d i op s)) = lkm_pol h s"
  by (simp add: lkm_pol_def ig_check_table)

lemma ig_check_uncovered [ig_hook]: "\<not> covered (lkm_pol h s) (d, i) op \<Longrightarrow> ig_check h d i op s = (0, s)"
  by (rule lookup_cases [of h s d i op]) (auto simp: ig_check_def)

lemma ig_check_event:
  "covered (lkm_pol h s) (d, i) op \<Longrightarrow>
     reported h s (snd (ig_check h d i op s)) (d, i) op (if denied (lkm_pol h s) (d, i) op then 1 else 0)"
  by (rule lookup_cases [of h s d i op]) (auto simp: ig_check_def enqueue_reported)

lemma ig_check_delete_rc [ig_hook]:
  "fst (ig_check_delete h d i s) = (if denied (lkm_pol h s) (d, i) IG_OP_DELETE then - EPERM else 0)"
  by (rule lookup_cases [of h s d i IG_OP_DELETE]) (auto simp: ig_check_delete_def Let_def)

lemma ig_check_delete_uncovered [ig_hook]:
  "\<not> covered (lkm_pol h s) (d, i) IG_OP_DELETE \<Longrightarrow> ig_check_delete h d i s = (0, s)"
  by (rule lookup_cases [of h s d i IG_OP_DELETE]) (auto simp: ig_check_delete_def)

lemma reported_table [simp]:
  "reported h s (s'\<lparr>lk_table := t\<rparr>) k op b = reported h s s' k op b"
  by (simp add: reported_def)

lemma ig_check_delete_event:
  "covered (lkm_pol h s) (d, i) IG_OP_DELETE \<Longrightarrow>
     reported h s (snd (ig_check_delete h d i s)) (d, i) IG_OP_DELETE
       (if denied (lkm_pol h s) (d, i) IG_OP_DELETE then 1 else 0)"
  by (rule lookup_cases [of h s d i IG_OP_DELETE])
     (auto simp: ig_check_delete_def Let_def enqueue_reported)

text \<open>An audited deletion takes the inode out of the table; nothing else does.\<close>

lemma ig_check_delete_pol:
  assumes "ht_inv (he_bkt h) (lk_table s)"
  shows "lkm_pol h (snd (ig_check_delete h d i s)) =
    (if covered (lkm_pol h s) (d, i) IG_OP_DELETE \<and> \<not> denied (lkm_pol h s) (d, i) IG_OP_DELETE
     then (lkm_pol h s)((d, i) := None) else lkm_pol h s)"
proof (rule lookup_cases [of h s d i IG_OP_DELETE])
  fix b
  assume "inode_policy_lookup (he_bkt h) (lk_table s) d i IG_OP_DELETE = Some b" "b \<noteq> IG_BLOCK_DENY"
    "covered (lkm_pol h s) (d, i) IG_OP_DELETE" "\<not> denied (lkm_pol h s) (d, i) IG_OP_DELETE"
  with remove_pol [OF assms] show ?thesis
    by (simp add: ig_check_delete_def Let_def lkm_pol_def)
qed (auto simp: ig_check_delete_def)

lemma ig_check_inv: "ht_inv (he_bkt h) (lk_table s) \<Longrightarrow> ht_inv (he_bkt h) (lk_table (snd (ig_check h d i op s)))"
  by (simp add: ig_check_table)

lemma ig_check_delete_inv:
  "ht_inv (he_bkt h) (lk_table s) \<Longrightarrow> ht_inv (he_bkt h) (lk_table (snd (ig_check_delete h d i s)))"
  by (auto simp: ig_check_delete_def Let_def remove_inv split: option.splits)

lemmas ig_check_facts = ig_check_rc ig_check_pol ig_check_delete_rc

section \<open>What a check enforces\<close>

text \<open>An access is a pair of an inode and an operation; \<open>target\<close> is the access of a resolved inode.\<close>

definition target :: "inode_key option \<Rightarrow> u32 \<Rightarrow> (inode_key \<times> u32) list" where
  "target k op = (case k of None \<Rightarrow> [] | Some k \<Rightarrow> [(k, op)])"

definition some_denied :: "(inode_key \<Rightarrow> policy option) \<Rightarrow> (inode_key \<times> u32) list \<Rightarrow> bool" where
  "some_denied pm ts \<longleftrightarrow> (\<exists>(k, op) \<in> set ts. denied pm k op)"

definition some_covered :: "(inode_key \<Rightarrow> policy option) \<Rightarrow> (inode_key \<times> u32) list \<Rightarrow> bool" where
  "some_covered pm ts \<longleftrightarrow> (\<exists>(k, op) \<in> set ts. covered pm k op)"

text \<open>
  \<open>enforces h ts s c\<close>: the check \<open>c\<close> of the accesses \<open>ts\<close> from state \<open>s\<close> refuses exactly when a
  policy denies one of them, and then changes no policy and, memory and room permitting, leaves a
  blocked event for a denied access at the end of the FIFO; without any policy it does nothing.
\<close>

definition blocked_report :: "'w hook_env \<Rightarrow> lkm \<Rightarrow> (inode_key \<times> u32) list \<Rightarrow> lkm \<Rightarrow> bool" where
  "blocked_report h s ts s' \<longleftrightarrow>
     (cx_alloc (he_cx h) \<and> Suc (length (lk_fifo s)) < IG_EVENT_LKM_QUEUE_SIZE \<longrightarrow>
       (\<exists>es ev. lk_fifo s' = lk_fifo s @ es @ [ev] \<and> le_blocked ev = 1
          \<and> ((le_dev ev, le_ino ev), le_op ev) \<in> set ts
          \<and> denied (lkm_pol h s) (le_dev ev, le_ino ev) (le_op ev)))"

definition enforces :: "'w hook_env \<Rightarrow> (inode_key \<times> u32) list \<Rightarrow> lkm \<Rightarrow> int \<times> lkm \<Rightarrow> bool" where
  "enforces h ts s c \<longleftrightarrow>
     fst c = (if some_denied (lkm_pol h s) ts then - EPERM else 0)
     \<and> (some_denied (lkm_pol h s) ts \<longrightarrow> lk_table (snd c) = lk_table s \<and> blocked_report h s ts (snd c))
     \<and> (\<not> some_covered (lkm_pol h s) ts \<longrightarrow> c = (0, s))"

lemma target_simps [simp]:
  "target None op = []" "target (Some k) op = [(k, op)]"
  by (simp_all add: target_def)

lemma some_simps [simp]:
  "\<not> some_denied pm []" "\<not> some_covered pm []"
  "some_denied pm ((k, op) # ts) \<longleftrightarrow> denied pm k op \<or> some_denied pm ts"
  "some_covered pm ((k, op) # ts) \<longleftrightarrow> covered pm k op \<or> some_covered pm ts"
  by (auto simp: some_denied_def some_covered_def)

lemma reported_blocked:
  "reported h s s' k op 1 \<Longrightarrow> denied (lkm_pol h s) k op \<Longrightarrow> (k, op) \<in> set ts \<Longrightarrow> blocked_report h s ts s'"
  by (cases k) (auto simp: reported_def blocked_report_def)

lemma enforces_nothing: "enforces h [] s (0, s)"
  by (simp add: enforces_def)

lemma enforces_check: "enforces h [((d, i), op)] s (ig_check h d i op s)"
  using ig_check_event [of h s d i op] denied_covered [of "lkm_pol h s" "(d, i)" op]
  by (auto simp: enforces_def ig_hook intro: reported_blocked)

lemma enforces_delete: "enforces h [((d, i), IG_OP_DELETE)] s (ig_check_delete h d i s)"
proof -
  have "lk_table (snd (ig_check_delete h d i s)) = lk_table s" if "denied (lkm_pol h s) (d, i) IG_OP_DELETE"
    using that by (auto simp: ig_check_delete_def lookup_covered [symmetric])
  then show ?thesis
    using ig_check_delete_event [of h s d i] denied_covered [of "lkm_pol h s" "(d, i)" IG_OP_DELETE]
    by (auto simp: enforces_def ig_hook intro: reported_blocked)
qed

text \<open>Two checks in a row, as for the source and the destination of a rename.\<close>

lemma ig_check_fifo:
  "\<exists>es. lk_fifo (snd (ig_check h d i op s)) = lk_fifo s @ es \<and> length es \<le> 1"
  by (auto simp: ig_check_def ig_event_enqueue_def kfifo_in_def Let_def split: option.splits prod.splits)

lemma blocked_report_after:
  assumes "reported h s1 s' k op 1" and "denied (lkm_pol h s) k op" and "(k, op) \<in> set ts"
    and "lk_fifo s1 = lk_fifo s @ es" and "length es \<le> 1"
  shows "blocked_report h s ts s'"
proof (cases k)
  case (Pair d i)
  show ?thesis
    unfolding blocked_report_def
  proof
    assume room: "cx_alloc (he_cx h) \<and> Suc (length (lk_fifo s)) < IG_EVENT_LKM_QUEUE_SIZE"
    then have "cx_alloc (he_cx h) \<and> length (lk_fifo s1) < IG_EVENT_LKM_QUEUE_SIZE"
      using assms(4,5) by simp
    then obtain ev where ev: "lk_fifo s' = lk_fifo s1 @ [ev]" "le_dev ev = d" "le_ino ev = i"
        "le_op ev = op" "le_blocked ev = 1"
      using assms(1) by (auto simp: reported_def Pair)
    show "\<exists>es ev. lk_fifo s' = lk_fifo s @ es @ [ev] \<and> le_blocked ev = 1
        \<and> ((le_dev ev, le_ino ev), le_op ev) \<in> set ts \<and> denied (lkm_pol h s) (le_dev ev, le_ino ev) (le_op ev)"
      using ev assms(2-4) Pair by (intro exI [of _ es] exI [of _ ev]) simp
  qed
qed

lemma enforces_two:
  assumes first: "enforces h ts s (0, s1)" "\<not> some_denied (lkm_pol h s) ts"
    and frame: "lk_table s1 = lk_table s" "lk_fifo s1 = lk_fifo s @ es" "length es \<le> 1"
    and rc: "fst c = (if denied (lkm_pol h s) k op then - EPERM else 0)"
    and deny: "denied (lkm_pol h s) k op \<Longrightarrow> lk_table (snd c) = lk_table s1 \<and> reported h s1 (snd c) k op 1"
    and free: "\<not> covered (lkm_pol h s) k op \<Longrightarrow> c = (0, s1)"
  shows "enforces h (ts @ [(k, op)]) s c"
proof -
  have den: "some_denied (lkm_pol h s) (ts @ [(k, op)]) \<longleftrightarrow> denied (lkm_pol h s) k op"
    using first(2) by (auto simp: some_denied_def)
  have cov: "\<not> some_covered (lkm_pol h s) (ts @ [(k, op)]) \<longleftrightarrow>
      \<not> some_covered (lkm_pol h s) ts \<and> \<not> covered (lkm_pol h s) k op"
    by (auto simp: some_covered_def)
  have s1: "\<not> some_covered (lkm_pol h s) ts \<Longrightarrow> s1 = s"
    using first(1) by (simp add: enforces_def)
  have "blocked_report h s (ts @ [(k, op)]) (snd c)" if "denied (lkm_pol h s) k op"
    using deny [OF that] that by (intro blocked_report_after [OF _ that _ frame(2,3)]) auto
  then show ?thesis
    using rc deny free s1 frame(1) unfolding enforces_def den cov by (auto dest: denied_covered)
qed

lemma enforces_refused:
  "enforces h ts s (rc, s1) \<Longrightarrow> some_denied (lkm_pol h s) ts \<Longrightarrow> enforces h (ts @ us) s (rc, s1)"
  by (auto simp: enforces_def some_denied_def some_covered_def blocked_report_def dest: denied_covered)

section \<open>Example state\<close>

text \<open>A small world for the examples: one protected file, at inode 77 of device 8.\<close>

definition sample_file :: inode where
  "sample_file = \<lparr>i_sb = Some 8, i_ino = 77, i_mode = 0x81A4\<rparr>"

definition sample_env :: "unit hook_env" where
  "sample_env = \<lparr>he_bkt = (\<lambda>_ _. 0), he_cx = sample_ctx,
     he_path = (\<lambda>_ _ _ _. Some (Some sample_file)), he_fd = (\<lambda>_ _. Some (Some sample_file))\<rparr>"

definition guarded_lkm :: "u32 \<Rightarrow> lkm" where
  "guarded_lkm block = sample_lkm\<lparr>lk_table :=
     snd (inode_policy_add (\<lambda>_ _. 0) True ig_policy_init 8 77 7 block (Some ''/etc/passwd''))\<rparr>"

lemma guarded_pol:
  "lkm_pol sample_env (guarded_lkm block) = [(8, 77) \<mapsto> \<lparr>pol_mask = 7, pol_block = block, pol_path = ''/etc/passwd''\<rparr>]"
proof
  fix k
  show "lkm_pol sample_env (guarded_lkm block) k
      = [(8, 77) \<mapsto> \<lparr>pol_mask = 7, pol_block = block, pol_path = ''/etc/passwd''\<rparr>] k"
    by (cases k) (auto simp: lkm_pol_def sample_env_def guarded_lkm_def sample_lkm_def inode_policy_add_def
      add_update_def find_entry_def ig_policy_init_def add_link_def new_entry_def ht_pol_def entry_is_def
      entry_policy_def strncpy0_def cstr_def nul_def IG_MAX_LKM_PATH_def)
qed

end
