(* ===== verification/Hooks_Syscall.thy ===== *)
theory Hooks_Syscall
  imports Hook_Core
begin

text \<open>
  The syscall-table hooks for kernels that pass \<^verbatim>\<open>pt_regs\<close>: \<^verbatim>\<open>Agent/src/lkm/hooks/lkm417_syscall.c\<close>.
  A hooked call checks the inode its arguments name and calls the original system call when the
  check returns zero.  The original call is a parameter acting on the world \<open>'w\<close>.
\<close>

record pt_regs =
  di :: u64
  si :: u64
  dx :: u64
  r10 :: u64
  r8 :: u64

datatype sysno = NR_write | NR_truncate | NR_ftruncate | NR_open | NR_openat | NR_creat
  | NR_unlink | NR_unlinkat | NR_rename | NR_renameat | NR_renameat2 | NR_chmod | NR_fchmodat
  | NR_chown | NR_fchownat | NR_link | NR_linkat | NR_setxattr | NR_lsetxattr | NR_fsetxattr

type_synonym 'w orig_calls = "sysno \<Rightarrow> pt_regs \<Rightarrow> 'w \<Rightarrow> int \<times> 'w"

definition O_WRONLY :: u32 where "O_WRONLY = 1"
definition O_RDWR :: u32 where "O_RDWR = 2"
definition O_TRUNC :: u32 where "O_TRUNC = 0x200"
definition AT_REMOVEDIR :: u32 where "AT_REMOVEDIR = 0x200"

text \<open>The casts of the register arguments to \<^verbatim>\<open>int\<close> and \<^verbatim>\<open>unsigned int\<close> keep the low 32 bits.\<close>

definition arg1 :: "pt_regs \<Rightarrow> u64" where "arg1 r = di r"
definition arg2 :: "pt_regs \<Rightarrow> u64" where "arg2 r = si r"
definition arg3 :: "pt_regs \<Rightarrow> u64" where "arg3 r = dx r"
definition arg4 :: "pt_regs \<Rightarrow> u64" where "arg4 r = r10 r"
definition arg5 :: "pt_regs \<Rightarrow> u64" where "arg5 r = r8 r"

definition as_int :: "u64 \<Rightarrow> u32" where "as_int x = ucast x"

section \<open>Resolving the target\<close>

definition pathat_to_devino :: "'w hook_env \<Rightarrow> 'w \<Rightarrow> u32 \<Rightarrow> u64 \<Rightarrow> inode_key option" where
  "pathat_to_devino h w dfd upath =
     (case he_path h w dfd upath 0 of
        None \<Rightarrow> None
      | Some None \<Rightarrow> None
      | Some (Some i) \<Rightarrow> (case i_sb i of None \<Rightarrow> None | Some dev \<Rightarrow> Some (dev, i_ino i)))"

definition path_to_devino :: "'w hook_env \<Rightarrow> 'w \<Rightarrow> u64 \<Rightarrow> inode_key option" where
  "path_to_devino h w upath = pathat_to_devino h w AT_FDCWD upath"

definition fd_to_devino :: "'w hook_env \<Rightarrow> 'w \<Rightarrow> u32 \<Rightarrow> inode_key option" where
  "fd_to_devino h w fd =
     (case he_fd h w fd of
        None \<Rightarrow> None
      | Some None \<Rightarrow> None
      | Some (Some i) \<Rightarrow>
          (case i_sb i of None \<Rightarrow> None
           | Some dev \<Rightarrow> if S_ISREG (i_mode i) then Some (dev, i_ino i) else None))"

section \<open>The checks\<close>

text \<open>\<^verbatim>\<open>rc = 0; if (resolved) rc = check(dev, ino);\<close>\<close>

definition if_resolved :: "inode_key option \<Rightarrow> (u64 \<Rightarrow> u64 \<Rightarrow> lkm \<Rightarrow> int \<times> lkm) \<Rightarrow> lkm \<Rightarrow> int \<times> lkm" where
  "if_resolved k check s = (case k of None \<Rightarrow> (0, s) | Some (dev, ino) \<Rightarrow> check dev ino s)"

text \<open>\<^verbatim>\<open>return rc ? rc : orig(regs);\<close>\<close>

definition rc_or_orig :: "int \<times> lkm \<Rightarrow> ('w \<Rightarrow> int \<times> 'w) \<Rightarrow> 'w \<Rightarrow> int \<times> lkm \<times> 'w" where
  "rc_or_orig c orig w = (case c of (rc, s) \<Rightarrow>
     if rc \<noteq> 0 then (rc, s, w) else (case orig w of (r, w') \<Rightarrow> (r, s, w')))"

definition check_rename :: "'w hook_env \<Rightarrow> u32 \<Rightarrow> u64 \<Rightarrow> u32 \<Rightarrow> u64 \<Rightarrow> 'w \<Rightarrow> lkm \<Rightarrow> int \<times> lkm" where
  "check_rename h olddfd oldname newdfd newname w s =
     (case if_resolved (pathat_to_devino h w olddfd oldname) (\<lambda>dev ino. ig_check h dev ino IG_OP_RENAME) s of
        (rc, s) \<Rightarrow>
          if rc \<noteq> 0 then (rc, s)
          else (case pathat_to_devino h w newdfd newname of
              None \<Rightarrow> (0, s)
            | Some (dev, ino) \<Rightarrow>
                if inode_policy_lookup (he_bkt h) (lk_table s) dev ino IG_OP_RENAME = Some IG_BLOCK_DENY
                then (- EPERM, ig_event_enqueue (he_bkt h) (he_cx h) dev ino IG_OP_RENAME 1 s)
                else (0, s)))"

definition check_open_flags :: "'w hook_env \<Rightarrow> u32 \<Rightarrow> u64 \<Rightarrow> u32 \<Rightarrow> 'w \<Rightarrow> lkm \<Rightarrow> int \<times> lkm" where
  "check_open_flags h dfd upath flags w s =
     (if flags AND (O_WRONLY OR O_RDWR OR O_TRUNC) = 0 then (0, s)
      else (case pathat_to_devino h w dfd upath of
          None \<Rightarrow> (0, s)
        | Some (dev, ino) \<Rightarrow> ig_check h dev ino IG_OP_WRITE s))"

section \<open>The hooked system calls\<close>

definition ig_sys_write :: "'w hook_env \<Rightarrow> 'w orig_calls \<Rightarrow> pt_regs \<Rightarrow> lkm \<Rightarrow> 'w \<Rightarrow> int \<times> lkm \<times> 'w" where
  "ig_sys_write h orig regs s w =
     rc_or_orig (if_resolved (fd_to_devino h w (as_int (arg1 regs))) (\<lambda>dev ino. ig_check h dev ino IG_OP_WRITE) s)
       (orig NR_write regs) w"

definition ig_sys_truncate :: "'w hook_env \<Rightarrow> 'w orig_calls \<Rightarrow> pt_regs \<Rightarrow> lkm \<Rightarrow> 'w \<Rightarrow> int \<times> lkm \<times> 'w" where
  "ig_sys_truncate h orig regs s w =
     rc_or_orig (if_resolved (path_to_devino h w (arg1 regs)) (\<lambda>dev ino. ig_check h dev ino IG_OP_WRITE) s)
       (orig NR_truncate regs) w"

definition ig_sys_ftruncate :: "'w hook_env \<Rightarrow> 'w orig_calls \<Rightarrow> pt_regs \<Rightarrow> lkm \<Rightarrow> 'w \<Rightarrow> int \<times> lkm \<times> 'w" where
  "ig_sys_ftruncate h orig regs s w =
     rc_or_orig (if_resolved (fd_to_devino h w (as_int (arg1 regs))) (\<lambda>dev ino. ig_check h dev ino IG_OP_WRITE) s)
       (orig NR_ftruncate regs) w"

definition ig_sys_open :: "'w hook_env \<Rightarrow> 'w orig_calls \<Rightarrow> pt_regs \<Rightarrow> lkm \<Rightarrow> 'w \<Rightarrow> int \<times> lkm \<times> 'w" where
  "ig_sys_open h orig regs s w =
     rc_or_orig (check_open_flags h AT_FDCWD (arg1 regs) (as_int (arg2 regs)) w s)
       (orig NR_open regs) w"

definition ig_sys_openat :: "'w hook_env \<Rightarrow> 'w orig_calls \<Rightarrow> pt_regs \<Rightarrow> lkm \<Rightarrow> 'w \<Rightarrow> int \<times> lkm \<times> 'w" where
  "ig_sys_openat h orig regs s w =
     rc_or_orig (check_open_flags h (as_int (arg1 regs)) (arg2 regs) (as_int (arg3 regs)) w s)
       (orig NR_openat regs) w"

definition ig_sys_creat :: "'w hook_env \<Rightarrow> 'w orig_calls \<Rightarrow> pt_regs \<Rightarrow> lkm \<Rightarrow> 'w \<Rightarrow> int \<times> lkm \<times> 'w" where
  "ig_sys_creat h orig regs s w =
     rc_or_orig (check_open_flags h AT_FDCWD (arg1 regs) (O_WRONLY OR O_TRUNC) w s)
       (orig NR_creat regs) w"

definition ig_sys_unlink :: "'w hook_env \<Rightarrow> 'w orig_calls \<Rightarrow> pt_regs \<Rightarrow> lkm \<Rightarrow> 'w \<Rightarrow> int \<times> lkm \<times> 'w" where
  "ig_sys_unlink h orig regs s w =
     rc_or_orig (if_resolved (path_to_devino h w (arg1 regs)) (ig_check_delete h) s)
       (orig NR_unlink regs) w"

definition ig_sys_unlinkat :: "'w hook_env \<Rightarrow> 'w orig_calls \<Rightarrow> pt_regs \<Rightarrow> lkm \<Rightarrow> 'w \<Rightarrow> int \<times> lkm \<times> 'w" where
  "ig_sys_unlinkat h orig regs s w =
     rc_or_orig (if as_int (arg3 regs) AND AT_REMOVEDIR = 0
        then if_resolved (pathat_to_devino h w (as_int (arg1 regs)) (arg2 regs)) (ig_check_delete h) s
        else (0, s))
       (orig NR_unlinkat regs) w"

definition ig_sys_rename :: "'w hook_env \<Rightarrow> 'w orig_calls \<Rightarrow> pt_regs \<Rightarrow> lkm \<Rightarrow> 'w \<Rightarrow> int \<times> lkm \<times> 'w" where
  "ig_sys_rename h orig regs s w =
     rc_or_orig (check_rename h AT_FDCWD (arg1 regs) AT_FDCWD (arg2 regs) w s)
       (orig NR_rename regs) w"

definition ig_sys_renameat :: "'w hook_env \<Rightarrow> 'w orig_calls \<Rightarrow> pt_regs \<Rightarrow> lkm \<Rightarrow> 'w \<Rightarrow> int \<times> lkm \<times> 'w" where
  "ig_sys_renameat h orig regs s w =
     rc_or_orig (check_rename h (as_int (arg1 regs)) (arg2 regs) (as_int (arg3 regs)) (arg4 regs) w s)
       (orig NR_renameat regs) w"

definition ig_sys_renameat2 :: "'w hook_env \<Rightarrow> 'w orig_calls \<Rightarrow> pt_regs \<Rightarrow> lkm \<Rightarrow> 'w \<Rightarrow> int \<times> lkm \<times> 'w" where
  "ig_sys_renameat2 h orig regs s w =
     rc_or_orig (check_rename h (as_int (arg1 regs)) (arg2 regs) (as_int (arg3 regs)) (arg4 regs) w s)
       (orig NR_renameat2 regs) w"

definition ig_sys_chmod :: "'w hook_env \<Rightarrow> 'w orig_calls \<Rightarrow> pt_regs \<Rightarrow> lkm \<Rightarrow> 'w \<Rightarrow> int \<times> lkm \<times> 'w" where
  "ig_sys_chmod h orig regs s w =
     rc_or_orig (if_resolved (path_to_devino h w (arg1 regs)) (\<lambda>dev ino. ig_check h dev ino IG_OP_WRITE) s)
       (orig NR_chmod regs) w"

definition ig_sys_fchmodat :: "'w hook_env \<Rightarrow> 'w orig_calls \<Rightarrow> pt_regs \<Rightarrow> lkm \<Rightarrow> 'w \<Rightarrow> int \<times> lkm \<times> 'w" where
  "ig_sys_fchmodat h orig regs s w =
     rc_or_orig (if_resolved (pathat_to_devino h w (as_int (arg1 regs)) (arg2 regs)) (\<lambda>dev ino. ig_check h dev ino IG_OP_WRITE) s)
       (orig NR_fchmodat regs) w"

definition ig_sys_chown :: "'w hook_env \<Rightarrow> 'w orig_calls \<Rightarrow> pt_regs \<Rightarrow> lkm \<Rightarrow> 'w \<Rightarrow> int \<times> lkm \<times> 'w" where
  "ig_sys_chown h orig regs s w =
     rc_or_orig (if_resolved (path_to_devino h w (arg1 regs)) (\<lambda>dev ino. ig_check h dev ino IG_OP_WRITE) s)
       (orig NR_chown regs) w"

definition ig_sys_fchownat :: "'w hook_env \<Rightarrow> 'w orig_calls \<Rightarrow> pt_regs \<Rightarrow> lkm \<Rightarrow> 'w \<Rightarrow> int \<times> lkm \<times> 'w" where
  "ig_sys_fchownat h orig regs s w =
     rc_or_orig (if_resolved (pathat_to_devino h w (as_int (arg1 regs)) (arg2 regs)) (\<lambda>dev ino. ig_check h dev ino IG_OP_WRITE) s)
       (orig NR_fchownat regs) w"

definition ig_sys_link :: "'w hook_env \<Rightarrow> 'w orig_calls \<Rightarrow> pt_regs \<Rightarrow> lkm \<Rightarrow> 'w \<Rightarrow> int \<times> lkm \<times> 'w" where
  "ig_sys_link h orig regs s w =
     rc_or_orig (if_resolved (path_to_devino h w (arg1 regs)) (\<lambda>dev ino. ig_check h dev ino IG_OP_WRITE) s)
       (orig NR_link regs) w"

definition ig_sys_linkat :: "'w hook_env \<Rightarrow> 'w orig_calls \<Rightarrow> pt_regs \<Rightarrow> lkm \<Rightarrow> 'w \<Rightarrow> int \<times> lkm \<times> 'w" where
  "ig_sys_linkat h orig regs s w =
     rc_or_orig (if_resolved (pathat_to_devino h w (as_int (arg1 regs)) (arg2 regs)) (\<lambda>dev ino. ig_check h dev ino IG_OP_WRITE) s)
       (orig NR_linkat regs) w"

definition ig_sys_setxattr :: "'w hook_env \<Rightarrow> 'w orig_calls \<Rightarrow> pt_regs \<Rightarrow> lkm \<Rightarrow> 'w \<Rightarrow> int \<times> lkm \<times> 'w" where
  "ig_sys_setxattr h orig regs s w =
     rc_or_orig (if_resolved (path_to_devino h w (arg1 regs)) (\<lambda>dev ino. ig_check h dev ino IG_OP_WRITE) s)
       (orig NR_setxattr regs) w"

definition ig_sys_lsetxattr :: "'w hook_env \<Rightarrow> 'w orig_calls \<Rightarrow> pt_regs \<Rightarrow> lkm \<Rightarrow> 'w \<Rightarrow> int \<times> lkm \<times> 'w" where
  "ig_sys_lsetxattr h orig regs s w =
     rc_or_orig (if_resolved (path_to_devino h w (arg1 regs)) (\<lambda>dev ino. ig_check h dev ino IG_OP_WRITE) s)
       (orig NR_lsetxattr regs) w"

definition ig_sys_fsetxattr :: "'w hook_env \<Rightarrow> 'w orig_calls \<Rightarrow> pt_regs \<Rightarrow> lkm \<Rightarrow> 'w \<Rightarrow> int \<times> lkm \<times> 'w" where
  "ig_sys_fsetxattr h orig regs s w =
     rc_or_orig (if_resolved (fd_to_devino h w (as_int (arg1 regs))) (\<lambda>dev ino. ig_check h dev ino IG_OP_WRITE) s)
       (orig NR_fsetxattr regs) w"

text \<open>The dispatch through the patched table: each number runs its own hook.\<close>

fun hooked_call :: "'w hook_env \<Rightarrow> 'w orig_calls \<Rightarrow> sysno \<Rightarrow> pt_regs \<Rightarrow> lkm \<Rightarrow> 'w \<Rightarrow> int \<times> lkm \<times> 'w" where
  "hooked_call h orig NR_write = ig_sys_write h orig"
| "hooked_call h orig NR_truncate = ig_sys_truncate h orig"
| "hooked_call h orig NR_ftruncate = ig_sys_ftruncate h orig"
| "hooked_call h orig NR_open = ig_sys_open h orig"
| "hooked_call h orig NR_openat = ig_sys_openat h orig"
| "hooked_call h orig NR_creat = ig_sys_creat h orig"
| "hooked_call h orig NR_unlink = ig_sys_unlink h orig"
| "hooked_call h orig NR_unlinkat = ig_sys_unlinkat h orig"
| "hooked_call h orig NR_rename = ig_sys_rename h orig"
| "hooked_call h orig NR_renameat = ig_sys_renameat h orig"
| "hooked_call h orig NR_renameat2 = ig_sys_renameat2 h orig"
| "hooked_call h orig NR_chmod = ig_sys_chmod h orig"
| "hooked_call h orig NR_fchmodat = ig_sys_fchmodat h orig"
| "hooked_call h orig NR_chown = ig_sys_chown h orig"
| "hooked_call h orig NR_fchownat = ig_sys_fchownat h orig"
| "hooked_call h orig NR_link = ig_sys_link h orig"
| "hooked_call h orig NR_linkat = ig_sys_linkat h orig"
| "hooked_call h orig NR_setxattr = ig_sys_setxattr h orig"
| "hooked_call h orig NR_lsetxattr = ig_sys_lsetxattr h orig"
| "hooked_call h orig NR_fsetxattr = ig_sys_fsetxattr h orig"

lemmas ig_sys_defs = ig_sys_write_def ig_sys_truncate_def ig_sys_ftruncate_def ig_sys_open_def ig_sys_openat_def ig_sys_creat_def ig_sys_unlink_def ig_sys_unlinkat_def ig_sys_rename_def ig_sys_renameat_def ig_sys_renameat2_def ig_sys_chmod_def ig_sys_fchmodat_def ig_sys_chown_def ig_sys_fchownat_def ig_sys_link_def ig_sys_linkat_def ig_sys_setxattr_def ig_sys_lsetxattr_def ig_sys_fsetxattr_def

section \<open>Patching the table\<close>

text \<open>
  The table holds original handlers and hooks; \<open>saved\<close> is the family of \<^verbatim>\<open>orig_sys_*\<close> pointers, null before
  the first \<^verbatim>\<open>HOOK\<close>.  \<open>hook_order\<close> is the order of the \<^verbatim>\<open>HOOK\<close> lines.
\<close>

datatype 'f table_entry = NullPtr | Kernel 'f | Hook sysno

definition hook_order :: "sysno list" where
  "hook_order = [NR_write, NR_truncate, NR_ftruncate, NR_open, NR_openat, NR_creat, NR_unlink,
     NR_unlinkat, NR_rename, NR_renameat, NR_renameat2, NR_chmod, NR_fchmodat, NR_chown,
     NR_fchownat, NR_link, NR_linkat, NR_setxattr, NR_lsetxattr, NR_fsetxattr]"

record 'f syscall_patch =
  sp_found :: bool
  sp_table :: "sysno \<Rightarrow> 'f table_entry"
  sp_saved :: "sysno \<Rightarrow> 'f table_entry"
  sp_write_protect :: bool

definition HOOK :: "sysno \<Rightarrow> 'f syscall_patch \<Rightarrow> 'f syscall_patch" where
  "HOOK n p = (let p = p\<lparr>sp_saved := (sp_saved p)(n := sp_table p n)\<rparr>
     in p\<lparr>sp_table := (sp_table p)(n := Hook n)\<rparr>)"

definition UNHOOK :: "sysno \<Rightarrow> 'f syscall_patch \<Rightarrow> 'f syscall_patch" where
  "UNHOOK n p = p\<lparr>sp_table := (sp_table p)(n := sp_saved p n)\<rparr>"

definition ig_hooks_init :: "bool \<Rightarrow> 'f syscall_patch \<Rightarrow> int \<times> 'f syscall_patch" where
  "ig_hooks_init found p =
     (let p = p\<lparr>sp_found := found\<rparr>
      in if \<not> found then (- ENOENT, p)
      else let p = p\<lparr>sp_write_protect := False\<rparr>;
               p = fold HOOK hook_order p
      in (0, p\<lparr>sp_write_protect := True\<rparr>))"

definition ig_hooks_exit :: "'f syscall_patch \<Rightarrow> 'f syscall_patch" where
  "ig_hooks_exit p =
     (if \<not> sp_found p then p
      else let p = p\<lparr>sp_write_protect := False\<rparr>;
               p = fold UNHOOK hook_order p
      in p\<lparr>sp_write_protect := True\<rparr>)"

section \<open>What the hooks enforce\<close>

text \<open>
  The specification: the accesses a call makes, as pairs of an inode and an operation, in the
  order they are checked.
\<close>

definition opens_for_write :: "u32 \<Rightarrow> bool" where
  "opens_for_write flags \<longleftrightarrow> flags AND (O_WRONLY OR O_RDWR OR O_TRUNC) \<noteq> 0"

fun call_targets :: "'w hook_env \<Rightarrow> 'w \<Rightarrow> sysno \<Rightarrow> pt_regs \<Rightarrow> (inode_key \<times> u32) list" where
  "call_targets h w NR_write r = target (fd_to_devino h w (as_int (arg1 r))) IG_OP_WRITE"
| "call_targets h w NR_ftruncate r = target (fd_to_devino h w (as_int (arg1 r))) IG_OP_WRITE"
| "call_targets h w NR_fsetxattr r = target (fd_to_devino h w (as_int (arg1 r))) IG_OP_WRITE"
| "call_targets h w NR_truncate r = target (path_to_devino h w (arg1 r)) IG_OP_WRITE"
| "call_targets h w NR_chmod r = target (path_to_devino h w (arg1 r)) IG_OP_WRITE"
| "call_targets h w NR_chown r = target (path_to_devino h w (arg1 r)) IG_OP_WRITE"
| "call_targets h w NR_link r = target (path_to_devino h w (arg1 r)) IG_OP_WRITE"
| "call_targets h w NR_setxattr r = target (path_to_devino h w (arg1 r)) IG_OP_WRITE"
| "call_targets h w NR_lsetxattr r = target (path_to_devino h w (arg1 r)) IG_OP_WRITE"
| "call_targets h w NR_fchmodat r = target (pathat_to_devino h w (as_int (arg1 r)) (arg2 r)) IG_OP_WRITE"
| "call_targets h w NR_fchownat r = target (pathat_to_devino h w (as_int (arg1 r)) (arg2 r)) IG_OP_WRITE"
| "call_targets h w NR_linkat r = target (pathat_to_devino h w (as_int (arg1 r)) (arg2 r)) IG_OP_WRITE"
| "call_targets h w NR_open r =
     (if opens_for_write (as_int (arg2 r)) then target (pathat_to_devino h w AT_FDCWD (arg1 r)) IG_OP_WRITE else [])"
| "call_targets h w NR_openat r =
     (if opens_for_write (as_int (arg3 r))
      then target (pathat_to_devino h w (as_int (arg1 r)) (arg2 r)) IG_OP_WRITE else [])"
| "call_targets h w NR_creat r = target (pathat_to_devino h w AT_FDCWD (arg1 r)) IG_OP_WRITE"
| "call_targets h w NR_unlink r = target (path_to_devino h w (arg1 r)) IG_OP_DELETE"
| "call_targets h w NR_unlinkat r =
     (if as_int (arg3 r) AND AT_REMOVEDIR = 0
      then target (pathat_to_devino h w (as_int (arg1 r)) (arg2 r)) IG_OP_DELETE else [])"
| "call_targets h w NR_rename r =
     target (pathat_to_devino h w AT_FDCWD (arg1 r)) IG_OP_RENAME
     @ target (pathat_to_devino h w AT_FDCWD (arg2 r)) IG_OP_RENAME"
| "call_targets h w NR_renameat r =
     target (pathat_to_devino h w (as_int (arg1 r)) (arg2 r)) IG_OP_RENAME
     @ target (pathat_to_devino h w (as_int (arg3 r)) (arg4 r)) IG_OP_RENAME"
| "call_targets h w NR_renameat2 r =
     target (pathat_to_devino h w (as_int (arg1 r)) (arg2 r)) IG_OP_RENAME
     @ target (pathat_to_devino h w (as_int (arg3 r)) (arg4 r)) IG_OP_RENAME"

lemma enforces_resolved:
  "enforces h (target k IG_OP_WRITE) s (if_resolved k (\<lambda>d i. ig_check h d i IG_OP_WRITE) s)"
  "enforces h (target k IG_OP_RENAME) s (if_resolved k (\<lambda>d i. ig_check h d i IG_OP_RENAME) s)"
  "enforces h (target k IG_OP_DELETE) s (if_resolved k (ig_check_delete h) s)"
  by (auto simp: if_resolved_def enforces_nothing enforces_check enforces_delete split: option.splits)

lemma enforces_open:
  "enforces h (if opens_for_write flags then target (pathat_to_devino h w dfd p) IG_OP_WRITE else []) s
     (check_open_flags h dfd p flags w s)"
  by (auto simp: check_open_flags_def opens_for_write_def enforces_nothing enforces_check split: option.splits)

lemma if_resolved_check_frame:
  assumes "if_resolved k (\<lambda>d i. ig_check h d i op) s = (rc, s1)"
  obtains es where "lk_table s1 = lk_table s" "lk_fifo s1 = lk_fifo s @ es" "length es \<le> 1"
proof (cases k)
  case None
  with assms that [of "[]"] show ?thesis by (simp add: if_resolved_def)
next
  case (Some a)
  obtain d i where k: "a = (d, i)" by fastforce
  have s1: "snd (ig_check h d i op s) = s1" using assms by (simp add: if_resolved_def Some k)
  obtain es where "lk_fifo s1 = lk_fifo s @ es" "length es \<le> 1"
    using ig_check_fifo [of h d i op s] s1 by auto
  with that [of es] ig_check_table [of h d i op s] s1 show ?thesis by simp
qed

lemma enforces_rename:
  "enforces h (target (pathat_to_devino h w od op) IG_OP_RENAME @ target (pathat_to_devino h w nd np) IG_OP_RENAME) s
     (check_rename h od op nd np w s)"
proof -
  let ?src = "pathat_to_devino h w od op" and ?dst = "pathat_to_devino h w nd np"
  obtain rc s1 where c: "if_resolved ?src (\<lambda>d i. ig_check h d i IG_OP_RENAME) s = (rc, s1)" by fastforce
  have src: "enforces h (target ?src IG_OP_RENAME) s (rc, s1)"
    using enforces_resolved(2) [of h ?src s] c by simp
  obtain es where frame: "lk_table s1 = lk_table s" "lk_fifo s1 = lk_fifo s @ es" "length es \<le> 1"
    by (rule if_resolved_check_frame [OF c])
  show ?thesis
  proof (cases "some_denied (lkm_pol h s) (target ?src IG_OP_RENAME)")
    case True
    with src have "rc = - EPERM" by (simp add: enforces_def)
    then have "check_rename h od op nd np w s = (rc, s1)" by (simp add: check_rename_def c EPERM_def)
    then show ?thesis using enforces_refused [OF src True] by simp
  next
    case False
    then have rc: "rc = 0" using src by (simp add: enforces_def)
    note src0 = src [unfolded rc]
    show ?thesis
    proof (cases ?dst)
      case None
      with src0 c rc show ?thesis by (simp add: check_rename_def)
    next
      case (Some k)
      obtain d i where k: "k = (d, i)" by fastforce
      have "inode_policy_lookup (he_bkt h) (lk_table s1) d i IG_OP_RENAME = Some IG_BLOCK_DENY
          \<longleftrightarrow> denied (lkm_pol h s) (d, i) IG_OP_RENAME"
        using lookup_covered(2) [of h s1 d i IG_OP_RENAME] frame(1) by (simp add: lkm_pol_def)
      then have "enforces h (target ?src IG_OP_RENAME @ [((d, i), IG_OP_RENAME)]) s
          (check_rename h od op nd np w s)"
        using enqueue_reported [of h s1 d i IG_OP_RENAME 1]
        by (intro enforces_two [OF src0 False frame])
           (auto simp: check_rename_def c rc Some k dest: denied_covered)
      then show ?thesis by (simp add: Some k)
    qed
  qed
qed

lemma rc_or_orig_enforces:
  assumes "enforces h ts s c" and "rc_or_orig c orig w = (rc, s', w')"
  shows "(some_denied (lkm_pol h s) ts \<longrightarrow> rc = - EPERM \<and> w' = w \<and> lk_table s' = lk_table s
            \<and> blocked_report h s ts s')
    \<and> (\<not> some_denied (lkm_pol h s) ts \<longrightarrow> (rc, w') = orig w)
    \<and> (\<not> some_covered (lkm_pol h s) ts \<longrightarrow> s' = s)"
  using assms by (cases c) (auto simp: enforces_def rc_or_orig_def EPERM_def split: prod.splits if_splits)

text \<open>Every hook is a check of its targets followed by the original call.\<close>

lemma creat_opens: "opens_for_write (O_WRONLY OR O_TRUNC)"
  by (simp add: opens_for_write_def O_WRONLY_def O_RDWR_def O_TRUNC_def)

lemma enforces_creat:
  "enforces h (target (pathat_to_devino h w dfd p) IG_OP_WRITE) s (check_open_flags h dfd p (O_WRONLY OR O_TRUNC) w s)"
  using enforces_open [of h "O_WRONLY OR O_TRUNC" w dfd p s] by (simp add: creat_opens)

lemma enforces_unlinkat:
  "enforces h (if b then target k IG_OP_DELETE else []) s
     (if b then if_resolved k (ig_check_delete h) s else (0, s))"
  by (simp add: enforces_resolved enforces_nothing)

lemma checksI:
  "enforces h ts s c \<Longrightarrow> \<exists>c'. enforces h ts s c' \<and> rc_or_orig c orig w = rc_or_orig c' orig w"
  by blast

lemma hooked_call_checks:
  "\<exists>c. enforces h (call_targets h w n regs) s c \<and> hooked_call h orig n regs s w = rc_or_orig c (orig n regs) w"
  by (cases n; simp only: ig_sys_defs hooked_call.simps call_targets.simps)
     (rule checksI enforces_resolved enforces_open enforces_creat enforces_unlinkat enforces_rename)+

section \<open>Properties\<close>


definition zero_regs :: pt_regs where
  "zero_regs = \<lparr>di = 0, si = 0, dx = 0, r10 = 0, r8 = 0\<rparr>"


text \<open>The path hooks resolve their argument without following a final symbolic link, while the
  system call follows it: truncating a denied file through a symbolic link is not refused, and no
  event tells of it.\<close>

definition link_env :: "unit hook_env" where
  "link_env = sample_env\<lparr>he_path := (\<lambda>_ _ _ flags.
     if flags AND 1 \<noteq> 0 then Some (Some sample_file) else Some (Some \<lparr>i_sb = Some 8, i_ino = 99, i_mode = 0xA1FF\<rparr>))\<rparr>"

theorem truncate_through_symlink_not_denied:
  "he_path link_env () AT_FDCWD 0 1 = Some (Some sample_file)
   \<and> denied (lkm_pol link_env (guarded_lkm 1)) (8, 77) IG_OP_WRITE
   \<and> hooked_call link_env orig NR_truncate zero_regs (guarded_lkm 1) ()
       = (fst (orig NR_truncate zero_regs ()), guarded_lkm 1, snd (orig NR_truncate zero_regs ()))"
proof -
  have pol: "lkm_pol link_env (guarded_lkm 1) = lkm_pol sample_env (guarded_lkm 1)"
    by (simp add: lkm_pol_def link_env_def sample_env_def)
  have res: "path_to_devino link_env () (arg1 zero_regs) = Some (8, 99)"
    by (simp add: path_to_devino_def pathat_to_devino_def link_env_def)
  have "ig_check link_env 8 99 IG_OP_WRITE (guarded_lkm 1) = (0, guarded_lkm 1)"
    by (rule ig_check_uncovered) (simp add: pol guarded_pol covered_def)
  then show ?thesis
    by (auto simp: link_env_def pol [unfolded link_env_def] guarded_pol denied_def ig_op_codes ig_sys_truncate_def
        res [unfolded link_env_def] if_resolved_def rc_or_orig_def split: prod.splits)
qed

text \<open>An audited deletion forgets the file: the hook drops the inode's policy before the system
  call runs, so the file is unprotected afterwards even when the deletion fails or only removed
  one of its names.\<close>

theorem audited_unlink_forgets:
  assumes "ht_inv (he_bkt h) (lk_table s)"
    and "path_to_devino h w (arg1 regs) = Some k"
    and "covered (lkm_pol h s) k IG_OP_DELETE" and "\<not> denied (lkm_pol h s) k IG_OP_DELETE"
    and "hooked_call h orig NR_unlink regs s w = (rc, s', w')"
  shows "lkm_pol h s' = (lkm_pol h s)(k := None) \<and> (rc, w') = orig NR_unlink regs w
    \<and> ht_inv (he_bkt h) (lk_table s')"
proof -
  obtain d i where k: "k = (d, i)" by fastforce
  have "s' = snd (ig_check_delete h d i s)" "(rc, w') = orig NR_unlink regs w"
    using assms(4,5) ig_check_delete_rc [of h d i s]
    by (auto simp: ig_sys_unlink_def if_resolved_def assms(2) k rc_or_orig_def split: prod.splits if_splits)
  then show ?thesis
    using ig_check_delete_pol [OF assms(1), of d i] ig_check_delete_inv [OF assms(1), of d i] assms(3,4) k
    by simp
qed

lemma guarded_inv: "ht_inv (he_bkt sample_env) (lk_table (guarded_lkm block))"
  by (auto simp: ht_inv_def sample_env_def guarded_lkm_def sample_lkm_def inode_policy_add_def add_update_def
      find_entry_def ig_policy_init_def add_link_def new_entry_def)

theorem audited_unlink_forgets_witness:
  "lkm_pol sample_env (fst (snd (hooked_call sample_env (\<lambda>_ _ w. (-16, w)) NR_unlink zero_regs (guarded_lkm 0) ()))) (8, 77)
   = None"
proof -
  let ?r = "hooked_call sample_env (\<lambda>_ _ w. (-16, w)) NR_unlink zero_regs (guarded_lkm 0) ()"
  have res: "path_to_devino sample_env () (arg1 zero_regs) = Some (8, 77)"
    by (simp add: path_to_devino_def pathat_to_devino_def sample_env_def sample_file_def)
  have "covered (lkm_pol sample_env (guarded_lkm 0)) (8, 77) IG_OP_DELETE"
    "\<not> denied (lkm_pol sample_env (guarded_lkm 0)) (8, 77) IG_OP_DELETE"
    by (simp_all add: guarded_pol covered_def denied_def ig_op_codes)
  moreover obtain rc s' w' where r: "?r = (rc, s', w')" by (metis prod_cases3)
  ultimately show ?thesis using audited_unlink_forgets [OF guarded_inv res _ _ r] by (simp del: hooked_call.simps)
qed

text \<open>Installing and removing the hooks is a round trip: after a successful installation every
  hooked call goes through the module, and removal restores the handlers the kernel had, with
  write protection back on; when the table is not found nothing is patched, and removal is safe.\<close>

lemma hook_order_all: "distinct hook_order \<and> set hook_order = UNIV"
proof -
  have "n \<in> set hook_order" for n by (cases n) (simp_all add: hook_order_def)
  then show ?thesis by (auto simp: hook_order_def)
qed

lemma fold_HOOK:
  "distinct ns \<Longrightarrow> sp_table (fold HOOK ns p) = (\<lambda>n. if n \<in> set ns then Hook n else sp_table p n)
     \<and> sp_saved (fold HOOK ns p) = (\<lambda>n. if n \<in> set ns then sp_table p n else sp_saved p n)
     \<and> sp_found (fold HOOK ns p) = sp_found p"
  by (induction ns arbitrary: p) (auto simp: HOOK_def Let_def fun_eq_iff)

lemma fold_UNHOOK:
  "sp_table (fold UNHOOK ns p) = (\<lambda>n. if n \<in> set ns then sp_saved p n else sp_table p n)
     \<and> sp_saved (fold UNHOOK ns p) = sp_saved p"
  by (induction ns arbitrary: p) (auto simp: UNHOOK_def fun_eq_iff)

theorem hooks_install_remove:
  assumes "ig_hooks_init found p = (rc, p')"
  shows "(rc = 0 \<longleftrightarrow> found)
    \<and> (rc = 0 \<longrightarrow> sp_table p' = Hook \<and> sp_table (ig_hooks_exit p') = sp_table p
          \<and> sp_write_protect p' \<and> sp_write_protect (ig_hooks_exit p'))
    \<and> (rc \<noteq> 0 \<longrightarrow> sp_table p' = sp_table p \<and> ig_hooks_exit p' = p')"
proof -
  note u = conjunct2 [OF hook_order_all]
  have h: "sp_table (fold HOOK hook_order q) = Hook \<and> sp_saved (fold HOOK hook_order q) = sp_table q
      \<and> sp_found (fold HOOK hook_order q) = sp_found q" for q :: "'a syscall_patch"
    using fold_HOOK [OF conjunct1 [OF hook_order_all], of q] u by (simp add: fun_eq_iff)
  have x: "sp_table (fold UNHOOK hook_order q) = sp_saved q" for q :: "'a syscall_patch"
    using fold_UNHOOK [of hook_order q] u by (simp add: fun_eq_iff)
  show ?thesis
    using assms by (auto simp: ig_hooks_init_def ig_hooks_exit_def Let_def ENOENT_def h x split: if_splits)
qed

theorem hooks_install_remove_witness:
  "sp_table (ig_hooks_exit (snd (ig_hooks_init True
     \<lparr>sp_found = False, sp_table = (Kernel :: sysno \<Rightarrow> sysno table_entry), sp_saved = (\<lambda>_. NullPtr), sp_write_protect = True\<rparr>))) = Kernel"
proof -
  let ?p = "\<lparr>sp_found = False, sp_table = (Kernel :: sysno \<Rightarrow> sysno table_entry), sp_saved = (\<lambda>_. NullPtr), sp_write_protect = True\<rparr>"
  obtain rc p' where r: "ig_hooks_init True ?p = (rc, p')" by fastforce
  from hooks_install_remove [OF r] show ?thesis by (simp add: r)
qed

end
