(* ===== verification/Hooks_Direct.thy ===== *)
theory Hooks_Direct
  imports Hooks_Syscall
begin

text \<open>
  The syscall-table hooks for kernels whose handlers take their arguments directly:
  \<^verbatim>\<open>Agent/src/lkm/hooks/lkm310.c\<close>.  Its helpers (\<^verbatim>\<open>pathat_to_devino\<close>, \<^verbatim>\<open>fd_to_devino\<close>, \<^verbatim>\<open>ig_check\<close>,
  \<^verbatim>\<open>ig_check_delete\<close>, \<^verbatim>\<open>check_rename\<close>, \<^verbatim>\<open>check_open_flags\<close>) are the same code as in the \<^verbatim>\<open>pt_regs\<close>
  variant and use its definitions; the twenty handlers have their own argument lists.
\<close>

datatype direct_call =
    D_write u32 u64 u64
  | D_truncate u64 u64
  | D_ftruncate u32 u64
  | D_open u64 u32 u16
  | D_openat u32 u64 u32 u16
  | D_creat u64 u16
  | D_unlink u64
  | D_unlinkat u32 u64 u32
  | D_rename u64 u64
  | D_renameat u32 u64 u32 u64
  | D_renameat2 u32 u64 u32 u64 u32
  | D_chmod u64 u16
  | D_fchmodat u32 u64 u16
  | D_chown u64 u32 u32
  | D_fchownat u32 u64 u32 u32 u32
  | D_link u64 u64
  | D_linkat u32 u64 u32 u64 u32
  | D_setxattr u64 u64 u64 u64 u32
  | D_lsetxattr u64 u64 u64 u64 u32
  | D_fsetxattr u32 u64 u64 u64 u32

type_synonym 'w direct_orig = "direct_call \<Rightarrow> 'w \<Rightarrow> int \<times> 'w"

definition ig_sys_write_310 :: "'w hook_env \<Rightarrow> 'w direct_orig \<Rightarrow> u32 \<Rightarrow> u64 \<Rightarrow> u64 \<Rightarrow> lkm \<Rightarrow> 'w \<Rightarrow> int \<times> lkm \<times> 'w" where
  "ig_sys_write_310 h orig fd buf count s w =
     rc_or_orig (if_resolved (fd_to_devino h w fd) (\<lambda>dev ino. ig_check h dev ino IG_OP_WRITE) s)
       (orig (D_write fd buf count)) w"

definition ig_sys_truncate_310 :: "'w hook_env \<Rightarrow> 'w direct_orig \<Rightarrow> u64 \<Rightarrow> u64 \<Rightarrow> lkm \<Rightarrow> 'w \<Rightarrow> int \<times> lkm \<times> 'w" where
  "ig_sys_truncate_310 h orig path len s w =
     rc_or_orig (if_resolved (path_to_devino h w path) (\<lambda>dev ino. ig_check h dev ino IG_OP_WRITE) s)
       (orig (D_truncate path len)) w"

definition ig_sys_ftruncate_310 :: "'w hook_env \<Rightarrow> 'w direct_orig \<Rightarrow> u32 \<Rightarrow> u64 \<Rightarrow> lkm \<Rightarrow> 'w \<Rightarrow> int \<times> lkm \<times> 'w" where
  "ig_sys_ftruncate_310 h orig fd len s w =
     rc_or_orig (if_resolved (fd_to_devino h w fd) (\<lambda>dev ino. ig_check h dev ino IG_OP_WRITE) s)
       (orig (D_ftruncate fd len)) w"

definition ig_sys_open_310 :: "'w hook_env \<Rightarrow> 'w direct_orig \<Rightarrow> u64 \<Rightarrow> u32 \<Rightarrow> u16 \<Rightarrow> lkm \<Rightarrow> 'w \<Rightarrow> int \<times> lkm \<times> 'w" where
  "ig_sys_open_310 h orig filename flags md s w =
     rc_or_orig (check_open_flags h AT_FDCWD filename flags w s)
       (orig (D_open filename flags md)) w"

definition ig_sys_openat_310 :: "'w hook_env \<Rightarrow> 'w direct_orig \<Rightarrow> u32 \<Rightarrow> u64 \<Rightarrow> u32 \<Rightarrow> u16 \<Rightarrow> lkm \<Rightarrow> 'w \<Rightarrow> int \<times> lkm \<times> 'w" where
  "ig_sys_openat_310 h orig dfd filename flags md s w =
     rc_or_orig (check_open_flags h dfd filename flags w s)
       (orig (D_openat dfd filename flags md)) w"

definition ig_sys_creat_310 :: "'w hook_env \<Rightarrow> 'w direct_orig \<Rightarrow> u64 \<Rightarrow> u16 \<Rightarrow> lkm \<Rightarrow> 'w \<Rightarrow> int \<times> lkm \<times> 'w" where
  "ig_sys_creat_310 h orig pathname md s w =
     rc_or_orig (check_open_flags h AT_FDCWD pathname (O_WRONLY OR O_TRUNC) w s)
       (orig (D_creat pathname md)) w"

definition ig_sys_unlink_310 :: "'w hook_env \<Rightarrow> 'w direct_orig \<Rightarrow> u64 \<Rightarrow> lkm \<Rightarrow> 'w \<Rightarrow> int \<times> lkm \<times> 'w" where
  "ig_sys_unlink_310 h orig pathname s w =
     rc_or_orig (if_resolved (path_to_devino h w pathname) (ig_check_delete h) s)
       (orig (D_unlink pathname)) w"

definition ig_sys_unlinkat_310 :: "'w hook_env \<Rightarrow> 'w direct_orig \<Rightarrow> u32 \<Rightarrow> u64 \<Rightarrow> u32 \<Rightarrow> lkm \<Rightarrow> 'w \<Rightarrow> int \<times> lkm \<times> 'w" where
  "ig_sys_unlinkat_310 h orig dfd pathname flag s w =
     rc_or_orig (if flag AND AT_REMOVEDIR = 0
        then if_resolved (pathat_to_devino h w dfd pathname) (ig_check_delete h) s
        else (0, s))
       (orig (D_unlinkat dfd pathname flag)) w"

definition ig_sys_rename_310 :: "'w hook_env \<Rightarrow> 'w direct_orig \<Rightarrow> u64 \<Rightarrow> u64 \<Rightarrow> lkm \<Rightarrow> 'w \<Rightarrow> int \<times> lkm \<times> 'w" where
  "ig_sys_rename_310 h orig oldname newname s w =
     rc_or_orig (check_rename h AT_FDCWD oldname AT_FDCWD newname w s)
       (orig (D_rename oldname newname)) w"

definition ig_sys_renameat_310 :: "'w hook_env \<Rightarrow> 'w direct_orig \<Rightarrow> u32 \<Rightarrow> u64 \<Rightarrow> u32 \<Rightarrow> u64 \<Rightarrow> lkm \<Rightarrow> 'w \<Rightarrow> int \<times> lkm \<times> 'w" where
  "ig_sys_renameat_310 h orig olddfd oldname newdfd newname s w =
     rc_or_orig (check_rename h olddfd oldname newdfd newname w s)
       (orig (D_renameat olddfd oldname newdfd newname)) w"

definition ig_sys_renameat2_310 :: "'w hook_env \<Rightarrow> 'w direct_orig \<Rightarrow> u32 \<Rightarrow> u64 \<Rightarrow> u32 \<Rightarrow> u64 \<Rightarrow> u32 \<Rightarrow> lkm \<Rightarrow> 'w \<Rightarrow> int \<times> lkm \<times> 'w" where
  "ig_sys_renameat2_310 h orig olddfd oldname newdfd newname flags s w =
     rc_or_orig (check_rename h olddfd oldname newdfd newname w s)
       (orig (D_renameat2 olddfd oldname newdfd newname flags)) w"

definition ig_sys_chmod_310 :: "'w hook_env \<Rightarrow> 'w direct_orig \<Rightarrow> u64 \<Rightarrow> u16 \<Rightarrow> lkm \<Rightarrow> 'w \<Rightarrow> int \<times> lkm \<times> 'w" where
  "ig_sys_chmod_310 h orig filename md s w =
     rc_or_orig (if_resolved (path_to_devino h w filename) (\<lambda>dev ino. ig_check h dev ino IG_OP_WRITE) s)
       (orig (D_chmod filename md)) w"

definition ig_sys_fchmodat_310 :: "'w hook_env \<Rightarrow> 'w direct_orig \<Rightarrow> u32 \<Rightarrow> u64 \<Rightarrow> u16 \<Rightarrow> lkm \<Rightarrow> 'w \<Rightarrow> int \<times> lkm \<times> 'w" where
  "ig_sys_fchmodat_310 h orig dfd filename md s w =
     rc_or_orig (if_resolved (pathat_to_devino h w dfd filename) (\<lambda>dev ino. ig_check h dev ino IG_OP_WRITE) s)
       (orig (D_fchmodat dfd filename md)) w"

definition ig_sys_chown_310 :: "'w hook_env \<Rightarrow> 'w direct_orig \<Rightarrow> u64 \<Rightarrow> u32 \<Rightarrow> u32 \<Rightarrow> lkm \<Rightarrow> 'w \<Rightarrow> int \<times> lkm \<times> 'w" where
  "ig_sys_chown_310 h orig filename user grp s w =
     rc_or_orig (if_resolved (path_to_devino h w filename) (\<lambda>dev ino. ig_check h dev ino IG_OP_WRITE) s)
       (orig (D_chown filename user grp)) w"

definition ig_sys_fchownat_310 :: "'w hook_env \<Rightarrow> 'w direct_orig \<Rightarrow> u32 \<Rightarrow> u64 \<Rightarrow> u32 \<Rightarrow> u32 \<Rightarrow> u32 \<Rightarrow> lkm \<Rightarrow> 'w \<Rightarrow> int \<times> lkm \<times> 'w" where
  "ig_sys_fchownat_310 h orig dfd filename user grp flag s w =
     rc_or_orig (if_resolved (pathat_to_devino h w dfd filename) (\<lambda>dev ino. ig_check h dev ino IG_OP_WRITE) s)
       (orig (D_fchownat dfd filename user grp flag)) w"

definition ig_sys_link_310 :: "'w hook_env \<Rightarrow> 'w direct_orig \<Rightarrow> u64 \<Rightarrow> u64 \<Rightarrow> lkm \<Rightarrow> 'w \<Rightarrow> int \<times> lkm \<times> 'w" where
  "ig_sys_link_310 h orig oldname newname s w =
     rc_or_orig (if_resolved (path_to_devino h w oldname) (\<lambda>dev ino. ig_check h dev ino IG_OP_WRITE) s)
       (orig (D_link oldname newname)) w"

definition ig_sys_linkat_310 :: "'w hook_env \<Rightarrow> 'w direct_orig \<Rightarrow> u32 \<Rightarrow> u64 \<Rightarrow> u32 \<Rightarrow> u64 \<Rightarrow> u32 \<Rightarrow> lkm \<Rightarrow> 'w \<Rightarrow> int \<times> lkm \<times> 'w" where
  "ig_sys_linkat_310 h orig olddfd oldname newdfd newname flags s w =
     rc_or_orig (if_resolved (pathat_to_devino h w olddfd oldname) (\<lambda>dev ino. ig_check h dev ino IG_OP_WRITE) s)
       (orig (D_linkat olddfd oldname newdfd newname flags)) w"

definition ig_sys_setxattr_310 :: "'w hook_env \<Rightarrow> 'w direct_orig \<Rightarrow> u64 \<Rightarrow> u64 \<Rightarrow> u64 \<Rightarrow> u64 \<Rightarrow> u32 \<Rightarrow> lkm \<Rightarrow> 'w \<Rightarrow> int \<times> lkm \<times> 'w" where
  "ig_sys_setxattr_310 h orig path name val sz flags s w =
     rc_or_orig (if_resolved (path_to_devino h w path) (\<lambda>dev ino. ig_check h dev ino IG_OP_WRITE) s)
       (orig (D_setxattr path name val sz flags)) w"

definition ig_sys_lsetxattr_310 :: "'w hook_env \<Rightarrow> 'w direct_orig \<Rightarrow> u64 \<Rightarrow> u64 \<Rightarrow> u64 \<Rightarrow> u64 \<Rightarrow> u32 \<Rightarrow> lkm \<Rightarrow> 'w \<Rightarrow> int \<times> lkm \<times> 'w" where
  "ig_sys_lsetxattr_310 h orig path name val sz flags s w =
     rc_or_orig (if_resolved (path_to_devino h w path) (\<lambda>dev ino. ig_check h dev ino IG_OP_WRITE) s)
       (orig (D_lsetxattr path name val sz flags)) w"

definition ig_sys_fsetxattr_310 :: "'w hook_env \<Rightarrow> 'w direct_orig \<Rightarrow> u32 \<Rightarrow> u64 \<Rightarrow> u64 \<Rightarrow> u64 \<Rightarrow> u32 \<Rightarrow> lkm \<Rightarrow> 'w \<Rightarrow> int \<times> lkm \<times> 'w" where
  "ig_sys_fsetxattr_310 h orig fd name val sz flags s w =
     rc_or_orig (if_resolved (fd_to_devino h w fd) (\<lambda>dev ino. ig_check h dev ino IG_OP_WRITE) s)
       (orig (D_fsetxattr fd name val sz flags)) w"

fun direct_hooked :: "'w hook_env \<Rightarrow> 'w direct_orig \<Rightarrow> direct_call \<Rightarrow> lkm \<Rightarrow> 'w \<Rightarrow> int \<times> lkm \<times> 'w" where
  "direct_hooked h orig (D_write fd buf count) = ig_sys_write_310 h orig fd buf count"
| "direct_hooked h orig (D_truncate path len) = ig_sys_truncate_310 h orig path len"
| "direct_hooked h orig (D_ftruncate fd len) = ig_sys_ftruncate_310 h orig fd len"
| "direct_hooked h orig (D_open filename flags md) = ig_sys_open_310 h orig filename flags md"
| "direct_hooked h orig (D_openat dfd filename flags md) = ig_sys_openat_310 h orig dfd filename flags md"
| "direct_hooked h orig (D_creat pathname md) = ig_sys_creat_310 h orig pathname md"
| "direct_hooked h orig (D_unlink pathname) = ig_sys_unlink_310 h orig pathname"
| "direct_hooked h orig (D_unlinkat dfd pathname flag) = ig_sys_unlinkat_310 h orig dfd pathname flag"
| "direct_hooked h orig (D_rename oldname newname) = ig_sys_rename_310 h orig oldname newname"
| "direct_hooked h orig (D_renameat olddfd oldname newdfd newname) = ig_sys_renameat_310 h orig olddfd oldname newdfd newname"
| "direct_hooked h orig (D_renameat2 olddfd oldname newdfd newname flags) = ig_sys_renameat2_310 h orig olddfd oldname newdfd newname flags"
| "direct_hooked h orig (D_chmod filename md) = ig_sys_chmod_310 h orig filename md"
| "direct_hooked h orig (D_fchmodat dfd filename md) = ig_sys_fchmodat_310 h orig dfd filename md"
| "direct_hooked h orig (D_chown filename user grp) = ig_sys_chown_310 h orig filename user grp"
| "direct_hooked h orig (D_fchownat dfd filename user grp flag) = ig_sys_fchownat_310 h orig dfd filename user grp flag"
| "direct_hooked h orig (D_link oldname newname) = ig_sys_link_310 h orig oldname newname"
| "direct_hooked h orig (D_linkat olddfd oldname newdfd newname flags) = ig_sys_linkat_310 h orig olddfd oldname newdfd newname flags"
| "direct_hooked h orig (D_setxattr path name val sz flags) = ig_sys_setxattr_310 h orig path name val sz flags"
| "direct_hooked h orig (D_lsetxattr path name val sz flags) = ig_sys_lsetxattr_310 h orig path name val sz flags"
| "direct_hooked h orig (D_fsetxattr fd name val sz flags) = ig_sys_fsetxattr_310 h orig fd name val sz flags"

lemmas direct_defs = ig_sys_write_310_def ig_sys_truncate_310_def ig_sys_ftruncate_310_def ig_sys_open_310_def ig_sys_openat_310_def ig_sys_creat_310_def ig_sys_unlink_310_def ig_sys_unlinkat_310_def ig_sys_rename_310_def ig_sys_renameat_310_def ig_sys_renameat2_310_def ig_sys_chmod_310_def ig_sys_fchmodat_310_def ig_sys_chown_310_def ig_sys_fchownat_310_def ig_sys_link_310_def ig_sys_linkat_310_def ig_sys_setxattr_310_def ig_sys_lsetxattr_310_def ig_sys_fsetxattr_310_def

text \<open>How the register file of the newer calling convention presents the same arguments.\<close>

fun decode_regs :: "sysno \<Rightarrow> pt_regs \<Rightarrow> direct_call" where
  "decode_regs NR_write r = D_write (as_int (arg1 r)) (arg2 r) (arg3 r)"
| "decode_regs NR_truncate r = D_truncate (arg1 r) (arg2 r)"
| "decode_regs NR_ftruncate r = D_ftruncate (as_int (arg1 r)) (arg2 r)"
| "decode_regs NR_open r = D_open (arg1 r) (as_int (arg2 r)) (ucast (arg3 r))"
| "decode_regs NR_openat r = D_openat (as_int (arg1 r)) (arg2 r) (as_int (arg3 r)) (ucast (arg4 r))"
| "decode_regs NR_creat r = D_creat (arg1 r) (ucast (arg2 r))"
| "decode_regs NR_unlink r = D_unlink (arg1 r)"
| "decode_regs NR_unlinkat r = D_unlinkat (as_int (arg1 r)) (arg2 r) (as_int (arg3 r))"
| "decode_regs NR_rename r = D_rename (arg1 r) (arg2 r)"
| "decode_regs NR_renameat r = D_renameat (as_int (arg1 r)) (arg2 r) (as_int (arg3 r)) (arg4 r)"
| "decode_regs NR_renameat2 r = D_renameat2 (as_int (arg1 r)) (arg2 r) (as_int (arg3 r)) (arg4 r) (as_int (arg5 r))"
| "decode_regs NR_chmod r = D_chmod (arg1 r) (ucast (arg2 r))"
| "decode_regs NR_fchmodat r = D_fchmodat (as_int (arg1 r)) (arg2 r) (ucast (arg3 r))"
| "decode_regs NR_chown r = D_chown (arg1 r) (as_int (arg2 r)) (as_int (arg3 r))"
| "decode_regs NR_fchownat r = D_fchownat (as_int (arg1 r)) (arg2 r) (as_int (arg3 r)) (as_int (arg4 r)) (as_int (arg5 r))"
| "decode_regs NR_link r = D_link (arg1 r) (arg2 r)"
| "decode_regs NR_linkat r = D_linkat (as_int (arg1 r)) (arg2 r) (as_int (arg3 r)) (arg4 r) (as_int (arg5 r))"
| "decode_regs NR_setxattr r = D_setxattr (arg1 r) (arg2 r) (arg3 r) (arg4 r) (as_int (arg5 r))"
| "decode_regs NR_lsetxattr r = D_lsetxattr (arg1 r) (arg2 r) (arg3 r) (arg4 r) (as_int (arg5 r))"
| "decode_regs NR_fsetxattr r = D_fsetxattr (as_int (arg1 r)) (arg2 r) (arg3 r) (arg4 r) (as_int (arg5 r))"

section \<open>Property\<close>


end
