(* ===== verification/Hooks_Lsm.thy ===== *)
theory Hooks_Lsm
  imports Hook_Core
begin

text \<open>
  The hooks that are injected into the kernel's security framework:
  \<^verbatim>\<open>Agent/src/lkm/hooks/lkm415.c\<close> and \<^verbatim>\<open>lkm42.c\<close>, whose hook functions are the same code.  A hook
  returns zero to allow an operation and a negative error to refuse it.
\<close>

section \<open>Checks\<close>

definition ig_check_inode :: "'w hook_env \<Rightarrow> inode option \<Rightarrow> u32 \<Rightarrow> lkm \<Rightarrow> int \<times> lkm" where
  "ig_check_inode h ip op s =
     (case ip of
        None \<Rightarrow> (0, s)
      | Some i \<Rightarrow>
          (case i_sb i of
             None \<Rightarrow> (0, s)
           | Some dev \<Rightarrow>
               if \<not> S_ISREG (i_mode i) then (0, s)
               else (case inode_policy_lookup (he_bkt h) (lk_table s) dev (i_ino i) op of
                   None \<Rightarrow> (0, s)
                 | Some block_mode \<Rightarrow>
                     if block_mode = IG_BLOCK_DENY
                     then (- EPERM, ig_event_enqueue (he_bkt h) (he_cx h) dev (i_ino i) op 1 s)
                     else (0, ig_event_enqueue (he_bkt h) (he_cx h) dev (i_ino i) op 0 s))))"

text \<open>A dentry is the inode it points to, if any.\<close>

record dentry =
  d_inode :: "inode option"

definition ig_check_dentry :: "'w hook_env \<Rightarrow> dentry option \<Rightarrow> u32 \<Rightarrow> lkm \<Rightarrow> int \<times> lkm" where
  "ig_check_dentry h de op s = (case de of None \<Rightarrow> (0, s) | Some d \<Rightarrow> ig_check_inode h (d_inode d) op s)"

definition ig_check_delete_inode :: "'w hook_env \<Rightarrow> inode option \<Rightarrow> lkm \<Rightarrow> int \<times> lkm" where
  "ig_check_delete_inode h ip s =
     (case ip of
        None \<Rightarrow> (0, s)
      | Some i \<Rightarrow>
          (case i_sb i of
             None \<Rightarrow> (0, s)
           | Some dev \<Rightarrow>
               if \<not> S_ISREG (i_mode i) then (0, s)
               else (case inode_policy_lookup (he_bkt h) (lk_table s) dev (i_ino i) IG_OP_DELETE of
                   None \<Rightarrow> (0, s)
                 | Some block_mode \<Rightarrow>
                     if block_mode = IG_BLOCK_DENY
                     then (- EPERM, ig_event_enqueue (he_bkt h) (he_cx h) dev (i_ino i) IG_OP_DELETE 1 s)
                     else (let s = ig_event_enqueue (he_bkt h) (he_cx h) dev (i_ino i) IG_OP_DELETE 0 s
                           in (0, s\<lparr>lk_table := inode_policy_remove (he_bkt h) (lk_table s) dev (i_ino i)\<rparr>)))))"

section \<open>The hooks\<close>

definition MAY_WRITE :: u32 where "MAY_WRITE = 2"
definition PROT_WRITE :: u64 where "PROT_WRITE = 2"
definition ATTR_MODE :: u32 where "ATTR_MODE = 1"
definition ATTR_UID :: u32 where "ATTR_UID = 2"
definition ATTR_GID :: u32 where "ATTR_GID = 4"
definition ATTR_SIZE :: u32 where "ATTR_SIZE = 8"

definition ig_inode_permission :: "'w hook_env \<Rightarrow> inode option \<Rightarrow> u32 \<Rightarrow> lkm \<Rightarrow> int \<times> lkm" where
  "ig_inode_permission h ip msk s =
     (if msk AND MAY_WRITE = 0 then (0, s) else ig_check_inode h ip IG_OP_WRITE s)"

text \<open>The file of \<^verbatim>\<open>mmap_file\<close> is its inode, if any; \<open>None\<close> outside is a null file.\<close>

definition ig_mmap_file :: "'w hook_env \<Rightarrow> inode option option \<Rightarrow> u64 \<Rightarrow> lkm \<Rightarrow> int \<times> lkm" where
  "ig_mmap_file h file prot s =
     (case file of
        None \<Rightarrow> (0, s)
      | Some f_inode \<Rightarrow> if prot AND PROT_WRITE = 0 then (0, s) else ig_check_inode h f_inode IG_OP_WRITE s)"

definition ig_inode_unlink :: "'w hook_env \<Rightarrow> dentry option \<Rightarrow> lkm \<Rightarrow> int \<times> lkm" where
  "ig_inode_unlink h de s = ig_check_delete_inode h (case de of None \<Rightarrow> None | Some d \<Rightarrow> d_inode d) s"

definition ig_inode_rename :: "'w hook_env \<Rightarrow> dentry option \<Rightarrow> dentry option \<Rightarrow> lkm \<Rightarrow> int \<times> lkm" where
  "ig_inode_rename h old_dentry new_dentry s =
     (case ig_check_dentry h old_dentry IG_OP_RENAME s of
        (rc, s) \<Rightarrow>
          if rc \<noteq> 0 then (rc, s)
          else if (case new_dentry of None \<Rightarrow> False | Some d \<Rightarrow> d_inode d \<noteq> None)
          then ig_check_dentry h new_dentry IG_OP_RENAME s
          else (rc, s))"

definition ig_inode_link :: "'w hook_env \<Rightarrow> dentry option \<Rightarrow> lkm \<Rightarrow> int \<times> lkm" where
  "ig_inode_link h old_dentry s = ig_check_dentry h old_dentry IG_OP_WRITE s"

definition ig_inode_setxattr :: "'w hook_env \<Rightarrow> dentry option \<Rightarrow> lkm \<Rightarrow> int \<times> lkm" where
  "ig_inode_setxattr h de s = ig_check_dentry h de IG_OP_WRITE s"

text \<open>\<open>attr\<close> is \<^verbatim>\<open>attr->ia_valid\<close>, \<open>None\<close> for a null pointer.\<close>

definition ig_inode_setattr :: "'w hook_env \<Rightarrow> dentry option \<Rightarrow> u32 option \<Rightarrow> lkm \<Rightarrow> int \<times> lkm" where
  "ig_inode_setattr h de attr s =
     (let ia_valid = (case attr of None \<Rightarrow> 0 | Some v \<Rightarrow> v)
      in if ia_valid AND (ATTR_SIZE OR ATTR_MODE OR ATTR_UID OR ATTR_GID) = 0 then (0, s)
      else ig_check_dentry h de IG_OP_WRITE s)"

datatype lsm_call =
    Inode_permission "inode option" u32
  | Mmap_file "inode option option" u64
  | Inode_unlink "dentry option"
  | Inode_rename "dentry option" "dentry option"
  | Inode_link "dentry option"
  | Inode_setxattr "dentry option"
  | Inode_setattr "dentry option" "u32 option"

fun lsm_hook :: "'w hook_env \<Rightarrow> lsm_call \<Rightarrow> lkm \<Rightarrow> int \<times> lkm" where
  "lsm_hook h (Inode_permission ip m) s = ig_inode_permission h ip m s"
| "lsm_hook h (Mmap_file f prot) s = ig_mmap_file h f prot s"
| "lsm_hook h (Inode_unlink d) s = ig_inode_unlink h d s"
| "lsm_hook h (Inode_rename od nd) s = ig_inode_rename h od nd s"
| "lsm_hook h (Inode_link d) s = ig_inode_link h d s"
| "lsm_hook h (Inode_setxattr d) s = ig_inode_setxattr h d s"
| "lsm_hook h (Inode_setattr d a) s = ig_inode_setattr h d a s"

lemmas lsm_defs = ig_inode_permission_def ig_mmap_file_def ig_inode_unlink_def ig_inode_rename_def
  ig_inode_link_def ig_inode_setxattr_def ig_inode_setattr_def ig_check_dentry_def

section \<open>Installing the hooks\<close>

text \<open>
  The heads of the kernel's hook lists, by hook name; an installed hook is an element of its list.
  Lists of other security modules are there before and stay.  \<open>kallsyms_rc\<close> is the result of
  resolving \<^verbatim>\<open>kallsyms_lookup_name\<close> (always zero in \<^verbatim>\<open>lkm42.c\<close>), \<open>found\<close> whether
  \<^verbatim>\<open>security_hook_heads\<close> has an address.
\<close>

datatype lsm_name = LInodePermission | LMmapFile | LInodeUnlink | LInodeRename | LInodeLink
  | LInodeSetxattr | LInodeSetattr

datatype 'f lsm_entry = Other 'f | Ig lsm_name

definition ig_hook_list :: "lsm_name list" where
  "ig_hook_list = [LInodePermission, LMmapFile, LInodeUnlink, LInodeRename, LInodeLink,
     LInodeSetxattr, LInodeSetattr]"

definition hook_add_tail :: "lsm_name \<Rightarrow> (lsm_name \<Rightarrow> 'f lsm_entry list) \<Rightarrow> lsm_name \<Rightarrow> 'f lsm_entry list" where
  "hook_add_tail n heads = heads(n := heads n @ [Ig n])"

definition hook_del :: "lsm_name \<Rightarrow> (lsm_name \<Rightarrow> 'f lsm_entry list) \<Rightarrow> lsm_name \<Rightarrow> 'f lsm_entry list" where
  "hook_del n heads = heads(n := remove1 (Ig n) (heads n))"

definition ig_lsm_hooks_init :: "int \<Rightarrow> bool \<Rightarrow> (lsm_name \<Rightarrow> 'f lsm_entry list)
    \<Rightarrow> int \<times> (lsm_name \<Rightarrow> 'f lsm_entry list)" where
  "ig_lsm_hooks_init kallsyms_rc found heads =
     (if kallsyms_rc \<noteq> 0 then (kallsyms_rc, heads)
      else if \<not> found then (- ENOENT, heads)
      else (0, fold hook_add_tail ig_hook_list heads))"

definition ig_lsm_hooks_exit :: "(lsm_name \<Rightarrow> 'f lsm_entry list) \<Rightarrow> lsm_name \<Rightarrow> 'f lsm_entry list" where
  "ig_lsm_hooks_exit heads = fold hook_del ig_hook_list heads"

section \<open>What the hooks enforce\<close>

text \<open>The specification: the accesses of a security hook call.  Only regular files count.\<close>

definition inode_access :: "inode option \<Rightarrow> u32 \<Rightarrow> (inode_key \<times> u32) list" where
  "inode_access ip op =
     (case ip of None \<Rightarrow> []
      | Some i \<Rightarrow> (case i_sb i of None \<Rightarrow> []
          | Some dev \<Rightarrow> if S_ISREG (i_mode i) then [((dev, i_ino i), op)] else []))"

definition dentry_access :: "dentry option \<Rightarrow> u32 \<Rightarrow> (inode_key \<times> u32) list" where
  "dentry_access de op = (case de of None \<Rightarrow> [] | Some d \<Rightarrow> inode_access (d_inode d) op)"

fun lsm_targets :: "lsm_call \<Rightarrow> (inode_key \<times> u32) list" where
  "lsm_targets (Inode_permission ip m) = (if m AND MAY_WRITE \<noteq> 0 then inode_access ip IG_OP_WRITE else [])"
| "lsm_targets (Mmap_file f prot) =
     (case f of None \<Rightarrow> [] | Some ip \<Rightarrow> if prot AND PROT_WRITE \<noteq> 0 then inode_access ip IG_OP_WRITE else [])"
| "lsm_targets (Inode_unlink d) = dentry_access d IG_OP_DELETE"
| "lsm_targets (Inode_rename od nd) = dentry_access od IG_OP_RENAME @ dentry_access nd IG_OP_RENAME"
| "lsm_targets (Inode_link d) = dentry_access d IG_OP_WRITE"
| "lsm_targets (Inode_setxattr d) = dentry_access d IG_OP_WRITE"
| "lsm_targets (Inode_setattr d a) =
     (case a of None \<Rightarrow> []
      | Some v \<Rightarrow> if v AND (ATTR_SIZE OR ATTR_MODE OR ATTR_UID OR ATTR_GID) \<noteq> 0
                  then dentry_access d IG_OP_WRITE else [])"

text \<open>The inlined checks of the security hooks are the checks of the syscall hooks.\<close>

lemma ig_check_inode_eq:
  "ig_check_inode h ip op s = (case inode_access ip op of [] \<Rightarrow> (0, s) | ((d, i), _) # _ \<Rightarrow> ig_check h d i op s)"
  by (auto simp: ig_check_inode_def inode_access_def ig_check_def split: option.splits)

lemma ig_check_delete_inode_eq:
  "ig_check_delete_inode h ip s =
     (case inode_access ip IG_OP_DELETE of [] \<Rightarrow> (0, s) | ((d, i), _) # _ \<Rightarrow> ig_check_delete h d i s)"
  by (auto simp: ig_check_delete_inode_def inode_access_def ig_check_delete_def split: option.splits)

lemma inode_access_cases:
  obtains "inode_access ip op = []" | d i where "inode_access ip op = [((d, i), op)]"
proof -
  have "inode_access ip op = [] \<or> (\<exists>d i. inode_access ip op = [((d, i), op)])"
    by (auto simp: inode_access_def split: option.splits)
  with that show thesis by blast
qed

lemma enforces_inode: "enforces h (inode_access ip op) s (ig_check_inode h ip op s)"
  by (rule inode_access_cases [of ip op]) (auto simp: ig_check_inode_eq enforces_nothing enforces_check)

lemma enforces_delete_inode:
  "enforces h (inode_access ip IG_OP_DELETE) s (ig_check_delete_inode h ip s)"
  by (rule inode_access_cases [of ip IG_OP_DELETE])
     (auto simp: ig_check_delete_inode_eq enforces_nothing enforces_delete)

lemma enforces_dentry: "enforces h (dentry_access de op) s (ig_check_dentry h de op s)"
  by (auto simp: ig_check_dentry_def dentry_access_def enforces_nothing enforces_inode split: option.splits)

lemma dentry_access_cases:
  obtains "dentry_access de op = []" | d i where "dentry_access de op = [((d, i), op)]"
  by (cases de) (auto simp: dentry_access_def intro: inode_access_cases)

lemma ig_check_dentry_eq:
  "ig_check_dentry h de op s = (case dentry_access de op of [] \<Rightarrow> (0, s) | ((d, i), _) # _ \<Rightarrow> ig_check h d i op s)"
  by (cases de) (simp_all add: ig_check_dentry_def dentry_access_def ig_check_inode_eq)

lemma ig_inode_rename_eq:
  "ig_inode_rename h od nd s = (case ig_check_dentry h od IG_OP_RENAME s of
     (rc, s) \<Rightarrow> if rc \<noteq> 0 then (rc, s) else ig_check_dentry h nd IG_OP_RENAME s)"
  by (auto simp: ig_inode_rename_def ig_check_dentry_def ig_check_inode_def split: prod.splits option.splits)

lemma enforces_lsm_rename:
  "enforces h (dentry_access od IG_OP_RENAME @ dentry_access nd IG_OP_RENAME) s (ig_inode_rename h od nd s)"
proof -
  obtain rc s1 where c: "ig_check_dentry h od IG_OP_RENAME s = (rc, s1)" by fastforce
  have src: "enforces h (dentry_access od IG_OP_RENAME) s (rc, s1)"
    using enforces_dentry [of h od IG_OP_RENAME s] c by simp
  obtain es where frame: "lk_table s1 = lk_table s" "lk_fifo s1 = lk_fifo s @ es" "length es \<le> 1"
  proof (rule dentry_access_cases [of od IG_OP_RENAME])
    assume "dentry_access od IG_OP_RENAME = []"
    with c that [of "[]"] show ?thesis by (simp add: ig_check_dentry_eq)
  next
    fix d i
    assume "dentry_access od IG_OP_RENAME = [((d, i), IG_OP_RENAME)]"
    then have "snd (ig_check h d i IG_OP_RENAME s) = s1" using c by (simp add: ig_check_dentry_eq)
    with ig_check_fifo [of h d i IG_OP_RENAME s] ig_check_table [of h d i IG_OP_RENAME s] that
    show ?thesis by auto
  qed
  show ?thesis
  proof (cases "some_denied (lkm_pol h s) (dentry_access od IG_OP_RENAME)")
    case True
    with src have "rc = - EPERM" by (simp add: enforces_def)
    then have "ig_inode_rename h od nd s = (rc, s1)" by (simp add: ig_inode_rename_eq c EPERM_def)
    then show ?thesis using enforces_refused [OF src True] by simp
  next
    case False
    then have rc: "rc = 0" using src by (simp add: enforces_def)
    note src0 = src [unfolded rc]
    have pol: "lkm_pol h s1 = lkm_pol h s" using frame(1) by (simp add: lkm_pol_def)
    show ?thesis
    proof (rule dentry_access_cases [of nd IG_OP_RENAME])
      assume acc: "dentry_access nd IG_OP_RENAME = []"
      then have "ig_check_dentry h nd IG_OP_RENAME s1 = (0, s1)" by (simp add: ig_check_dentry_eq)
      with src0 acc show ?thesis by (simp add: ig_inode_rename_eq c rc)
    next
      fix d i
      assume acc: "dentry_access nd IG_OP_RENAME = [((d, i), IG_OP_RENAME)]"
      have "enforces h (dentry_access od IG_OP_RENAME @ [((d, i), IG_OP_RENAME)]) s
          (ig_check h d i IG_OP_RENAME s1)"
        using ig_check_event [of h s1 d i IG_OP_RENAME] pol
        by (intro enforces_two [OF src0 False frame])
           (auto simp: ig_check_rc ig_check_table ig_check_uncovered dest: denied_covered)
      moreover have "ig_check_dentry h nd IG_OP_RENAME s1 = ig_check h d i IG_OP_RENAME s1"
        by (simp add: ig_check_dentry_eq acc)
      ultimately show ?thesis by (simp add: ig_inode_rename_eq c rc acc)
    qed
  qed
qed

lemma enforces_guarded:
  "enforces h ts s c \<Longrightarrow> enforces h (if b then ts else []) s (if \<not> b then (0, s) else c)"
  by (simp add: enforces_nothing)

lemma lsm_hook_enforces: "enforces h (lsm_targets call) s (lsm_hook h call s)"
proof (cases call)
  case (Inode_permission ip m)
  then show ?thesis
    using enforces_guarded [OF enforces_inode, of h "m AND MAY_WRITE \<noteq> 0" ip IG_OP_WRITE s]
    by (simp add: ig_inode_permission_def)
next
  case (Mmap_file f prot)
  then show ?thesis
    using enforces_guarded [OF enforces_inode, of h "prot AND PROT_WRITE \<noteq> 0" _ IG_OP_WRITE s]
    by (cases f) (simp_all add: ig_mmap_file_def enforces_nothing)
next
  case (Inode_unlink d)
  then show ?thesis
    using enforces_delete_inode [of h "case d of None \<Rightarrow> None | Some d \<Rightarrow> d_inode d" s]
    by (cases d) (simp_all add: ig_inode_unlink_def dentry_access_def inode_access_def)
next
  case (Inode_rename od nd)
  then show ?thesis using enforces_lsm_rename by simp
next
  case (Inode_setattr d a)
  then show ?thesis
    using enforces_guarded [OF enforces_dentry,
        of h "_ AND (ATTR_SIZE OR ATTR_MODE OR ATTR_UID OR ATTR_GID) \<noteq> 0" d IG_OP_WRITE s]
    by (cases a) (simp_all add: ig_inode_setattr_def Let_def enforces_nothing)
qed (simp_all add: ig_inode_link_def ig_inode_setxattr_def enforces_dentry)

section \<open>Installing and removing\<close>

lemma lsm_names_all: "distinct ig_hook_list" "n \<in> set ig_hook_list"
  by (simp add: ig_hook_list_def) (cases n; simp add: ig_hook_list_def)

lemma fold_hook_add:
  "distinct ns \<Longrightarrow> fold hook_add_tail ns heads = (\<lambda>n. if n \<in> set ns then heads n @ [Ig n] else heads n)"
  by (induction ns arbitrary: heads) (auto simp: hook_add_tail_def fun_eq_iff)

lemma fold_hook_del:
  "distinct ns \<Longrightarrow> fold hook_del ns heads = (\<lambda>n. if n \<in> set ns then remove1 (Ig n) (heads n) else heads n)"
  by (induction ns arbitrary: heads) (auto simp: hook_del_def fun_eq_iff)

text \<open>Removal restores the lists of the other security modules.\<close>

lemma lsm_install_remove:
  assumes "ig_lsm_hooks_init k found heads = (0, heads')" and "\<And>n. Ig n \<notin> set (heads n)"
  shows "heads' = (\<lambda>n. heads n @ [Ig n]) \<and> ig_lsm_hooks_exit heads' = heads"
proof -
  have h: "heads' = (\<lambda>n. heads n @ [Ig n])"
    using assms(1) lsm_names_all
    by (auto simp: ig_lsm_hooks_init_def fold_hook_add ENOENT_def split: if_splits)
  show ?thesis
    using assms(2) lsm_names_all by (simp add: h ig_lsm_hooks_exit_def fold_hook_del remove1_append)
qed

section \<open>Properties\<close>

text \<open>C29. The security hooks enforce the policy table: each of the seven hooks refuses with -EPERM
  exactly when a policy denies one of the regular files it is about, and then keeps the policies
  and queues a blocked event; on accesses no policy covers it allows and leaves no trace.\<close>

theorem lsm_hooks_enforce_policy:
  assumes "lsm_hook h call s = (rc, s')"
  shows "rc = (if some_denied (lkm_pol h s) (lsm_targets call) then - EPERM else 0)
    \<and> (some_denied (lkm_pol h s) (lsm_targets call) \<longrightarrow>
         lk_table s' = lk_table s \<and> blocked_report h s (lsm_targets call) s')
    \<and> (\<not> some_covered (lkm_pol h s) (lsm_targets call) \<longrightarrow> s' = s)"
  using lsm_hook_enforces [of h call s] assms by (auto simp: enforces_def)

theorem lsm_hooks_enforce_policy_witness:
  "fst (lsm_hook sample_env (Inode_setxattr (Some \<lparr>d_inode = Some sample_file\<rparr>)) (guarded_lkm 1)) = - EPERM"
proof -
  let ?call = "Inode_setxattr (Some \<lparr>d_inode = Some sample_file\<rparr>)"
  obtain rc s' where r: "lsm_hook sample_env ?call (guarded_lkm 1) = (rc, s')" by fastforce
  have "lsm_targets ?call = [((8, 77), IG_OP_WRITE)]"
    by (simp add: dentry_access_def inode_access_def sample_file_def S_ISREG_def)
  then have "some_denied (lkm_pol sample_env (guarded_lkm 1)) (lsm_targets ?call)"
    by (simp add: guarded_pol denied_def ig_op_codes)
  with lsm_hooks_enforce_policy [OF r] show ?thesis by (simp only: r fst_conv if_True)
qed

end
