(* ===== verification/Walker.thy ===== *)
theory Walker
  imports Monitor
begin

text \<open>
  The directory walker: \<^verbatim>\<open>Agent/src/scanner/walker.c\<close>.  The file system is a parameter: what
  \<^verbatim>\<open>lstat\<close> says of a path and which names \<^verbatim>\<open>readdir\<close> yields.  The callback threads a state \<open>'s\<close>, the
  \<^verbatim>\<open>userdata\<close> of the code.
\<close>

definition WALK_MAX_DEPTH :: nat where "WALK_MAX_DEPTH = 64"
definition WALK_VISITED_MAX :: nat where "WALK_VISITED_MAX = 4096"

record stat =
  st_dev :: u64
  st_ino :: u64
  st_mode :: u32
  st_mtime :: int
  st_size :: int

definition is_reg :: "stat \<Rightarrow> bool" where "is_reg st \<longleftrightarrow> st_mode st AND 0xF000 = 0x8000"
definition is_dir :: "stat \<Rightarrow> bool" where "is_dir st \<longleftrightarrow> st_mode st AND 0xF000 = 0x4000"

record fs =
  fs_lstat :: "string \<Rightarrow> stat option"
  fs_readdir :: "string \<Rightarrow> string list option"

type_synonym 's walk_cb = "string \<Rightarrow> stat \<Rightarrow> 's \<Rightarrow> int \<times> 's"

section \<open>The walk\<close>

text \<open>Returns whether the inode was there, and the set, which takes no more than 4096.\<close>

definition visited_check_add :: "u64 list \<Rightarrow> u64 \<Rightarrow> bool \<times> u64 list" where
  "visited_check_add vs ino =
     (if ino \<in> set vs then (True, vs)
      else (False, if length vs < WALK_VISITED_MAX then vs @ [ino] else vs))"

text \<open>\<^verbatim>\<open>snprintf(sub, sizeof(sub), "%s/%s", path, name)\<close>, \<open>None\<close> when it does not fit.\<close>

definition sub_path :: "string \<Rightarrow> string \<Rightarrow> string option" where
  "sub_path path name = (let sub = path @ ''/'' @ name in if length sub \<ge> IG_MAX_PATH then None else Some sub)"

text \<open>
  \<open>walk_impl\<close> and the \<^verbatim>\<open>readdir\<close> loop inside it.  The first argument counts the levels left: the
  code's depth runs from 0 to 64 and a call beyond returns at once, so \<^verbatim>\<open>depth\<close> is 65 minus it.
\<close>

fun walk_impl :: "nat \<Rightarrow> fs \<Rightarrow> bool \<Rightarrow> 's walk_cb \<Rightarrow> string \<Rightarrow> u64 list \<Rightarrow> 's \<Rightarrow> nat \<times> u64 list \<times> 's"
and walk_entries :: "nat \<Rightarrow> fs \<Rightarrow> bool \<Rightarrow> 's walk_cb \<Rightarrow> string \<Rightarrow> string list \<Rightarrow> u64 list \<Rightarrow> 's \<Rightarrow> nat \<times> u64 list \<times> 's"
where
  "walk_impl 0 fs rcs cb path vs s = (0, vs, s)"
| "walk_impl (Suc d) fs rcs cb path vs s =
     (case fs_lstat fs path of
        None \<Rightarrow> (0, vs, s)
      | Some st \<Rightarrow>
          if is_reg st then (case cb path st s of (rc, s) \<Rightarrow> (if rc = 0 then 1 else 0, vs, s))
          else if \<not> is_dir st then (0, vs, s)
          else (case visited_check_add vs (st_ino st) of
              (True, vs) \<Rightarrow> (0, vs, s)
            | (False, vs) \<Rightarrow>
                (case fs_readdir fs path of
                   None \<Rightarrow> (0, vs, s)
                 | Some names \<Rightarrow> walk_entries d fs rcs cb path names vs s)))"
| "walk_entries d fs rcs cb path [] vs s = (0, vs, s)"
| "walk_entries d fs rcs cb path (n # ns) vs s =
     (if n = ''.'' \<or> n = ''..'' then walk_entries d fs rcs cb path ns vs s
      else (case sub_path path n of
          None \<Rightarrow> walk_entries d fs rcs cb path ns vs s
        | Some sub \<Rightarrow>
            (case fs_lstat fs sub of
               None \<Rightarrow> walk_entries d fs rcs cb path ns vs s
             | Some st \<Rightarrow>
                 (case (if is_reg st then (case cb sub st s of (rc, s) \<Rightarrow> (if rc = 0 then 1 else 0, vs, s))
                        else if is_dir st \<and> rcs then walk_impl d fs rcs cb sub vs s
                        else (0, vs, s)) of
                    (k, vs, s) \<Rightarrow>
                      (case walk_entries d fs rcs cb path ns vs s of (k', vs, s) \<Rightarrow> (k + k', vs, s))))))"

text \<open>Trailing slashes are cut, down to one character.\<close>

fun cut_slashes :: "string \<Rightarrow> string" where
  "cut_slashes p = (if length p > 1 \<and> last p = CHR ''/'' then cut_slashes (butlast p) else p)"

declare cut_slashes.simps [simp del]

definition ig_walk :: "fs \<Rightarrow> bool \<Rightarrow> 's walk_cb \<Rightarrow> string \<Rightarrow> 's \<Rightarrow> nat \<times> 's" where
  "ig_walk fs rcs cb base s =
     (let nbase = cut_slashes (strncpy0 IG_MAX_PATH base)
      in case walk_impl (Suc WALK_MAX_DEPTH) fs rcs cb nbase [] s of (n, _, s) \<Rightarrow> (n, s))"

section \<open>What the walk reports\<close>

text \<open>
  The specification: the plain recursive listing of the regular files of a tree, with their
  \<^verbatim>\<open>lstat\<close> data, and the inodes of its directories, both in the order of the walk.
\<close>

fun tree :: "nat \<Rightarrow> fs \<Rightarrow> bool \<Rightarrow> string \<Rightarrow> (string \<times> stat) list \<times> u64 list"
and tree_entries :: "nat \<Rightarrow> fs \<Rightarrow> bool \<Rightarrow> string \<Rightarrow> string list \<Rightarrow> (string \<times> stat) list \<times> u64 list" where
  "tree 0 fs rcs path = ([], [])"
| "tree (Suc d) fs rcs path =
     (case fs_lstat fs path of
        None \<Rightarrow> ([], [])
      | Some st \<Rightarrow>
          if is_reg st then ([(path, st)], [])
          else if \<not> is_dir st then ([], [])
          else (case fs_readdir fs path of
              None \<Rightarrow> ([], [st_ino st])
            | Some names \<Rightarrow> (case tree_entries d fs rcs path names of (fl, ds) \<Rightarrow> (fl, st_ino st # ds))))"
| "tree_entries d fs rcs path [] = ([], [])"
| "tree_entries d fs rcs path (n # ns) =
     (case tree_entries d fs rcs path ns of (fl', ds') \<Rightarrow>
        if n = ''.'' \<or> n = ''..'' then (fl', ds')
        else (case sub_path path n of
            None \<Rightarrow> (fl', ds')
          | Some sub \<Rightarrow>
              (case fs_lstat fs sub of
                 None \<Rightarrow> (fl', ds')
               | Some st \<Rightarrow>
                   if is_reg st then ((sub, st) # fl', ds')
                   else if is_dir st \<and> rcs then (case tree d fs rcs sub of (fl, ds) \<Rightarrow> (fl @ fl', ds @ ds'))
                   else (fl', ds'))))"

text \<open>Running the callback over a list of files; the number is how often it returned zero.\<close>

fun run_cb :: "'s walk_cb \<Rightarrow> (string \<times> stat) list \<Rightarrow> 's \<Rightarrow> nat \<times> 's" where
  "run_cb cb [] s = (0, s)"
| "run_cb cb ((p, st) # fl) s =
     (case cb p st s of (rc, s) \<Rightarrow> (case run_cb cb fl s of (n, s) \<Rightarrow> ((if rc = 0 then 1 else 0) + n, s)))"

lemma run_cb_append:
  "run_cb cb (xs @ ys) s = (case run_cb cb xs s of (n, s) \<Rightarrow> (case run_cb cb ys s of (m, s) \<Rightarrow> (n + m, s)))"
  by (induction xs arbitrary: s) (auto split: prod.splits)

lemma run_cb_invariant:
  assumes "\<And>p st s. (p, st) \<in> set fl \<Longrightarrow> I s \<Longrightarrow> I (snd (cb p st s))" and "I s"
  shows "I (snd (run_cb cb fl s))"
  using assms
proof (induction fl arbitrary: s)
  case (Cons a fl)
  obtain p st where a: "a = (p, st)" by fastforce
  obtain rc s' where c: "cb p st s = (rc, s')" by fastforce
  have "I s'" using Cons.prems(1) [of p st s] Cons.prems(2) c by (simp add: a)
  with Cons.IH [of s'] Cons.prems(1) show ?case by (auto simp: a c split: prod.splits)
qed simp

lemma visited_fresh:
  "ino \<notin> set vs \<Longrightarrow> length vs < WALK_VISITED_MAX \<Longrightarrow> visited_check_add vs ino = (False, vs @ [ino])"
  by (simp add: visited_check_add_def)

text \<open>
  When the directories of a tree have pairwise different inode numbers, none of them visited
  before, and there is room for them, the walk is the callback run over the plain listing.
\<close>

lemma walk_is_tree:
  "tree d fs rcs path = (fl, ds) \<Longrightarrow> distinct (vs @ ds) \<Longrightarrow> length vs + length ds \<le> WALK_VISITED_MAX \<Longrightarrow>
     walk_impl d fs rcs cb path vs s = (case run_cb cb fl s of (n, s') \<Rightarrow> (n, vs @ ds, s'))"
  "tree_entries d fs rcs path ns = (fl, ds) \<Longrightarrow> distinct (vs @ ds) \<Longrightarrow> length vs + length ds \<le> WALK_VISITED_MAX \<Longrightarrow>
     walk_entries d fs rcs cb path ns vs s = (case run_cb cb fl s of (n, s') \<Rightarrow> (n, vs @ ds, s'))"
proof (induction d fs rcs path and d fs rcs path ns arbitrary: fl ds vs s and fl ds vs s
    rule: tree_tree_entries.induct)
  case (2 d fs rcs path)
  show ?case
  proof (cases "fs_lstat fs path")
    case (Some st)
    show ?thesis
    proof (cases "\<not> is_reg st \<and> is_dir st")
      case dir: True
      from 2 Some dir have fresh: "visited_check_add vs (st_ino st) = (False, vs @ [st_ino st])"
        by (intro visited_fresh) (auto split: option.splits prod.splits)
      show ?thesis
      proof (cases "fs_readdir fs path")
        case None
        with 2(2) Some dir fresh show ?thesis by auto
      next
        case names: (Some names)
        obtain ds' where t: "tree_entries d fs rcs path names = (fl, ds')" and ds: "ds = st_ino st # ds'"
          using 2(2) Some dir names by (auto split: prod.splits)
        have "walk_entries d fs rcs cb path names (vs @ [st_ino st]) s
            = (case run_cb cb fl s of (n, s') \<Rightarrow> (n, (vs @ [st_ino st]) @ ds', s'))"
          using 2(3,4) by (intro "2.IH" [OF Some _ _ names t]) (use dir in \<open>auto simp: ds\<close>)
        with Some dir names fresh show ?thesis by (simp add: ds)
      qed
    qed (use 2(2) Some in \<open>auto split: prod.splits if_splits\<close>)
  qed (use 2(2) in simp)
next
  case (4 d fs rcs path n ns)
  obtain fl' ds' where t: "tree_entries d fs rcs path ns = (fl', ds')" by fastforce
  note rest = "4.IH"(1) [OF t]
  show ?case
  proof (cases "n = ''.'' \<or> n = ''..'' \<or> sub_path path n = None \<or>
      fs_lstat fs (the (sub_path path n)) = None")
    case True
    then have "fl = fl'" "ds = ds'" using 4(3) t by (auto split: option.splits)
    with rest [of vs s] 4(4,5) True show ?thesis by (cases "sub_path path n") auto
  next
    case False
    then obtain sub st where sub: "sub_path path n = Some sub" "fs_lstat fs sub = Some st" by auto
    consider (reg) "is_reg st" | (dir) "\<not> is_reg st" "is_dir st \<and> rcs" | (other) "\<not> is_reg st" "\<not> (is_dir st \<and> rcs)"
      by blast
    then show ?thesis
    proof cases
      case reg
      then have "fl = (sub, st) # fl'" "ds = ds'" using 4(3) t False sub by auto
      with rest 4(4,5) False sub reg show ?thesis by (auto split: prod.splits)
    next
      case other
      then have "fl = fl'" "ds = ds'" using 4(3) t False sub by auto
      with rest [of vs s] 4(4,5) False sub other show ?thesis by (auto split: prod.splits)
    next
      case dir
      obtain fl1 ds1 where t1: "tree d fs rcs sub = (fl1, ds1)" by fastforce
      have eqs: "fl = fl1 @ fl'" "ds = ds1 @ ds'" using 4(3) t t1 False sub dir by auto
      have w1: "walk_impl d fs rcs cb sub vs s = (case run_cb cb fl1 s of (n, s') \<Rightarrow> (n, vs @ ds1, s'))"
        using 4(4,5) by (intro "4.IH"(2) [OF t [symmetric] _ sub dir t1])
          (use False in \<open>auto simp: eqs\<close>)
      have w2: "walk_entries d fs rcs cb path ns (vs @ ds1) s'
          = (case run_cb cb fl' s' of (n, s') \<Rightarrow> (n, (vs @ ds1) @ ds', s'))" for s'
        using 4(4,5) by (intro rest) (auto simp: eqs)
      show ?thesis using False sub dir w1 w2 by (simp add: eqs run_cb_append split: prod.splits)
    qed
  qed
qed auto

text \<open>What the listing contains: regular files below the path, whose names fit the path buffer.\<close>

definition below :: "string \<Rightarrow> string \<Rightarrow> bool" where
  "below base p \<longleftrightarrow> p = base \<or> (\<exists>rest. p = base @ ''/'' @ rest)"

lemma below_sub: "sub_path path n = Some sub \<Longrightarrow> below sub p \<Longrightarrow> below path p \<and> length sub < IG_MAX_PATH"
  by (auto simp: below_def sub_path_def Let_def split: if_splits)

lemma tree_files:
  "(p, st) \<in> set (fst (tree d fs rcs path)) \<Longrightarrow> length path < IG_MAX_PATH \<Longrightarrow>
     fs_lstat fs p = Some st \<and> is_reg st \<and> below path p \<and> length p < IG_MAX_PATH"
  "(p, st) \<in> set (fst (tree_entries d fs rcs path ns)) \<Longrightarrow> length path < IG_MAX_PATH \<Longrightarrow>
     fs_lstat fs p = Some st \<and> is_reg st \<and> below path p \<and> length p < IG_MAX_PATH"
proof (induction d fs rcs path and d fs rcs path ns rule: tree_tree_entries.induct)
  case (2 d fs rcs path)
  then show ?case by (auto simp: below_def split: option.splits if_splits prod.splits)
next
  case (4 d fs rcs path n ns)
  obtain fl' ds' where t: "tree_entries d fs rcs path ns = (fl', ds')" by fastforce
  show ?case
  proof (cases "(p, st) \<in> set fl'")
    case True
    with "4.IH"(1) t 4(4) show ?thesis by simp
  next
    case False
    then obtain sub st' where sub: "n \<noteq> ''.''" "n \<noteq> ''..''" "sub_path path n = Some sub" "fs_lstat fs sub = Some st'"
      using 4(3) t by (auto split: option.splits if_splits)
    note bs = below_sub [OF sub(3)]
    show ?thesis
    proof (cases "is_reg st'")
      case True
      then have "p = sub \<and> st = st'" using 4(3) False t sub by (auto split: if_splits)
      with True sub bs [of sub] show ?thesis by (simp add: below_def)
    next
      case nreg: False
      then have dir: "is_dir st' \<and> rcs" "(p, st) \<in> set (fst (tree d fs rcs sub))"
        using 4(3) False t sub by (auto split: if_splits prod.splits)
      have "fs_lstat fs p = Some st \<and> is_reg st \<and> below sub p \<and> length p < IG_MAX_PATH"
        using bs [of sub] by (intro "4.IH"(2) [OF t [symmetric] _ sub(3,4) nreg dir])
          (use sub in \<open>auto simp: below_def\<close>)
      with bs show ?thesis by blast
    qed
  qed
qed auto

text \<open>A directory that is not walked recursively: exactly its regular files, in the order of \<^verbatim>\<open>readdir\<close>.\<close>

lemma tree_flat:
  "fst (tree_entries d fs False path ns) =
     List.map_filter (\<lambda>n. if n = ''.'' \<or> n = ''..'' then None
       else (case sub_path path n of None \<Rightarrow> None
             | Some sub \<Rightarrow> (case fs_lstat fs sub of None \<Rightarrow> None
                 | Some st \<Rightarrow> if is_reg st then Some (sub, st) else None))) ns"
  by (induction ns) (auto simp: List.map_filter_simps split: option.splits prod.splits)

lemma tree_flat_dirs: "snd (tree_entries d fs False path ns) = []"
  by (induction ns) (auto split: option.splits prod.splits)

lemma length_cut_slashes: "length (cut_slashes p) \<le> length p"
  by (induction p rule: cut_slashes.induct) (subst cut_slashes.simps, auto)

lemma cut_slashes_last: "length (cut_slashes p) > 1 \<Longrightarrow> last (cut_slashes p) \<noteq> CHR ''/''"
  by (induction p rule: cut_slashes.induct) (subst (asm) cut_slashes.simps, subst cut_slashes.simps, auto split: if_splits)

lemma ig_walk_run:
  assumes "tree (Suc WALK_MAX_DEPTH) fs rcs (cut_slashes (strncpy0 IG_MAX_PATH base)) = (files, dirs)"
    and "distinct dirs" and "length dirs \<le> WALK_VISITED_MAX"
  shows "ig_walk fs rcs cb base s = run_cb cb files s"
proof -
  let ?b = "cut_slashes (strncpy0 IG_MAX_PATH base)"
  have "walk_impl (Suc WALK_MAX_DEPTH) fs rcs cb ?b [] s = (case run_cb cb files s of (n, s') \<Rightarrow> (n, [] @ dirs, s'))"
    using assms by (intro walk_is_tree(1)) auto
  then show ?thesis by (simp add: ig_walk_def split: prod.splits)
qed

lemma listed_files:
  assumes "tree (Suc WALK_MAX_DEPTH) fs rcs (cut_slashes (strncpy0 IG_MAX_PATH base)) = (files, dirs)"
    and "(p, st) \<in> set files"
  shows "fs_lstat fs p = Some st \<and> is_reg st \<and> below (cut_slashes (strncpy0 IG_MAX_PATH base)) p
    \<and> length p < IG_MAX_PATH"
proof (rule tree_files(1))
  show "(p, st) \<in> set (fst (tree (Suc WALK_MAX_DEPTH) fs rcs (cut_slashes (strncpy0 IG_MAX_PATH base))))"
    using assms by (simp only: fst_conv)
  show "length (cut_slashes (strncpy0 IG_MAX_PATH base)) < IG_MAX_PATH"
    using length_cut_slashes [of "strncpy0 IG_MAX_PATH base"] length_strncpy0 [of IG_MAX_PATH base]
    by (simp add: IG_MAX_PATH_def)
qed

section \<open>Properties\<close>


text \<open>A directory \<^verbatim>\<open>/w\<close> with two subdirectories, which carry the given inode numbers, and a file in
  each.\<close>

definition two_dirs :: "u64 \<Rightarrow> u64 \<Rightarrow> fs" where
  "two_dirs i j =
     \<lparr>fs_lstat = [''/w'' \<mapsto> \<lparr>st_dev = 1, st_ino = 2, st_mode = 0x41ED, st_mtime = 0, st_size = 0\<rparr>,
        ''/w/a'' \<mapsto> \<lparr>st_dev = 1, st_ino = i, st_mode = 0x41ED, st_mtime = 0, st_size = 0\<rparr>,
        ''/w/b'' \<mapsto> \<lparr>st_dev = 9, st_ino = j, st_mode = 0x41ED, st_mtime = 0, st_size = 0\<rparr>,
        ''/w/a/f'' \<mapsto> \<lparr>st_dev = 1, st_ino = 7, st_mode = 0x81A4, st_mtime = 0, st_size = 0\<rparr>,
        ''/w/b/g'' \<mapsto> \<lparr>st_dev = 9, st_ino = 8, st_mode = 0x81A4, st_mtime = 0, st_size = 0\<rparr>],
      fs_readdir = [''/w'' \<mapsto> [''a'', ''b''], ''/w/a'' \<mapsto> [''f''], ''/w/b'' \<mapsto> [''g'']]\<rparr>"

definition collect :: "string list walk_cb" where
  "collect p st s = (0, s @ [p])"

lemma two_dirs_base: "cut_slashes (strncpy0 IG_MAX_PATH ''/w'') = ''/w''"
  by (simp add: strncpy0_def cstr_def nul_def IG_MAX_PATH_def cut_slashes.simps)

lemma walk_levels: "Suc WALK_MAX_DEPTH = Suc (Suc (Suc (Suc 61)))"
  by (simp add: WALK_MAX_DEPTH_def)

lemmas two_dirs_eval = two_dirs_def is_reg_def is_dir_def sub_path_def IG_MAX_PATH_def Let_def

lemma two_dirs_tree_any:
  "tree (Suc (Suc (Suc (Suc d)))) (two_dirs i j) True ''/w'' =
     ([(''/w/a/f'', \<lparr>st_dev = 1, st_ino = 7, st_mode = 0x81A4, st_mtime = 0, st_size = 0\<rparr>),
       (''/w/b/g'', \<lparr>st_dev = 9, st_ino = 8, st_mode = 0x81A4, st_mtime = 0, st_size = 0\<rparr>)], [2, i, j])"
  by (simp add: two_dirs_eval)

lemma two_dirs_walk_any:
  "walk_impl (Suc (Suc (Suc (Suc d)))) (two_dirs 5 5) True collect ''/w'' [] [] = (1, [2, 5], [''/w/a/f''])"
  by (simp add: two_dirs_eval visited_check_add_def WALK_VISITED_MAX_def collect_def)

lemmas two_dirs_tree = two_dirs_tree_any [of 61, folded walk_levels]
lemmas two_dirs_walk = two_dirs_walk_any [of 61, folded walk_levels]


text \<open>The visited set knows inode numbers but not devices: when a mounted file system below the
  base happens to use the inode number of a directory already seen, its files are not reported.\<close>

theorem walk_misses_equal_inode_on_other_device:
  "(''/w/b/g'' \<in> fst ` set (fst (tree (Suc WALK_MAX_DEPTH) (two_dirs 5 5) True ''/w'')))
   \<and> ig_walk (two_dirs 5 5) True collect ''/w'' [] = (1, [''/w/a/f''])"
proof
  show "''/w/b/g'' \<in> fst ` set (fst (tree (Suc WALK_MAX_DEPTH) (two_dirs 5 5) True ''/w''))"
    by (simp only: two_dirs_tree fst_conv) simp
  show "ig_walk (two_dirs 5 5) True collect ''/w'' [] = (1, [''/w/a/f''])"
    by (simp only: ig_walk_def Let_def two_dirs_base two_dirs_walk prod.case)
qed

end
