(* ===== verification/Baseline.thy ===== *)
theory Baseline
  imports Walker
begin

text \<open>
  The integrity baseline: \<^verbatim>\<open>Agent/src/scanner/baseline.c\<close>.  The database is a growing array of
  entries, read and written under one lock; the state is the list of its used slots, with the
  allocated capacity beside it.  OpenSSL's digest and the file contents are parameters.
\<close>

section \<open>Hashing a file\<close>

text \<open>
  \<open>se_content\<close> is what reading the file yields (\<open>None\<close>: it cannot be opened), \<open>se_update\<close> whether
  the n-th \<^verbatim>\<open>EVP_DigestUpdate\<close> succeeds and \<open>se_digest\<close> the digest of the bytes fed to it.
\<close>

record sha_env =
  se_content :: "string \<Rightarrow> bytes option"
  se_ctx_ok :: bool
  se_init_ok :: bool
  se_update :: "nat \<Rightarrow> bool"
  se_digest :: "bytes \<Rightarrow> bytes"

definition hex_digit :: "nat \<Rightarrow> char" where
  "hex_digit n = (''0123456789abcdef'' ! n)"

definition hex_byte :: "u8 \<Rightarrow> string" where
  "hex_byte b = [hex_digit (unat b div 16), hex_digit (unat b mod 16)]"

text \<open>\<^verbatim>\<open>fread\<close> hands out the content in pieces of 8192 bytes.\<close>

fun pieces :: "nat \<Rightarrow> bytes \<Rightarrow> bytes list" where
  "pieces k xs = (if xs = [] \<or> k = 0 then [] else take k xs # pieces k (drop k xs))"

declare pieces.simps [simp del]

fun feed :: "(nat \<Rightarrow> bool) \<Rightarrow> nat \<Rightarrow> bytes list \<Rightarrow> bytes \<Rightarrow> bytes option" where
  "feed upd i [] acc = Some acc"
| "feed upd i (b # bs) acc = (if upd i then feed upd (Suc i) bs (acc @ b) else None)"

definition ig_sha256_file :: "sha_env \<Rightarrow> string \<Rightarrow> string option" where
  "ig_sha256_file e path =
     (case se_content e path of
        None \<Rightarrow> None
      | Some content \<Rightarrow>
          if \<not> se_ctx_ok e then None
          else if \<not> se_init_ok e then None
          else (case feed (se_update e) 0 (pieces 8192 content) [] of
              None \<Rightarrow> None
            | Some fed \<Rightarrow> Some (concat (map hex_byte (se_digest e fed)))))"

section \<open>Scanning\<close>

record ig_scan_entry =
  se_path :: string
  se_hash :: string
  se_mtime :: int
  se_size :: int

record ig_scan_result =
  sr_entries :: "ig_scan_entry list"
  sr_capacity :: nat
  sr_errors :: nat

abbreviation sr_count :: "ig_scan_result \<Rightarrow> nat" where
  "sr_count r \<equiv> length (sr_entries r)"

definition empty_scan :: ig_scan_result where
  "empty_scan = \<lparr>sr_entries = [], sr_capacity = 0, sr_errors = 0\<rparr>"

text \<open>\<open>mem n\<close>: \<^verbatim>\<open>realloc\<close> to \<open>n\<close> entries succeeds.\<close>

definition result_grow :: "(nat \<Rightarrow> bool) \<Rightarrow> ig_scan_result \<Rightarrow> ig_scan_result option" where
  "result_grow mem r =
     (let new_cap = (if sr_capacity r = 0 then 256 else sr_capacity r * 2)
      in if mem new_cap then Some (r\<lparr>sr_capacity := new_cap\<rparr>) else None)"

definition scan_cb :: "sha_env \<Rightarrow> (nat \<Rightarrow> bool) \<Rightarrow> ig_scan_result walk_cb" where
  "scan_cb e mem path st r =
     (case (if sr_count r \<ge> sr_capacity r then result_grow mem r else Some r) of
        None \<Rightarrow> (0, r\<lparr>sr_errors := sr_errors r + 1\<rparr>)
      | Some r \<Rightarrow>
          (case ig_sha256_file e path of
             None \<Rightarrow> (0, r\<lparr>sr_errors := sr_errors r + 1\<rparr>)
           | Some h \<Rightarrow>
               (0, r\<lparr>sr_entries := sr_entries r @
                  [\<lparr>se_path = strncpy0 IG_MAX_PATH path, se_hash = h,
                    se_mtime = st_mtime st, se_size = st_size st\<rparr>]\<rparr>)))"

definition ig_baseline_scan :: "fs \<Rightarrow> sha_env \<Rightarrow> (nat \<Rightarrow> bool) \<Rightarrow> ig_config \<Rightarrow> nat \<times> ig_scan_result" where
  "ig_baseline_scan fs e mem cfg =
     (let out = fold (\<lambda>w out. snd (ig_walk fs (w_recursive w \<noteq> 0) (scan_cb e mem) (w_path w) out))
          (watches cfg) empty_scan
      in (sr_count out, out))"

definition ig_scan_result_free :: "ig_scan_result \<Rightarrow> ig_scan_result" where
  "ig_scan_result_free r = empty_scan"

section \<open>The database\<close>

definition ig_baseline_db_init :: ig_scan_result where
  "ig_baseline_db_init = empty_scan"

definition ig_baseline_db_build :: "fs \<Rightarrow> sha_env \<Rightarrow> (nat \<Rightarrow> bool) \<Rightarrow> ig_config \<Rightarrow> ig_scan_result \<Rightarrow> nat \<times> ig_scan_result" where
  "ig_baseline_db_build fs e mem cfg db =
     (let db = ig_scan_result_free db in ig_baseline_scan fs e mem cfg)"

datatype ig_integrity_result = IG_INTEGRITY_MATCH | IG_INTEGRITY_MISMATCH | IG_INTEGRITY_NEW | IG_INTEGRITY_ERROR

definition entry_at :: "string \<Rightarrow> ig_scan_entry \<Rightarrow> bool" where
  "entry_at path en \<longleftrightarrow> se_path en = path"

text \<open>Returns the verdict and the two output strings.\<close>

definition ig_baseline_check_file :: "sha_env \<Rightarrow> ig_scan_result \<Rightarrow> string \<Rightarrow> ig_integrity_result \<times> string \<times> string" where
  "ig_baseline_check_file e db path =
     (case ig_sha256_file e path of
        None \<Rightarrow> (IG_INTEGRITY_ERROR, [], [])
      | Some actual \<Rightarrow>
          (case List.find (entry_at path) (sr_entries db) of
             Some en \<Rightarrow>
               (if actual = se_hash en then IG_INTEGRITY_MATCH else IG_INTEGRITY_MISMATCH, se_hash en, actual)
           | None \<Rightarrow> (IG_INTEGRITY_NEW, [], actual)))"

text \<open>\<open>stat\<close> is the \<^verbatim>\<open>stat\<close> call, which follows symbolic links.\<close>

definition ig_baseline_db_update :: "sha_env \<Rightarrow> (string \<Rightarrow> stat option) \<Rightarrow> (nat \<Rightarrow> bool) \<Rightarrow> string \<Rightarrow> ig_scan_result \<Rightarrow> ig_scan_result" where
  "ig_baseline_db_update e stat mem path db =
     (case ig_sha256_file e path of
        None \<Rightarrow> db
      | Some h \<Rightarrow>
          (case stat path of
             None \<Rightarrow> db
           | Some st \<Rightarrow>
               if List.find (entry_at path) (sr_entries db) \<noteq> None
               then db\<lparr>sr_entries := update_first (entry_at path)
                      (\<lambda>en. en\<lparr>se_hash := h, se_mtime := st_mtime st, se_size := st_size st\<rparr>) (sr_entries db)\<rparr>
               else (case (if sr_count db \<ge> sr_capacity db then result_grow mem db else Some db) of
                   None \<Rightarrow> db
                 | Some db \<Rightarrow>
                     db\<lparr>sr_entries := sr_entries db @
                       [\<lparr>se_path = strncpy0 IG_MAX_PATH path, se_hash = h,
                         se_mtime = st_mtime st, se_size = st_size st\<rparr>]\<rparr>)))"

text \<open>The first entry of the path is overwritten by the last entry of the array.\<close>

fun swap_remove :: "('a \<Rightarrow> bool) \<Rightarrow> 'a list \<Rightarrow> 'a list" where
  "swap_remove P [] = []"
| "swap_remove P (x # xs) =
     (if P x then (if xs = [] then [] else last xs # butlast xs) else x # swap_remove P xs)"

definition ig_baseline_db_remove :: "string \<Rightarrow> ig_scan_result \<Rightarrow> ig_scan_result" where
  "ig_baseline_db_remove path db = db\<lparr>sr_entries := swap_remove (entry_at path) (sr_entries db)\<rparr>"

definition ig_baseline_db_free :: "ig_scan_result \<Rightarrow> ig_scan_result" where
  "ig_baseline_db_free db = ig_scan_result_free db"

section \<open>The array is within its capacity\<close>

definition scan_inv :: "ig_scan_result \<Rightarrow> bool" where
  "scan_inv r \<longleftrightarrow> sr_count r \<le> sr_capacity r"

lemma scan_inv_empty [simp]: "scan_inv empty_scan"
  by (simp add: scan_inv_def empty_scan_def)

lemma result_grow_facts:
  "result_grow mem r = Some r' \<Longrightarrow> scan_inv r \<Longrightarrow>
     sr_entries r' = sr_entries r \<and> sr_count r < sr_capacity r' \<and> sr_errors r' = sr_errors r"
  by (auto simp: result_grow_def Let_def scan_inv_def split: if_splits)

lemma result_grow_inv: "result_grow mem r = Some r' \<Longrightarrow> scan_inv r \<Longrightarrow> scan_inv r'"
  by (auto simp: result_grow_def Let_def scan_inv_def split: if_splits)

lemma scan_cb_inv: "scan_inv r \<Longrightarrow> scan_inv (snd (scan_cb e mem p st r))"
  by (auto simp: scan_cb_def scan_inv_def result_grow_def Let_def Suc_le_eq split: option.splits if_splits)

lemma update_inv: "scan_inv db \<Longrightarrow> scan_inv (ig_baseline_db_update e stat mem path db)"
  by (auto simp: ig_baseline_db_update_def scan_inv_def result_grow_def Let_def Suc_le_eq
      split: option.splits if_splits)

text \<open>With memory for the array, a scanned file is recorded exactly when it can be hashed.\<close>

definition scan_entry :: "sha_env \<Rightarrow> string \<times> stat \<Rightarrow> ig_scan_entry option" where
  "scan_entry e f = map_option (\<lambda>h. \<lparr>se_path = strncpy0 IG_MAX_PATH (fst f), se_hash = h,
     se_mtime = st_mtime (snd f), se_size = st_size (snd f)\<rparr>) (ig_sha256_file e (fst f))"

lemma scan_cb_rc: "fst (scan_cb e mem p st r) = 0"
  by (auto simp: scan_cb_def split: option.splits)

lemma scan_cb_entries:
  "sr_entries (snd (scan_cb e (\<lambda>_. True) p st r)) =
     sr_entries r @ (case scan_entry e (p, st) of None \<Rightarrow> [] | Some en \<Rightarrow> [en])"
  by (auto simp: scan_cb_def scan_entry_def result_grow_def Let_def split: option.splits)

lemma run_scan:
  "sr_entries (snd (run_cb (scan_cb e (\<lambda>_. True)) fl r)) = sr_entries r @ List.map_filter (scan_entry e) fl"
proof (induction fl arbitrary: r)
  case (Cons a fl)
  obtain p st where a: "a = (p, st)" by fastforce
  obtain rc r' where c: "scan_cb e (\<lambda>_. True) p st r = (rc, r')" by fastforce
  show ?case
    using Cons [of r'] scan_cb_entries [of e p st r]
    by (auto simp: a c List.map_filter_simps split: prod.splits option.splits)
qed (simp add: List.map_filter_simps)

text \<open>The regular files of a watched path, in the order the walk meets them.\<close>

definition watch_tree :: "fs \<Rightarrow> ig_watch_entry \<Rightarrow> (string \<times> stat) list \<times> u64 list" where
  "watch_tree fs w = tree (Suc WALK_MAX_DEPTH) fs (w_recursive w \<noteq> 0)
     (cut_slashes (strncpy0 IG_MAX_PATH (w_path w)))"

text \<open>No two directories with the same inode number, no more than the visited set holds, and paths
  that are C strings.\<close>

definition walkable :: "fs \<Rightarrow> ig_watch_entry \<Rightarrow> bool" where
  "walkable fs w \<longleftrightarrow> distinct (snd (watch_tree fs w)) \<and> length (snd (watch_tree fs w)) \<le> WALK_VISITED_MAX
     \<and> (\<forall>f \<in> set (fst (watch_tree fs w)). has_no_nul (fst f))"

lemma walk_watch:
  assumes "walkable fs w"
  shows "ig_walk fs (w_recursive w \<noteq> 0) cb (w_path w) s = run_cb cb (fst (watch_tree fs w)) s"
  using assms by (intro ig_walk_run) (auto simp: walkable_def watch_tree_def prod_eq_iff)

lemma scan_watches:
  assumes "\<forall>w \<in> set ws. walkable fs w"
  shows "sr_entries (fold (\<lambda>w out. snd (ig_walk fs (w_recursive w \<noteq> 0) (scan_cb e (\<lambda>_. True)) (w_path w) out)) ws r)
    = sr_entries r @ concat (map (\<lambda>w. List.map_filter (scan_entry e) (fst (watch_tree fs w))) ws)"
  using assms by (induction ws arbitrary: r) (simp_all add: walk_watch run_scan)

lemma scan_build_entries:
  assumes "\<forall>w \<in> set (watches cfg). walkable fs w"
  shows "sr_entries (snd (ig_baseline_scan fs e (\<lambda>_. True) cfg))
    = concat (map (\<lambda>w. List.map_filter (scan_entry e) (fst (watch_tree fs w))) (watches cfg))"
  using scan_watches [OF assms, of e empty_scan] by (simp add: ig_baseline_scan_def Let_def empty_scan_def)

lemma watched_path_ok:
  assumes "walkable fs w" and "(p, st) \<in> set (fst (watch_tree fs w))"
  shows "length p < IG_MAX_PATH" "has_no_nul p"
  using listed_files [of fs _ "w_path w" "fst (watch_tree fs w)" "snd (watch_tree fs w)" p st] assms
  by (auto simp: watch_tree_def walkable_def)

lemma scanned_file_recorded:
  assumes "\<forall>w \<in> set (watches cfg). walkable fs w" and "w \<in> set (watches cfg)" and "(p, st) \<in> set (fst (watch_tree fs w))"
    and "ig_sha256_file e p = Some h"
  shows "\<exists>en \<in> set (sr_entries (snd (ig_baseline_scan fs e (\<lambda>_. True) cfg))). se_path en = p \<and> se_hash en = h"
proof -
  have p: "strncpy0 IG_MAX_PATH p = p" using watched_path_ok [of fs w p st] assms(1-3) by (simp add: strncpy0_short)
  obtain en where en: "scan_entry e (p, st) = Some en" "se_path en = p" "se_hash en = h"
    using assms(4) p by (simp add: scan_entry_def)
  then show ?thesis
    unfolding scan_build_entries [OF assms(1)] using assms(2,3) by (force simp: List.map_filter_def)
qed

section \<open>The database as a map\<close>

definition recorded :: "ig_scan_result \<Rightarrow> string \<Rightarrow> string option" where
  "recorded db path = map_option se_hash (List.find (entry_at path) (sr_entries db))"

lemma check_file_recorded:
  "ig_baseline_check_file e db path =
     (case ig_sha256_file e path of
        None \<Rightarrow> (IG_INTEGRITY_ERROR, [], [])
      | Some actual \<Rightarrow>
          (case recorded db path of
             None \<Rightarrow> (IG_INTEGRITY_NEW, [], actual)
           | Some h \<Rightarrow> (if actual = h then IG_INTEGRITY_MATCH else IG_INTEGRITY_MISMATCH, h, actual)))"
  by (auto simp: ig_baseline_check_file_def recorded_def split: option.splits)

lemma update_recorded:
  assumes "ig_sha256_file e path = Some h" and "stat path = Some st"
    and "has_no_nul path" and "length path < IG_MAX_PATH"
    and "sr_count db < sr_capacity db \<or> result_grow mem db \<noteq> None \<or> recorded db path \<noteq> None"
  shows "recorded (ig_baseline_db_update e stat mem path db) = (recorded db)(path \<mapsto> h)"
proof
  fix q
  let ?f = "\<lambda>en. en\<lparr>se_hash := h, se_mtime := st_mtime st, se_size := st_size st\<rparr>"
  let ?db' = "ig_baseline_db_update e stat mem path db"
  have same: "List.find (entry_at path) (update_first (entry_at path) ?f (sr_entries db))
      = map_option ?f (List.find (entry_at path) (sr_entries db))"
    by (rule find_update_first) (simp add: entry_at_def)
  have other: "List.find (entry_at q) (update_first (entry_at path) ?f (sr_entries db))
      = List.find (entry_at q) (sr_entries db)" if "q \<noteq> path"
    using that by (intro find_update_first_other) (auto simp: entry_at_def)
  show "recorded ?db' q = ((recorded db)(path \<mapsto> h)) q"
  proof (cases "List.find (entry_at path) (sr_entries db)")
    case (Some en)
    then show ?thesis
      using same other assms(1,2) by (auto simp: recorded_def ig_baseline_db_update_def)
  next
    case None
    then obtain cap where "sr_entries ?db' = sr_entries db @ [\<lparr>se_path = path, se_hash = h,
        se_mtime = st_mtime st, se_size = st_size st\<rparr>]" "sr_capacity ?db' = cap"
      using assms by (auto simp: ig_baseline_db_update_def recorded_def strncpy0_short result_grow_def Let_def
          split: option.splits if_splits)
    with None show ?thesis by (auto simp: recorded_def find_append entry_at_def split: option.splits)
  qed
qed

lemma update_distinct:
  assumes "distinct (map se_path (sr_entries db))" and "has_no_nul path" and "length path < IG_MAX_PATH"
  shows "distinct (map se_path (sr_entries (ig_baseline_db_update e stat mem path db)))"
proof -
  have "map se_path (update_first (entry_at path) f xs) = map se_path xs" if "\<And>x. se_path (f x) = se_path x" for f xs
    using that by (intro map_key_update_first) auto
  then show ?thesis
    using assms
    by (auto simp: ig_baseline_db_update_def strncpy0_short result_grow_def Let_def find_None_iff entry_at_def
        split: option.splits)
qed

lemma set_swap_remove: "set (swap_remove P xs) \<subseteq> set xs"
  by (induction xs) (auto dest: in_set_butlastD)

lemma swap_remove_one:
  "distinct (map se_path xs) \<Longrightarrow> List.find (entry_at q) (swap_remove (entry_at path) xs)
     = (if q = path then None else List.find (entry_at q) xs)"
proof (induction xs)
  case (Cons x xs)
  show ?case
  proof (cases "entry_at path x")
    case False
    have q: "entry_at q x \<longleftrightarrow> se_path x = q" and "se_path x \<noteq> path"
      using False by (simp_all add: entry_at_def)
    with Cons False show ?thesis by auto
  next
    case True
    have mem: "List.find (entry_at q) ys = Some y \<longleftrightarrow> y \<in> set ys \<and> se_path y = q"
      if "distinct (map se_path ys)" for ys y
      using that by (induction ys) (auto simp: entry_at_def)
    have perm: "set (if xs = [] then [] else last xs # butlast xs) = set xs"
      by (cases xs rule: rev_cases) auto
    have dist: "distinct (map se_path (if xs = [] then [] else last xs # butlast xs))"
      using Cons.prems by (cases xs rule: rev_cases) auto
    have dist': "distinct (map se_path xs)" using Cons.prems by simp
    have "List.find (entry_at q) (if xs = [] then [] else last xs # butlast xs) = List.find (entry_at q) xs"
      using mem [OF dist] mem [OF dist'] perm
      by (metis not_Some_eq)
    moreover have "List.find (entry_at q) (x # xs) = (if q = path then Some x else List.find (entry_at q) xs)"
      using True by (auto simp: entry_at_def)
    moreover have "List.find (entry_at path) xs = None"
      using Cons.prems True by (auto simp: find_None_iff entry_at_def image_iff)
    ultimately show ?thesis using True by simp
  qed
qed simp

lemma remove_recorded:
  "distinct (map se_path (sr_entries db)) \<Longrightarrow>
     recorded (ig_baseline_db_remove path db) = (recorded db)(path := None)"
  by (auto simp: recorded_def ig_baseline_db_remove_def swap_remove_one fun_eq_iff)

section \<open>Properties\<close>


text \<open>An environment for the examples: every file holds one byte, and the digest is the content.\<close>

definition sample_sha :: "u8 \<Rightarrow> sha_env" where
  "sample_sha b = \<lparr>se_content = (\<lambda>_. Some [b]), se_ctx_ok = True, se_init_ok = True,
     se_update = (\<lambda>_. True), se_digest = id\<rparr>"

definition watch_w :: "string \<Rightarrow> ig_watch_entry" where
  "watch_w p = \<lparr>w_path = p, w_recursive = 1\<rparr>"

definition sample_config :: "string list \<Rightarrow> ig_config" where
  "sample_config ps = \<lparr>daemonize = 0, log_file = [], log_to_syslog = 0, verbose = 0, ebpf_enabled = 0,
     watches = map watch_w ps, protect_paths = []\<rparr>"

lemma sample_hash: "ig_sha256_file (sample_sha b) p = Some (hex_byte b)"
  by (simp add: ig_sha256_file_def sample_sha_def pieces.simps)

lemma watch_tree_two_dirs:
  "watch_tree (two_dirs i j) (watch_w ''/w'') =
     ([(''/w/a/f'', \<lparr>st_dev = 1, st_ino = 7, st_mode = 0x81A4, st_mtime = 0, st_size = 0\<rparr>),
       (''/w/b/g'', \<lparr>st_dev = 9, st_ino = 8, st_mode = 0x81A4, st_mtime = 0, st_size = 0\<rparr>)], [2, i, j])"
  using two_dirs_tree [of i j] by (simp only: watch_tree_def watch_w_def ig_watch_entry.simps two_dirs_base) simp

lemma walkable_two_dirs: "distinct [2, i, j] \<Longrightarrow> walkable (two_dirs i j) (watch_w ''/w'')"
  by (simp add: walkable_def watch_tree_two_dirs WALK_VISITED_MAX_def has_no_nul_def nul_def)




text \<open>Overlapping watches record a file once per watch, and removing a path removes only one
  entry: after the removal of a deleted file the database still knows it, so a file created anew
  under that path is compared with the old hash instead of being reported as new.\<close>

theorem overlapping_watches_stale_entry:
  "let db = snd (ig_baseline_db_build (two_dirs 5 6) (sample_sha 1) (\<lambda>_. True) (sample_config [''/w'', ''/w'']) empty_scan)
   in ig_baseline_check_file (sample_sha 2) (ig_baseline_db_remove ''/w/a/f'' db) ''/w/a/f''
      = (IG_INTEGRITY_MISMATCH, hex_byte 1, hex_byte 2)"
proof -
  let ?db = "snd (ig_baseline_db_build (two_dirs 5 6) (sample_sha 1) (\<lambda>_. True) (sample_config [''/w'', ''/w'']) empty_scan)"
  have "\<forall>w \<in> set [watch_w ''/w'', watch_w ''/w'']. walkable (two_dirs 5 6) w"
    by (simp add: walkable_two_dirs)
  from scan_watches [OF this, of "sample_sha 1" empty_scan]
  have db: "sr_entries ?db = (let en = \<lambda>p. \<lparr>se_path = p, se_hash = hex_byte 1, se_mtime = 0, se_size = 0\<rparr>
      in [en ''/w/a/f'', en ''/w/b/g'', en ''/w/a/f'', en ''/w/b/g''])"
    by (simp add: ig_baseline_db_build_def ig_baseline_scan_def ig_scan_result_free_def sample_config_def Let_def
        watch_tree_two_dirs List.map_filter_simps scan_entry_def sample_hash empty_scan_def strncpy0_def cstr_def
        nul_def IG_MAX_PATH_def)
  have "hex_byte 2 \<noteq> hex_byte 1" by (simp add: hex_byte_def hex_digit_def)
  then show ?thesis
    by (simp add: Let_def ig_baseline_check_file_def sample_hash ig_baseline_db_remove_def db entry_at_def)
qed

end
