(* ===== verification/Lkm_Client.thy ===== *)
theory Lkm_Client
  imports Lkm_Events Baseline
begin

text \<open>
  The agent's side of the device: \<^verbatim>\<open>Agent/src/lkm/lkm_client.c\<close>.  Its ioctls run the handler of the
  module on the module's policy table; \<open>dev_t\<close> is taken apart with the macros of
  \<^verbatim>\<open>sys/sysmacros.h\<close>.
\<close>

section \<open>Device numbers\<close>

definition major :: "u64 \<Rightarrow> u32" where
  "major dev = ucast (drop_bit 8 (dev AND 0xfff00) OR drop_bit 32 (dev AND 0xfffff00000000000))"

definition minor :: "u64 \<Rightarrow> u32" where
  "minor dev = ucast ((dev AND 0xff) OR drop_bit 12 (dev AND 0xffffff00000))"

definition makedev :: "u32 \<Rightarrow> u32 \<Rightarrow> u64" where
  "makedev ma mi = push_bit 8 (ucast ma AND 0xfff) OR push_bit 32 (ucast ma AND 0xfffff000)
     OR (ucast mi AND 0xff) OR push_bit 12 (ucast mi AND 0xffffff00)"

definition stat_dev_to_kernel :: "u64 \<Rightarrow> u64" where
  "stat_dev_to_kernel dev = push_bit 20 (ucast (major dev)) OR ucast (minor dev)"

section \<open>The client\<close>

text \<open>\<open>g_lkm_fd\<close> is the descriptor, -1 when the device is not open.  \<^verbatim>\<open>open\<close> yields a descriptor or an
  error number.\<close>

definition lkm_client_init :: "int + int \<Rightarrow> int \<times> int" where
  "lkm_client_init opened = (case opened of Inl errno \<Rightarrow> (- errno, -1) | Inr fd \<Rightarrow> (0, fd))"

definition lkm_client_cleanup :: "int \<Rightarrow> int" where
  "lkm_client_cleanup g_lkm_fd = (if g_lkm_fd \<ge> 0 then -1 else g_lkm_fd)"

definition lkm_client_ready :: "int \<Rightarrow> bool" where
  "lkm_client_ready g_lkm_fd \<longleftrightarrow> g_lkm_fd \<ge> 0"

text \<open>An ioctl on a closed descriptor fails; a negative result of the handler becomes -1.\<close>

definition lkm_ioctl :: "(u64 \<Rightarrow> u64 \<Rightarrow> nat) \<Rightarrow> bool \<Rightarrow> int \<Rightarrow> ioctl_cmd \<Rightarrow> ig_lkm_policy_req option
    \<Rightarrow> policy_ht \<Rightarrow> int \<times> policy_ht" where
  "lkm_ioctl bkt alloc_ok fd cmd arg ht =
     (if fd < 0 then (-1, ht)
      else (case ig_ioctl bkt alloc_ok ht cmd arg of (rc, ht) \<Rightarrow> (if rc < 0 then -1 else rc, ht)))"

definition lkm_add_inode :: "(u64 \<Rightarrow> u64 \<Rightarrow> nat) \<Rightarrow> bool \<Rightarrow> int \<Rightarrow> u64 \<Rightarrow> u64 \<Rightarrow> u32 \<Rightarrow> u32 \<Rightarrow> string option
    \<Rightarrow> policy_ht \<Rightarrow> int \<times> policy_ht" where
  "lkm_add_inode bkt alloc_ok fd dev ino msk block path ht =
     (let req = \<lparr>rq_dev = stat_dev_to_kernel dev, rq_ino = ino, rq_mask = msk, rq_block = block,
        rq_path = (case path of None \<Rightarrow> [] | Some p \<Rightarrow> strncpy0 IG_MAX_LKM_PATH p)\<rparr>
      in lkm_ioctl bkt alloc_ok fd IG_IOC_ADD_INODE (Some req) ht)"

definition lkm_remove_inode :: "(u64 \<Rightarrow> u64 \<Rightarrow> nat) \<Rightarrow> int \<Rightarrow> u64 \<Rightarrow> u64 \<Rightarrow> policy_ht \<Rightarrow> int \<times> policy_ht" where
  "lkm_remove_inode bkt fd dev ino ht =
     (let req = \<lparr>rq_dev = stat_dev_to_kernel dev, rq_ino = ino, rq_mask = 0, rq_block = 0, rq_path = []\<rparr>
      in lkm_ioctl bkt True fd IG_IOC_REMOVE_INODE (Some req) ht)"

definition lkm_clear_all :: "(u64 \<Rightarrow> u64 \<Rightarrow> nat) \<Rightarrow> int \<Rightarrow> policy_ht \<Rightarrow> int \<times> policy_ht" where
  "lkm_clear_all bkt fd ht = lkm_ioctl bkt True fd IG_IOC_CLEAR_ALL None ht"

definition baseline_mask :: u32 where
  "baseline_mask = IG_OP_WRITE OR IG_OP_DELETE OR IG_OP_RENAME"

text \<open>The loop over the baseline; \<open>stat\<close> is the \<^verbatim>\<open>stat\<close> call, \<open>None\<close> when it fails.\<close>

fun add_entries :: "(u64 \<Rightarrow> u64 \<Rightarrow> nat) \<Rightarrow> bool \<Rightarrow> int \<Rightarrow> (string \<Rightarrow> stat option) \<Rightarrow> u32 \<Rightarrow> ig_scan_entry list
    \<Rightarrow> policy_ht \<Rightarrow> int \<times> policy_ht" where
  "add_entries bkt ok fd stat block [] ht = (0, ht)"
| "add_entries bkt ok fd stat block (en # ens) ht =
     (case stat (se_path en) of
        None \<Rightarrow> add_entries bkt ok fd stat block ens ht
      | Some st \<Rightarrow>
          (case lkm_add_inode bkt ok fd (st_dev st) (st_ino st) baseline_mask block (Some (se_path en)) ht of
             (rc, ht) \<Rightarrow>
               (case add_entries bkt ok fd stat block ens ht of
                  (added, ht) \<Rightarrow> (if rc = 0 then added + 1 else added, ht))))"

definition lkm_add_from_baseline :: "(u64 \<Rightarrow> u64 \<Rightarrow> nat) \<Rightarrow> bool \<Rightarrow> int \<Rightarrow> (string \<Rightarrow> stat option)
    \<Rightarrow> ig_scan_result \<Rightarrow> u32 \<Rightarrow> policy_ht \<Rightarrow> int \<times> policy_ht" where
  "lkm_add_from_baseline bkt ok fd stat db block ht = add_entries bkt ok fd stat block (sr_entries db) ht"

section \<open>Reading events\<close>

definition EIO :: int where "EIO = 5"
definition ETIMEDOUT :: int where "ETIMEDOUT = 110"

text \<open>
  \<open>r\<close> is the result of \<^verbatim>\<open>read\<close>: the device's \<^verbatim>\<open>ig_read\<close>, a negative number being the negated errno.
\<close>

definition lkm_read_event :: "int \<times> lkm \<times> ig_lkm_event option \<Rightarrow> int \<times> lkm \<times> ig_lkm_event option" where
  "lkm_read_event r = (case r of (n, s, out) \<Rightarrow>
     if n < 0 then (n, s, out) else if n \<noteq> int sizeof_lkm_event then (- EIO, s, out) else (0, s, out))"

definition select_timeval :: "nat \<Rightarrow> nat \<times> nat" where
  "select_timeval timeout_ms = (timeout_ms div 1000, (timeout_ms mod 1000) * 1000)"

text \<open>\<open>sel\<close> is \<^verbatim>\<open>select\<close> on the device: negative (a negated errno) for an error, zero for a timeout.\<close>

definition lkm_read_event_timeout :: "(nat \<times> nat \<Rightarrow> int) \<Rightarrow> nat \<Rightarrow> (lkm \<Rightarrow> lkm option) \<Rightarrow> bool \<Rightarrow> bool \<Rightarrow> lkm
    \<Rightarrow> int \<times> lkm \<times> ig_lkm_event option" where
  "lkm_read_event_timeout sel timeout_ms wait alloc_ok copy_ok s =
     (let ret = sel (select_timeval timeout_ms)
      in if ret < 0 then (ret, s, None)
      else if ret = 0 then (- ETIMEDOUT, s, None)
      else lkm_read_event (ig_read sizeof_lkm_event wait alloc_ok copy_ok s))"

section \<open>Device numbers agree with the kernel's\<close>

lemma dev_masks:
  "(0xfff00 :: u64) = push_bit 8 (mask 12)" "(0xfffff00000000000 :: u64) = push_bit 44 (mask 20)"
  "(0xff :: u64) = mask 8" "(0xffffff00000 :: u64) = push_bit 20 (mask 24)"
  "(0xfff :: u64) = mask 12" "(0xfffff000 :: u64) = push_bit 12 (mask 20)" "(0xffffff00 :: u64) = push_bit 8 (mask 24)"
  by (simp_all add: mask_eq_exp_minus_1)

lemma major_makedev: "major (makedev ma mi) = ma"
proof (rule bit_word_eqI)
  fix n
  assume "n < LENGTH(32)"
  then show "bit (major (makedev ma mi)) n = bit ma n"
    by (auto simp: major_def makedev_def dev_masks bit_simps)
qed

lemma minor_makedev: "minor (makedev ma mi) = mi"
proof (rule bit_word_eqI)
  fix n
  assume "n < LENGTH(32)"
  then show "bit (minor (makedev ma mi)) n = bit mi n"
    by (auto simp: minor_def makedev_def dev_masks bit_simps)
qed

lemma kernel_dev_bits:
  assumes "mi < 2 ^ 20"
  shows "drop_bit 20 (push_bit 20 (ucast ma) OR ucast mi :: u64) = ucast (ma :: u32)"
    and "take_bit 20 (push_bit 20 (ucast ma) OR ucast mi :: u64) = ucast (mi :: u32)"
proof -
  have mi: "\<not> bit mi n" if "20 \<le> n" for n
  proof -
    have "unat mi < 2 ^ 20" using assms by (simp add: word_less_nat_alt)
    then have "bit (unat mi) n = bit (take_bit 20 (unat mi)) n" by (simp add: take_bit_nat_eq_self)
    with that show ?thesis by (simp add: bit_simps)
  qed
  show "drop_bit 20 (push_bit 20 (ucast ma) OR ucast mi :: u64) = ucast ma"
    by (rule bit_word_eqI) (use mi in \<open>auto simp: bit_simps dest: bit_imp_le_length\<close>)
  show "take_bit 20 (push_bit 20 (ucast ma) OR ucast mi :: u64) = ucast mi"
    by (rule bit_word_eqI) (use mi in \<open>auto simp: bit_simps dest: bit_imp_le_length; meson not_le\<close>)
qed

lemma ucast_64_inj:
  assumes "(ucast (a :: u32) :: u64) = ucast b"
  shows "a = b"
proof (rule bit_word_eqI)
  fix n
  assume "n < LENGTH(32)"
  then show "bit a n = bit b n"
    using arg_cong [OF assms, of "\<lambda>w. bit w n"] by (simp add: bit_simps)
qed

section \<open>Injection is a client of the policy store\<close>

definition baseline_policies :: "(string \<Rightarrow> stat option) \<Rightarrow> u32 \<Rightarrow> ig_scan_entry list \<Rightarrow> (inode_key \<times> policy) list" where
  "baseline_policies stat block ens = List.map_filter (\<lambda>en. map_option (\<lambda>st.
     ((stat_dev_to_kernel (st_dev st), st_ino st),
      \<lparr>pol_mask = baseline_mask, pol_block = block, pol_path = se_path en\<rparr>)) (stat (se_path en))) ens"

lemma strncpy0_take: "strncpy0 n (take (n - 1) (strncpy0 n p)) = strncpy0 n p"
  by (simp add: strncpy0_def)

lemma add_same_path:
  assumes "strncpy0 IG_MAX_LKM_PATH p = strncpy0 IG_MAX_LKM_PATH q"
  shows "inode_policy_add bkt ok ht d i m b (Some p) = inode_policy_add bkt ok ht d i m b (Some q)"
proof -
  have "set_policy m b (Some p) = set_policy m b (Some q)"
    by (simp add: set_policy_def Let_def assms fun_eq_iff)
  moreover have "new_entry d i m b (Some p) = new_entry d i m b (Some q)"
    by (simp add: new_entry_def assms)
  ultimately show ?thesis by (simp add: inode_policy_add_def add_update_def split: option.splits)
qed

lemma lkm_add_inode_add:
  assumes "fd \<ge> 0"
  shows "lkm_add_inode bkt ok fd dev ino m b (Some p) ht =
    (case lkm_add bkt ok ht (stat_dev_to_kernel dev, ino) \<lparr>pol_mask = m, pol_block = b, pol_path = p\<rparr> of
       None \<Rightarrow> (-1, ht) | Some ht' \<Rightarrow> (0, ht'))"
proof -
  obtain rc ht' where r: "inode_policy_add bkt ok ht (stat_dev_to_kernel dev) ino m b (Some p) = (rc, ht')"
    by fastforce
  have r2: "inode_policy_add bkt ok ht (stat_dev_to_kernel dev) ino m b
      (Some (take (IG_MAX_LKM_PATH - 1) (strncpy0 IG_MAX_LKM_PATH p))) = (rc, ht')"
    using r by (simp only: add_same_path [OF strncpy0_take])
  have "rc = 0 \<or> rc = - ENOMEM \<and> ht' = ht" by (rule inode_policy_add_cases [OF r]) auto
  with assms r r2 show ?thesis
    by (auto simp: lkm_add_inode_def Let_def lkm_ioctl_def ig_ioctl_def lkm_add_def ENOMEM_def simp del: One_nat_def)
qed

lemma add_entries_inject:
  assumes "fd \<ge> 0"
  shows "add_entries bkt ok fd stat block ens ht =
    (case policy_store.inject (lkm_add bkt ok) ht (baseline_policies stat block ens) of (ht', n) \<Rightarrow> (int n, ht'))"
proof (induction ens arbitrary: ht)
  case Nil
  then show ?case by (simp add: baseline_policies_def List.map_filter_simps)
next
  case (Cons en ens)
  show ?case
  proof (cases "stat (se_path en)")
    case None
    with Cons show ?thesis by (simp add: baseline_policies_def List.map_filter_simps)
  next
    case (Some st)
    let ?k = "(stat_dev_to_kernel (st_dev st), st_ino st)"
    let ?p = "\<lparr>pol_mask = baseline_mask, pol_block = block, pol_path = se_path en\<rparr>"
    have b: "baseline_policies stat block (en # ens) = (?k, ?p) # baseline_policies stat block ens"
      by (simp add: baseline_policies_def List.map_filter_simps Some)
    show ?thesis
      using Cons.IH
      by (simp add: Some b lkm_add_inode_add [OF assms] Let_def split: option.splits prod.splits)
  qed
qed

lemma lkm_add_total: "lkm_add bkt True ht k p \<noteq> None"
  by (auto simp: lkm_add_def inode_policy_add_def split: option.splits)

text \<open>When no allocation fails, every file that can be found is protected.\<close>

lemma baseline_injected:
  assumes "ht_inv bkt ht" and "fd \<ge> 0"
    and "lkm_add_from_baseline bkt True fd stat db block ht = (added, ht')"
  shows "ht_inv bkt ht'"
    and "ht_pol bkt ht' = ht_pol bkt ht ++ map_of (rev (map (apsnd stored) (baseline_policies stat block (sr_entries db))))"
    and "added = int (length (baseline_policies stat block (sr_entries db)))"
proof -
  let ?ps = "baseline_policies stat block (sr_entries db)"
  obtain h n where i: "policy_store.inject (lkm_add bkt True) ht ?ps = (h, n)" by fastforce
  have r: "added = int n" "ht' = h"
    using assms(3) i by (simp_all add: lkm_add_from_baseline_def add_entries_inject [OF assms(2)])
  show "ht_inv bkt ht'"
    using lkm.inject_inv [OF assms(1), of True ?ps] by (simp add: i r)
  show "ht_pol bkt ht' = ht_pol bkt ht ++ map_of (rev (map (apsnd stored) ?ps))" "added = int (length ?ps)"
    using lkm.inject_all [OF assms(1), of True ?ps] by (simp_all add: i r lkm_add_total)
qed

lemma injected_protected:
  assumes "en \<in> set ens" and "stat (se_path en) = Some st"
  shows "\<exists>p. map_of (rev (map (apsnd stored) (baseline_policies stat block ens)))
      (stat_dev_to_kernel (st_dev st), st_ino st) = Some p \<and> pol_mask p = baseline_mask \<and> pol_block p = block"
proof -
  let ?ps = "map (apsnd stored) (baseline_policies stat block ens)" and ?k = "(stat_dev_to_kernel (st_dev st), st_ino st)"
  have all: "pol_mask p = baseline_mask \<and> pol_block p = block" if "(k, p) \<in> set ?ps" for k p
    using that by (auto simp: baseline_policies_def List.map_filter_def stored_def)
  have "?k \<in> fst ` set ?ps"
    using assms by (force simp: baseline_policies_def List.map_filter_def image_iff)
  then have "?k \<in> dom (map_of (rev ?ps))" by (simp add: dom_map_of_conv_image_fst)
  then obtain p where p: "map_of (rev ?ps) ?k = Some p" by blast
  with map_of_SomeD [OF p] all show ?thesis by auto
qed

section \<open>Properties\<close>

text \<open>The device number the agent sends is the kernel's: for a device with a minor number of at
  most 20 bits it is the pair of major and minor packed as \<^verbatim>\<open>(major << 20) | minor\<close>, so the policy of
  a file is stored under the key the hooks look up, and two different devices never share a key.\<close>

theorem device_number_is_kernel_encoding:
  assumes "mi < 2 ^ 20"
  shows "stat_dev_to_kernel (makedev ma mi) = push_bit 20 (ucast ma) OR ucast mi
    \<and> (\<forall>ma' mi'. mi' < 2 ^ 20 \<and> stat_dev_to_kernel (makedev ma' mi') = stat_dev_to_kernel (makedev ma mi)
         \<longrightarrow> ma' = ma \<and> mi' = mi)"
proof -
  have enc: "stat_dev_to_kernel (makedev a b) = push_bit 20 (ucast a) OR ucast b" for a b
    by (simp add: stat_dev_to_kernel_def major_makedev minor_makedev)
  have "ma' = ma \<and> mi' = mi"
    if "mi' < 2 ^ 20" and eq: "stat_dev_to_kernel (makedev ma' mi') = stat_dev_to_kernel (makedev ma mi)" for ma' mi'
  proof -
    have "(ucast ma' :: u64) = ucast ma"
      using kernel_dev_bits(1) [OF that(1), of ma'] kernel_dev_bits(1) [OF assms, of ma] eq [unfolded enc] by metis
    moreover have "(ucast mi' :: u64) = ucast mi"
      using kernel_dev_bits(2) [OF that(1), of ma'] kernel_dev_bits(2) [OF assms, of ma] eq [unfolded enc] by metis
    ultimately show ?thesis using ucast_64_inj by blast
  qed
  with enc show ?thesis by blast
qed

theorem device_number_is_kernel_encoding_witness:
  "stat_dev_to_kernel (makedev 8 1) = 0x800001"
  using device_number_is_kernel_encoding [of 1 8] by simp

end
