(* ===== verification/Tcp_Client.thy ===== *)
theory Tcp_Client
  imports Protocol Monitor
begin

text \<open>
  The agent's connection to the collector: \<^verbatim>\<open>Agent/src/transport/tcp_client.c\<close> and the heartbeat
  thread of \<^verbatim>\<open>heartbeat.c\<close>.  OpenSSL, the sockets and the clock are outside the repository: a TLS
  session is the bytes it has accepted, how many bytes each coming \<^verbatim>\<open>SSL_write\<close> will take (zero for
  a failure) and the pieces in which the coming \<^verbatim>\<open>SSL_read\<close>s deliver data.  Each public function
  holds the connection lock from its first statement to its last, so its body is one step.
\<close>

definition IG_RECONNECT_INIT_SEC :: int where "IG_RECONNECT_INIT_SEC = 1"
definition IG_RECONNECT_MAX_SEC :: int where "IG_RECONNECT_MAX_SEC = 60"
definition IG_RECONNECT_MULTIPLIER :: int where "IG_RECONNECT_MULTIPLIER = 2"
definition IG_RECONNECT_JITTER_PCT :: int where "IG_RECONNECT_JITTER_PCT = 25"
definition IG_RECONNECT_MAX_RETRIES :: nat where "IG_RECONNECT_MAX_RETRIES = 20"
definition IG_SEND_MAX_RETRIES :: int where "IG_SEND_MAX_RETRIES = 3"

record ssl =
  s_out :: bytes
  s_wr :: "nat list"
  s_in :: "bytes list"

datatype ig_conn_state = IG_CONN_DISCONNECTED | IG_CONN_CONNECTED

record ig_tcp_client =
  tc_fd :: int
  tc_ssl :: "ssl option"
  tc_state :: ig_conn_state
  tc_host :: string
  tc_port :: u16
  tc_seq_num :: u32
  tc_agent_id :: u64
  tc_send_failures :: int
  tc_reg_hostname :: string
  tc_reg_ip :: string
  tc_reg_monitor_type :: u8
  tc_reg_os :: string
  tc_reg_cached :: bool

section \<open>Bytes over TLS\<close>

text \<open>The \<^verbatim>\<open>while (sent < len)\<close> loop: one \<^verbatim>\<open>SSL_write\<close> per entry of the script.\<close>

fun write_loop :: "nat list \<Rightarrow> bytes \<Rightarrow> bytes \<Rightarrow> bool \<times> nat list \<times> bytes" where
  "write_loop ks [] out = (True, ks, out)"
| "write_loop [] buf out = (False, [], out)"
| "write_loop (k # ks) buf out =
     (if k = 0 then (False, ks, out)
      else (let n = min k (length buf) in write_loop ks (drop n buf) (out @ take n buf)))"

definition ssl_write_all :: "ssl \<Rightarrow> bytes \<Rightarrow> bool \<times> ssl" where
  "ssl_write_all s buf = (case write_loop (s_wr s) buf (s_out s) of
     (ok, ks, out) \<Rightarrow> (ok, s\<lparr>s_wr := ks, s_out := out\<rparr>))"

text \<open>The \<^verbatim>\<open>while (received < len)\<close> loop: an \<^verbatim>\<open>SSL_read\<close> delivers at most what is asked for.\<close>

fun read_loop :: "bytes list \<Rightarrow> nat \<Rightarrow> bytes \<Rightarrow> bytes option \<times> bytes list" where
  "read_loop cs 0 acc = (Some acc, cs)"
| "read_loop [] (Suc n) acc = (None, [])"
| "read_loop (c # cs) (Suc n) acc =
     (if c = [] then (None, cs)
      else if length c \<le> Suc n then read_loop cs (Suc n - length c) (acc @ c)
      else (Some (acc @ take (Suc n) c), drop (Suc n) c # cs))"

definition ssl_read_all :: "ssl \<Rightarrow> nat \<Rightarrow> bytes option \<times> ssl" where
  "ssl_read_all s len = (case read_loop (s_in s) len [] of (r, cs) \<Rightarrow> (r, s\<lparr>s_in := cs\<rparr>))"

section \<open>Frames\<close>

definition next_seq :: "ig_tcp_client \<Rightarrow> u32 \<times> ig_tcp_client" where
  "next_seq cli = (let seq = tc_seq_num cli + 1 in (seq, cli\<lparr>tc_seq_num := seq\<rparr>))"

definition ig_tcp_send_frame :: "ig_tcp_client \<Rightarrow> u8 \<Rightarrow> bytes \<Rightarrow> int \<times> ig_tcp_client" where
  "ig_tcp_send_frame cli ty payload =
     (if length payload > IG_MAX_FRAME_SIZE then (-1, cli)
      else (case (tc_state cli, tc_ssl cli) of
          (IG_CONN_CONNECTED, Some ssl) \<Rightarrow>
            (case next_seq cli of (seq, cli) \<Rightarrow>
              (case ig_frame_header_encode \<lparr>fh_length = of_nat (length payload), fh_type = ty, fh_seq_num = seq\<rparr>
                  IG_FRAME_HEADER_SIZE of
                 Ok hdr_buf \<Rightarrow>
                   (case ssl_write_all ssl hdr_buf of (ok, ssl) \<Rightarrow>
                     (case (if ok \<and> payload \<noteq> [] then ssl_write_all ssl payload else (ok, ssl)) of
                        (ok, ssl) \<Rightarrow>
                          let cli = cli\<lparr>tc_ssl := Some ssl\<rparr>
                          in if ok then (0, cli\<lparr>tc_send_failures := 0\<rparr>)
                          else let cli = cli\<lparr>tc_send_failures := tc_send_failures cli + 1\<rparr>
                          in if tc_send_failures cli \<ge> IG_SEND_MAX_RETRIES
                             then (-2, cli\<lparr>tc_send_failures := 0\<rparr>) else (-1, cli)))
               | _ \<Rightarrow> (-1, cli)))
        | _ \<Rightarrow> (-1, cli)))"

text \<open>Returns the C result, the header and the payload; \<open>alloc_ok\<close> is the \<^verbatim>\<open>malloc\<close> of the payload.\<close>

definition ig_tcp_recv_frame :: "bool \<Rightarrow> ig_tcp_client \<Rightarrow> (int \<times> ig_frame_header option \<times> bytes) \<times> ig_tcp_client" where
  "ig_tcp_recv_frame alloc_ok cli =
     (case (tc_state cli, tc_ssl cli) of
        (IG_CONN_CONNECTED, Some ssl) \<Rightarrow>
          (case ssl_read_all ssl IG_FRAME_HEADER_SIZE of
             (None, ssl) \<Rightarrow> ((-1, None, []), cli\<lparr>tc_ssl := Some ssl\<rparr>)
           | (Some hdr_buf, ssl) \<Rightarrow>
               let cli = cli\<lparr>tc_ssl := Some ssl\<rparr>
               in (case ig_frame_header_decode hdr_buf of
                 Ok hdr \<Rightarrow>
                   if unat (fh_length hdr) > IG_MAX_FRAME_SIZE then ((-1, Some hdr, []), cli)
                   else if fh_length hdr = 0 then ((0, Some hdr, []), cli)
                   else if \<not> alloc_ok then ((-1, Some hdr, []), cli)
                   else (case ssl_read_all ssl (unat (fh_length hdr)) of
                       (None, ssl) \<Rightarrow> ((-1, Some hdr, []), cli\<lparr>tc_ssl := Some ssl\<rparr>)
                     | (Some payload, ssl) \<Rightarrow>
                         ((int (unat (fh_length hdr)), Some hdr, payload), cli\<lparr>tc_ssl := Some ssl\<rparr>))
               | _ \<Rightarrow> ((-1, None, []), cli)))
      | _ \<Rightarrow> ((-1, None, []), cli))"

section \<open>Connecting\<close>

text \<open>\<open>memset\<close> to zero, then the fields; a NULL argument is \<open>None\<close>.\<close>

definition ig_tcp_init :: "string \<Rightarrow> u16 \<Rightarrow> ig_tcp_client" where
  "ig_tcp_init host port =
     \<lparr>tc_fd = -1, tc_ssl = None, tc_state = IG_CONN_DISCONNECTED, tc_host = strncpy0 256 host,
      tc_port = port, tc_seq_num = 0, tc_agent_id = 0, tc_send_failures = 0, tc_reg_hostname = [],
      tc_reg_ip = [], tc_reg_monitor_type = 0, tc_reg_os = [], tc_reg_cached = False\<rparr>"

text \<open>
  The outcome of one connection attempt: name resolution, the socket, \<^verbatim>\<open>connect\<close> and the TLS
  handshake of \<^verbatim>\<open>ig_tls_wrap\<close>.  The keep-alive options only log when they fail.
\<close>

record connect_env =
  en_resolved :: bool
  en_socket :: int
  en_connected :: bool
  en_tls :: "ssl option"

definition ig_tcp_connect :: "connect_env \<Rightarrow> ig_tcp_client \<Rightarrow> int \<times> ig_tcp_client" where
  "ig_tcp_connect env cli =
     (if \<not> en_resolved env then (-1, cli)
      else if en_socket env < 0 then (-1, cli)
      else if \<not> en_connected env then (-1, cli)
      else (case en_tls env of
          None \<Rightarrow> (-1, cli)
        | Some ssl \<Rightarrow> (0, cli\<lparr>tc_fd := en_socket env, tc_ssl := Some ssl, tc_state := IG_CONN_CONNECTED,
                             tc_seq_num := 0, tc_send_failures := 0\<rparr>)))"

definition ig_tcp_disconnect :: "ig_tcp_client \<Rightarrow> ig_tcp_client" where
  "ig_tcp_disconnect cli = cli\<lparr>tc_ssl := None, tc_fd := -1, tc_state := IG_CONN_DISCONNECTED,
     tc_send_failures := 0, tc_seq_num := 0\<rparr>"

section \<open>Registration\<close>

definition register_msg :: "string \<Rightarrow> u32 \<Rightarrow> u8 \<Rightarrow> string \<Rightarrow> ig_msg_register" where
  "register_msg hostname ip monitor_type os =
     \<lparr>rg_hostname_len = of_nat (length (cstr hostname)), rg_hostname = Some hostname, rg_ip = ip,
      rg_monitor_type = monitor_type, rg_os_len = of_nat (length (cstr os)), rg_os = Some os\<rparr>"

text \<open>\<open>inet_pton\<close> is the C library's parser of dotted addresses, in host byte order.\<close>

definition ig_tcp_register :: "(string \<Rightarrow> u32 option) \<Rightarrow> bool \<Rightarrow> string \<Rightarrow> string \<Rightarrow> u8 \<Rightarrow> string
    \<Rightarrow> ig_tcp_client \<Rightarrow> int \<times> ig_tcp_client" where
  "ig_tcp_register inet_pton alloc_ok hostname ip_str monitor_type os cli =
     (if tc_state cli \<noteq> IG_CONN_CONNECTED then (-1, cli)
      else (case inet_pton ip_str of
          None \<Rightarrow> (-1, cli)
        | Some ip \<Rightarrow>
            (case ig_register_encode (register_msg hostname ip monitor_type os) 1024 of
               Ok buf \<Rightarrow>
                 (case ig_tcp_send_frame cli (msg_type_code IG_MSG_REGISTER) buf of (rc, cli) \<Rightarrow>
                   if rc < 0 then (-1, cli)
                   else (case ig_tcp_recv_frame alloc_ok cli of
                     ((plen, hdr, payload), cli) \<Rightarrow>
                       if plen < 8 \<or> (case hdr of None \<Rightarrow> True | Some h \<Rightarrow> fh_type h \<noteq> msg_type_code IG_MSG_REGISTER)
                       then (-1, cli)
                       else (case read_u64 payload of
                           Ok (aid, _) \<Rightarrow>
                             (0, cli\<lparr>tc_agent_id := aid, tc_reg_hostname := strncpy0 256 hostname,
                                tc_reg_ip := strncpy0 64 ip_str, tc_reg_os := strncpy0 64 os,
                                tc_reg_monitor_type := monitor_type, tc_reg_cached := True\<rparr>)
                         | _ \<Rightarrow> (-1, cli))))
             | _ \<Rightarrow> (-1, cli))))"

section \<open>Reconnecting\<close>

text \<open>
  Delays are kept in hundredths of a second, which makes the jitter of whole percents exact;
  \<open>r\<close> is the result of \<^verbatim>\<open>rand()\<close>, never negative.
\<close>

definition apply_jitter :: "int \<Rightarrow> int \<Rightarrow> int" where
  "apply_jitter r base = base * (100 + (r mod (IG_RECONNECT_JITTER_PCT * 2) - IG_RECONNECT_JITTER_PCT))"

definition next_delay :: "int \<Rightarrow> int" where
  "next_delay delay = min (delay * IG_RECONNECT_MULTIPLIER) IG_RECONNECT_MAX_SEC"

text \<open>
  The loop over the attempts: \<open>n\<close> of them left.  Each takes its random number, its connection
  outcome and its allocation from the environment of that attempt; the waits are returned.
\<close>

fun reconnect_loop :: "(string \<Rightarrow> u32 option) \<Rightarrow> nat \<Rightarrow> int \<Rightarrow> (nat \<Rightarrow> int \<times> connect_env \<times> bool)
    \<Rightarrow> ig_tcp_client \<Rightarrow> int \<times> ig_tcp_client \<times> int list" where
  "reconnect_loop inet_pton 0 delay envs cli = (-1, cli, [])"
| "reconnect_loop inet_pton (Suc n) delay envs cli =
     (case envs (IG_RECONNECT_MAX_RETRIES - Suc n) of (r, env, alloc_ok) \<Rightarrow>
        let wait = apply_jitter r delay;
            again = (\<lambda>cli. case reconnect_loop inet_pton n (next_delay delay) envs cli of
                (rc, cli, waits) \<Rightarrow> (rc, cli, wait # waits))
        in (case ig_tcp_connect env cli of (rc, cli) \<Rightarrow>
          if rc \<noteq> 0 then again cli
          else if \<not> tc_reg_cached cli then (0, cli, [wait])
          else (case ig_tcp_register inet_pton alloc_ok (tc_reg_hostname cli) (tc_reg_ip cli)
                    (tc_reg_monitor_type cli) (tc_reg_os cli) cli of
              (rc, cli) \<Rightarrow> if rc = 0 then (0, cli, [wait]) else again (ig_tcp_disconnect cli))))"

definition ig_tcp_reconnect :: "(string \<Rightarrow> u32 option) \<Rightarrow> (nat \<Rightarrow> int \<times> connect_env \<times> bool)
    \<Rightarrow> ig_tcp_client \<Rightarrow> int \<times> ig_tcp_client \<times> int list" where
  "ig_tcp_reconnect inet_pton envs cli =
     reconnect_loop inet_pton IG_RECONNECT_MAX_RETRIES IG_RECONNECT_INIT_SEC envs (ig_tcp_disconnect cli)"

definition ig_tcp_free :: "ig_tcp_client \<Rightarrow> ig_tcp_client" where
  "ig_tcp_free cli = ig_tcp_disconnect cli"

section \<open>Events and heartbeats\<close>

definition map_event_type :: "u32 \<Rightarrow> u8" where
  "map_event_type t =
     (if t = IG_EVENT_CREATE then IG_EVT_CREATE
      else if t = IG_EVENT_MODIFY then IG_EVT_MODIFY
      else if t = IG_EVENT_DELETE then IG_EVT_DELETE
      else if t = IG_EVENT_ATTRIB then IG_EVT_ATTRIB
      else if t = IG_EVENT_MOVE then IG_EVT_MOVE
      else IG_EVT_MODIFY)"

definition map_source :: "u32 \<Rightarrow> u8" where
  "map_source s =
     (if s = IG_SOURCE_EBPF then IG_MON_EBPF
      else if s = IG_SOURCE_LKM then IG_MON_LKM
      else if s = IG_SOURCE_FANOTIFY then IG_MON_FANOTIFY
      else 0)"

definition event_msg :: "u64 \<Rightarrow> ig_event \<Rightarrow> ig_msg_file_event" where
  "event_msg aid ev =
     \<lparr>fe_agent_id = aid, fe_event_type = map_event_type (ev_type ev),
      fe_file_path_len = of_nat (length (cstr (ev_path ev))), fe_file_path = Some (ev_path ev),
      fe_file_name_len = of_nat (length (cstr (ev_filename ev))), fe_file_name = Some (ev_filename ev),
      fe_file_permission = 0, fe_detected_by = map_source (ev_source ev), fe_pid = ev_pid ev,
      fe_timestamp = word_of_int (ev_timestamp ev), fe_target_dev = ev_dev ev, fe_target_ino = ev_ino ev,
      fe_blocked = (if ev_blocked ev \<noteq> 0 then 1 else 0), fe_uid = ev_uid ev, fe_sid = ev_sid ev,
      fe_comm_len = of_nat (strnlen (ev_comm ev) IG_PA_COMM_LEN), fe_comm = Some (ev_comm ev),
      fe_chain = Some (ev_chain ev)\<rparr>"

definition ig_tcp_send_event :: "ig_tcp_client \<Rightarrow> ig_event \<Rightarrow> int \<times> ig_tcp_client" where
  "ig_tcp_send_event cli ev =
     (if tc_state cli \<noteq> IG_CONN_CONNECTED then (-1, cli)
      else let msg = event_msg (tc_agent_id cli) ev
      in if fe_detected_by msg = 0 then (0, cli)
      else (case ig_file_event_encode msg IG_MAX_PAYLOAD of
          Ok buf \<Rightarrow> ig_tcp_send_frame cli (msg_type_code IG_MSG_FILE_EVENT) buf
        | _ \<Rightarrow> (-1, cli)))"

text \<open>
  The heartbeat thread.  An iteration takes from its environment whether the thread is still to
  run at the loop head and after the sleep, the time of the message and the outcome of a
  reconnection; the result says whether the loop goes on, was stopped, or gave up.
\<close>

definition IG_HEARTBEAT_DEFAULT_SEC :: u16 where "IG_HEARTBEAT_DEFAULT_SEC = 30"

datatype heartbeat_end = HbRunning | HbStopped | HbGaveUp

definition heartbeat_interval :: "u16 \<Rightarrow> u16" where
  "heartbeat_interval interval_sec = (if interval_sec = 0 then IG_HEARTBEAT_DEFAULT_SEC else interval_sec)"

fun ig_heartbeat_thread :: "(string \<Rightarrow> u32 option)
    \<Rightarrow> (bool \<times> bool \<times> u32 \<times> (nat \<Rightarrow> int \<times> connect_env \<times> bool)) list \<Rightarrow> ig_tcp_client \<Rightarrow> heartbeat_end \<times> ig_tcp_client" where
  "ig_heartbeat_thread inet_pton [] cli = (HbRunning, cli)"
| "ig_heartbeat_thread inet_pton ((run1, run2, now, envs) # ts) cli =
     (if \<not> run1 then (HbStopped, cli)
      else if \<not> run2 then (HbStopped, cli)
      else (case ig_heartbeat_encode \<lparr>hb_agent_id = tc_agent_id cli, hb_status = IG_STATUS_HEALTHY,
                hb_timestamp = now\<rparr> 13 of
          Ok buf \<Rightarrow>
            (case ig_tcp_send_frame cli (msg_type_code IG_MSG_HEARTBEAT) buf of (rc, cli) \<Rightarrow>
               if rc = -2
               then (case ig_tcp_reconnect inet_pton envs cli of (rc, cli, _) \<Rightarrow>
                  if rc < 0 then (HbGaveUp, cli) else ig_heartbeat_thread inet_pton ts cli)
               else ig_heartbeat_thread inet_pton ts cli)
        | _ \<Rightarrow> ig_heartbeat_thread inet_pton ts cli))"

section \<open>The byte streams\<close>

lemma write_loop_ok: "write_loop ks buf out = (True, ks', out') \<Longrightarrow> out' = out @ buf"
  by (induction ks buf out rule: write_loop.induct) (auto simp: Let_def split: if_splits)

lemma write_loop_prefix: "write_loop ks buf out = (ok, ks', out') \<Longrightarrow> \<exists>n. out' = out @ take n buf"
proof (induction ks buf out rule: write_loop.induct)
  case (3 k ks b bs out)
  show ?case
  proof (cases "k = 0")
    case True
    with "3.prems" have "out' = out @ take 0 (b # bs)" by simp
    then show ?thesis by blast
  next
    case False
    let ?n = "min k (length (b # bs))"
    have "write_loop ks (drop ?n (b # bs)) (out @ take ?n (b # bs)) = (ok, ks', out')"
      using "3.prems" False by (simp only: write_loop.simps Let_def if_False)
    from "3.IH" [OF False refl this] obtain m where "out' = (out @ take ?n (b # bs)) @ take m (drop ?n (b # bs))"
      by blast
    then have "out' = out @ take (?n + m) (b # bs)" by (simp only: append_assoc take_add)
    then show ?thesis by blast
  qed
qed (auto intro: exI [of _ 0])

text \<open>What a script of reads can still deliver: everything before the first failure.\<close>

definition avail :: "bytes list \<Rightarrow> bytes" where
  "avail cs = concat (takeWhile (\<lambda>c. c \<noteq> []) cs)"

lemma avail_simps [simp]: "avail [] = []" "avail (c # cs) = (if c = [] then [] else c @ avail cs)"
  by (simp_all add: avail_def)

lemma read_loop_ok:
  "n \<le> length (avail cs) \<Longrightarrow>
     \<exists>cs'. read_loop cs n acc = (Some (acc @ take n (avail cs)), cs') \<and> avail cs' = drop n (avail cs)"
proof (induction cs n acc rule: read_loop.induct)
  case (3 c cs n acc)
  show ?case
  proof (cases "length c \<le> Suc n")
    case True
    have ne: "c \<noteq> []" using "3.prems" by auto
    then have "Suc n - length c \<le> length (avail cs)" using "3.prems" by simp
    from "3.IH" [OF ne True this] show ?thesis using ne True by simp
  next
    case False
    then have "c \<noteq> []" "drop (Suc n) c \<noteq> []" by auto
    with False show ?thesis by simp
  qed
qed auto

lemma ssl_write_all_ok: "ssl_write_all s buf = (True, s') \<Longrightarrow> s_out s' = s_out s @ buf \<and> s_in s' = s_in s"
  by (auto simp: ssl_write_all_def split: prod.splits dest: write_loop_ok)

lemma ssl_read_all_ok:
  assumes "n \<le> length (avail (s_in s))"
  obtains s' where "ssl_read_all s n = (Some (take n (avail (s_in s))), s')"
    "avail (s_in s') = drop n (avail (s_in s))" "s_out s' = s_out s"
  using read_loop_ok [OF assms, of "[]"] by (auto simp: ssl_read_all_def)

section \<open>Frames on the stream\<close>

definition frame_bytes :: "u8 \<Rightarrow> u32 \<Rightarrow> bytes \<Rightarrow> bytes" where
  "frame_bytes ty seq payload =
     frame_header_bytes \<lparr>fh_length = of_nat (length payload), fh_type = ty, fh_seq_num = seq\<rparr> @ payload"

lemma length_frame_header_bytes [simp]: "length (frame_header_bytes h) = IG_FRAME_HEADER_SIZE"
  by (simp add: frame_header_bytes_def IG_FRAME_HEADER_SIZE_def ig_wire)

lemma ssl_write_all_in: "ssl_write_all s buf = (ok, s') \<Longrightarrow> s_in s' = s_in s"
  by (auto simp: ssl_write_all_def split: prod.splits)

lemma send_frame_cases:
  assumes "ig_tcp_send_frame cli ty payload = (rc, cli')"
  obtains (refused) "rc = -1" "cli' = cli"
      "tc_state cli \<noteq> IG_CONN_CONNECTED \<or> tc_ssl cli = None \<or> length payload > IG_MAX_FRAME_SIZE"
  | (sent) s s' where "tc_state cli = IG_CONN_CONNECTED" "tc_ssl cli = Some s" "length payload \<le> IG_MAX_FRAME_SIZE"
      "rc = 0" "cli' = cli\<lparr>tc_seq_num := tc_seq_num cli + 1, tc_ssl := Some s', tc_send_failures := 0\<rparr>"
      "s_out s' = s_out s @ frame_bytes ty (tc_seq_num cli + 1) payload" "s_in s' = s_in s"
  | (failed) s s' where "tc_state cli = IG_CONN_CONNECTED" "tc_ssl cli = Some s"
      "rc = (if tc_send_failures cli + 1 \<ge> IG_SEND_MAX_RETRIES then -2 else -1)"
      "cli' = cli\<lparr>tc_seq_num := tc_seq_num cli + 1, tc_ssl := Some s',
         tc_send_failures := (if tc_send_failures cli + 1 \<ge> IG_SEND_MAX_RETRIES then 0 else tc_send_failures cli + 1)\<rparr>"
      "s_in s' = s_in s"
proof (cases "tc_state cli \<noteq> IG_CONN_CONNECTED \<or> tc_ssl cli = None \<or> length payload > IG_MAX_FRAME_SIZE")
  case True
  then have "rc = -1 \<and> cli' = cli"
    using assms by (auto simp: ig_tcp_send_frame_def split: ig_conn_state.splits option.splits)
  with True show thesis by (intro refused) auto
next
  case False
  then obtain s where s: "tc_state cli = IG_CONN_CONNECTED" "tc_ssl cli = Some s" "length payload \<le> IG_MAX_FRAME_SIZE"
    by auto
  let ?h = "\<lparr>fh_length = of_nat (length payload), fh_type = ty, fh_seq_num = tc_seq_num cli + 1\<rparr>"
  obtain ok1 s1 where w1: "ssl_write_all s (frame_header_bytes ?h) = (ok1, s1)" by fastforce
  obtain ok s2 where w2: "(if ok1 \<and> payload \<noteq> [] then ssl_write_all s1 payload else (ok1, s1)) = (ok, s2)" by fastforce
  have run: "ig_tcp_send_frame cli ty payload =
      (if ok then (0, cli\<lparr>tc_seq_num := tc_seq_num cli + 1, tc_ssl := Some s2, tc_send_failures := 0\<rparr>)
       else if tc_send_failures cli + 1 \<ge> IG_SEND_MAX_RETRIES
       then (-2, cli\<lparr>tc_seq_num := tc_seq_num cli + 1, tc_ssl := Some s2, tc_send_failures := 0\<rparr>)
       else (-1, cli\<lparr>tc_seq_num := tc_seq_num cli + 1, tc_ssl := Some s2,
               tc_send_failures := tc_send_failures cli + 1\<rparr>))"
    using s w1 w2
    by (simp add: ig_tcp_send_frame_def next_seq_def Let_def frame_header_encode_eq IG_FRAME_HEADER_SIZE_def
        del: One_nat_def)
  have inn: "s_in s2 = s_in s"
    using ssl_write_all_in [OF w1] w2 by (auto split: if_splits dest: ssl_write_all_in)
  show thesis
  proof (cases ok)
    case True
    then have "ok1" using w2 by (auto split: if_splits)
    then have "s_out s2 = s_out s @ frame_bytes ty (tc_seq_num cli + 1) payload"
      using ssl_write_all_ok [of s "frame_header_bytes ?h" s1] w1 w2 True
      by (auto simp: frame_bytes_def split: if_splits dest: ssl_write_all_ok)
    with True run s inn assms show thesis by (intro sent [of s s2]) auto
  next
    case False
    with run s inn assms show thesis by (intro failed [of s s2]) (auto split: if_splits)
  qed
qed

text \<open>A frame on the receiving side is consumed exactly, whatever the pieces it arrives in.\<close>

lemma recv_frame_ok:
  assumes "tc_state cli = IG_CONN_CONNECTED" and "tc_ssl cli = Some s"
    and "avail (s_in s) = frame_bytes ty seq payload @ rest" and "length payload \<le> IG_MAX_FRAME_SIZE"
  obtains s' where "ig_tcp_recv_frame True cli =
      ((int (length payload), Some \<lparr>fh_length = of_nat (length payload), fh_type = ty, fh_seq_num = seq\<rparr>, payload),
       cli\<lparr>tc_ssl := Some s'\<rparr>)"
    "avail (s_in s') = rest"
proof -
  let ?h = "\<lparr>fh_length = of_nat (length payload), fh_type = ty, fh_seq_num = seq\<rparr>"
  have len: "unat (of_nat (length payload) :: u32) = length payload"
    using assms(4) by (simp add: unat_of_nat take_bit_nat_eq_self IG_MAX_FRAME_SIZE_def)
  have avail: "avail (s_in s) = frame_header_bytes ?h @ payload @ rest"
    using assms(3) by (simp add: frame_bytes_def)
  obtain s1 where r1: "ssl_read_all s IG_FRAME_HEADER_SIZE = (Some (frame_header_bytes ?h), s1)"
    "avail (s_in s1) = payload @ rest"
    using ssl_read_all_ok [of IG_FRAME_HEADER_SIZE s] avail by auto
  have dec: "ig_frame_header_decode (frame_header_bytes ?h) = Ok ?h"
    using frame_header_decode_eq [of ?h "[]"] by simp
  show thesis
  proof (cases "payload = []")
    case True
    with r1 dec assms(1,2) that [of s1] show thesis
      by (simp add: ig_tcp_recv_frame_def Let_def IG_MAX_FRAME_SIZE_def)
  next
    case False
    obtain s2 where r2: "ssl_read_all s1 (length payload) = (Some payload, s2)" "avail (s_in s2) = rest"
      using ssl_read_all_ok [of "length payload" s1] r1(2) by auto
    have "(of_nat (length payload) :: u32) \<noteq> 0"
    proof
      assume "(of_nat (length payload) :: u32) = 0"
      then have "unat (of_nat (length payload) :: u32) = 0" by simp
      with len False show False by simp
    qed
    with r1 r2 dec len assms(1,2,4) that [of s2] show thesis
      by (simp add: ig_tcp_recv_frame_def Let_def)
  qed
qed

text \<open>Sending a list of messages, all with success, and receiving that many frames.\<close>

fun send_all :: "ig_tcp_client \<Rightarrow> (u8 \<times> bytes) list \<Rightarrow> ig_tcp_client option" where
  "send_all cli [] = Some cli"
| "send_all cli ((ty, payload) # ms) =
     (case ig_tcp_send_frame cli ty payload of (rc, cli) \<Rightarrow> if rc = 0 then send_all cli ms else None)"

fun recv_all :: "ig_tcp_client \<Rightarrow> nat \<Rightarrow> (int \<times> ig_frame_header option \<times> bytes) list" where
  "recv_all cli 0 = []"
| "recv_all cli (Suc n) = (case ig_tcp_recv_frame True cli of (r, cli) \<Rightarrow> r # recv_all cli n)"

fun frames_from :: "u32 \<Rightarrow> (u8 \<times> bytes) list \<Rightarrow> bytes" where
  "frames_from seq [] = []"
| "frames_from seq ((ty, payload) # ms) = frame_bytes ty (seq + 1) payload @ frames_from (seq + 1) ms"

fun received_from :: "u32 \<Rightarrow> (u8 \<times> bytes) list \<Rightarrow> (int \<times> ig_frame_header option \<times> bytes) list" where
  "received_from seq [] = []"
| "received_from seq ((ty, payload) # ms) =
     (int (length payload), Some \<lparr>fh_length = of_nat (length payload), fh_type = ty, fh_seq_num = seq + 1\<rparr>, payload)
       # received_from (seq + 1) ms"

lemma send_all_stream:
  "send_all cli ms = Some cli' \<Longrightarrow> tc_ssl cli = Some s \<Longrightarrow>
     (\<exists>s'. tc_ssl cli' = Some s' \<and> s_out s' = s_out s @ frames_from (tc_seq_num cli) ms)
     \<and> (\<forall>(ty, payload) \<in> set ms. length payload \<le> IG_MAX_FRAME_SIZE)"
proof (induction ms arbitrary: cli s)
  case (Cons m ms)
  obtain ty payload where m: "m = (ty, payload)" by fastforce
  obtain cli1 where c: "ig_tcp_send_frame cli ty payload = (0, cli1)" "send_all cli1 ms = Some cli'"
    using Cons.prems(1) by (auto simp: m split: prod.splits if_splits)
  from c(1) show ?case
  proof (cases rule: send_frame_cases)
    case (sent t t')
    with Cons.IH [OF c(2), of t'] Cons.prems(2) show ?thesis by (auto simp: m)
  qed (auto split: if_splits)
qed simp

lemma recv_all_stream:
  assumes "tc_state cli = IG_CONN_CONNECTED" and "tc_ssl cli = Some s"
    and "avail (s_in s) = frames_from seq ms @ rest"
    and "\<forall>(ty, payload) \<in> set ms. length payload \<le> IG_MAX_FRAME_SIZE"
  shows "recv_all cli (length ms) = received_from seq ms"
  using assms
proof (induction ms arbitrary: cli s seq)
  case (Cons m ms)
  obtain ty payload where m: "m = (ty, payload)" by fastforce
  have "avail (s_in s) = frame_bytes ty (seq + 1) payload @ frames_from (seq + 1) ms @ rest"
    using Cons.prems(3) by (simp add: m)
  from recv_frame_ok [OF Cons.prems(1,2) this] Cons.prems(4)
  obtain s' where r: "ig_tcp_recv_frame True cli =
      ((int (length payload), Some \<lparr>fh_length = of_nat (length payload), fh_type = ty, fh_seq_num = seq + 1\<rparr>, payload),
       cli\<lparr>tc_ssl := Some s'\<rparr>)" "avail (s_in s') = frames_from (seq + 1) ms @ rest"
    by (auto simp: m)
  from Cons.IH [of "cli\<lparr>tc_ssl := Some s'\<rparr>" s' "seq + 1"] r(2) Cons.prems(1,4) show ?case
    by (simp add: m r(1))
qed simp

section \<open>The connection state\<close>

definition tcp_inv :: "ig_tcp_client \<Rightarrow> bool" where
  "tcp_inv cli \<longleftrightarrow> (tc_state cli = IG_CONN_CONNECTED \<longleftrightarrow> tc_ssl cli \<noteq> None)
     \<and> (tc_state cli = IG_CONN_DISCONNECTED \<longrightarrow> tc_fd cli = -1 \<and> tc_seq_num cli = 0)
     \<and> 0 \<le> tc_send_failures cli \<and> tc_send_failures cli < IG_SEND_MAX_RETRIES"

named_theorems tcp_step "preservation of the connection invariant"

lemma init_inv [tcp_step]: "tcp_inv (ig_tcp_init host port)"
  by (simp add: tcp_inv_def ig_tcp_init_def IG_SEND_MAX_RETRIES_def)

lemma connect_inv [tcp_step]: "tcp_inv cli \<Longrightarrow> tcp_inv (snd (ig_tcp_connect env cli))"
  by (auto simp: tcp_inv_def ig_tcp_connect_def IG_SEND_MAX_RETRIES_def split: option.splits)

lemma disconnect_inv [tcp_step]: "tcp_inv (ig_tcp_disconnect cli)"
  by (simp add: tcp_inv_def ig_tcp_disconnect_def IG_SEND_MAX_RETRIES_def)

lemma send_frame_inv [tcp_step]: "tcp_inv cli \<Longrightarrow> tcp_inv (snd (ig_tcp_send_frame cli ty payload))"
proof -
  assume inv: "tcp_inv cli"
  obtain rc cli' where r: "ig_tcp_send_frame cli ty payload = (rc, cli')" by fastforce
  from r show ?thesis
    by (cases rule: send_frame_cases) (use inv in \<open>auto simp: r tcp_inv_def IG_SEND_MAX_RETRIES_def\<close>)
qed

lemma recv_frame_frame:
  "\<exists>s. snd (ig_tcp_recv_frame a cli) = cli\<lparr>tc_ssl := s\<rparr> \<and> (s = None \<longleftrightarrow> tc_ssl cli = None)"
  by (auto simp: ig_tcp_recv_frame_def Let_def
      split: ig_conn_state.splits option.splits prod.splits cres.splits intro: exI [of _ "tc_ssl cli"])

lemma recv_frame_inv [tcp_step]: "tcp_inv cli \<Longrightarrow> tcp_inv (snd (ig_tcp_recv_frame a cli))"
  using recv_frame_frame [of a cli] by (auto simp: tcp_inv_def)

lemma register_cases:
  assumes "ig_tcp_register ntop a hn ip mt os cli = (rc, cli')"
  obtains (no) "rc = -1" "\<exists>c1. cli' = c1 \<and> tc_reg_cached c1 = tc_reg_cached cli
      \<and> tc_reg_hostname c1 = tc_reg_hostname cli \<and> tc_reg_ip c1 = tc_reg_ip cli \<and> tc_reg_os c1 = tc_reg_os cli
      \<and> tc_reg_monitor_type c1 = tc_reg_monitor_type cli \<and> tc_agent_id c1 = tc_agent_id cli"
  | (yes) "rc = 0" "tc_state cli' = IG_CONN_CONNECTED" "tc_reg_cached cli'"
      "tc_reg_hostname cli' = strncpy0 256 hn" "tc_reg_ip cli' = strncpy0 64 ip" "tc_reg_os cli' = strncpy0 64 os"
      "tc_reg_monitor_type cli' = mt"
proof -
  have keep: "tc_reg_cached c = tc_reg_cached cli \<and> tc_reg_hostname c = tc_reg_hostname cli
      \<and> tc_reg_ip c = tc_reg_ip cli \<and> tc_reg_os c = tc_reg_os cli \<and> tc_reg_monitor_type c = tc_reg_monitor_type cli
      \<and> tc_agent_id c = tc_agent_id cli \<and> tc_state c = tc_state cli"
    if "ig_tcp_send_frame cli ty pl = (r, c)" for ty pl r c
    using that by (cases rule: send_frame_cases) auto
  have keep2: "tc_reg_cached c = tc_reg_cached cli \<and> tc_reg_hostname c = tc_reg_hostname cli
      \<and> tc_reg_ip c = tc_reg_ip cli \<and> tc_reg_os c = tc_reg_os cli \<and> tc_reg_monitor_type c = tc_reg_monitor_type cli
      \<and> tc_agent_id c = tc_agent_id cli \<and> tc_state c = tc_state cli"
    if "ig_tcp_send_frame cli ty pl = (r, c1)" "ig_tcp_recv_frame a c1 = (x, c)" for ty pl r c1 x c
    using keep [OF that(1)] recv_frame_frame [of a c1] that(2) by auto
  show thesis
    using assms no yes
    by (auto simp: ig_tcp_register_def split: if_splits option.splits cres.splits prod.splits dest: keep keep2)
qed

lemma register_inv [tcp_step]: "tcp_inv cli \<Longrightarrow> tcp_inv (snd (ig_tcp_register ntop a hn ip mt os cli))"
proof -
  assume inv: "tcp_inv cli"
  have send: "tcp_inv c" if "ig_tcp_send_frame cli ty pl = (r, c)" for ty pl r c
    using send_frame_inv [OF inv, of ty pl] that by simp
  have recv: "tcp_inv c" if "ig_tcp_send_frame cli ty pl = (r, c1)" "ig_tcp_recv_frame a c1 = (x, c)" for ty pl r c1 x c
    using recv_frame_inv [OF send [OF that(1)], of a] that(2) by simp
  have upd: "tcp_inv (c\<lparr>tc_agent_id := i, tc_reg_hostname := h, tc_reg_ip := j, tc_reg_os := q,
      tc_reg_monitor_type := m, tc_reg_cached := b\<rparr>) = tcp_inv c" for c i h j q m b
    by (simp add: tcp_inv_def)
  show ?thesis
    using inv
    by (auto simp: ig_tcp_register_def upd split: if_splits option.splits cres.splits prod.splits dest: send recv)
qed

section \<open>Reconnection\<close>

definition backoff :: "int \<Rightarrow> nat \<Rightarrow> int" where
  "backoff delay i = min (delay * 2 ^ i) IG_RECONNECT_MAX_SEC"

lemma backoff_step: "0 < delay \<Longrightarrow> backoff (next_delay delay) i = backoff delay (Suc i)"
proof -
  assume "0 < delay"
  have one: "(1 :: int) \<le> 2 ^ i" by simp
  show ?thesis
  proof (cases "delay * 2 \<le> 60")
    case True
    then show ?thesis
      by (simp add: backoff_def next_delay_def IG_RECONNECT_MULTIPLIER_def IG_RECONNECT_MAX_SEC_def min_def ac_simps)
  next
    case False
    then have "60 * 2 ^ i \<le> delay * 2 * (2 :: int) ^ i" by (intro mult_right_mono) auto
    moreover have big: "60 \<le> 60 * (2 :: int) ^ i" using one by simp
    ultimately have "60 \<le> delay * 2 * 2 ^ i" by linarith
    then have "60 \<le> delay * 2 ^ Suc i" by (simp only: power_Suc mult.assoc)
    then have "backoff delay (Suc i) = 60" by (simp only: backoff_def IG_RECONNECT_MAX_SEC_def min_absorb2)
    moreover have "next_delay delay = 60"
      using False by (simp add: next_delay_def IG_RECONNECT_MULTIPLIER_def IG_RECONNECT_MAX_SEC_def)
    moreover have "backoff 60 i = 60" using big by (simp only: backoff_def IG_RECONNECT_MAX_SEC_def min_absorb2)
    ultimately show ?thesis by simp
  qed
qed

lemma jitter_bounds:
  assumes "0 \<le> base"
  shows "75 * base \<le> apply_jitter r base \<and> apply_jitter r base \<le> 124 * base"
proof -
  let ?j = "100 + (r mod 50 - 25)"
  have "75 \<le> ?j" "?j \<le> 124" using pos_mod_bound [of 50 r] pos_mod_sign [of 50 r] by simp_all
  then have "base * 75 \<le> base * ?j" "base * ?j \<le> base * 124"
    using assms by (simp_all only: mult_left_mono)
  then show ?thesis by (simp add: apply_jitter_def IG_RECONNECT_JITTER_PCT_def ac_simps)
qed

definition reg_identity :: "ig_tcp_client \<Rightarrow> bool \<times> string \<times> string \<times> u8 \<times> string" where
  "reg_identity cli = (tc_reg_cached cli, tc_reg_hostname cli, tc_reg_ip cli, tc_reg_monitor_type cli, tc_reg_os cli)"

text \<open>The cached strings are in the form \<^verbatim>\<open>strncpy\<close> leaves them, so copying them onto themselves keeps them.\<close>

definition reg_canonical :: "ig_tcp_client \<Rightarrow> bool" where
  "reg_canonical cli \<longleftrightarrow> strncpy0 256 (tc_reg_hostname cli) = tc_reg_hostname cli
     \<and> strncpy0 64 (tc_reg_ip cli) = tc_reg_ip cli \<and> strncpy0 64 (tc_reg_os cli) = tc_reg_os cli"

lemma connect_frame: "reg_identity (snd (ig_tcp_connect env cli)) = reg_identity cli"
  by (auto simp: ig_tcp_connect_def reg_identity_def split: option.splits)

lemma disconnect_frame [simp]: "reg_identity (ig_tcp_disconnect cli) = reg_identity cli"
  "tc_state (ig_tcp_disconnect cli) = IG_CONN_DISCONNECTED"
  by (simp_all add: ig_tcp_disconnect_def reg_identity_def)

lemma connect_cases:
  assumes "ig_tcp_connect env cli = (rc, cli')"
  obtains "rc = -1" "cli' = cli" | "rc = 0" "tc_state cli' = IG_CONN_CONNECTED" "reg_identity cli' = reg_identity cli"
  using assms by (auto simp: ig_tcp_connect_def reg_identity_def split: if_splits option.splits)

lemma reregister_identity:
  assumes "reg_canonical cli"
    and "ig_tcp_register ntop a (tc_reg_hostname cli) (tc_reg_ip cli) (tc_reg_monitor_type cli) (tc_reg_os cli) cli = (rc, cli')"
    and "tc_reg_cached cli"
  shows "reg_identity cli' = reg_identity cli \<and> (rc = 0 \<or> rc = -1) \<and> (rc = 0 \<longrightarrow> tc_state cli' = IG_CONN_CONNECTED)"
  using assms(2) by (cases rule: register_cases) (use assms(1,3) in \<open>auto simp: reg_identity_def reg_canonical_def\<close>)

lemma canonical_identity: "reg_identity c = reg_identity c' \<Longrightarrow> reg_canonical c \<longleftrightarrow> reg_canonical c'"
  by (simp add: reg_identity_def reg_canonical_def)

definition reconnect_result :: "nat \<Rightarrow> int \<Rightarrow> ig_tcp_client \<Rightarrow> int \<times> ig_tcp_client \<times> int list \<Rightarrow> bool" where
  "reconnect_result n delay cli r = (case r of (rc, cli', waits) \<Rightarrow>
     (rc = 0 \<and> tc_state cli' = IG_CONN_CONNECTED \<or> rc = -1 \<and> tc_state cli' = IG_CONN_DISCONNECTED \<and> length waits = n)
     \<and> length waits \<le> n \<and> reg_identity cli' = reg_identity cli
     \<and> (\<forall>i < length waits. 75 * backoff delay i \<le> waits ! i \<and> waits ! i \<le> 124 * backoff delay i))"

lemma reconnect_result_again:
  assumes "reconnect_result n (next_delay delay) c (rc, cli', ws)" and "reg_identity c = reg_identity cli"
    and "0 < delay" and "75 * backoff delay 0 \<le> w \<and> w \<le> 124 * backoff delay 0"
  shows "reconnect_result (Suc n) delay cli (rc, cli', w # ws)"
proof -
  have "75 * backoff delay i \<le> (w # ws) ! i \<and> (w # ws) ! i \<le> 124 * backoff delay i" if "i < length (w # ws)" for i
    using that assms by (cases i) (auto simp: reconnect_result_def backoff_step)
  with assms(1,2) show ?thesis by (auto simp: reconnect_result_def)
qed

lemma reconnect_result_done:
  "tc_state cli' = IG_CONN_CONNECTED \<Longrightarrow> reg_identity cli' = reg_identity cli \<Longrightarrow>
     75 * backoff delay 0 \<le> w \<and> w \<le> 124 * backoff delay 0 \<Longrightarrow> reconnect_result (Suc n) delay cli (0, cli', [w])"
  by (simp add: reconnect_result_def)

lemma reconnect_loop_result:
  "0 < delay \<Longrightarrow> delay \<le> 60 \<Longrightarrow> reg_canonical cli \<Longrightarrow> tc_state cli = IG_CONN_DISCONNECTED \<Longrightarrow>
     reconnect_result n delay cli (reconnect_loop ntop n delay envs cli)"
proof (induction n arbitrary: delay cli)
  case 0
  then show ?case by (simp add: reconnect_result_def)
next
  case (Suc n)
  obtain r env a where e: "envs (IG_RECONNECT_MAX_RETRIES - Suc n) = (r, env, a)" by (metis prod_cases3)
  let ?w = "apply_jitter r delay"
  have w: "75 * backoff delay 0 \<le> ?w \<and> ?w \<le> 124 * backoff delay 0"
    using jitter_bounds [of delay r] Suc.prems(1,2) by (simp add: backoff_def IG_RECONNECT_MAX_SEC_def)
  have nd: "0 < next_delay delay" "next_delay delay \<le> 60"
    using Suc.prems(1) by (auto simp: next_delay_def IG_RECONNECT_MULTIPLIER_def IG_RECONNECT_MAX_SEC_def)
  define again where "again c = (case reconnect_loop ntop n (next_delay delay) envs c of
      (rc, cli', waits) \<Rightarrow> (rc, cli', ?w # waits))" for c
  have again: "reconnect_result (Suc n) delay cli (again c)"
    if "reg_identity c = reg_identity cli" "tc_state c = IG_CONN_DISCONNECTED" for c
  proof -
    obtain rc cli' ws where l: "reconnect_loop ntop n (next_delay delay) envs c = (rc, cli', ws)" by (metis prod_cases3)
    have "reg_canonical c" using canonical_identity [OF that(1)] Suc.prems(3) by simp
    from Suc.IH [OF nd this that(2)] l
    have "reconnect_result n (next_delay delay) c (rc, cli', ws)" by simp
    from reconnect_result_again [OF this that(1) Suc.prems(1) w] show ?thesis by (simp add: again_def l)
  qed
  obtain rc1 c1 where cn: "ig_tcp_connect env cli = (rc1, c1)" by fastforce
  have unroll: "reconnect_loop ntop (Suc n) delay envs cli =
      (if rc1 \<noteq> 0 then again c1
       else if \<not> tc_reg_cached c1 then (0, c1, [?w])
       else (case ig_tcp_register ntop a (tc_reg_hostname c1) (tc_reg_ip c1) (tc_reg_monitor_type c1) (tc_reg_os c1) c1 of
          (rc, c2) \<Rightarrow> if rc = 0 then (0, c2, [?w]) else again (ig_tcp_disconnect c2)))"
    by (simp add: e Let_def cn again_def split: prod.splits)
  from cn show ?case
  proof (cases rule: connect_cases)
    case 1
    with again [of c1] Suc.prems(4) show ?thesis by (simp add: unroll del: reconnect_loop.simps)
  next
    case 2
    have can: "reg_canonical c1" using canonical_identity [OF 2(3)] Suc.prems(3) by simp
    obtain rc2 c2 where rg: "ig_tcp_register ntop a (tc_reg_hostname c1) (tc_reg_ip c1)
        (tc_reg_monitor_type c1) (tc_reg_os c1) c1 = (rc2, c2)" by fastforce
    note id2 = reregister_identity [OF can rg]
    show ?thesis
      using 2 id2 again [of "ig_tcp_disconnect c2"] w
      by (auto simp: unroll rg simp del: reconnect_loop.simps intro: reconnect_result_done)
  qed
qed

lemma reconnect_loop_inv:
  "tcp_inv cli \<Longrightarrow> tcp_inv (fst (snd (reconnect_loop ntop n delay envs cli)))"
proof (induction n arbitrary: delay cli)
  case (Suc n)
  obtain r env a where e: "envs (IG_RECONNECT_MAX_RETRIES - Suc n) = (r, env, a)" by (metis prod_cases3)
  obtain rc1 c1 where cn: "ig_tcp_connect env cli = (rc1, c1)" by fastforce
  have i1: "tcp_inv c1" using connect_inv [OF Suc.prems, of env] cn by simp
  obtain rc2 c2 where rg: "ig_tcp_register ntop a (tc_reg_hostname c1) (tc_reg_ip c1)
        (tc_reg_monitor_type c1) (tc_reg_os c1) c1 = (rc2, c2)" by fastforce
  have i2: "tcp_inv c2" using register_inv [OF i1] rg by (metis snd_conv)
  show ?case
    using Suc.IH [OF i1, of "next_delay delay"] Suc.IH [OF disconnect_inv, of "next_delay delay" c2] i1 i2
    by (auto simp: e Let_def cn rg split: prod.splits)
qed simp

lemma reconnect_inv [tcp_step]: "tcp_inv (fst (snd (ig_tcp_reconnect ntop envs cli)))"
  by (simp add: ig_tcp_reconnect_def reconnect_loop_inv disconnect_inv)

section \<open>Every event fits a frame\<close>

lemma unat_u16_le: "unat (of_nat n :: u16) \<le> n"
  by (simp add: unat_of_nat take_bit_nat_less_eq_self)

lemma length_cstr_le: "length (cstr s) \<le> length s"
  by (simp add: cstr_def length_takeWhile_le)

lemma event_msg_ok: "file_event_ok (event_msg aid ev)"
  using unat_u16_le [of "length (cstr (ev_path ev))"] length_cstr_le [of "ev_path ev"]
    unat_u16_le [of "length (cstr (ev_filename ev))"] length_cstr_le [of "ev_filename ev"]
    str_ok_pa(1) [of "ev_comm ev"]
  by (auto simp: file_event_ok_def event_msg_def str_ok_def)

lemma chain_entry_need_le: "chain_entry_need e \<le> 852"
  using strnlen_le [of "pi_comm e" IG_PA_COMM_LEN] strnlen_le [of "pi_tty e" IG_PA_TTY_LEN]
    strnlen_le [of "pi_exe e" IG_PA_EXE_LEN] strnlen_le [of "pi_cmdline e" IG_PA_CMDLINE_LEN]
  by (simp add: chain_entry_need_def pa_lens)

lemma concat_length_le:
  "(\<And>x. x \<in> set xs \<Longrightarrow> length (f x) \<le> b) \<Longrightarrow> length (concat (map f xs)) \<le> length xs * b"
  by (induction xs) (auto simp: add_mono)

lemma event_bytes_bound:
  assumes "length (cstr (ev_path ev)) < IG_MAX_PATH" and "length (cstr (ev_filename ev)) < 256"
  shows "length (file_event_bytes (event_msg aid ev)) \<le> IG_MAX_PAYLOAD"
proof -
  let ?es = "chain_visited (Some (ev_chain ev))"
  have "length (concat (map chain_entry_bytes ?es)) \<le> length ?es * 852"
    using chain_entry_need_le by (intro concat_length_le) (simp add: length_chain_entry_bytes)
  also have "\<dots> \<le> 16 * 852" by (intro mult_right_mono) (simp_all add: chain_visited_def pa_lens)
  finally have chain: "length (concat (map chain_entry_bytes ?es)) \<le> 13632" by simp
  have "file_event_need (event_msg aid ev) \<le> 53 + length (cstr (ev_path ev)) + length (cstr (ev_filename ev)) + 16"
    using unat_u16_le [of "length (cstr (ev_path ev))"] unat_u16_le [of "length (cstr (ev_filename ev))"]
      strnlen_le [of "ev_comm ev" IG_PA_COMM_LEN]
    by (simp add: file_event_need_def event_msg_def pa_lens)
  moreover have "fe_chain (event_msg aid ev) = Some (ev_chain ev)" by (simp add: event_msg_def)
  ultimately show ?thesis
    using chain assms by (simp add: length_file_event_bytes [OF event_msg_ok] IG_MAX_PAYLOAD_def IG_MAX_FRAME_SIZE_def
        IG_FRAME_HEADER_SIZE_def IG_MAX_PATH_def)
qed

lemma send_event_eq:
  assumes "length (cstr (ev_path ev)) < IG_MAX_PATH" and "length (cstr (ev_filename ev)) < 256"
    and "tc_state cli = IG_CONN_CONNECTED" and "map_source (ev_source ev) \<noteq> 0"
  shows "ig_tcp_send_event cli ev =
    ig_tcp_send_frame cli (msg_type_code IG_MSG_FILE_EVENT) (file_event_bytes (event_msg (tc_agent_id cli) ev))"
  using event_bytes_bound [OF assms(1,2), of "tc_agent_id cli"] assms(3,4)
  by (simp add: ig_tcp_send_event_def Let_def file_event_encode_eq [OF event_msg_ok]) (simp add: event_msg_def)

section \<open>The heartbeat thread\<close>

lemma send_frame_identity: "reg_identity (snd (ig_tcp_send_frame cli ty payload)) = reg_identity cli"
proof -
  obtain rc cli' where r: "ig_tcp_send_frame cli ty payload = (rc, cli')" by fastforce
  from r show ?thesis by (cases rule: send_frame_cases) (auto simp: r reg_identity_def)
qed

lemma reconnect_spec:
  assumes "reg_canonical cli" and "ig_tcp_reconnect ntop envs cli = (rc, cli', waits)"
  shows "reconnect_result 20 1 cli (rc, cli', waits)"
proof -
  have "reg_canonical (ig_tcp_disconnect cli)"
    using assms(1) canonical_identity [OF disconnect_frame(1), of cli] by simp
  from reconnect_loop_result [of 1, OF _ _ this disconnect_frame(2)] assms(2)
  have "reconnect_result 20 1 (ig_tcp_disconnect cli) (rc, cli', waits)"
    by (metis ig_tcp_reconnect_def IG_RECONNECT_MAX_RETRIES_def IG_RECONNECT_INIT_SEC_def
        zero_less_one one_le_numeral)
  then show ?thesis by (simp add: reconnect_result_def)
qed

lemma heartbeat_result:
  assumes "ig_heartbeat_thread ntop ts cli = (how, cli')" and "tcp_inv cli" and "reg_canonical cli"
  shows "tcp_inv cli' \<and> reg_identity cli' = reg_identity cli \<and> (how = HbGaveUp \<longrightarrow> tc_state cli' = IG_CONN_DISCONNECTED)"
  using assms
proof (induction ntop ts cli rule: ig_heartbeat_thread.induct)
  case (2 ntop run1 run2 now envs ts cli)
  let ?m = "\<lparr>hb_agent_id = tc_agent_id cli, hb_status = IG_STATUS_HEALTHY, hb_timestamp = now\<rparr>"
  show ?case
  proof (cases "run1 \<and> run2")
    case False
    with "2.prems" show ?thesis by (auto split: if_splits)
  next
    case run: True
    show ?thesis
    proof (cases "ig_heartbeat_encode ?m 13")
      case (Ok buf)
      obtain rc c1 where sf: "ig_tcp_send_frame cli (msg_type_code IG_MSG_HEARTBEAT) buf = (rc, c1)" by fastforce
      have i1: "tcp_inv c1" using send_frame_inv [OF "2.prems"(2)] sf by (metis snd_conv)
      have id1: "reg_identity c1 = reg_identity cli" using send_frame_identity sf by (metis snd_conv)
      have can1: "reg_canonical c1" using canonical_identity [OF id1] "2.prems"(3) by simp
      show ?thesis
      proof (cases "rc = -2")
        case False
        have "ig_heartbeat_thread ntop ts c1 = (how, cli')"
          using "2.prems"(1) run Ok sf False by simp
        from "2.IH"(2) [OF _ _ Ok sf [symmetric] _ this i1 can1] run False id1 show ?thesis by auto
      next
        case True
        obtain rc2 c2 ws where rec: "ig_tcp_reconnect ntop envs c1 = (rc2, c2, ws)" by (metis prod_cases3)
        note res = reconnect_spec [OF can1 rec]
        have i2: "tcp_inv c2" using reconnect_inv [of ntop envs c1] rec by simp
        have id2: "reg_identity c2 = reg_identity c1" using res by (simp add: reconnect_result_def)
        have can2: "reg_canonical c2" using canonical_identity [OF id2] can1 by simp
        show ?thesis
        proof (cases "rc2 < 0")
          case neg: True
          have "how = HbGaveUp \<and> cli' = c2" using "2.prems"(1) run Ok sf True rec neg by simp
          moreover have "tc_state c2 = IG_CONN_DISCONNECTED" using res neg by (auto simp: reconnect_result_def)
          ultimately show ?thesis using i2 id1 id2 by simp
        next
          case pos: False
          have "ig_heartbeat_thread ntop ts c2 = (how, cli')" using "2.prems"(1) run Ok sf True rec pos by simp
          from "2.IH"(1) [OF _ _ Ok sf [symmetric] True rec [symmetric] refl pos this i2 can2] run id1 id2
          show ?thesis by auto
        qed
      qed
    next
      case (Err e)
      with "2.prems" "2.IH"(3) run show ?thesis by simp
    next
      case Oob
      with "2.prems" "2.IH"(4) run show ?thesis by simp
    qed
  qed
qed simp

section \<open>Properties\<close>

text \<open>C30. Framing is independent of how TLS cuts the stream: when the agent has sent a list of
  messages successfully, whatever partial writes that took, a receiver that is handed those bytes
  in any pieces gets exactly these messages, in order, with consecutive sequence numbers.\<close>

theorem frames_survive_chunking:
  assumes "send_all cli ms = Some cli'" and "tc_ssl cli = Some s" and "tc_ssl cli' = Some s'"
    and "tc_state rcv = IG_CONN_CONNECTED" and "tc_ssl rcv = Some r"
    and "s_out s @ avail (s_in r) = s_out s' @ rest"
  shows "recv_all rcv (length ms) = received_from (tc_seq_num cli) ms"
proof (rule recv_all_stream [OF assms(4,5)])
  from send_all_stream [OF assms(1,2)] assms(3,6)
  show "avail (s_in r) = frames_from (tc_seq_num cli) ms @ rest"
    and "\<forall>(ty, payload) \<in> set ms. length payload \<le> IG_MAX_FRAME_SIZE" by auto
qed

definition open_client :: "nat list \<Rightarrow> bytes list \<Rightarrow> ig_tcp_client" where
  "open_client ks cs = (ig_tcp_init ''collector'' 9000)\<lparr>tc_fd := 3, tc_state := IG_CONN_CONNECTED,
     tc_ssl := Some \<lparr>s_out = [], s_wr = ks, s_in = cs\<rparr>\<rparr>"

theorem frames_survive_chunking_witness:
  "recv_all (open_client [] [[0, 0], [0, 1, 2, 0], [0, 0, 1, 42]]) 1
     = [(1, Some \<lparr>fh_length = 1, fh_type = 2, fh_seq_num = 1\<rparr>, [42])]"
proof -
  let ?cli = "open_client [5, 9, 3] []"
  have send: "send_all ?cli [(2, [42])] = Some (?cli\<lparr>tc_seq_num := 1,
      tc_ssl := Some \<lparr>s_out = [0, 0, 0, 1, 2, 0, 0, 0, 1, 42], s_wr = [], s_in = []\<rparr>\<rparr>)"
    by (simp add: open_client_def ig_tcp_init_def ig_tcp_send_frame_def next_seq_def Let_def frame_header_encode_eq
        IG_FRAME_HEADER_SIZE_def IG_MAX_FRAME_SIZE_def frame_header_bytes_def be32_def ssl_write_all_def)
  show ?thesis
    using frames_survive_chunking [OF send, of _ _ "open_client [] [[0, 0], [0, 1, 2, 0], [0, 0, 1, 42]]"
        "\<lparr>s_out = [], s_wr = [], s_in = [[0, 0], [0, 1, 2, 0], [0, 0, 1, 42]]\<rparr>" "[]"]
    by (simp add: open_client_def ig_tcp_init_def)
qed


text \<open>A run of the public functions, in the order in which they take the connection lock.\<close>

datatype tcp_op =
    OpConnect connect_env
  | OpDisconnect
  | OpReconnect "nat \<Rightarrow> int \<times> connect_env \<times> bool"
  | OpRegister bool string string u8 string
  | OpSendFrame u8 bytes
  | OpSendEvent ig_event
  | OpRecvFrame bool

fun tcp_op_run :: "(string \<Rightarrow> u32 option) \<Rightarrow> ig_tcp_client \<Rightarrow> tcp_op \<Rightarrow> ig_tcp_client" where
  "tcp_op_run ntop cli (OpConnect env) = snd (ig_tcp_connect env cli)"
| "tcp_op_run ntop cli OpDisconnect = ig_tcp_disconnect cli"
| "tcp_op_run ntop cli (OpReconnect envs) = fst (snd (ig_tcp_reconnect ntop envs cli))"
| "tcp_op_run ntop cli (OpRegister a hn ip mt os) = snd (ig_tcp_register ntop a hn ip mt os cli)"
| "tcp_op_run ntop cli (OpSendFrame ty payload) = snd (ig_tcp_send_frame cli ty payload)"
| "tcp_op_run ntop cli (OpSendEvent ev) = snd (ig_tcp_send_event cli ev)"
| "tcp_op_run ntop cli (OpRecvFrame a) = snd (ig_tcp_recv_frame a cli)"

lemma send_event_inv [tcp_step]: "tcp_inv cli \<Longrightarrow> tcp_inv (snd (ig_tcp_send_event cli ev))"
  by (auto simp: ig_tcp_send_event_def Let_def intro: send_frame_inv split: cres.splits)

lemma tcp_op_inv: "tcp_inv cli \<Longrightarrow> tcp_inv (tcp_op_run ntop cli op)"
  by (cases op) (simp_all add: tcp_step)

lemma tcp_run_inv: "tcp_inv cli \<Longrightarrow> tcp_inv (foldl (tcp_op_run ntop) cli ops)"
  by (induction ops arbitrary: cli) (simp_all add: tcp_op_inv)

text \<open>C25. Whatever sequence of connects, disconnects, reconnects, registrations, sends and receives
  the agent's threads make, the connection is consistent: it counts as connected exactly when
  there is a TLS session, a disconnected client has no descriptor and restarts its sequence
  numbers, and the failure count stays below the limit that starts a reconnection.\<close>

theorem connection_stays_consistent:
  "tcp_inv (foldl (tcp_op_run ntop) (ig_tcp_init host port) ops)"
  by (intro tcp_run_inv init_inv)

text \<open>A reconnection ends: after at most twenty attempts it has either connected (and, when the
  agent was registered, registered again) or given up disconnected.  It keeps the agent's
  identity, and the wait before attempt \<open>i\<close> is the capped exponential back-off
  \<open>min (2^i) 60\<close> seconds with a jitter of minus 25 to plus 24 per cent.\<close>

theorem reconnect_backs_off:
  assumes "reg_canonical cli" and "ig_tcp_reconnect ntop envs cli = (rc, cli', waits)"
  shows "(rc = 0 \<and> tc_state cli' = IG_CONN_CONNECTED
          \<or> rc = -1 \<and> tc_state cli' = IG_CONN_DISCONNECTED \<and> length waits = IG_RECONNECT_MAX_RETRIES)
      \<and> length waits \<le> IG_RECONNECT_MAX_RETRIES \<and> reg_identity cli' = reg_identity cli
      \<and> (\<forall>i < length waits. 75 * min (2 ^ i) IG_RECONNECT_MAX_SEC \<le> waits ! i
            \<and> waits ! i \<le> 124 * min (2 ^ i) IG_RECONNECT_MAX_SEC)"
  using reconnect_spec [OF assms]
  by (simp add: reconnect_result_def IG_RECONNECT_MAX_RETRIES_def backoff_def)

definition env_up :: connect_env where
  "env_up = \<lparr>en_resolved = True, en_socket = 3, en_connected = True, en_tls = Some \<lparr>s_out = [], s_wr = [], s_in = []\<rparr>\<rparr>"

theorem reconnect_backs_off_witness:
  "let r = ig_tcp_reconnect (\<lambda>_. None) (\<lambda>i. (7, env_up\<lparr>en_resolved := 0 < i\<rparr>, True)) (open_client [] [])
   in fst r = 0 \<and> snd (snd r) = [82, 164] \<and> tc_state (fst (snd r)) = IG_CONN_CONNECTED"
proof -
  let ?r = "ig_tcp_reconnect (\<lambda>_. None) (\<lambda>i. (7, env_up\<lparr>en_resolved := 0 < i\<rparr>, True)) (open_client [] [])"
  have steps: "reconnect_loop ntop (Suc (Suc n)) d (\<lambda>i. (7, env_up\<lparr>en_resolved := 0 < i\<rparr>, True)) c
      = (0, snd (ig_tcp_connect env_up c), [apply_jitter 7 d, apply_jitter 7 (next_delay d)])"
    if "IG_RECONNECT_MAX_RETRIES - Suc (Suc n) = 0" "IG_RECONNECT_MAX_RETRIES - Suc n = 1" "\<not> tc_reg_cached c" for ntop n d c
    using that by (simp add: ig_tcp_connect_def env_up_def Let_def)
  have "\<not> tc_reg_cached (ig_tcp_disconnect (open_client [] []))"
    by (simp add: ig_tcp_disconnect_def open_client_def ig_tcp_init_def)
  then have eq: "?r = (0, snd (ig_tcp_connect env_up (ig_tcp_disconnect (open_client [] []))), [82, 164])"
    using steps [of 18] by (simp add: ig_tcp_reconnect_def IG_RECONNECT_MAX_RETRIES_def apply_jitter_def next_delay_def
        IG_RECONNECT_INIT_SEC_def IG_RECONNECT_JITTER_PCT_def IG_RECONNECT_MULTIPLIER_def IG_RECONNECT_MAX_SEC_def)
  have "reg_canonical (open_client [] [])"
    by (simp add: reg_canonical_def open_client_def ig_tcp_init_def strncpy0_def cstr_def)
  from reconnect_backs_off [OF this eq] eq show ?thesis by (auto simp: Let_def)
qed

text \<open>No event is too large to send: for every event of a supported source whose path and name
  fit their buffers, on a connected client, sending either puts exactly the event's frame, process
  chain included, on the stream under the next sequence number, or reports the transport failure
  (and asks for a reconnection on every third one in a row); the encoder never refuses it.\<close>

theorem event_always_fits:
  assumes "length (cstr (ev_path ev)) < IG_MAX_PATH" and "length (cstr (ev_filename ev)) < 256"
    and "tc_state cli = IG_CONN_CONNECTED" and "tc_ssl cli = Some s" and "map_source (ev_source ev) \<noteq> 0"
    and "ig_tcp_send_event cli ev = (rc, cli')"
  shows "tc_seq_num cli' = tc_seq_num cli + 1
    \<and> (rc = 0 \<and> tc_send_failures cli' = 0
         \<and> map_option s_out (tc_ssl cli') = Some (s_out s @ frame_bytes 3 (tc_seq_num cli + 1)
              (file_event_bytes (event_msg (tc_agent_id cli) ev)))
       \<or> rc = -1 \<and> tc_send_failures cli' = tc_send_failures cli + 1 \<and> tc_send_failures cli' < IG_SEND_MAX_RETRIES
       \<or> rc = -2 \<and> tc_send_failures cli' = 0 \<and> tc_send_failures cli + 1 \<ge> IG_SEND_MAX_RETRIES)"
proof -
  let ?b = "file_event_bytes (event_msg (tc_agent_id cli) ev)"
  have "length ?b \<le> IG_MAX_FRAME_SIZE"
    using event_bytes_bound [OF assms(1,2), of "tc_agent_id cli"] by (simp add: IG_MAX_PAYLOAD_def)
  moreover have "ig_tcp_send_frame cli (msg_type_code IG_MSG_FILE_EVENT) ?b = (rc, cli')"
    using assms(6) send_event_eq [OF assms(1-3,5)] by simp
  then show ?thesis
    by (cases rule: send_frame_cases) (use assms(3,4) calculation in \<open>auto split: if_splits\<close>)
qed

theorem event_always_fits_witness:
  "let ev = zero_event\<lparr>ev_source := IG_SOURCE_LKM, ev_path := ''/etc/passwd''\<rparr>;
       r = ig_tcp_send_event (open_client [] []) ev
   in tc_seq_num (snd r) = 1 \<and> (fst r = 0 \<or> fst r = -1 \<or> fst r = -2)"
proof -
  let ?ev = "zero_event\<lparr>ev_source := IG_SOURCE_LKM, ev_path := ''/etc/passwd''\<rparr>"
  obtain rc cli' where r: "ig_tcp_send_event (open_client [] []) ?ev = (rc, cli')" by fastforce
  have "length (cstr (ev_path ?ev)) < IG_MAX_PATH" "length (cstr (ev_filename ?ev)) < 256"
    "map_source (ev_source ?ev) \<noteq> 0"
    by (simp_all add: zero_event_def cstr_def nul_def IG_MAX_PATH_def map_source_def
        IG_SOURCE_LKM_def IG_SOURCE_EBPF_def IG_MON_LKM_def)
  note fits = this
  have conn: "tc_state (open_client [] []) = IG_CONN_CONNECTED"
    "tc_ssl (open_client [] []) = Some \<lparr>s_out = [], s_wr = [], s_in = []\<rparr>"
    "tc_seq_num (open_client [] []) = 0" by (simp_all add: open_client_def ig_tcp_init_def)
  from event_always_fits [OF fits(1,2) conn(1,2) fits(3) r] conn(3) r show ?thesis by auto
qed

end
