(* ===== verification/C_Text.thy ===== *)
theory C_Text
  imports Ig_Prelude
begin

text \<open>
  The pieces of the C standard library with which the agent reads and writes text: \<^verbatim>\<open>fgets\<close> over
  the content of a file, the number parsers \<^verbatim>\<open>strtol\<close>, \<^verbatim>\<open>strtoul\<close> and \<^verbatim>\<open>atoi\<close>, the decimal output
  of \<^verbatim>\<open>printf\<close>, \<^verbatim>\<open>strstr\<close>, and the two trimming loops the code uses.  Strings are C strings, cut at
  their first NUL.
\<close>

named_theorems ig_text "rules on C text"

definition newline :: char where "newline = CHR 0x0A"
definition tab :: char where "tab = CHR 0x09"
definition cr :: char where "cr = CHR 0x0D"
definition space :: char where "space = CHR 0x20"

lemmas c_chars = newline_def tab_def cr_def space_def nul_def

section \<open>Trimming\<close>

definition drop_trailing :: "(char \<Rightarrow> bool) \<Rightarrow> string \<Rightarrow> string" where
  "drop_trailing P s = rev (dropWhile P (rev s))"

lemma drop_trailing_simps [ig_text]:
  "drop_trailing P [] = []"
  "drop_trailing P (s @ [c]) = (if P c then drop_trailing P s else s @ [c])"
  by (simp_all add: drop_trailing_def)

lemma drop_trailing_id: "s = [] \<or> \<not> P (last s) \<Longrightarrow> drop_trailing P s = s"
  by (cases s rule: rev_cases) (auto simp: drop_trailing_simps)

lemma drop_trailing_prefix: "\<exists>u. s = drop_trailing P s @ u \<and> (\<forall>c \<in> set u. P c)"
proof (induction s rule: rev_induct)
  case (snoc c s)
  then obtain u where u: "s = drop_trailing P s @ u" "\<forall>c \<in> set u. P c" by blast
  show ?case
  proof (cases "P c")
    case True
    with u have "s @ [c] = drop_trailing P (s @ [c]) @ u @ [c]" by (simp add: drop_trailing_simps)
    with u(2) True show ?thesis by (intro exI [of _ "u @ [c]"]) auto
  qed (auto simp: drop_trailing_simps)
qed (simp add: drop_trailing_simps)

lemma length_drop_trailing: "length (drop_trailing P s) \<le> length s"
  using drop_trailing_prefix [of s P] by (metis length_append le_add1)

lemma drop_trailing_last: "drop_trailing P s \<noteq> [] \<Longrightarrow> \<not> P (last (drop_trailing P s))"
  by (induction s rule: rev_induct) (auto simp: drop_trailing_simps)

lemma set_drop_trailing: "set (drop_trailing P s) \<subseteq> set s"
  using set_dropWhileD by (fastforce simp: drop_trailing_def)

section \<open>Reading lines\<close>

text \<open>
  \<^verbatim>\<open>fgets(line, size, fp)\<close> takes at most \<open>sz - 1\<close> characters and stops after a newline; the loop
  \<^verbatim>\<open>while (fgets(...))\<close> sees the content of the file in these pieces.
\<close>

definition fgets_len :: "nat \<Rightarrow> string \<Rightarrow> nat" where
  "fgets_len sz s = min (sz - 1) (Suc (length (takeWhile (\<lambda>c. c \<noteq> newline) s)))"

function fgets_lines :: "nat \<Rightarrow> string \<Rightarrow> string list" where
  "fgets_lines sz s =
     (if s = [] \<or> sz \<le> 1 then [] else take (fgets_len sz s) s # fgets_lines sz (drop (fgets_len sz s) s))"
  by pat_completeness auto
termination
  by (relation "measure (\<lambda>(sz, s). length s)") (auto simp: fgets_len_def)

declare fgets_lines.simps [simp del]

lemma fgets_lines_bound: "l \<in> set (fgets_lines sz s) \<Longrightarrow> length l < sz"
proof (induction sz s rule: fgets_lines.induct)
  case (1 sz s)
  show ?case
  proof (cases "s = [] \<or> sz \<le> 1")
    case True
    with "1.prems" show ?thesis by (simp add: fgets_lines.simps [of sz s])
  next
    case False
    with "1.prems" have "l = take (fgets_len sz s) s \<or> l \<in> set (fgets_lines sz (drop (fgets_len sz s) s))"
      by (simp add: fgets_lines.simps [of sz s])
    then show ?thesis
    proof
      assume "l = take (fgets_len sz s) s"
      then have "length l \<le> sz - 1" by (auto simp: fgets_len_def)
      with False show ?thesis by linarith
    qed (use "1.IH" False in blast)
  qed
qed

lemma concat_fgets_lines: "1 < sz \<Longrightarrow> concat (fgets_lines sz s) = s"
proof (induction sz s rule: fgets_lines.induct)
  case (1 sz s)
  then show ?case by (cases "s = []") (simp_all add: fgets_lines.simps [of sz s] fgets_lines.simps [of sz "[]"])
qed

text \<open>A file of short lines is read line by line.\<close>

lemma fgets_lines_cons:
  assumes "newline \<notin> set l" and "Suc (length l) < sz"
  shows "fgets_lines sz (l @ newline # s) = (l @ [newline]) # fgets_lines sz s"
proof -
  have "takeWhile (\<lambda>c. c \<noteq> newline) (l @ newline # s) = l"
    using assms(1) by (auto simp: takeWhile_append)
  then have "fgets_len sz (l @ newline # s) = Suc (length l)"
    using assms(2) by (simp add: fgets_len_def)
  then show ?thesis using assms(2) by (simp add: fgets_lines.simps [of sz "l @ newline # s"])
qed

lemma fgets_lines_nil [simp]: "fgets_lines sz [] = []"
  by (simp add: fgets_lines.simps)

section \<open>Numbers\<close>

definition isspace :: "char \<Rightarrow> bool" where
  "isspace c \<longleftrightarrow> (let n = of_char c :: nat in n = 32 \<or> 9 \<le> n \<and> n \<le> 13)"

definition isdigit :: "char \<Rightarrow> bool" where
  "isdigit c \<longleftrightarrow> (let n = of_char c :: nat in 48 \<le> n \<and> n \<le> 57)"

definition digit_val :: "char \<Rightarrow> nat" where
  "digit_val c = of_char c - 48"

definition digit_char :: "nat \<Rightarrow> char" where
  "digit_char n = char_of (48 + n)"

definition digits_val :: "string \<Rightarrow> nat" where
  "digits_val ds = foldl (\<lambda>v c. 10 * v + digit_val c) 0 ds"

text \<open>The sign, the digits and the rest of a number in base ten; no digits means no number.\<close>

definition scan_number :: "string \<Rightarrow> (bool \<times> nat \<times> string) option" where
  "scan_number s =
     (let t = dropWhile isspace s;
          neg = (t \<noteq> [] \<and> hd t = CHR ''-'');
          t = (if t \<noteq> [] \<and> (hd t = CHR ''-'' \<or> hd t = CHR ''+'') then tl t else t);
          ds = takeWhile isdigit t
      in if ds = [] then None else Some (neg, digits_val ds, dropWhile isdigit t))"

definition LONG_MAX :: int where "LONG_MAX = 9223372036854775807"
definition LONG_MIN :: int where "LONG_MIN = - 9223372036854775808"
definition ULONG_MAX :: nat where "ULONG_MAX = 18446744073709551615"

definition strtol :: "string \<Rightarrow> int" where
  "strtol s = (case scan_number s of
     None \<Rightarrow> 0
   | Some (neg, v, _) \<Rightarrow> (if neg then max LONG_MIN (- int v) else min LONG_MAX (int v)))"

text \<open>The value, and what \<^verbatim>\<open>endptr\<close> points to.\<close>

definition strtoul :: "string \<Rightarrow> u64 \<times> string" where
  "strtoul s = (case scan_number s of
     None \<Rightarrow> (0, s)
   | Some (neg, v, rest) \<Rightarrow>
       (if v > ULONG_MAX then of_nat ULONG_MAX else if neg then - of_nat v else of_nat v, rest))"

text \<open>\<^verbatim>\<open>atoi\<close> is the conversion of \<^verbatim>\<open>strtol\<close> to \<^verbatim>\<open>int\<close>, as the C library of the target implements it.\<close>

definition atoi :: "string \<Rightarrow> int" where
  "atoi s = sint (word_of_int (strtol s) :: u32)"

text \<open>Decimal output.\<close>

fun dec :: "nat \<Rightarrow> string" where
  "dec n = (if n < 10 then [digit_char n] else dec (n div 10) @ [digit_char (n mod 10)])"

declare dec.simps [simp del]

definition dec_int :: "int \<Rightarrow> string" where
  "dec_int i = (if i < 0 then CHR ''-'' # dec (nat (- i)) else dec (nat i))"

lemma of_char_digit: "n < 10 \<Longrightarrow> of_char (digit_char n) = (48 + n :: nat)"
  by (simp add: digit_char_def of_char_of)

lemma digit_char_facts [ig_text]:
  "n < 10 \<Longrightarrow> isdigit (digit_char n)" "n < 10 \<Longrightarrow> digit_val (digit_char n) = n"
  by (simp_all add: isdigit_def digit_val_def of_char_digit)

lemma digits_val_snoc [ig_text]: "digits_val (ds @ [c]) = 10 * digits_val ds + digit_val c"
  by (simp add: digits_val_def)

lemma dec_digits: "list_all isdigit (dec n)"
proof (induction n rule: dec.induct)
  case (1 n)
  then show ?case by (cases "n < 10") (simp_all add: dec.simps [of n] digit_char_facts)
qed

lemma dec_nonempty [simp]: "dec n \<noteq> []"
  by (simp add: dec.simps [of n])

lemma digits_val_dec: "digits_val (dec n) = n"
proof (induction n rule: dec.induct)
  case (1 n)
  show ?case
  proof (cases "n < 10")
    case True
    then show ?thesis by (simp add: dec.simps [of n] digits_val_def digit_char_facts)
  next
    case False
    then show ?thesis using 1 by (simp add: dec.simps [of n] digits_val_snoc digit_char_facts)
  qed
qed

text \<open>What a number is read as when something that is not a digit follows it.\<close>

lemma isdigit_not: "isdigit c \<Longrightarrow> \<not> isspace c \<and> c \<noteq> CHR ''-'' \<and> c \<noteq> CHR ''+''"
  by (auto simp: isdigit_def isspace_def Let_def)

lemma minus_not_space: "\<not> isspace CHR ''-''"
  by (simp add: isspace_def)

lemma takeWhile_dec: "rest = [] \<or> \<not> isdigit (hd rest) \<Longrightarrow> takeWhile isdigit (dec n @ rest) = dec n"
  using dec_digits [of n] by (cases rest) (auto simp: list_all_iff takeWhile_append)

lemma dropWhile_dec: "rest = [] \<or> \<not> isdigit (hd rest) \<Longrightarrow> dropWhile isdigit (dec n @ rest) = rest"
  using dec_digits [of n] by (cases rest) (auto simp: list_all_iff dropWhile_append)

lemma hd_dec: "isdigit (hd (dec n @ rest))"
  using dec_digits [of n] dec_nonempty [of n] by (cases "dec n") (auto simp: list_all_iff)

lemma scan_number_dec:
  assumes "rest = [] \<or> \<not> isdigit (hd rest)"
  shows "scan_number (dec n @ rest) = Some (False, n, rest)"
proof -
  have d: "dropWhile isspace (dec n @ rest) = dec n @ rest"
    using isdigit_not [OF hd_dec [of n rest]] by (cases "dec n") auto
  show ?thesis
    using isdigit_not [OF hd_dec [of n rest]]
    by (simp add: scan_number_def Let_def d takeWhile_dec [OF assms] dropWhile_dec [OF assms] digits_val_dec)
qed

lemma scan_number_neg:
  assumes "rest = [] \<or> \<not> isdigit (hd rest)"
  shows "scan_number (CHR ''-'' # dec n @ rest) = Some (True, n, rest)"
proof -
  show ?thesis
    by (simp add: scan_number_def Let_def minus_not_space takeWhile_dec [OF assms] dropWhile_dec [OF assms] digits_val_dec)
qed

lemma strtol_dec_int:
  assumes "rest = [] \<or> \<not> isdigit (hd rest)" and "LONG_MIN \<le> i" and "i \<le> LONG_MAX"
  shows "strtol (dec_int i @ rest) = i"
  using assms(2,3) by (auto simp: strtol_def dec_int_def scan_number_dec [OF assms(1)] scan_number_neg [OF assms(1)])

lemma strtoul_dec:
  assumes "rest = [] \<or> \<not> isdigit (hd rest)" and "n \<le> ULONG_MAX"
  shows "strtoul (dec n @ rest) = (of_nat n, rest)"
  using assms(2) by (simp add: strtoul_def scan_number_dec [OF assms(1)])

lemma dec_int_chars: "c \<in> set (dec_int i) \<Longrightarrow> isdigit c \<or> c = CHR ''-''"
  using dec_digits by (auto simp: dec_int_def list_all_iff split: if_splits)

lemma dec_int_nonempty [simp]: "dec_int i \<noteq> []"
  by (simp add: dec_int_def)

section \<open>Searching\<close>

text \<open>\<^verbatim>\<open>strstr\<close>: the text from the first occurrence on.\<close>

fun strstr :: "string \<Rightarrow> string \<Rightarrow> string option" where
  "strstr [] pat = (if pat = [] then Some [] else None)"
| "strstr (c # s) pat = (if take (length pat) (c # s) = pat then Some (c # s) else strstr s pat)"

text \<open>\<^verbatim>\<open>strchr(line, '=')\<close> and the cut at it: the text before and after the first \<open>c\<close>.\<close>

definition split_at :: "char \<Rightarrow> string \<Rightarrow> (string \<times> string) option" where
  "split_at c s = (case dropWhile (\<lambda>x. x \<noteq> c) s of [] \<Rightarrow> None | _ # rest \<Rightarrow> Some (takeWhile (\<lambda>x. x \<noteq> c) s, rest))"

lemma split_at_append [simp]: "c \<notin> set k \<Longrightarrow> split_at c (k @ c # v) = Some (k, v)"
  by (auto simp: split_at_def takeWhile_append dropWhile_append)

lemma split_at_Some:
  assumes "split_at c s = Some (k, v)"
  shows "s = k @ c # v" and "c \<notin> set k"
proof -
  obtain x rest where d: "dropWhile (\<lambda>x. x \<noteq> c) s = x # rest"
    using assms by (cases "dropWhile (\<lambda>x. x \<noteq> c) s") (simp_all add: split_at_def)
  then have kv: "k = takeWhile (\<lambda>x. x \<noteq> c) s" "v = rest" using assms by (simp_all add: split_at_def)
  have "x = c" using hd_dropWhile [of "\<lambda>x. x \<noteq> c" s] d by simp
  with d kv show "s = k @ c # v" using takeWhile_dropWhile_id [of "\<lambda>x. x \<noteq> c" s] by simp
  show "c \<notin> set k" using kv(1) by (auto dest: set_takeWhileD)
qed

lemma cstr_set: "c \<in> set (cstr s) \<Longrightarrow> c \<in> set s \<and> c \<noteq> nul"
  by (auto simp: cstr_def dest: set_takeWhileD)

end
