(* ===== verification/Pid_Ancestry.thy ===== *)
theory Pid_Ancestry
  imports Proc_Types Ancestry C_Text
begin

text \<open>
  The ancestry of a process from \<^verbatim>\<open>/proc\<close>: \<^verbatim>\<open>Agent/src/scanner/pid_ancestry.c\<close>, its parsers, the
  resolver, the two text formats and the LRU cache.  The files of \<^verbatim>\<open>/proc\<close> are a parameter: the
  content of each, or \<open>None\<close> when it cannot be opened or read.  A field that holds text is the C
  string in its array.
\<close>

section \<open>The files of /proc\<close>

record proc_fs =
  pf_stat :: "u32 \<Rightarrow> string option"
  pf_status :: "u32 \<Rightarrow> string option"
  pf_exe :: "u32 \<Rightarrow> string option"
  pf_cmdline :: "u32 \<Rightarrow> string option"

text \<open>\<open>g_boot_epoch_s\<close> and \<open>g_clock_tck\<close>.\<close>

record boot_meta =
  bm_epoch_s :: u64
  bm_clock_tck :: int

definition boot_meta_init :: boot_meta where
  "boot_meta_init = \<lparr>bm_epoch_s = 0, bm_clock_tck = 100\<rparr>"

text \<open>\<^verbatim>\<open>sscanf(line, "btime %llu", &btime) == 1\<close>\<close>

definition scan_btime :: "string \<Rightarrow> u64 option" where
  "scan_btime line = (let l = cstr line in
     if take 5 l = ''btime'' \<and> scan_number (drop 5 l) \<noteq> None then Some (fst (strtoul (drop 5 l))) else None)"

fun first_btime :: "string list \<Rightarrow> u64 option" where
  "first_btime [] = None"
| "first_btime (l # ls) = (case scan_btime l of Some b \<Rightarrow> Some b | None \<Rightarrow> first_btime ls)"

definition load_boot_meta :: "int \<Rightarrow> string option \<Rightarrow> boot_meta \<Rightarrow> boot_meta" where
  "load_boot_meta tck proc_stat m =
     (if bm_epoch_s m \<noteq> 0 then m
      else let m = (if tck > 0 then m\<lparr>bm_clock_tck := tck\<rparr> else m)
      in (case proc_stat of
            None \<Rightarrow> m
          | Some content \<Rightarrow>
              (case first_btime (fgets_lines 256 content) of
                 None \<Rightarrow> m
               | Some btime \<Rightarrow> m\<lparr>bm_epoch_s := btime\<rparr>)))"

definition read_file_buf :: "string option \<Rightarrow> nat \<Rightarrow> string option" where
  "read_file_buf content buflen = map_option (take (buflen - 1)) content"

section \<open>The parsers\<close>

definition format_tty :: "u64 \<Rightarrow> nat \<Rightarrow> string" where
  "format_tty tty_nr outlen =
     (if tty_nr = 0 then []
      else let major_n = ucast (drop_bit 8 tty_nr AND 0xFF) :: u32;
               minor_n = ucast ((tty_nr AND 0xFF) OR (drop_bit 12 tty_nr AND 0xFFF00)) :: u32
      in take (outlen - 1)
          (if major_n = 136 then ''pts/'' @ dec (unat minor_n)
           else if major_n = 4 then ''tty'' @ dec (unat minor_n)
           else ''tty:'' @ dec (unat major_n) @ '','' @ dec (unat minor_n)))"

text \<open>The last \<open>)\<close> in the bytes read, and the first \<open>(\<close> of the string.\<close>

definition last_rparen :: "string \<Rightarrow> nat option" where
  "last_rparen buf = (case dropWhile (\<lambda>c. c \<noteq> CHR '')'') (rev buf) of [] \<Rightarrow> None | _ # pre \<Rightarrow> Some (length pre))"

definition first_lparen :: "string \<Rightarrow> nat option" where
  "first_lparen buf = (if CHR ''('' \<in> set (cstr buf) then Some (length (takeWhile (\<lambda>c. c \<noteq> CHR ''('') buf)) else None)"

text \<open>The tokens of the fields 4, 5, ... of the rest of the line, at most \<open>n\<close>.\<close>

fun stat_fields :: "nat \<Rightarrow> string \<Rightarrow> string list" where
  "stat_fields 0 p = []"
| "stat_fields (Suc n) p =
     (if p = [] then []
      else let p = dropWhile (\<lambda>c. c = space) p
      in takeWhile (\<lambda>c. c \<noteq> space) p # stat_fields n (dropWhile (\<lambda>c. c \<noteq> space) p))"

definition field_at :: "string list \<Rightarrow> nat \<Rightarrow> string" where
  "field_at fs k = (if k - 4 < length fs then fs ! (k - 4) else [])"

definition start_time_ns :: "boot_meta \<Rightarrow> u64 \<Rightarrow> u64" where
  "start_time_ns m ticks =
     (if bm_epoch_s m \<noteq> 0 \<and> bm_clock_tck m > 0
      then let ns_per_tick = 1000000000 div (word_of_int (bm_clock_tck m) :: u64)
           in bm_epoch_s m * 1000000000 + ticks * ns_per_tick
      else 0)"

definition parse_stat :: "boot_meta \<Rightarrow> string option \<Rightarrow> ig_proc_info \<Rightarrow> ig_proc_info option" where
  "parse_stat m content info =
     (case read_file_buf content 1024 of
        None \<Rightarrow> None
      | Some buf \<Rightarrow>
          (case (last_rparen buf, first_lparen buf) of
             (Some rparen, Some lparen) \<Rightarrow>
               if lparen \<ge> rparen then None
               else
                 (let comm_len = min (rparen - lparen - 1) (IG_PA_COMM_LEN - 1);
                      p = cstr (drop (rparen + 1) buf);
                      p = dropWhile (\<lambda>c. c \<noteq> space) (dropWhile (\<lambda>c. c = space) p);
                      fs = stat_fields 19 p;
                      starttime = fst (strtoul (field_at fs 22))
                  in Some (info\<lparr>pi_comm := cstr (take comm_len (drop (lparen + 1) buf)),
                        pi_ppid := word_of_int (strtol (field_at fs 4)),
                        pi_sid := word_of_int (strtol (field_at fs 6)),
                        pi_start_ticks := starttime,
                        pi_tty := format_tty (fst (strtoul (field_at fs 7))) IG_PA_TTY_LEN,
                        pi_start_time_ns := start_time_ns m starttime\<rparr>))
           | _ \<Rightarrow> None))"

definition blank :: "char \<Rightarrow> bool" where
  "blank c \<longleftrightarrow> c = space \<or> c = tab"

definition parse_status_uid :: "string option \<Rightarrow> ig_proc_info \<Rightarrow> ig_proc_info" where
  "parse_status_uid content info =
     (case read_file_buf content 2048 of
        None \<Rightarrow> info
      | Some buf \<Rightarrow>
          (let buf = cstr buf;
               p = (case strstr buf (newline # ''Uid:'') of
                      Some q \<Rightarrow> Some (drop 1 q)
                    | None \<Rightarrow> if take 4 buf = ''Uid:'' then Some buf else None)
           in (case p of
                 None \<Rightarrow> info
               | Some p \<Rightarrow>
                   (case strtoul (dropWhile blank (drop 4 p)) of
                      (real_uid, rest) \<Rightarrow>
                        let info = info\<lparr>pi_uid := ucast real_uid\<rparr>;
                            rest = dropWhile blank rest
                        in if rest = [] \<or> hd rest = newline then info
                           else info\<lparr>pi_euid := ucast (fst (strtoul rest))\<rparr>))))"

definition parse_exe :: "string option \<Rightarrow> ig_proc_info \<Rightarrow> ig_proc_info" where
  "parse_exe link info = info\<lparr>pi_exe := (case link of None \<Rightarrow> [] | Some l \<Rightarrow> cstr (take (IG_PA_EXE_LEN - 1) l))\<rparr>"

definition nul_char_to_space :: "char \<Rightarrow> char" where
  "nul_char_to_space c = (if c = nul then space else c)"

definition parse_cmdline :: "string option \<Rightarrow> ig_proc_info \<Rightarrow> ig_proc_info" where
  "parse_cmdline content info =
     (case read_file_buf content IG_PA_CMDLINE_LEN of
        None \<Rightarrow> info\<lparr>pi_cmdline := []\<rparr>
      | Some buf \<Rightarrow>
          if buf = [] then info\<lparr>pi_cmdline := []\<rparr>
          else info\<lparr>pi_cmdline := drop_trailing (\<lambda>c. c = space)
                 (cstr (map nul_char_to_space (butlast buf) @ [last buf]))\<rparr>)"

definition load_proc_info :: "boot_meta \<Rightarrow> proc_fs \<Rightarrow> u32 \<Rightarrow> ig_proc_info option" where
  "load_proc_info m fs p =
     (case parse_stat m (pf_stat fs p) (zero_proc_info\<lparr>pi_pid := p\<rparr>) of
        None \<Rightarrow> None
      | Some info \<Rightarrow>
          Some (parse_cmdline (pf_cmdline fs p) (parse_exe (pf_exe fs p) (parse_status_uid (pf_status fs p) info))))"

definition ig_pa_enrich_entry :: "proc_fs \<Rightarrow> ig_proc_info \<Rightarrow> ig_proc_info" where
  "ig_pa_enrich_entry fs info =
     (if sint (pi_pid info) \<le> 0 then info
      else let info = (if pi_exe info = [] then parse_exe (pf_exe fs (pi_pid info)) info else info)
      in if pi_cmdline info = [] then parse_cmdline (pf_cmdline fs (pi_pid info)) info else info)"

section \<open>The resolver\<close>

text \<open>The loop of \<open>ig_pa_resolve\<close> is \<open>walk\<close>; a failed entry keeps the pid written into it.\<close>

definition pa_root :: "u32 \<Rightarrow> ig_proc_info \<Rightarrow> bool" where
  "pa_root cur e \<longleftrightarrow> sint (pi_ppid e) \<le> 1 \<or> pi_ppid e = cur"

definition pa_chain :: "u32 \<Rightarrow> ig_proc_info list \<times> bool \<Rightarrow> ig_pid_chain" where
  "pa_chain p r = (case r of (es, trunc) \<Rightarrow>
     \<lparr>c_depth = int (length es), c_truncated = (if trunc then 1 else 0),
      c_chain = take IG_PA_MAX_DEPTH (es
        @ (if trunc then [zero_proc_info\<lparr>pi_pid := after pi_ppid p es\<rparr>] else [])
        @ replicate IG_PA_MAX_DEPTH zero_proc_info)\<rparr>)"

definition ig_pa_resolve :: "boot_meta \<Rightarrow> proc_fs \<Rightarrow> u32 \<Rightarrow> ig_pid_chain" where
  "ig_pa_resolve m fs p =
     (if sint p \<le> 0 then zero_chain
      else pa_chain p (walk (load_proc_info m fs) pa_root pi_ppid IG_PA_MAX_DEPTH p))"

section \<open>Text formats\<close>

text \<open>
  \<^verbatim>\<open>snprintf(buf + off, buflen - off, ...)\<close> in turn: \<open>Inr\<close> the text when every piece fits, else \<open>Inl\<close>
  what the buffer holds after the first piece that does not, with the offset before it.
\<close>

fun appends :: "nat \<Rightarrow> string list \<Rightarrow> string \<Rightarrow> (nat \<times> string) + string" where
  "appends buflen [] acc = Inr acc"
| "appends buflen (t # ts) acc =
     (if length acc + length t \<ge> buflen then Inl (length acc, take (buflen - 1) (acc @ t))
      else appends buflen ts (acc @ t))"

definition or_unknown :: "string \<Rightarrow> string" where
  "or_unknown s = (if s = [] then ''?'' else s)"

definition format_piece :: "nat \<Rightarrow> ig_proc_info \<Rightarrow> string" where
  "format_piece i e = (if i = 0 then [] else ''<-'') @ or_unknown (cstr (pi_comm e)) @ ''('' @ dec_int (sint (pi_pid e)) @ '')''"

text \<open>The result and the text in the buffer; a chain deeper than its array is read outside it.\<close>

definition ig_pa_format :: "ig_pid_chain \<Rightarrow> nat \<Rightarrow> (int \<times> string) cres" where
  "ig_pa_format c buflen =
     (if buflen = 0 then Ok (-1, [])
      else if c_depth c > int (length (c_chain c)) then Oob
      else (case appends buflen (map (\<lambda>i. format_piece i (c_chain c ! i)) [0 ..< nat (c_depth c)]) [] of
          Inl (off, text) \<Rightarrow>
            Ok (-1, if buflen \<ge> 4 then take (if off + 3 < buflen then off else buflen - 4) text @ ''...'' else text)
        | Inr text \<Rightarrow>
            Ok (int (length text),
                if c_truncated c \<noteq> 0 \<and> length text + 4 < buflen then text @ ''<-?'' else text)))"

definition full_pieces :: "nat \<Rightarrow> ig_proc_info \<Rightarrow> string list" where
  "full_pieces i e =
     [[newline] @ ''  ['' @ dec i @ ''] '' @ or_unknown (cstr (pi_comm e)) @ ''('' @ dec_int (sint (pi_pid e)) @ '') ppid=''
        @ dec_int (sint (pi_ppid e)) @ '' uid='' @ dec (unat (pi_uid e)) @ ''/'' @ dec (unat (pi_euid e))
        @ '' sid='' @ dec_int (sint (pi_sid e))]
     @ (if cstr (pi_tty e) \<noteq> [] then ['' tty='' @ cstr (pi_tty e)] else [])
     @ (if cstr (pi_exe e) \<noteq> [] then ['' exe='' @ cstr (pi_exe e)] else [])
     @ (if pi_start_time_ns e \<noteq> 0 then ['' start='' @ dec (unat (pi_start_time_ns e)) @ ''ns''] else [])
     @ (if cstr (pi_cmdline e) \<noteq> [] then [[newline] @ ''      cmdline: '' @ cstr (pi_cmdline e)] else [])"

definition ig_pa_format_full :: "ig_pid_chain \<Rightarrow> nat \<Rightarrow> (int \<times> string) cres" where
  "ig_pa_format_full c buflen =
     (if buflen = 0 then Ok (-1, [])
      else if c_depth c > int (length (c_chain c)) then Oob
      else (case appends buflen
          (if c_depth c = 0 then [''(no chain)'']
           else concat (map (\<lambda>i. full_pieces i (c_chain c ! i)) [0 ..< nat (c_depth c)])
             @ (if c_truncated c \<noteq> 0 then [[newline] @ ''  [..] (truncated)''] else [])) [] of
          Inl (off, text) \<Rightarrow>
            Ok (-1, if buflen \<ge> 5 then take (if off + 4 < buflen then off else buflen - 5) text @ ''...'' else text)
        | Inr text \<Rightarrow> Ok (int (length text), text)))"

section \<open>The cache\<close>

text \<open>
  The slots, and the doubly linked list through them as the list of slot indices, most recent
  first.  The mutex makes the two locked parts of \<open>ig_pa_resolve_cached\<close> one step each.
\<close>

record cache_node =
  cn_pid :: u32
  cn_start_ticks :: u64
  cn_chain :: ig_pid_chain
  cn_in_use :: bool

record pa_cache =
  pa_nodes :: "cache_node list"
  pa_count :: int
  pa_lru :: "nat list"
  pa_lookups :: u64
  pa_hits :: u64
  pa_misses :: u64
  pa_evictions :: u64
  pa_initialized :: bool

definition zero_node :: cache_node where
  "zero_node = \<lparr>cn_pid = 0, cn_start_ticks = 0, cn_chain = zero_chain, cn_in_use = False\<rparr>"

definition zero_cache :: pa_cache where
  "zero_cache = \<lparr>pa_nodes = [], pa_count = 0, pa_lru = [], pa_lookups = 0, pa_hits = 0, pa_misses = 0,
     pa_evictions = 0, pa_initialized = False\<rparr>"

definition lru_unlink :: "nat \<Rightarrow> pa_cache \<Rightarrow> pa_cache" where
  "lru_unlink n c = c\<lparr>pa_lru := remove1 n (pa_lru c)\<rparr>"

definition lru_push_front :: "nat \<Rightarrow> pa_cache \<Rightarrow> pa_cache" where
  "lru_push_front n c = c\<lparr>pa_lru := n # pa_lru c\<rparr>"

definition cache_find :: "pa_cache \<Rightarrow> u32 \<Rightarrow> nat option" where
  "cache_find c p = List.find (\<lambda>i. cn_in_use (pa_nodes c ! i) \<and> cn_pid (pa_nodes c ! i) = p) [0 ..< length (pa_nodes c)]"

definition free_slot :: "nat \<Rightarrow> pa_cache \<Rightarrow> pa_cache" where
  "free_slot n c = (let c = lru_unlink n c
     in c\<lparr>pa_nodes := (pa_nodes c)[n := (pa_nodes c ! n)\<lparr>cn_in_use := False\<rparr>], pa_count := pa_count c - 1\<rparr>)"

definition cache_alloc_slot :: "pa_cache \<Rightarrow> nat option \<times> pa_cache" where
  "cache_alloc_slot c =
     (case List.find (\<lambda>i. \<not> cn_in_use (pa_nodes c ! i)) [0 ..< length (pa_nodes c)] of
        Some n \<Rightarrow> (Some n, c)
      | None \<Rightarrow>
          if pa_lru c = [] then (None, c)
          else let victim = last (pa_lru c); c = free_slot victim c
               in (Some victim, c\<lparr>pa_evictions := pa_evictions c + 1\<rparr>))"

definition ig_pa_cache_init :: "bool \<Rightarrow> int \<Rightarrow> pa_cache \<Rightarrow> int \<times> pa_cache" where
  "ig_pa_cache_init alloc_ok capacity c =
     (if pa_initialized c then (0, c)
      else if capacity \<le> 0 then (0, zero_cache\<lparr>pa_initialized := True\<rparr>)
      else if \<not> alloc_ok then (-1, c)
      else (0, zero_cache\<lparr>pa_nodes := replicate (nat capacity) zero_node, pa_initialized := True\<rparr>))"

definition ig_pa_cache_free :: "pa_cache \<Rightarrow> pa_cache" where
  "ig_pa_cache_free c = (if \<not> pa_initialized c then c else zero_cache)"

definition ig_pa_cache_get_stats :: "pa_cache \<Rightarrow> u64 \<times> u64 \<times> u64 \<times> u64" where
  "ig_pa_cache_get_stats c =
     (if \<not> pa_initialized c \<or> pa_nodes c = [] then (0, 0, 0, 0)
      else (pa_lookups c, pa_hits c, pa_misses c, pa_evictions c))"

text \<open>The first locked part: a hit gives the chain.\<close>

definition cache_lookup :: "u32 \<Rightarrow> u64 \<Rightarrow> pa_cache \<Rightarrow> ig_pid_chain option \<times> pa_cache" where
  "cache_lookup p ticks c =
     (let c = c\<lparr>pa_lookups := pa_lookups c + 1\<rparr>
      in (case cache_find c p of
            Some n \<Rightarrow>
              if cn_start_ticks (pa_nodes c ! n) = ticks
              then (Some (cn_chain (pa_nodes c ! n)),
                    (lru_push_front n (lru_unlink n c))\<lparr>pa_hits := pa_hits c + 1\<rparr>)
              else (None, (free_slot n c)\<lparr>pa_misses := pa_misses c + 1\<rparr>)
          | None \<Rightarrow> (None, c\<lparr>pa_misses := pa_misses c + 1\<rparr>)))"

text \<open>The second one.\<close>

definition cache_store :: "u32 \<Rightarrow> u64 \<Rightarrow> ig_pid_chain \<Rightarrow> pa_cache \<Rightarrow> pa_cache" where
  "cache_store p ticks out c =
     (case cache_alloc_slot c of
        (None, c) \<Rightarrow> c
      | (Some slot, c) \<Rightarrow>
          (let c = c\<lparr>pa_nodes := (pa_nodes c)[slot := \<lparr>cn_pid = p, cn_start_ticks = ticks, cn_chain = out, cn_in_use = True\<rparr>]\<rparr>;
               c = lru_push_front slot c
           in c\<lparr>pa_count := pa_count c + 1\<rparr>))"

text \<open>\<open>fs\<close> is \<^verbatim>\<open>/proc\<close> at the probe, \<open>fs'\<close> at the resolution after a miss.\<close>

definition ig_pa_resolve_cached :: "boot_meta \<Rightarrow> proc_fs \<Rightarrow> proc_fs \<Rightarrow> u32 \<Rightarrow> pa_cache \<Rightarrow> ig_pid_chain \<times> pa_cache" where
  "ig_pa_resolve_cached m fs fs' p c =
     (if \<not> pa_initialized c \<or> pa_nodes c = [] then (ig_pa_resolve m fs' p, c)
      else (case parse_stat m (pf_stat fs p) (zero_proc_info\<lparr>pi_pid := p\<rparr>) of
          None \<Rightarrow> (zero_chain, c)
        | Some probe \<Rightarrow>
            (case cache_lookup p (pi_start_ticks probe) c of
               (Some out, c) \<Rightarrow> (out, c)
             | (None, c) \<Rightarrow>
                 let out = ig_pa_resolve m fs' p
                 in (out, cache_store p (pi_start_ticks probe) out c))))"

section \<open>Reading a stat line\<close>

lemma last_rparen_append:
  assumes "CHR '')'' \<notin> set post"
  shows "last_rparen (pre @ CHR '')'' # post) = Some (length pre)"
proof -
  have "dropWhile (\<lambda>c. c \<noteq> CHR '')'') (rev post @ CHR '')'' # rev pre) = CHR '')'' # rev pre"
    using assms by (induction "rev post" arbitrary: post) (auto simp: dropWhile_append)
  then show ?thesis by (simp add: last_rparen_def)
qed

lemma first_lparen_append:
  assumes "CHR ''('' \<notin> set pre" and "has_no_nul pre"
  shows "first_lparen (pre @ CHR ''('' # post) = Some (length pre)"
proof -
  have "cstr (pre @ CHR ''('' # post) = pre @ CHR ''('' # cstr post"
    using assms(2) by (simp add: cstr_def has_no_nul_def takeWhile_append nul_def)
  moreover have "takeWhile (\<lambda>c. c \<noteq> CHR ''('') (pre @ CHR ''('' # post) = pre"
    using assms(1) by (simp add: takeWhile_append)
  ultimately show ?thesis by (simp add: first_lparen_def)
qed

text \<open>A line of \<^verbatim>\<open>/proc/<pid>/stat\<close>: pid, command in parentheses, state, numbers.\<close>

definition stat_numbers :: "int list \<Rightarrow> string" where
  "stat_numbers ns = concat (map (\<lambda>i. space # dec_int i) ns) @ [newline]"

definition stat_line :: "nat \<Rightarrow> string \<Rightarrow> string \<Rightarrow> int list \<Rightarrow> string" where
  "stat_line p comm st ns = dec p @ '' ('' @ comm @ '') '' @ st @ stat_numbers ns"

lemma digit_chars: "isdigit c \<or> c = CHR ''-'' \<Longrightarrow>
    c \<noteq> space \<and> c \<noteq> nul \<and> c \<noteq> CHR ''('' \<and> c \<noteq> CHR '')'' \<and> c \<noteq> newline"
  by (auto simp: isdigit_def c_chars Let_def)

lemma dec_int_digit_chars: "c \<in> set (dec_int i) \<Longrightarrow>
    c \<noteq> space \<and> c \<noteq> nul \<and> c \<noteq> CHR ''('' \<and> c \<noteq> CHR '')'' \<and> c \<noteq> newline"
  by (rule digit_chars [OF dec_int_chars])

lemma dec_chars: "c \<in> set (dec n) \<Longrightarrow> isdigit c"
  using dec_digits [of n] by (simp add: list_all_iff)

lemma stat_numbers_chars:
  "c \<in> set (stat_numbers ns) \<Longrightarrow> c \<noteq> nul \<and> c \<noteq> CHR '')''"
proof -
  assume "c \<in> set (stat_numbers ns)"
  then consider "c = space" | "c = newline" | i where "c \<in> set (dec_int i)"
    by (auto simp: stat_numbers_def split: if_splits)
  then show ?thesis
  proof cases
    case 3
    then show ?thesis using dec_int_digit_chars [of c i] by simp
  qed (auto simp: c_chars)
qed

lemma stat_fields_numbers: "n < length ns \<Longrightarrow> stat_fields n (stat_numbers ns) = map dec_int (take n ns)"
proof (induction n arbitrary: ns)
  case (Suc n)
  then obtain i j ms where ns: "ns = i # j # ms" by (cases ns; cases "tl ns") auto
  have no: "\<forall>c \<in> set (dec_int i). c \<noteq> space" using dec_int_digit_chars by simp
  have cons: "stat_numbers (i # j # ms) = space # dec_int i @ stat_numbers (j # ms)" by (simp add: stat_numbers_def)
  have hd: "stat_numbers (j # ms) = space # tl (stat_numbers (j # ms))" by (simp add: stat_numbers_def)
  have d: "dropWhile (\<lambda>c. c = space) (stat_numbers ns) = dec_int i @ stat_numbers (j # ms)"
    using no dec_int_nonempty [of i] by (cases "dec_int i") (auto simp: ns cons)
  have t: "takeWhile (\<lambda>c. c \<noteq> space) (dec_int i @ stat_numbers (j # ms)) = dec_int i"
    "dropWhile (\<lambda>c. c \<noteq> space) (dec_int i @ stat_numbers (j # ms)) = stat_numbers (j # ms)"
    using no by (subst hd; simp add: takeWhile_append dropWhile_append; subst (2) hd; simp)+
  have "stat_fields n (stat_numbers (j # ms)) = map dec_int (take n (j # ms))"
    using Suc by (simp add: ns)
  moreover have "stat_numbers ns \<noteq> []" by (simp add: stat_numbers_def)
  ultimately show ?case by (simp add: d t Let_def) (simp add: ns)
qed simp

lemma strtol_dec: "LONG_MIN \<le> i \<Longrightarrow> i \<le> LONG_MAX \<Longrightarrow> strtol (dec_int i) = i"
  using strtol_dec_int [of "[]" i] by simp

lemma strtoul_dec_int:
  assumes "0 \<le> i" and "i \<le> LONG_MAX"
  shows "fst (strtoul (dec_int i)) = word_of_int i"
proof -
  have "nat i \<le> ULONG_MAX" using assms by (simp only: ULONG_MAX_def LONG_MAX_def)
  then have "strtoul (dec_int i) = (of_nat (nat i), [])"
    using strtoul_dec [of "[]" "nat i"] assms(1) by (simp add: dec_int_def)
  then show ?thesis using assms(1) by simp
qed

text \<open>The command name cannot forge the fields of a stat line: whatever characters a process puts
  into its name, closing parentheses, blanks and digits included, \<open>parse_stat\<close> takes the parent,
  session, terminal and start time from the real fields behind it and the (cut) name itself.\<close>

theorem stat_line_read:
  assumes "has_no_nul comm" and "st \<noteq> []" and "\<forall>c \<in> set st. c \<noteq> space \<and> c \<noteq> CHR '')'' \<and> c \<noteq> nul"
    and "19 < length ns" and "\<forall>n \<in> set ns. LONG_MIN \<le> n \<and> n \<le> LONG_MAX" and "0 \<le> ns ! 3" and "0 \<le> ns ! 18"
    and "length (stat_line p comm st ns) < 1024"
  shows "parse_stat m (Some (stat_line p comm st ns)) info = Some (info\<lparr>
      pi_comm := take (IG_PA_COMM_LEN - 1) comm,
      pi_ppid := word_of_int (ns ! 0), pi_sid := word_of_int (ns ! 2),
      pi_start_ticks := word_of_int (ns ! 18),
      pi_tty := format_tty (word_of_int (ns ! 3)) IG_PA_TTY_LEN,
      pi_start_time_ns := start_time_ns m (word_of_int (ns ! 18))\<rparr>)"
proof -
  let ?line = "stat_line p comm st ns" and ?pre = "dec p @ [space]" and ?post = "space # st @ stat_numbers ns"
  have line: "?line = ?pre @ CHR ''('' # comm @ CHR '')'' # ?post" "?line = (?pre @ CHR ''('' # comm) @ CHR '')'' # ?post"
    by (simp_all add: stat_line_def space_def)
  have buf: "read_file_buf (Some ?line) 1024 = Some ?line" using assms(8) by (simp add: read_file_buf_def)
  have "CHR '')'' \<notin> set ?post" using assms(3) stat_numbers_chars [of "CHR '')''"] by (auto simp: space_def)
  then have rp: "last_rparen ?line = Some (length ?pre + 1 + length comm)"
    unfolding line(2) by (subst last_rparen_append) simp_all
  have pre: "c \<noteq> CHR ''('' \<and> c \<noteq> nul" if "c \<in> set ?pre" for c
    using that digit_chars dec_chars [of c p] by (auto simp: c_chars)
  have lp: "first_lparen ?line = Some (length ?pre)"
    unfolding line(1) by (rule first_lparen_append) (use pre in \<open>auto simp: has_no_nul_def\<close>)
  have post: "drop (length ?pre + 1 + length comm + 1) ?line = ?post"
  proof -
    have "?line = ((?pre @ CHR ''('' # comm) @ [CHR '')'']) @ ?post" by (simp add: line)
    moreover have "length ((?pre @ CHR ''('' # comm) @ [CHR '')'']) = length ?pre + 1 + length comm + 1" by simp
    ultimately show ?thesis by (metis append_eq_conv_conj)
  qed
  have "has_no_nul ?post" using assms(3) stat_numbers_chars [of nul] by (auto simp: has_no_nul_def c_chars)
  then have cpost: "cstr ?post = ?post" by simp
  have hd: "stat_numbers ns = space # tl (stat_numbers ns)"
    using assms(4) by (cases ns) (auto simp: stat_numbers_def)
  have "dropWhile (\<lambda>c. c = space) ?post = st @ stat_numbers ns"
    using assms(2,3) by (cases st) auto
  moreover have "dropWhile (\<lambda>c. c \<noteq> space) (st @ stat_numbers ns) = stat_numbers ns"
    using assms(3) by (subst hd, subst (2) hd) (simp add: dropWhile_append)
  ultimately have p: "dropWhile (\<lambda>c. c \<noteq> space) (dropWhile (\<lambda>c. c = space) (cstr ?post)) = stat_numbers ns"
    unfolding cpost by simp
  have fs: "stat_fields 19 (dropWhile (\<lambda>c. c \<noteq> space) (dropWhile (\<lambda>c. c = space)
      (cstr (drop (length ?pre + 1 + length comm + 1) ?line)))) = map dec_int (take 19 ns)"
    unfolding post p by (rule stat_fields_numbers [OF assms(4)])
  have range: "LONG_MIN \<le> ns ! k" "ns ! k \<le> LONG_MAX" if "k < 19" for k
    using assms(4,5) that by (auto dest: nth_mem)
  have field: "field_at (map dec_int (take 19 ns)) (k + 4) = dec_int (ns ! k)" if "k < 19" for k
    using that assms(4) by (simp add: field_at_def)
  have comm: "cstr (take (min (length ?pre + 1 + length comm - length ?pre - 1) (IG_PA_COMM_LEN - 1))
      (drop (length ?pre + 1) ?line)) = take (IG_PA_COMM_LEN - 1) comm"
    using assms(1) by (simp add: line(1) min_def)
  show ?thesis
    unfolding parse_stat_def buf option.case prod.case rp lp Let_def fs comm
    using field [of 0] field [of 2] field [of 3] field [of 18]
    by (simp add: strtol_dec strtoul_dec_int range assms(6,7))
qed

theorem stat_line_read_witness:
  "map_option pi_ppid (parse_stat boot_meta_init
     (Some (stat_line 4242 ''x) S 1 1'' ''S'' ([100, 4242, 7] @ replicate 17 0))) zero_proc_info) = Some 100"
proof -
  let ?ns = "[100, 4242, 7] @ replicate 17 0 :: int list"
  have "has_no_nul ''x) S 1 1''" "''S'' \<noteq> []" "\<forall>c \<in> set ''S''. c \<noteq> space \<and> c \<noteq> CHR '')'' \<and> c \<noteq> nul"
    by (simp_all add: has_no_nul_def c_chars)
  moreover have "19 < length ?ns" "\<forall>n \<in> set ?ns. LONG_MIN \<le> n \<and> n \<le> LONG_MAX" "0 \<le> ?ns ! 3" "0 \<le> ?ns ! 18"
    by (simp_all add: LONG_MIN_def LONG_MAX_def)
  moreover have "length (stat_line 4242 ''x) S 1 1'' ''S'' ?ns) < 1024"
    by (simp add: stat_line_def stat_numbers_def dec_int_def dec.simps [of 4242] dec.simps [of 424] dec.simps [of 42]
        dec.simps [of 4] dec.simps [of 100] dec.simps [of 10] dec.simps [of "Suc 0"] dec.simps [of 7] dec.simps [of 0]
        length_concat sum_list_replicate)
  ultimately show ?thesis
    using stat_line_read [of "''x) S 1 1''" "''S''" ?ns 4242 boot_meta_init zero_proc_info] by simp
qed

section \<open>The resolver follows the parents\<close>

lemma cstr_take_bound: "length (cstr (take n s)) \<le> n"
  by (metis length_take min.bounded_iff length_takeWhile_le cstr_def order_trans)

lemma isdigit_no_nul: "\<not> isdigit nul"
  by (simp add: isdigit_def nul_def)

lemma format_tty_wf: "has_no_nul (format_tty t n)"
proof -
  have d: "nul \<notin> set (dec k)" for k using dec_chars [of nul k] isdigit_no_nul by blast
  have n: "nul \<notin> set ''pts/''" "nul \<notin> set ''tty''" "nul \<notin> set ''tty:''" "nul \<notin> set '',''" by (simp_all add: nul_def)
  have "nul \<notin> set (take k (''pts/'' @ dec a))" "nul \<notin> set (take k (''tty'' @ dec a))"
    "nul \<notin> set (take k (''tty:'' @ dec b @ '','' @ dec a))" for a b k
    using d n by (auto dest!: in_set_takeD)
  then show ?thesis by (auto simp: format_tty_def has_no_nul_def Let_def simp del: take_append)
qed

lemma format_tty_len: "length (format_tty t 32) < 32"
  by (simp add: format_tty_def Let_def min_def del: length_append take_append)

lemma drop_cstr_bound: "has_no_nul (drop_trailing P (cstr s)) \<and> length (drop_trailing P (cstr s)) \<le> length s"
  using set_drop_trailing [of P "cstr s"] length_drop_trailing [of P "cstr s"] has_no_nul_cstr [of s] length_takeWhile_le [of _ s]
  by (auto simp: has_no_nul_def cstr_def intro: order_trans)

lemma parse_exe_wf: "proc_info_wf i \<Longrightarrow> proc_info_wf (parse_exe c i)"
  using le_imp_less_Suc [OF cstr_take_bound [of 255]]
  by (auto simp: parse_exe_def proc_info_wf_def pa_lens has_no_nul_def [of "[]"] less_Suc_eq_le split: option.splits)

lemma parse_cmdline_wf:
  assumes "proc_info_wf i"
  shows "proc_info_wf (parse_cmdline c i)"
proof (cases "read_file_buf c IG_PA_CMDLINE_LEN")
  case (Some buf)
  then have "length buf \<le> 511" by (auto simp: read_file_buf_def pa_lens)
  then have "length (map nul_char_to_space (butlast buf) @ [last buf]) \<le> 511" if "buf \<noteq> []"
    using that by (cases buf rule: rev_cases) auto
  with drop_cstr_bound [of "\<lambda>c. c = space" "map nul_char_to_space (butlast buf) @ [last buf]"] assms Some show ?thesis
    by (auto simp: parse_cmdline_def proc_info_wf_def pa_lens has_no_nul_def [of "[]"])
qed (use assms in \<open>simp add: parse_cmdline_def proc_info_wf_def pa_lens has_no_nul_def [of "[]"]\<close>)

lemma parse_ids [simp]:
  "pi_pid (parse_exe c i) = pi_pid i" "pi_ppid (parse_exe c i) = pi_ppid i"
  "pi_uid (parse_exe c i) = pi_uid i" "pi_sid (parse_exe c i) = pi_sid i"
  "pi_pid (parse_cmdline c i) = pi_pid i" "pi_ppid (parse_cmdline c i) = pi_ppid i"
  "pi_uid (parse_cmdline c i) = pi_uid i" "pi_sid (parse_cmdline c i) = pi_sid i"
  by (simp_all add: parse_exe_def parse_cmdline_def split: option.splits)

lemma enrich_entry_facts:
  "pi_pid (ig_pa_enrich_entry fs i) = pi_pid i" "pi_ppid (ig_pa_enrich_entry fs i) = pi_ppid i"
  "pi_uid (ig_pa_enrich_entry fs i) = pi_uid i" "pi_sid (ig_pa_enrich_entry fs i) = pi_sid i"
  "proc_info_wf i \<Longrightarrow> proc_info_wf (ig_pa_enrich_entry fs i)"
  by (simp_all add: ig_pa_enrich_entry_def Let_def parse_exe_wf parse_cmdline_wf)

lemma load_proc_info_wf:
  assumes "load_proc_info m fs p = Some e"
  shows "proc_info_wf e" and "pi_pid e = p"
proof -
  have comm: "length (cstr (take (min a 15) s)) \<le> 15" for a s
    using cstr_take_bound [of "min a 15" s] by simp
  have step: "proc_info_wf i \<Longrightarrow> proc_info_wf (parse_status_uid c i) \<and> pi_pid (parse_status_uid c i) = pi_pid i" for c i
    by (auto simp: parse_status_uid_def proc_info_wf_def Let_def split: option.splits prod.splits)
  have exe: "proc_info_wf i \<Longrightarrow> proc_info_wf (parse_exe c i) \<and> pi_pid (parse_exe c i) = pi_pid i" for c i
    by (simp add: parse_exe_wf)
  have line: "proc_info_wf (parse_cmdline c i) \<and> pi_pid (parse_cmdline c i) = pi_pid i" if "proc_info_wf i" for c i
    using that by (simp add: parse_cmdline_wf)
  have stat: "proc_info_wf j \<and> pi_pid j = pi_pid i" if st: "parse_stat m c i = Some j" and wfi: "proc_info_wf i" for c i j
  proof -
    obtain k x a b d t f where j: "j = i\<lparr>pi_comm := cstr (take (min k 15) x), pi_ppid := a, pi_sid := b,
        pi_start_ticks := d, pi_tty := format_tty t 32, pi_start_time_ns := f\<rparr>"
    proof -
      obtain buf rp lp where b: "read_file_buf c 1024 = Some buf" "last_rparen buf = Some rp"
          "first_lparen buf = Some lp" "(lp \<ge> rp) = False"
        using st unfolding parse_stat_def by (auto split: option.splits if_splits)
      from st have "j = i\<lparr>pi_comm := cstr (take (min (rp - lp - 1) 15) (drop (lp + 1) buf)),
          pi_ppid := pi_ppid j, pi_sid := pi_sid j, pi_start_ticks := pi_start_ticks j,
          pi_tty := format_tty (fst (strtoul (field_at (stat_fields 19 (dropWhile (\<lambda>c. c \<noteq> space)
            (dropWhile (\<lambda>c. c = space) (cstr (drop (rp + 1) buf))))) 7))) 32,
          pi_start_time_ns := pi_start_time_ns j\<rparr>"
        by (simp only: parse_stat_def b option.case prod.case Let_def pa_lens if_False option.inject)
           (auto simp: numeral_eq_Suc simp del: stat_fields.simps)
      then show thesis by (rule that)
    qed
    have "length (cstr (take (min k 15) x)) < 16" using comm [of k x] by simp
    with wfi format_tty_wf [of t 32] format_tty_len [of t] show ?thesis
      by (simp add: j proc_info_wf_def pa_lens)
  qed
  obtain i where i: "parse_stat m (pf_stat fs p) (zero_proc_info\<lparr>pi_pid := p\<rparr>) = Some i"
    "e = parse_cmdline (pf_cmdline fs p) (parse_exe (pf_exe fs p) (parse_status_uid (pf_status fs p) i))"
    using assms by (auto simp: load_proc_info_def split: option.splits)
  have "proc_info_wf (zero_proc_info\<lparr>pi_pid := p\<rparr>)" using zero_proc_info_wf by (simp add: proc_info_wf_def)
  note s = stat [OF i(1) this]
  note t = step [OF conjunct1 [OF s], of "pf_status fs p"]
  note u = exe [OF conjunct1 [OF t], of "pf_exe fs p"]
  note v = line [OF conjunct1 [OF u], of "pf_cmdline fs p"]
  show "proc_info_wf e" using v i(2) by simp
  show "pi_pid e = p" using s t u v i(2) by simp
qed

lemma pa_chain_shape:
  assumes "walk (load_proc_info m fs) pa_root pi_ppid IG_PA_MAX_DEPTH p = (es, trunc)"
  shows "c_depth (pa_chain p (es, trunc)) = int (length es)" "length es \<le> IG_PA_MAX_DEPTH"
    "take (length es) (c_chain (pa_chain p (es, trunc))) = es"
    "chain_wf (pa_chain p (es, trunc))"
proof -
  show len: "length es \<le> IG_PA_MAX_DEPTH" by (rule walk_length [OF assms])
  have wf: "list_all proc_info_wf es"
    using walk_links [OF assms]
  proof (induction es arbitrary: p)
    case (Cons e es)
    then show ?case by (auto dest: load_proc_info_wf)
  qed simp
  have zero: "proc_info_wf (zero_proc_info\<lparr>pi_pid := q\<rparr>)" for q
    using zero_proc_info_wf by (simp add: proc_info_wf_def)
  have all: "list_all proc_info_wf (es @ (if trunc then [zero_proc_info\<lparr>pi_pid := after pi_ppid p es\<rparr>] else [])
      @ replicate IG_PA_MAX_DEPTH zero_proc_info)"
    using wf zero by (auto simp: list_all_iff)
  show "c_depth (pa_chain p (es, trunc)) = int (length es)" by (simp add: pa_chain_def)
  show "take (length es) (c_chain (pa_chain p (es, trunc))) = es" using len by (simp add: pa_chain_def min_def)
  show "chain_wf (pa_chain p (es, trunc))"
    using len all by (auto simp: chain_wf_def pa_chain_def list_all_iff dest!: in_set_takeD)
qed

text \<open>The resolver returns a true ancestry: a well-formed chain of at most sixteen processes that
  starts with the process asked for, in which every entry was read from the process that the entry
  before it names as its parent; no entry before the last is a root, an untruncated chain ends at a
  root, and a truncated one is full or ends where \<^verbatim>\<open>/proc\<close> has no entry.\<close>

theorem pa_resolve_is_ancestry:
  assumes "0 < sint p"
  shows "\<exists>es. let c = ig_pa_resolve m fs p in
      chain_wf c \<and> c_depth c = int (length es) \<and> take (length es) (c_chain c) = es
    \<and> links (load_proc_info m fs) pa_root pi_ppid p es
    \<and> (c_truncated c = 0 \<longrightarrow> es \<noteq> [] \<and> pa_root (pi_pid (last es)) (last es))
    \<and> (c_truncated c \<noteq> 0 \<longrightarrow> length es = IG_PA_MAX_DEPTH \<or> load_proc_info m fs (after pi_ppid p es) = None)"
proof -
  obtain es trunc where w: "walk (load_proc_info m fs) pa_root pi_ppid IG_PA_MAX_DEPTH p = (es, trunc)" by fastforce
  have r: "ig_pa_resolve m fs p = pa_chain p (es, trunc)" using assms w by (simp add: ig_pa_resolve_def)
  have t: "c_truncated (pa_chain p (es, trunc)) = (if trunc then 1 else 0)" by (simp add: pa_chain_def)
  have "\<not> trunc \<Longrightarrow> es \<noteq> [] \<and> pa_root (pi_pid (last es)) (last es)"
    using walk_root [of "load_proc_info m fs" pi_pid pa_root pi_ppid, OF load_proc_info_wf(2)] w by simp
  moreover have "trunc \<Longrightarrow> length es = IG_PA_MAX_DEPTH \<or> load_proc_info m fs (after pi_ppid p es) = None"
    using walk_truncated w by simp
  ultimately show ?thesis
    using pa_chain_shape [OF w] walk_links [OF w] by (intro exI [of _ es]) (auto simp: Let_def r t)
qed

definition sample_proc :: proc_fs where
  "sample_proc = \<lparr>pf_stat = (\<lambda>p. if p = 42 then Some ''42 (sh) S 1 42 42 0'' else None), pf_status = (\<lambda>_. None),
     pf_exe = (\<lambda>p. if p = 42 then Some ''/bin/sh'' else None), pf_cmdline = (\<lambda>_. None)\<rparr>"

theorem pa_resolve_is_ancestry_witness:
  "chain_wf (ig_pa_resolve boot_meta_init sample_proc 42)"
  using pa_resolve_is_ancestry [of 42 boot_meta_init sample_proc] by (auto simp: Let_def)

section \<open>The text formats\<close>

lemma appends_Inr:
  "appends n ts acc = Inr t \<Longrightarrow> length acc < n \<Longrightarrow> t = acc @ concat ts \<and> length t < n"
  by (induction n ts acc rule: appends.induct) (auto split: if_splits)

lemma appends_Inl:
  "appends n ts acc = Inl (off, t) \<Longrightarrow> length acc < n \<Longrightarrow>
     off < n \<and> n \<le> length (acc @ concat ts) \<and> t = take (n - 1) (acc @ concat ts)"
proof (induction n ts acc rule: appends.induct)
  case (2 n u ts acc)
  show ?case
  proof (cases "length acc + length u \<ge> n")
    case True
    with "2.prems" show ?thesis by auto
  next
    case False
    then have "appends n ts (acc @ u) = Inl (off, t)" "length (acc @ u) < n" using "2.prems" by simp_all
    from "2.IH" [OF False this] show ?thesis by simp
  qed
qed simp

text \<open>The text of a chain without a buffer, and what a buffer of \<open>n\<close> bytes makes of it.\<close>

definition chain_text :: "ig_pid_chain \<Rightarrow> string" where
  "chain_text c = concat (map (\<lambda>i. format_piece i (c_chain c ! i)) [0 ..< nat (c_depth c)])"

definition chain_text_full :: "ig_pid_chain \<Rightarrow> string" where
  "chain_text_full c =
     (if c_depth c = 0 then ''(no chain)''
      else concat (map (\<lambda>i. concat (full_pieces i (c_chain c ! i))) [0 ..< nat (c_depth c)])
        @ (if c_truncated c \<noteq> 0 then [newline] @ ''  [..] (truncated)'' else []))"

lemma concat_full_pieces:
  "concat (if c_depth c = 0 then [''(no chain)'']
      else concat (map (\<lambda>i. full_pieces i (c_chain c ! i)) [0 ..< nat (c_depth c)])
        @ (if c_truncated c \<noteq> 0 then [[newline] @ ''  [..] (truncated)''] else [])) = chain_text_full c"
proof -
  have "concat (concat (map f xs)) = concat (map (\<lambda>x. concat (f x)) xs)" for f :: "nat \<Rightarrow> string list" and xs
    by (induction xs) auto
  then show ?thesis by (simp add: chain_text_full_def)
qed

text \<open>Formatting is memory safe and never silently cut: for a well-formed chain both formats stay
  inside the chain array and leave a terminated string in the buffer.  When the whole text fits,
  the buffer holds exactly it and its length is returned; when it does not, -1 is returned and the
  buffer holds a beginning of the text followed by dots.\<close>

theorem chain_formats_bounded:
  assumes "chain_wf c" and "5 \<le> n"
  shows "(length (chain_text_full c) < n \<longrightarrow>
        ig_pa_format_full c n = Ok (int (length (chain_text_full c)), chain_text_full c))
    \<and> (n \<le> length (chain_text_full c) \<longrightarrow>
        (\<exists>k. ig_pa_format_full c n = Ok (-1, take k (chain_text_full c) @ ''...'') \<and> k + 3 < n))
    \<and> (length (chain_text c) < n \<longrightarrow>
        (\<exists>m. ig_pa_format c n = Ok (int (length (chain_text c)), chain_text c @ m)
           \<and> m \<in> {[], ''<-?''} \<and> length (chain_text c @ m) < n))
    \<and> (n \<le> length (chain_text c) \<longrightarrow>
        (\<exists>k. ig_pa_format c n = Ok (-1, take k (chain_text c) @ ''...'') \<and> k + 3 < n))"
proof -
  have wf: "n \<noteq> 0" "\<not> c_depth c > int (length (c_chain c))" using assms by (auto simp: chain_wf_def)
  define ps where "ps = (if c_depth c = 0 then [''(no chain)'']
      else concat (map (\<lambda>i. full_pieces i (c_chain c ! i)) [0 ..< nat (c_depth c)])
        @ (if c_truncated c \<noteq> 0 then [[newline] @ ''  [..] (truncated)''] else []))"
  define qs where "qs = map (\<lambda>i. format_piece i (c_chain c ! i)) [0 ..< nat (c_depth c)]"
  have ps: "concat ps = chain_text_full c" unfolding ps_def by (rule concat_full_pieces)
  have qs: "concat qs = chain_text c" by (simp add: qs_def chain_text_def)
  note inr = appends_Inr [of n _ "[]"] and inl = appends_Inl [of n _ "[]"]
  have ge: "(5 \<le> n) = True" "(4 \<le> n) = True" using assms(2) by simp_all
  have full: "ig_pa_format_full c n = (case appends n ps [] of
      Inl (off, t) \<Rightarrow> Ok (-1, take (if off + 4 < n then off else n - 5) t @ ''...'')
    | Inr t \<Rightarrow> Ok (int (length t), t))"
    using wf unfolding ig_pa_format_full_def ge ps_def by (simp only: if_False if_True)
  have short: "ig_pa_format c n = (case appends n qs [] of
      Inl (off, t) \<Rightarrow> Ok (-1, take (if off + 3 < n then off else n - 4) t @ ''...'')
    | Inr t \<Rightarrow> Ok (int (length t), if c_truncated c \<noteq> 0 \<and> length t + 4 < n then t @ ''<-?'' else t))"
    using wf unfolding ig_pa_format_def ge qs_def by (simp only: if_False if_True)
  have cut: "\<exists>k. take j (take (n - 1) u) = take k u \<and> k \<le> j" for j and u :: string
    by (rule exI [of _ "min j (n - 1)"]) (simp add: min_def)
  show ?thesis
  proof (intro conjI impI)
    assume "length (chain_text_full c) < n"
    then show "ig_pa_format_full c n = Ok (int (length (chain_text_full c)), chain_text_full c)"
      using inr [of ps] inl [of ps] wf(1) ps unfolding full by (cases "appends n ps []") auto
  next
    assume "n \<le> length (chain_text_full c)"
    then obtain off where off: "appends n ps [] = Inl (off, take (n - 1) (chain_text_full c))" "off < n"
      using inr [of ps] inl [of ps] wf(1) ps by (cases "appends n ps []") auto
    let ?j = "if off + 4 < n then off else n - 5"
    obtain k where "take ?j (take (n - 1) (chain_text_full c)) = take k (chain_text_full c)" "k \<le> ?j" using cut by blast
    then show "\<exists>k. ig_pa_format_full c n = Ok (-1, take k (chain_text_full c) @ ''...'') \<and> k + 3 < n"
      using assms(2) unfolding full off(1) by (intro exI [of _ k]) (auto split: if_splits)
  next
    assume "length (chain_text c) < n"
    then have "appends n qs [] = Inr (chain_text c)"
      using inr [of qs] inl [of qs] wf(1) qs by (cases "appends n qs []") auto
    then show "\<exists>m. ig_pa_format c n = Ok (int (length (chain_text c)), chain_text c @ m)
        \<and> m \<in> {[], ''<-?''} \<and> length (chain_text c @ m) < n"
      using \<open>length (chain_text c) < n\<close> unfolding short by auto
  next
    assume "n \<le> length (chain_text c)"
    then obtain off where off: "appends n qs [] = Inl (off, take (n - 1) (chain_text c))" "off < n"
      using inr [of qs] inl [of qs] wf(1) qs by (cases "appends n qs []") auto
    let ?j = "if off + 3 < n then off else n - 4"
    obtain k where "take ?j (take (n - 1) (chain_text c)) = take k (chain_text c)" "k \<le> ?j" using cut by blast
    then show "\<exists>k. ig_pa_format c n = Ok (-1, take k (chain_text c) @ ''...'') \<and> k + 3 < n"
      using assms(2) unfolding short off(1) by (intro exI [of _ k]) (auto split: if_splits)
  qed
qed

theorem chain_formats_bounded_witness:
  "ig_pa_format_full zero_chain 8 = Ok (-1, ''(no...'') \<or> ig_pa_format_full zero_chain 11 = Ok (10, ''(no chain)'')"
  using chain_formats_bounded [OF zero_chain_wf, of 11] by (simp add: chain_text_full_def zero_chain_def)

end
