(* ===== verification/Pid_Cache.thy ===== *)
theory Pid_Cache
  imports Pid_Ancestry
begin

text \<open>
  The cache of resolved chains in \<^verbatim>\<open>Agent/src/scanner/pid_ancestry.c\<close> against its contract: a list of
  at most \<open>capacity\<close> entries in the order of their last use.  The slots, the in-use flags, the
  counter and the linked list of the code are one representation of that list.
\<close>

section \<open>The abstract cache\<close>

type_synonym pa_entry = "u32 \<times> u64 \<times> ig_pid_chain"

text \<open>
  A use of the cache for process \<open>p\<close> that started at \<open>ticks\<close>: an entry of the same process answers
  and becomes the most recent; otherwise the fresh chain does, replacing an entry of an earlier
  process with the same pid, or else the least recently used one when the cache is full.
\<close>

definition lru_use :: "nat \<Rightarrow> u32 \<Rightarrow> u64 \<Rightarrow> ig_pid_chain \<Rightarrow> pa_entry list \<Rightarrow> ig_pid_chain \<times> pa_entry list" where
  "lru_use cap p ticks fresh xs =
     (let others = filter (\<lambda>(q, _). q \<noteq> p) xs
      in (case List.find (\<lambda>(q, _). q = p) xs of
            Some (q, t, ch) \<Rightarrow>
              if t = ticks then (ch, (q, t, ch) # others) else (fresh, (p, ticks, fresh) # others)
          | None \<Rightarrow> (fresh, (p, ticks, fresh) # take (cap - 1) others)))"

section \<open>The representation\<close>

definition entry_of :: "cache_node \<Rightarrow> pa_entry" where
  "entry_of n = (cn_pid n, cn_start_ticks n, cn_chain n)"

definition pa_abs :: "pa_cache \<Rightarrow> pa_entry list" where
  "pa_abs c = map (\<lambda>i. entry_of (pa_nodes c ! i)) (pa_lru c)"

definition pa_inv :: "pa_cache \<Rightarrow> bool" where
  "pa_inv c \<longleftrightarrow> distinct (pa_lru c)
     \<and> set (pa_lru c) = {i. i < length (pa_nodes c) \<and> cn_in_use (pa_nodes c ! i)}
     \<and> pa_count c = int (length (pa_lru c))
     \<and> distinct (map (\<lambda>i. cn_pid (pa_nodes c ! i)) (pa_lru c))"

lemma pa_inv_length: "pa_inv c \<Longrightarrow> length (pa_lru c) \<le> length (pa_nodes c)"
proof -
  assume inv: "pa_inv c"
  then have "set (pa_lru c) \<subseteq> {..< length (pa_nodes c)}" by (auto simp: pa_inv_def)
  then have "card (set (pa_lru c)) \<le> length (pa_nodes c)" by (metis card_lessThan card_mono finite_lessThan)
  moreover have "card (set (pa_lru c)) = length (pa_lru c)" using inv distinct_card unfolding pa_inv_def by blast
  ultimately show ?thesis by simp
qed

lemma pa_inv_init: "ig_pa_cache_init a cap zero_cache = (rc, c) \<Longrightarrow> pa_inv c"
  by (auto simp: ig_pa_cache_init_def zero_cache_def pa_inv_def zero_node_def split: if_splits)

lemma pa_inv_lookups [simp]:
  "pa_inv (c\<lparr>pa_lookups := n\<rparr>) = pa_inv c" "pa_inv (c\<lparr>pa_hits := n\<rparr>) = pa_inv c"
  "pa_inv (c\<lparr>pa_misses := n\<rparr>) = pa_inv c" "pa_inv (c\<lparr>pa_evictions := n\<rparr>) = pa_inv c"
  "pa_abs (c\<lparr>pa_lookups := n\<rparr>) = pa_abs c" "pa_abs (c\<lparr>pa_hits := n\<rparr>) = pa_abs c"
  "pa_abs (c\<lparr>pa_misses := n\<rparr>) = pa_abs c" "pa_abs (c\<lparr>pa_evictions := n\<rparr>) = pa_abs c"
  by (simp_all add: pa_inv_def pa_abs_def)

text \<open>Taking one node out of a list with distinct keys.\<close>

lemma map_remove1_key:
  assumes "distinct xs" and "distinct (map k xs)" and "n \<in> set xs" and "\<And>i. key (f i) = k i"
  shows "map f (remove1 n xs) = filter (\<lambda>y. key y \<noteq> k n) (map f xs)"
  using assms(1-3)
proof (induction xs)
  case (Cons a xs)
  show ?case
  proof (cases "a = n")
    case True
    have "k i \<noteq> k n" if "i \<in> set xs" for i
      using Cons.prems(2) True that by (force simp: image_iff)
    then have "filter (\<lambda>i. k i \<noteq> k n) xs = xs" by (simp add: filter_id_conv)
    then show ?thesis using True by (simp add: filter_map o_def assms(4))
  next
    case False
    then have "k a \<noteq> k n" using Cons.prems by auto
    with False Cons show ?thesis by (simp add: assms(4))
  qed
qed simp

lemma cache_find_Some:
  assumes "cache_find c p = Some n"
  shows "n < length (pa_nodes c)" "cn_in_use (pa_nodes c ! n)" "cn_pid (pa_nodes c ! n) = p"
  using assms by (auto simp: cache_find_def find_Some_iff)

lemma cache_find_None:
  "cache_find c p = None \<Longrightarrow> i < length (pa_nodes c) \<Longrightarrow> cn_in_use (pa_nodes c ! i) \<Longrightarrow> cn_pid (pa_nodes c ! i) \<noteq> p"
  by (auto simp: cache_find_def find_None_iff)

lemma find_map_key:
  assumes "distinct (map k xs)" and "n \<in> set xs" and "\<And>i. P (f i) \<longleftrightarrow> k i = k n"
  shows "List.find P (map f xs) = Some (f n)"
  using assms(1,2)
proof (induction xs)
  case (Cons a xs)
  then show ?case using assms(3) by (cases "a = n") (auto simp: image_iff)
qed simp

text \<open>The linear search over the slots finds what the search in the list of entries finds.\<close>

lemma cache_find_abs:
  assumes "pa_inv c"
  shows "List.find (\<lambda>(q, _). q = p) (pa_abs c) = map_option (\<lambda>n. entry_of (pa_nodes c ! n)) (cache_find c p)"
proof (cases "cache_find c p")
  case None
  have "\<forall>i \<in> set (pa_lru c). cn_pid (pa_nodes c ! i) \<noteq> p"
    using assms cache_find_None [OF None] by (auto simp: pa_inv_def)
  then show ?thesis using None by (auto simp: find_None_iff pa_abs_def entry_of_def)
next
  case (Some n)
  note n = cache_find_Some [OF Some]
  have "n \<in> set (pa_lru c)" "distinct (map (\<lambda>i. cn_pid (pa_nodes c ! i)) (pa_lru c))"
    using n assms by (simp_all add: pa_inv_def)
  then show ?thesis
    using find_map_key [of "\<lambda>i. cn_pid (pa_nodes c ! i)" "pa_lru c" n "\<lambda>(q, _). q = p" "\<lambda>i. entry_of (pa_nodes c ! i)"] n(3)
    by (simp add: pa_abs_def Some entry_of_def)
qed

lemma free_slot_spec:
  assumes "pa_inv c" and "n \<in> set (pa_lru c)"
  shows "pa_inv (free_slot n c)"
    and "pa_abs (free_slot n c) = filter (\<lambda>(q, _). q \<noteq> cn_pid (pa_nodes c ! n)) (pa_abs c)"
    and "n \<notin> set (pa_lru (free_slot n c))" "\<not> cn_in_use (pa_nodes (free_slot n c) ! n)"
    and "length (pa_nodes (free_slot n c)) = length (pa_nodes c)"
proof -
  have inv: "distinct (pa_lru c)" "set (pa_lru c) = {i. i < length (pa_nodes c) \<and> cn_in_use (pa_nodes c ! i)}"
    "pa_count c = int (length (pa_lru c))" "distinct (map (\<lambda>i. cn_pid (pa_nodes c ! i)) (pa_lru c))"
    using assms(1) by (simp_all add: pa_inv_def)
  have n: "n < length (pa_nodes c)" using inv(2) assms(2) by auto
  let ?c = "free_slot n c"
  have lru: "pa_lru ?c = remove1 n (pa_lru c)" by (simp add: free_slot_def lru_unlink_def Let_def)
  have nodes: "pa_nodes ?c = (pa_nodes c)[n := (pa_nodes c ! n)\<lparr>cn_in_use := False\<rparr>]"
    by (simp add: free_slot_def lru_unlink_def Let_def)
  have notin: "n \<notin> set (remove1 n (pa_lru c))" using inv(1) by simp
  have same: "pa_nodes ?c ! i = pa_nodes c ! i" if "i \<in> set (remove1 n (pa_lru c))" for i
    using that notin by (metis nodes nth_list_update_neq)
  have pids: "map (\<lambda>i. cn_pid (pa_nodes ?c ! i)) (remove1 n (pa_lru c)) = map (\<lambda>i. cn_pid (pa_nodes c ! i)) (remove1 n (pa_lru c))"
    using same by (intro map_cong) auto
  have "distinct (map (\<lambda>i. cn_pid (pa_nodes c ! i)) (remove1 n (pa_lru c)))"
    using inv(1,4) unfolding distinct_map by (auto intro: inj_on_subset)
  moreover have "set (remove1 n (pa_lru c)) = {i. i < length (pa_nodes ?c) \<and> cn_in_use (pa_nodes ?c ! i)}"
  proof -
    have "set (remove1 n (pa_lru c)) = set (pa_lru c) - {n}" using inv(1) by simp
    also have "\<dots> = {i. i < length (pa_nodes ?c) \<and> cn_in_use (pa_nodes ?c ! i)}"
    proof (rule set_eqI)
      fix i
      show "i \<in> set (pa_lru c) - {n} \<longleftrightarrow> i \<in> {i. i < length (pa_nodes ?c) \<and> cn_in_use (pa_nodes ?c ! i)}"
        using n by (cases "i = n") (simp_all add: inv(2) nodes)
    qed
    finally show ?thesis .
  qed
  moreover have "pa_count ?c = int (length (remove1 n (pa_lru c)))"
  proof -
    obtain k where "length (pa_lru c) = Suc k" using assms(2) by (cases "pa_lru c") auto
    then show ?thesis
      using inv(3) assms(2) by (simp add: free_slot_def lru_unlink_def Let_def length_remove1)
  qed
  ultimately show "pa_inv ?c" using inv(1) unfolding pa_inv_def lru pids by simp
  have "pa_abs ?c = map (\<lambda>i. entry_of (pa_nodes c ! i)) (remove1 n (pa_lru c))"
    unfolding pa_abs_def lru using same by (intro map_cong) auto
  also have "\<dots> = filter (\<lambda>y. fst y \<noteq> cn_pid (pa_nodes c ! n)) (map (\<lambda>i. entry_of (pa_nodes c ! i)) (pa_lru c))"
    using inv(1,4) assms(2) by (intro map_remove1_key) (auto simp: entry_of_def)
  finally show "pa_abs ?c = filter (\<lambda>(q, _). q \<noteq> cn_pid (pa_nodes c ! n)) (pa_abs c)"
    by (simp add: pa_abs_def case_prod_unfold)
  show "n \<notin> set (pa_lru ?c)" unfolding lru by (rule notin)
  show "\<not> cn_in_use (pa_nodes ?c ! n)" "length (pa_nodes ?c) = length (pa_nodes c)" using n by (simp_all add: nodes)
qed

text \<open>Storing a chain whose pid is not in the cache.\<close>

lemma store_in_slot:
  fixes ticks :: u64 and out :: ig_pid_chain
  assumes "pa_inv c" and "n < length (pa_nodes c)" and "n \<notin> set (pa_lru c)" and "p \<notin> fst ` set (pa_abs c)"
  defines "c' \<equiv> c\<lparr>pa_nodes := (pa_nodes c)[n := \<lparr>cn_pid = p, cn_start_ticks = ticks, cn_chain = out, cn_in_use = True\<rparr>],
      pa_lru := n # pa_lru c, pa_count := pa_count c + 1\<rparr>"
  shows "pa_inv c'" "pa_abs c' = (p, ticks, out) # pa_abs c"
proof -
  have inv: "distinct (pa_lru c)" "set (pa_lru c) = {i. i < length (pa_nodes c) \<and> cn_in_use (pa_nodes c ! i)}"
    "pa_count c = int (length (pa_lru c))" "distinct (map (\<lambda>i. cn_pid (pa_nodes c ! i)) (pa_lru c))"
    using assms(1) by (simp_all add: pa_inv_def)
  have same: "pa_nodes c' ! i = pa_nodes c ! i" if "i \<in> set (pa_lru c)" for i
  proof -
    have "i \<noteq> n" using that assms(3) by blast
    then show ?thesis by (simp add: c'_def)
  qed
  have new: "pa_nodes c' ! n = \<lparr>cn_pid = p, cn_start_ticks = ticks, cn_chain = out, cn_in_use = True\<rparr>"
    using assms(2) by (simp add: c'_def)
  have lru: "pa_lru c' = n # pa_lru c" by (simp add: c'_def)
  have m: "map (\<lambda>i. f (pa_nodes c' ! i)) (pa_lru c) = map (\<lambda>i. f (pa_nodes c ! i)) (pa_lru c)" for f :: "cache_node \<Rightarrow> 'x"
    using same by (intro map_cong) auto
  show "pa_abs c' = (p, ticks, out) # pa_abs c"
    by (simp add: pa_abs_def lru same new entry_of_def)
  have "p \<notin> set (map (\<lambda>i. cn_pid (pa_nodes c ! i)) (pa_lru c))"
    using assms(4) by (auto simp: pa_abs_def entry_of_def image_image)
  moreover have "set (pa_lru c') = {i. i < length (pa_nodes c') \<and> cn_in_use (pa_nodes c' ! i)}"
    using inv(2) assms(2) unfolding lru by (auto simp: c'_def nth_list_update)
  moreover have "map (\<lambda>i. cn_pid (pa_nodes c' ! i)) (pa_lru c') = p # map (\<lambda>i. cn_pid (pa_nodes c ! i)) (pa_lru c)"
    using m [of cn_pid] by (simp add: lru new)
  moreover have "pa_count c' = int (length (pa_lru c'))" using inv(3) by (simp add: c'_def)
  ultimately have d: "distinct (map (\<lambda>i. cn_pid (pa_nodes c' ! i)) (pa_lru c'))"
    and rest: "set (pa_lru c') = {i. i < length (pa_nodes c') \<and> cn_in_use (pa_nodes c' ! i)}" "pa_count c' = int (length (pa_lru c'))"
    using inv(4) by (simp_all only: distinct.simps not_False_eq_True simp_thms)
  have "distinct (pa_lru c')" using inv(1) assms(3) by (simp add: lru)
  with d rest show "pa_inv c'" unfolding pa_inv_def by blast
qed

lemma butlast_filter_last:
  "distinct (map fst xs) \<Longrightarrow> xs \<noteq> [] \<Longrightarrow> filter (\<lambda>(q, _). q \<noteq> fst (last xs)) xs = butlast xs"
proof (induction xs rule: rev_induct)
  case (snoc x xs)
  have "q \<noteq> fst x" if "(q, r) \<in> set xs" for q r using snoc.prems(1) that by (auto simp: rev_image_eqI)
  then have "filter (\<lambda>(q, _). q \<noteq> fst x) xs = xs" by (auto simp: filter_id_conv)
  then show ?case by (simp add: case_prod_unfold)
qed simp

lemma cache_store_spec:
  assumes "pa_inv c" and "pa_nodes c \<noteq> []" and "p \<notin> fst ` set (pa_abs c)"
  shows "pa_inv (cache_store p ticks out c)"
    "pa_abs (cache_store p ticks out c) = (p, ticks, out) # take (length (pa_nodes c) - 1) (pa_abs c)"
    "length (pa_nodes (cache_store p ticks out c)) = length (pa_nodes c)"
proof -
  let ?find = "List.find (\<lambda>i. \<not> cn_in_use (pa_nodes c ! i)) [0 ..< length (pa_nodes c)]"
  have len: "length (pa_abs c) = length (pa_lru c)" by (simp add: pa_abs_def)
  have "pa_inv (cache_store p ticks out c)
    \<and> pa_abs (cache_store p ticks out c) = (p, ticks, out) # take (length (pa_nodes c) - 1) (pa_abs c)
    \<and> length (pa_nodes (cache_store p ticks out c)) = length (pa_nodes c)"
  proof (cases ?find)
    case (Some n)
    then have n: "n < length (pa_nodes c)" "\<not> cn_in_use (pa_nodes c ! n)" by (auto simp: find_Some_iff)
    then have out: "n \<notin> set (pa_lru c)" using assms(1) by (auto simp: pa_inv_def)
    have "set (pa_lru c) \<subseteq> {..< length (pa_nodes c)} - {n}" using assms(1) out by (auto simp: pa_inv_def)
    then have "card (set (pa_lru c)) \<le> card ({..< length (pa_nodes c)} - {n})" by (intro card_mono) auto
    moreover have "card (set (pa_lru c)) = length (pa_lru c)" using assms(1) distinct_card unfolding pa_inv_def by blast
    ultimately have room: "length (pa_lru c) \<le> length (pa_nodes c) - 1" using n(1) by simp
    have eq: "cache_store p ticks out c = c\<lparr>pa_nodes := (pa_nodes c)[n := \<lparr>cn_pid = p, cn_start_ticks = ticks, cn_chain = out, cn_in_use = True\<rparr>],
      pa_lru := n # pa_lru c, pa_count := pa_count c + 1\<rparr>"
      using Some by (simp add: cache_store_def cache_alloc_slot_def lru_push_front_def Let_def)
    show ?thesis
      using store_in_slot [OF assms(1) n(1) out assms(3), of ticks out] room len by (simp add: eq)
  next
    case None
    then have "\<forall>i < length (pa_nodes c). cn_in_use (pa_nodes c ! i)" by (auto simp: find_None_iff)
    then have all: "set (pa_lru c) = {..< length (pa_nodes c)}" using assms(1) by (auto simp: pa_inv_def)
    then have full: "length (pa_lru c) = length (pa_nodes c)"
      using assms(1) by (metis card_lessThan distinct_card pa_inv_def)
    then have ne: "pa_lru c \<noteq> []" using assms(2) by auto
    let ?v = "last (pa_lru c)" and ?c = "free_slot (last (pa_lru c)) c"
    have v: "?v \<in> set (pa_lru c)" using ne by simp
    note fs = free_slot_spec [OF assms(1) v]
    have pabs: "pa_abs ?c = butlast (pa_abs c)"
    proof -
      have "map fst (pa_abs c) = map (\<lambda>i. cn_pid (pa_nodes c ! i)) (pa_lru c)" by (simp add: pa_abs_def entry_of_def)
      then have "distinct (map fst (pa_abs c))" using assms(1) by (simp add: pa_inv_def)
      moreover have "fst (last (pa_abs c)) = cn_pid (pa_nodes c ! ?v)" using ne by (simp add: pa_abs_def last_map entry_of_def)
      ultimately show ?thesis using butlast_filter_last [of "pa_abs c"] fs(2) ne by (simp add: pa_abs_def)
    qed
    have notp: "p \<notin> fst ` set (pa_abs (?c\<lparr>pa_evictions := pa_evictions c + 1\<rparr>))"
      using assms(3) pabs by (auto dest: in_set_butlastD)
    have ev: "pa_evictions ?c = pa_evictions c" by (simp add: free_slot_def lru_unlink_def Let_def)
    have eq: "cache_store p ticks out c = (let c = ?c\<lparr>pa_evictions := pa_evictions c + 1\<rparr> in
      c\<lparr>pa_nodes := (pa_nodes c)[?v := \<lparr>cn_pid = p, cn_start_ticks = ticks, cn_chain = out, cn_in_use = True\<rparr>],
      pa_lru := ?v # pa_lru c, pa_count := pa_count c + 1\<rparr>)"
      using None ne ev by (simp add: cache_store_def cache_alloc_slot_def lru_push_front_def Let_def)
    have "?v < length (pa_nodes c)" using all v by auto
    then show ?thesis
      using store_in_slot [of "?c\<lparr>pa_evictions := pa_evictions c + 1\<rparr>" ?v p ticks out] fs notp pabs full len
      by (simp add: eq Let_def butlast_conv_take)
  qed
  then show "pa_inv (cache_store p ticks out c)"
    "pa_abs (cache_store p ticks out c) = (p, ticks, out) # take (length (pa_nodes c) - 1) (pa_abs c)"
    "length (pa_nodes (cache_store p ticks out c)) = length (pa_nodes c)" by simp_all
qed

section \<open>The cached resolver\<close>

lemma use_hit_spec:
  assumes "pa_inv c" and "n \<in> set (pa_lru c)"
  shows "pa_inv (lru_push_front n (lru_unlink n c))"
    and "pa_abs (lru_push_front n (lru_unlink n c))
      = entry_of (pa_nodes c ! n) # filter (\<lambda>(q, _). q \<noteq> cn_pid (pa_nodes c ! n)) (pa_abs c)"
proof -
  let ?c = "lru_push_front n (lru_unlink n c)"
  have inv: "distinct (pa_lru c)" "set (pa_lru c) = {i. i < length (pa_nodes c) \<and> cn_in_use (pa_nodes c ! i)}"
    "pa_count c = int (length (pa_lru c))" "distinct (map (\<lambda>i. cn_pid (pa_nodes c ! i)) (pa_lru c))"
    using assms(1) by (simp_all add: pa_inv_def)
  have parts: "pa_lru ?c = n # remove1 n (pa_lru c)" "pa_nodes ?c = pa_nodes c" "pa_count ?c = pa_count c"
    by (simp_all add: lru_push_front_def lru_unlink_def)
  have perm: "set (n # remove1 n (pa_lru c)) = set (pa_lru c)" "distinct (n # remove1 n (pa_lru c))"
    "length (n # remove1 n (pa_lru c)) = length (pa_lru c)"
    using inv(1) assms(2) length_pos_if_in_set [OF assms(2)] by (auto simp: length_remove1)
  have "distinct (map (\<lambda>i. cn_pid (pa_nodes c ! i)) (n # remove1 n (pa_lru c)))"
    using inv(4) perm(1,2) unfolding distinct_map by simp
  then show "pa_inv ?c" using inv perm unfolding pa_inv_def parts by simp
  have "map (\<lambda>i. entry_of (pa_nodes c ! i)) (remove1 n (pa_lru c))
      = filter (\<lambda>y. fst y \<noteq> cn_pid (pa_nodes c ! n)) (map (\<lambda>i. entry_of (pa_nodes c ! i)) (pa_lru c))"
    using inv(1,4) assms(2) by (intro map_remove1_key) (auto simp: entry_of_def)
  then show "pa_abs ?c = entry_of (pa_nodes c ! n) # filter (\<lambda>(q, _). q \<noteq> cn_pid (pa_nodes c ! n)) (pa_abs c)"
    unfolding pa_abs_def parts by (simp add: case_prod_unfold)
qed

lemma resolve_cached_use:
  assumes "pa_inv c" and "pa_initialized c" and "pa_nodes c \<noteq> []"
    and "parse_stat m (pf_stat fs p) (zero_proc_info\<lparr>pi_pid := p\<rparr>) = Some probe"
    and "ig_pa_resolve_cached m fs fs' p c = (out, c')"
  shows "pa_inv c' \<and> length (pa_nodes c') = length (pa_nodes c)
    \<and> (out, pa_abs c') = lru_use (length (pa_nodes c)) p (pi_start_ticks probe) (ig_pa_resolve m fs' p) (pa_abs c)"
proof -
  let ?t = "pi_start_ticks probe" and ?c = "c\<lparr>pa_lookups := pa_lookups c + 1\<rparr>" and ?fresh = "ig_pa_resolve m fs' p"
  have run: "ig_pa_resolve_cached m fs fs' p c =
      (case cache_lookup p ?t c of (Some out, c) \<Rightarrow> (out, c) | (None, c) \<Rightarrow> (?fresh, cache_store p ?t ?fresh c))"
    using assms(2-4) unfolding ig_pa_resolve_cached_def Let_def by simp
  have inv: "pa_inv ?c" "pa_abs ?c = pa_abs c" "pa_nodes ?c = pa_nodes c" using assms(1) by simp_all
  have find: "cache_find ?c p = cache_find c p" by (simp add: cache_find_def)
  note abs = cache_find_abs [OF assms(1), of p]
  show ?thesis
  proof (cases "cache_find c p")
    case None
    then have l: "cache_lookup p ?t c = (None, ?c\<lparr>pa_misses := pa_misses c + 1\<rparr>)"
      by (simp add: cache_lookup_def Let_def find)
    have notp: "p \<notin> fst ` set (pa_abs c)" using abs None by (force simp: find_None_iff)
    then have "filter (\<lambda>(q, _). q \<noteq> p) (pa_abs c) = pa_abs c" by (force simp: filter_id_conv)
    moreover have "pa_inv (?c\<lparr>pa_misses := pa_misses c + 1\<rparr>)" "pa_nodes (?c\<lparr>pa_misses := pa_misses c + 1\<rparr>) \<noteq> []"
      "p \<notin> fst ` set (pa_abs (?c\<lparr>pa_misses := pa_misses c + 1\<rparr>))" using inv(1) assms(3) notp by simp_all
    note st = cache_store_spec [OF this, of ?t ?fresh]
    have "out = ?fresh" "c' = cache_store p ?t ?fresh (?c\<lparr>pa_misses := pa_misses c + 1\<rparr>)"
      using assms(5) by (auto simp: run l)
    ultimately show ?thesis using st abs None by (simp add: lru_use_def Let_def)
  next
    case (Some n)
    note n = cache_find_Some [OF Some]
    then have mem: "n \<in> set (pa_lru ?c)" using assms(1) by (simp add: pa_inv_def)
    show ?thesis
    proof (cases "cn_start_ticks (pa_nodes c ! n) = ?t")
      case True
      then have l: "cache_lookup p ?t c = (Some (cn_chain (pa_nodes c ! n)),
          (lru_push_front n (lru_unlink n ?c))\<lparr>pa_hits := pa_hits c + 1\<rparr>)"
        using Some by (simp add: cache_lookup_def Let_def find lru_push_front_def lru_unlink_def)
      have "length (pa_nodes (lru_push_front n (lru_unlink n ?c))) = length (pa_nodes c)"
        by (simp add: lru_push_front_def lru_unlink_def)
      with use_hit_spec [OF inv(1) mem] abs Some True n(3) assms(5) show ?thesis
        by (simp add: run l lru_use_def Let_def entry_of_def) auto
    next
      case False
      then have l: "cache_lookup p ?t c = (None, (free_slot n ?c)\<lparr>pa_misses := pa_misses c + 1\<rparr>)"
        using Some by (simp add: cache_lookup_def Let_def find free_slot_def lru_unlink_def)
      note fs = free_slot_spec [OF inv(1) mem]
      let ?others = "filter (\<lambda>(q, _). q \<noteq> p) (pa_abs c)"
      have pabs: "pa_abs ((free_slot n ?c)\<lparr>pa_misses := pa_misses c + 1\<rparr>) = ?others"
        using fs(2) n(3) by simp
      have notp: "p \<notin> fst ` set ?others" by auto
      have "length ?others \<le> length (pa_nodes c) - 1"
      proof -
        have "length (pa_abs (free_slot n ?c)) = length (pa_lru c) - 1"
          using mem by (simp add: pa_abs_def free_slot_def lru_unlink_def Let_def length_remove1)
        then show ?thesis using fs(2) n(3) pa_inv_length [OF assms(1)] by simp
      qed
      then have takeall: "take (length (pa_nodes c) - 1) ?others = ?others" by simp
      have ne: "pa_nodes ((free_slot n ?c)\<lparr>pa_misses := pa_misses c + 1\<rparr>) \<noteq> []"
      proof -
        have "length (pa_nodes (free_slot n ?c)) = length (pa_nodes c)" using fs(5) by simp
        moreover have "0 < length (pa_nodes c)" using assms(3) by simp
        ultimately show ?thesis by (auto simp del: length_greater_0_conv)
      qed
      have "pa_inv ((free_slot n ?c)\<lparr>pa_misses := pa_misses c + 1\<rparr>)" using fs(1) by simp
      note st = cache_store_spec [OF this ne, unfolded pabs, OF notp, of ?t ?fresh]
      have "out = ?fresh" "c' = cache_store p ?t ?fresh ((free_slot n ?c)\<lparr>pa_misses := pa_misses c + 1\<rparr>)"
        using assms(5) by (auto simp: run l)
      moreover have "length (pa_nodes ((free_slot n ?c)\<lparr>pa_misses := pa_misses c + 1\<rparr>)) = length (pa_nodes c)"
        using fs(5) by simp
      ultimately show ?thesis
        using st abs Some False n(3) takeall by (simp add: lru_use_def Let_def entry_of_def)
    qed
  qed
qed


definition cache_of_two :: pa_cache where
  "cache_of_two = snd (ig_pa_cache_init True 2 zero_cache)"


definition exec_of :: "string \<Rightarrow> proc_fs" where
  "exec_of prog = \<lparr>pf_stat = (\<lambda>p. if p = 42 then Some ''42 (sh) S 1 42 42 0'' else None), pf_status = (\<lambda>_. None),
     pf_exe = (\<lambda>p. if p = 42 then Some prog else None), pf_cmdline = (\<lambda>_. None)\<rparr>"

lemma exec_of_stat:
  obtains i where "parse_stat boot_meta_init (pf_stat (exec_of prog) 42) (zero_proc_info\<lparr>pi_pid := 42\<rparr>) = Some i"
    "pi_ppid i = 1" "\<And>prog'. pf_stat (exec_of prog') = pf_stat (exec_of prog)"
proof -
  have eq: "pf_stat (exec_of a) = pf_stat (exec_of b)" for a b by (simp add: exec_of_def)
  have p: "field_at (stat_fields 19 '' 1 42 42 0'') 4 = ''1''"
    by (simp add: field_at_def numeral_eq_Suc space_def)
  have "strtol ''1'' = 1"
    by (simp add: strtol_def scan_number_def isspace_def isdigit_def digits_val_def digit_val_def LONG_MAX_def Let_def)
  then have "\<exists>i. parse_stat boot_meta_init (Some ''42 (sh) S 1 42 42 0'') (zero_proc_info\<lparr>pi_pid := 42\<rparr>) = Some i \<and> pi_ppid i = 1"
    using p by (simp add: parse_stat_def read_file_buf_def last_rparen_def first_lparen_def cstr_def nul_def Let_def space_def
        del: stat_fields.simps)
  then show thesis using that eq by (auto simp: exec_of_def)
qed

lemma exec_of_resolve:
  "c_chain (ig_pa_resolve boot_meta_init (exec_of prog) 42) ! 0 = the (load_proc_info boot_meta_init (exec_of prog) 42)"
  "pi_exe (the (load_proc_info boot_meta_init (exec_of prog) 42)) = cstr (take 255 prog)"
proof -
  obtain i where i: "parse_stat boot_meta_init (pf_stat (exec_of prog) 42) (zero_proc_info\<lparr>pi_pid := 42\<rparr>) = Some i" "pi_ppid i = 1"
    by (rule exec_of_stat)
  have none: "pf_status (exec_of prog) 42 = None" "pf_cmdline (exec_of prog) 42 = None" "pf_exe (exec_of prog) 42 = Some prog"
    by (simp_all add: exec_of_def)
  have l: "load_proc_info boot_meta_init (exec_of prog) 42
      = Some (i\<lparr>pi_exe := cstr (take 255 prog), pi_cmdline := []\<rparr>)"
    by (simp add: load_proc_info_def i none parse_status_uid_def parse_exe_def parse_cmdline_def read_file_buf_def pa_lens)
  have w: "walk (load_proc_info boot_meta_init (exec_of prog)) pa_root pi_ppid (Suc n) 42
      = ([i\<lparr>pi_exe := cstr (take 255 prog), pi_cmdline := []\<rparr>], False)" for n
    by (simp add: l pa_root_def i)
  show "c_chain (ig_pa_resolve boot_meta_init (exec_of prog) 42) ! 0 = the (load_proc_info boot_meta_init (exec_of prog) 42)"
    using w [of 15] by (simp add: ig_pa_resolve_def pa_chain_def l pa_lens del: walk.simps)
  show "pi_exe (the (load_proc_info boot_meta_init (exec_of prog) 42)) = cstr (take 255 prog)" by (simp add: l)
qed

text \<open>A cached chain survives an \<^verbatim>\<open>exec\<close>: the key is the pid with its start time, which an
  \<^verbatim>\<open>exec\<close> keeps, so the chain of a process that has since started another program still names the
  old executable, although \<^verbatim>\<open>/proc\<close> names the new one.\<close>

theorem cached_chain_survives_exec:
  "let sh = exec_of ''/bin/sh''; evil = exec_of ''/tmp/evil'';
       c = snd (ig_pa_resolve_cached boot_meta_init sh sh 42 cache_of_two)
   in pi_exe (c_chain (fst (ig_pa_resolve_cached boot_meta_init evil evil 42 c)) ! 0) = ''/bin/sh''
    \<and> pi_exe (c_chain (ig_pa_resolve boot_meta_init evil 42) ! 0) = ''/tmp/evil''"
proof -
  let ?sh = "exec_of ''/bin/sh''" and ?evil = "exec_of ''/tmp/evil''"
  obtain i where i: "parse_stat boot_meta_init (pf_stat ?sh 42) (zero_proc_info\<lparr>pi_pid := 42\<rparr>) = Some i"
    and same: "\<And>prog'. pf_stat (exec_of prog') = pf_stat ?sh"
    using exec_of_stat [of "''/bin/sh''"] by metis
  have i': "parse_stat boot_meta_init (pf_stat ?evil 42) (zero_proc_info\<lparr>pi_pid := 42\<rparr>) = Some i" using i same by metis
  obtain out c where r: "ig_pa_resolve_cached boot_meta_init ?sh ?sh 42 cache_of_two = (out, c)" by fastforce
  obtain out' c' where r': "ig_pa_resolve_cached boot_meta_init ?evil ?evil 42 c = (out', c')" by fastforce
  have inv: "pa_inv cache_of_two" using pa_inv_init [of True 2] by (metis cache_of_two_def prod.collapse)
  have c0: "pa_initialized cache_of_two" "pa_nodes cache_of_two \<noteq> []" "pa_abs cache_of_two = []" "length (pa_nodes cache_of_two) = 2"
    by (simp_all add: cache_of_two_def ig_pa_cache_init_def zero_cache_def pa_abs_def)
  note u = resolve_cached_use [OF inv c0(1,2) i r]
  then have abs: "pa_abs c = [(42, pi_start_ticks i, ig_pa_resolve boot_meta_init ?sh 42)]"
    by (simp add: lru_use_def c0(3))
  have init: "pa_initialized c"
    using r c0 by (auto simp: ig_pa_resolve_cached_def cache_lookup_def cache_store_def cache_alloc_slot_def free_slot_def
        lru_unlink_def lru_push_front_def Let_def split: option.splits prod.splits if_splits)
  have "pa_nodes c \<noteq> []" using u c0(4) by auto
  from resolve_cached_use [OF conjunct1 [OF u] init this i' r'] abs
  have "out' = ig_pa_resolve boot_meta_init ?sh 42" by (simp add: lru_use_def)
  then show ?thesis using r r' exec_of_resolve by (simp add: Let_def cstr_def nul_def)
qed

end
