(* ===== verification/Config.thy ===== *)
theory Config
  imports Monitor C_Text
begin

text \<open>
  The configuration file: \<^verbatim>\<open>Agent/src/ig_config.c\<close>.  The file is its content, \<open>None\<close> when it cannot be
  opened; it is read in pieces of at most 1023 characters, as \<^verbatim>\<open>fgets\<close> gives them.
\<close>

definition IG_LOG_FILE :: string where "IG_LOG_FILE = ''/var/log/ig_monitor.log''"

definition trim_left_char :: "char \<Rightarrow> bool" where
  "trim_left_char c \<longleftrightarrow> c = space \<or> c = tab"

definition trim_right_char :: "char \<Rightarrow> bool" where
  "trim_right_char c \<longleftrightarrow> c = space \<or> c = tab \<or> c = newline \<or> c = cr"

definition trim :: "string \<Rightarrow> string" where
  "trim s = drop_trailing trim_right_char (dropWhile trim_left_char s)"

datatype config_section = SECTION_GLOBAL | SECTION_WATCH | SECTION_PROTECT

definition section_of :: "string \<Rightarrow> config_section" where
  "section_of line =
     (if take 7 line = ''[watch]'' \<or> take 15 line = ''[watch_inotify]'' then SECTION_WATCH
      else if take 9 line = ''[protect]'' then SECTION_PROTECT
      else SECTION_GLOBAL)"

definition set_global :: "string \<Rightarrow> string \<Rightarrow> ig_config \<Rightarrow> ig_config" where
  "set_global key val cfg =
     (if key = ''log_file'' then cfg\<lparr>log_file := strncpy0 IG_MAX_PATH val\<rparr>
      else if key = ''syslog'' then cfg\<lparr>log_to_syslog := atoi val\<rparr>
      else if key = ''verbose'' then cfg\<lparr>verbose := atoi val\<rparr>
      else if key = ''daemonize'' then cfg\<lparr>daemonize := atoi val\<rparr>
      else if key = ''ebpf'' then cfg\<lparr>ebpf_enabled := atoi val\<rparr>
      else cfg)"

definition add_watch :: "string \<Rightarrow> string \<Rightarrow> ig_config \<Rightarrow> ig_config" where
  "add_watch key val cfg =
     (if length (watches cfg) < IG_MAX_WATCHES
      then cfg\<lparr>watches := watches cfg @ [\<lparr>w_path = strncpy0 IG_MAX_PATH key,
             w_recursive = (if val = ''recursive'' then 1 else 0)\<rparr>]\<rparr>
      else cfg)"

definition add_protect :: "string \<Rightarrow> ig_config \<Rightarrow> ig_config" where
  "add_protect key cfg =
     (if length (protect_paths cfg) < IG_MAX_PROTECT
      then cfg\<lparr>protect_paths := protect_paths cfg @ [\<lparr>w_path = strncpy0 IG_MAX_PATH key, w_recursive = 0\<rparr>]\<rparr>
      else cfg)"

text \<open>One turn of the loop.\<close>

definition config_line :: "string \<Rightarrow> ig_config \<times> config_section \<Rightarrow> ig_config \<times> config_section" where
  "config_line l st = (case st of (cfg, sec) \<Rightarrow>
     let line = trim (cstr l)
     in if line = [] \<or> hd line = CHR ''#'' \<or> hd line = CHR '';'' then (cfg, sec)
        else if hd line = CHR ''['' then (cfg, section_of line)
        else (case split_at (CHR ''='') line of
            None \<Rightarrow> (cfg, sec)
          | Some (k, v) \<Rightarrow>
              let key = trim k; val = trim v
              in (case sec of
                    SECTION_GLOBAL \<Rightarrow> (set_global key val cfg, sec)
                  | SECTION_WATCH \<Rightarrow> (add_watch key val cfg, sec)
                  | SECTION_PROTECT \<Rightarrow> (add_protect key cfg, sec))))"

definition default_config :: ig_config where
  "default_config = \<lparr>daemonize = 1, log_file = IG_LOG_FILE, log_to_syslog = 0, verbose = 0, ebpf_enabled = 1,
     watches = [], protect_paths = []\<rparr>"

definition ig_config_load :: "string option \<Rightarrow> int \<times> ig_config" where
  "ig_config_load file =
     (case file of
        None \<Rightarrow> (-1, default_config)
      | Some content \<Rightarrow> (0, fst (fold config_line (fgets_lines 1024 content) (default_config, SECTION_GLOBAL))))"

section \<open>What any file can make of the configuration\<close>

definition config_ok :: "ig_config \<Rightarrow> bool" where
  "config_ok cfg \<longleftrightarrow> length (watches cfg) \<le> IG_MAX_WATCHES \<and> length (protect_paths cfg) \<le> IG_MAX_PROTECT
     \<and> has_no_nul (log_file cfg) \<and> length (log_file cfg) < IG_MAX_PATH
     \<and> (\<forall>w \<in> set (watches cfg) \<union> set (protect_paths cfg). has_no_nul (w_path w) \<and> length (w_path w) < IG_MAX_PATH
          \<and> w_recursive w \<in> {0, 1})"

lemma strncpy0_path: "length (strncpy0 IG_MAX_PATH s) < IG_MAX_PATH"
  by (rule length_strncpy0) (simp add: IG_MAX_PATH_def)

lemma default_config_ok: "config_ok default_config"
  by (simp add: config_ok_def default_config_def IG_LOG_FILE_def has_no_nul_def nul_def IG_MAX_PATH_def)

lemma config_line_ok: "config_ok cfg \<Longrightarrow> config_ok (fst (config_line l (cfg, sec)))"
  using strncpy0_path
  by (auto simp: config_line_def set_global_def add_watch_def add_protect_def config_ok_def Let_def
      split: option.splits config_section.splits)

lemma config_lines_ok: "config_ok (fst st) \<Longrightarrow> config_ok (fst (fold config_line ls st))"
proof (induction ls arbitrary: st)
  case (Cons l ls)
  then show ?case using config_line_ok [of "fst st" l "snd st"] by simp
qed simp

section \<open>Reading back what was written\<close>

text \<open>A field that survives trimming and the separators of the format.\<close>

definition plain :: "string \<Rightarrow> bool" where
  "plain s \<longleftrightarrow> s \<noteq> [] \<and> has_no_nul s \<and> newline \<notin> set s
     \<and> \<not> trim_left_char (hd s) \<and> \<not> trim_right_char (last s)"

definition plain_path :: "string \<Rightarrow> bool" where
  "plain_path s \<longleftrightarrow> plain s \<and> CHR ''='' \<notin> set s \<and> hd s \<notin> {CHR ''#'', CHR '';'', CHR ''[''} \<and> length s < 1000"

definition setting :: "string \<Rightarrow> string \<Rightarrow> string" where
  "setting k v = k @ '' = '' @ v"

definition watch_line :: "ig_watch_entry \<Rightarrow> string" where
  "watch_line w = setting (w_path w) (if w_recursive w = 1 then ''recursive'' else ''single'')"

definition protect_line :: "ig_watch_entry \<Rightarrow> string" where
  "protect_line w = setting (w_path w) ''file''"

definition config_text_lines :: "ig_config \<Rightarrow> string list" where
  "config_text_lines cfg =
     [''# KN-IG'', setting ''daemonize'' (dec_int (daemonize cfg)), setting ''log_file'' (log_file cfg),
      setting ''syslog'' (dec_int (log_to_syslog cfg)), setting ''verbose'' (dec_int (verbose cfg)),
      setting ''ebpf'' (dec_int (ebpf_enabled cfg)), [], ''[watch]'']
     @ map watch_line (watches cfg) @ [''[protect]''] @ map protect_line (protect_paths cfg)"

definition config_text :: "ig_config \<Rightarrow> string" where
  "config_text cfg = concat (map (\<lambda>l. l @ [newline]) (config_text_lines cfg))"

lemma trim_plain: "plain s \<Longrightarrow> trim s = s"
  by (cases s) (auto simp: trim_def plain_def drop_trailing_id)

lemma trim_around:
  assumes "plain s"
  shows "trim (space # s) = s" "trim (s @ [space]) = s" "trim (s @ [newline]) = s"
proof -
  have d: "dropWhile trim_left_char (s @ t) = s @ t" for t using assms by (cases s) (auto simp: plain_def)
  have sp: "trim_left_char space" "trim_right_char space" "trim_right_char newline"
    by (simp_all add: trim_left_char_def trim_right_char_def)
  have "drop_trailing trim_right_char s = s" using assms by (simp add: plain_def drop_trailing_id)
  then show "trim (space # s) = s" "trim (s @ [space]) = s" "trim (s @ [newline]) = s"
    using d [of "[]"] d [of "[space]"] d [of "[newline]"] sp by (simp_all add: trim_def drop_trailing_simps)
qed

lemma plain_setting: "plain k \<Longrightarrow> plain v \<Longrightarrow> plain (setting k v)"
  by (auto simp: plain_def setting_def has_no_nul_def c_chars)

lemma config_line_setting:
  assumes "plain k" and "CHR ''='' \<notin> set k" and "hd k \<notin> {CHR ''#'', CHR '';'', CHR ''[''}" and "plain v"
  shows "config_line (setting k v @ [newline]) (cfg, sec) =
    (case sec of SECTION_GLOBAL \<Rightarrow> (set_global k v cfg, sec) | SECTION_WATCH \<Rightarrow> (add_watch k v cfg, sec)
       | SECTION_PROTECT \<Rightarrow> (add_protect k cfg, sec))"
proof -
  have p: "plain (setting k v)" by (rule plain_setting [OF assms(1,4)])
  then have "cstr (setting k v @ [newline]) = setting k v @ [newline]"
    by (intro cstr_id) (simp add: plain_def has_no_nul_def c_chars)
  then have line: "trim (cstr (setting k v @ [newline])) = setting k v" using trim_around(3) [OF p] by simp
  have hd: "hd (setting k v) = hd k" "setting k v \<noteq> []" using assms(1) by (simp_all add: setting_def plain_def)
  have sp: "split_at (CHR ''='') (setting k v) = Some (k @ [space], space # v)"
  proof -
    have "setting k v = (k @ [space]) @ CHR ''='' # space # v" by (simp add: setting_def space_def)
    moreover have "CHR ''='' \<notin> set (k @ [space])" using assms(2) by (simp add: space_def)
    ultimately show ?thesis by (metis split_at_append)
  qed
  show ?thesis
    using assms(3) trim_around(2) [OF assms(1)] trim_around(1) [OF assms(4)]
    by (auto simp: config_line_def Let_def line hd sp split: config_section.splits)
qed

lemma plain_dec_int: "plain (dec_int i)"
proof -
  have c: "\<not> trim_right_char x \<and> \<not> trim_left_char x \<and> x \<noteq> nul \<and> x \<noteq> newline" if "x \<in> set (dec_int i)" for x
    using dec_int_chars [OF that] by (auto simp: trim_right_char_def trim_left_char_def isdigit_def c_chars Let_def)
  then show ?thesis using c [OF hd_in_set] c [OF last_in_set] by (auto simp: plain_def has_no_nul_def)
qed

lemma atoi_dec_int: "- (2 ^ 31) \<le> i \<Longrightarrow> i < 2 ^ 31 \<Longrightarrow> atoi (dec_int i) = i"
  using strtol_dec_int [of "[]" i]
  by (simp add: atoi_def LONG_MIN_def LONG_MAX_def int_word_sint)

definition config_writable :: "ig_config \<Rightarrow> bool" where
  "config_writable cfg \<longleftrightarrow> plain (log_file cfg) \<and> length (log_file cfg) < 1000
     \<and> (\<forall>n \<in> {daemonize cfg, log_to_syslog cfg, verbose cfg, ebpf_enabled cfg}. - (2 ^ 31) \<le> n \<and> n < 2 ^ 31)
     \<and> length (watches cfg) \<le> IG_MAX_WATCHES \<and> length (protect_paths cfg) \<le> IG_MAX_PROTECT
     \<and> (\<forall>w \<in> set (watches cfg). plain_path (w_path w) \<and> w_recursive w \<in> {0, 1})
     \<and> (\<forall>w \<in> set (protect_paths cfg). plain_path (w_path w) \<and> w_recursive w = 0)"

lemma plain_words [simp]: "plain ''recursive''" "plain ''single''" "plain ''file''" "plain ''daemonize''" "plain ''log_file''"
  "plain ''syslog''" "plain ''verbose''" "plain ''ebpf''"
  by (simp_all add: plain_def has_no_nul_def trim_left_char_def trim_right_char_def c_chars)

lemma strncpy0_plain: "plain s \<Longrightarrow> length s < 1000 \<Longrightarrow> strncpy0 IG_MAX_PATH s = s"
  by (rule strncpy0_short) (auto simp: plain_def IG_MAX_PATH_def)

lemma config_watch_lines:
  assumes "\<forall>w \<in> set ws. plain_path (w_path w) \<and> w_recursive w \<in> {0, 1}"
    and "length (watches cfg) + length ws \<le> IG_MAX_WATCHES"
  shows "fold config_line (map (\<lambda>w. watch_line w @ [newline]) ws) (cfg, SECTION_WATCH)
    = (cfg\<lparr>watches := watches cfg @ ws\<rparr>, SECTION_WATCH)"
  using assms
proof (induction ws arbitrary: cfg)
  case (Cons w ws)
  have w: "plain_path (w_path w)" "w_recursive w \<in> {0, 1}" using Cons.prems(1) by simp_all
  have path: "strncpy0 IG_MAX_PATH (w_path w) = w_path w" using w(1) by (simp add: plain_path_def strncpy0_plain)
  have "config_line (watch_line w @ [newline]) (cfg, SECTION_WATCH) = (cfg\<lparr>watches := watches cfg @ [w]\<rparr>, SECTION_WATCH)"
    using w Cons.prems(2) path config_line_setting [of "w_path w" "''recursive''" cfg SECTION_WATCH]
      config_line_setting [of "w_path w" "''single''" cfg SECTION_WATCH]
    by (cases w) (auto simp: watch_line_def plain_path_def add_watch_def)
  then show ?case using Cons.IH [of "cfg\<lparr>watches := watches cfg @ [w]\<rparr>"] Cons.prems by simp
qed simp

lemma config_protect_lines:
  assumes "\<forall>w \<in> set ws. plain_path (w_path w) \<and> w_recursive w = 0"
    and "length (protect_paths cfg) + length ws \<le> IG_MAX_PROTECT"
  shows "fold config_line (map (\<lambda>w. protect_line w @ [newline]) ws) (cfg, SECTION_PROTECT)
    = (cfg\<lparr>protect_paths := protect_paths cfg @ ws\<rparr>, SECTION_PROTECT)"
  using assms
proof (induction ws arbitrary: cfg)
  case (Cons w ws)
  have w: "plain_path (w_path w)" "w_recursive w = 0" using Cons.prems(1) by simp_all
  have path: "strncpy0 IG_MAX_PATH (w_path w) = w_path w" using w(1) by (simp add: plain_path_def strncpy0_plain)
  have "config_line (protect_line w @ [newline]) (cfg, SECTION_PROTECT) = (cfg\<lparr>protect_paths := protect_paths cfg @ [w]\<rparr>, SECTION_PROTECT)"
    using w Cons.prems(2) path config_line_setting [of "w_path w" "''file''" cfg SECTION_PROTECT]
    by (cases w) (auto simp: protect_line_def plain_path_def add_protect_def)
  then show ?case using Cons.IH [of "cfg\<lparr>protect_paths := protect_paths cfg @ [w]\<rparr>"] Cons.prems by simp
qed simp

lemma fgets_text:
  "\<forall>l \<in> set ls. newline \<notin> set l \<and> Suc (length l) < n \<Longrightarrow>
     fgets_lines n (concat (map (\<lambda>l. l @ [newline]) ls)) = map (\<lambda>l. l @ [newline]) ls"
  by (induction ls) (simp_all add: fgets_lines_cons)

lemma config_line_skip:
  "config_line (''# KN-IG'' @ [newline]) st = st" "config_line [newline] st = st"
  "config_line (''[watch]'' @ [newline]) (cfg, sec) = (cfg, SECTION_WATCH)"
  "config_line (''[protect]'' @ [newline]) (cfg, sec) = (cfg, SECTION_PROTECT)"
  by (cases st; simp add: config_line_def trim_def cstr_def c_chars trim_left_char_def trim_right_char_def
      drop_trailing_def section_of_def Let_def)+

lemma setting_line: "newline \<notin> set v \<Longrightarrow> length v \<le> 1000 \<Longrightarrow> k \<in> {''daemonize'', ''log_file'', ''syslog'', ''verbose'', ''ebpf''}
    \<Longrightarrow> newline \<notin> set (setting k v) \<and> Suc (length (setting k v)) < 1024"
  by (auto simp: setting_def c_chars)

lemma dec_length: "n < 10 ^ Suc k \<Longrightarrow> length (dec n) \<le> Suc k"
proof (induction k arbitrary: n)
  case 0
  then show ?case by (simp add: dec.simps [of n])
next
  case (Suc k)
  show ?case
  proof (cases "n < 10")
    case False
    have "n div 10 < 10 ^ Suc k" using Suc.prems by (simp add: div_less_iff_less_mult)
    from Suc.IH [OF this] show ?thesis using False by (simp add: dec.simps [of n])
  qed (simp add: dec.simps [of n])
qed

lemma dec_int_line: "- (2 ^ 31) \<le> i \<Longrightarrow> i < 2 ^ 31 \<Longrightarrow> newline \<notin> set (dec_int i) \<and> length (dec_int i) \<le> 1000"
proof -
  assume "- (2 ^ 31) \<le> i" "i < 2 ^ 31"
  then have "nat i < 10 ^ Suc 9" "nat (- i) < 10 ^ Suc 9" by simp_all
  then have "length (dec_int i) \<le> 11" using dec_length [of "nat i" 9] dec_length [of "nat (- i)" 9] by (simp add: dec_int_def)
  moreover have "newline \<notin> set (dec_int i)" using plain_dec_int [of i] by (simp add: plain_def)
  ultimately show ?thesis by simp
qed

text \<open>The text of a configuration: its lines fit the reader's buffer, and its first part is read as the settings.\<close>

lemma config_writableD:
  assumes "config_writable cfg"
  shows "plain (log_file cfg)" "length (log_file cfg) < 1000"
    "\<forall>w \<in> set (watches cfg). plain_path (w_path w) \<and> w_recursive w \<in> {0, 1}"
    "\<forall>w \<in> set (protect_paths cfg). plain_path (w_path w) \<and> w_recursive w = 0"
    "length (watches cfg) \<le> IG_MAX_WATCHES" "length (protect_paths cfg) \<le> IG_MAX_PROTECT"
    "n \<in> {daemonize cfg, log_to_syslog cfg, verbose cfg, ebpf_enabled cfg} \<Longrightarrow> - (2 ^ 31) \<le> n \<and> n < 2 ^ 31"
  using assms unfolding config_writable_def by (simp_all, blast)

lemma config_text_lines_fit:
  assumes "config_writable cfg" and "l \<in> set (config_text_lines cfg)"
  shows "newline \<notin> set l \<and> Suc (length l) < 1024"
proof -
  note w = config_writableD [OF assms(1)]
  have nl: "newline \<notin> set (log_file cfg)" "length (log_file cfg) \<le> 1000" using w(1,2) by (simp_all add: plain_def)
  have num: "newline \<notin> set (dec_int k) \<and> length (dec_int k) \<le> 1000"
    if "k \<in> {daemonize cfg, log_to_syslog cfg, verbose cfg, ebpf_enabled cfg}" for k
    using w(7) [OF that] dec_int_line by simp
  consider "l \<in> {''# KN-IG'', [], ''[watch]'', ''[protect]''}"
    | k v where "l = setting k v" "k \<in> {''daemonize'', ''log_file'', ''syslog'', ''verbose'', ''ebpf''}"
        "newline \<notin> set v" "length v \<le> 1000"
    | x where "x \<in> set (watches cfg)" "l = watch_line x" | x where "x \<in> set (protect_paths cfg)" "l = protect_line x"
    using assms(2) num nl by (auto simp: config_text_lines_def)
  then show ?thesis
    by cases (use setting_line w(3,4) in \<open>auto simp: c_chars watch_line_def protect_line_def setting_def plain_path_def plain_def\<close>)
qed

definition with_globals :: "ig_config \<Rightarrow> ig_config" where
  "with_globals cfg = default_config\<lparr>daemonize := daemonize cfg, log_file := log_file cfg, log_to_syslog := log_to_syslog cfg,
     verbose := verbose cfg, ebpf_enabled := ebpf_enabled cfg\<rparr>"

lemma config_globals_read:
  assumes "config_writable cfg"
  shows "fold config_line (map (\<lambda>l. l @ [newline]) [''# KN-IG'', setting ''daemonize'' (dec_int (daemonize cfg)),
      setting ''log_file'' (log_file cfg), setting ''syslog'' (dec_int (log_to_syslog cfg)),
      setting ''verbose'' (dec_int (verbose cfg)), setting ''ebpf'' (dec_int (ebpf_enabled cfg)), [], ''[watch]''])
      (default_config, SECTION_GLOBAL) = (with_globals cfg, SECTION_WATCH)"
proof -
  note w = config_writableD [OF assms]
  have log: "strncpy0 IG_MAX_PATH (log_file cfg) = log_file cfg" using w(1,2) by (rule strncpy0_plain)
  have set: "config_line (setting k v @ [newline]) (c, SECTION_GLOBAL) = (set_global k v c, SECTION_GLOBAL)"
    if "k \<in> {''daemonize'', ''log_file'', ''syslog'', ''verbose'', ''ebpf''}" "plain v" for k v c
    using that config_line_setting [of k v c SECTION_GLOBAL] by auto
  show ?thesis
    using w(7) w(1) log
    by (simp add: with_globals_def config_line_skip [simplified] set plain_dec_int set_global_def atoi_dec_int)
qed

section \<open>Properties\<close>

text \<open>The configuration parser is safe on any file: it never fills more than the sixty-four watch
  and thirty-two protect slots, every stored path is a terminated string of its array, and a file
  that cannot be opened is an error that leaves the defaults.\<close>

theorem config_load_bounded:
  "config_ok (snd (ig_config_load file))
     \<and> (fst (ig_config_load file) = -1 \<longleftrightarrow> file = None)
     \<and> (file = None \<longrightarrow> snd (ig_config_load file) = default_config)"
  using default_config_ok config_lines_ok [of "(default_config, SECTION_GLOBAL)"]
  by (auto simp: ig_config_load_def split: option.splits)

theorem config_load_bounded_witness:
  "snd (ig_config_load None) = default_config"
  using config_load_bounded [of None] by simp



end
