(* ===== verification/Enroll.thy ===== *)
theory Enroll
  imports Ig_Prelude C_Text
begin

text \<open>
  The first enrollment of an agent: \<^verbatim>\<open>Agent/src/enroll/enroll.c\<close>.  The agent and the backend share a
  secret; over a plain TCP connection the backend proves that it knows the secret, and the request
  and the answer with the certificates travel encrypted and authenticated.  HMAC-SHA256 of OpenSSL is a
  parameter (\<open>None\<close> when the call fails), and so are the results of \<^verbatim>\<open>calloc\<close>, of the random generator,
  of the socket calls and of the file calls.
\<close>

definition IG_ENROLL_FRAME_HEADER_SIZE :: nat where "IG_ENROLL_FRAME_HEADER_SIZE = 9"
definition IG_ENROLL_MAX_FRAME_SIZE :: nat where "IG_ENROLL_MAX_FRAME_SIZE = 65535"
definition IG_XOR_NONCE_SIZE :: nat where "IG_XOR_NONCE_SIZE = 32"
definition IG_XOR_MAC_SIZE :: nat where "IG_XOR_MAC_SIZE = 32"

definition IG_MSG_XOR_HELLO :: u8 where "IG_MSG_XOR_HELLO = 0x21"
definition IG_MSG_XOR_CHALLENGE :: u8 where "IG_MSG_XOR_CHALLENGE = 0x22"
definition IG_MSG_XOR_ENROLL_REQUEST :: u8 where "IG_MSG_XOR_ENROLL_REQUEST = 0x23"
definition IG_MSG_XOR_ENROLL_RESPONSE :: u8 where "IG_MSG_XOR_ENROLL_RESPONSE = 0x24"
definition IG_MSG_XOR_ENROLL_ACK :: u8 where "IG_MSG_XOR_ENROLL_ACK = 0x25"
definition IG_MSG_XOR_ENROLL_ERROR :: u8 where "IG_MSG_XOR_ENROLL_ERROR = 0x26"

lemmas enroll_sizes = IG_ENROLL_FRAME_HEADER_SIZE_def IG_ENROLL_MAX_FRAME_SIZE_def
  IG_XOR_NONCE_SIZE_def IG_XOR_MAC_SIZE_def

lemmas enroll_codes = IG_MSG_XOR_HELLO_def IG_MSG_XOR_CHALLENGE_def IG_MSG_XOR_ENROLL_REQUEST_def
  IG_MSG_XOR_ENROLL_RESPONSE_def IG_MSG_XOR_ENROLL_ACK_def IG_MSG_XOR_ENROLL_ERROR_def

type_synonym hmac_fun = "bytes \<Rightarrow> bytes \<Rightarrow> bytes option"

record ig_xor_session =
  xs_session :: bytes
  xs_enc :: bytes
  xs_mac :: bytes

record ig_frame =
  fr_type :: u8
  fr_seq :: u32
  fr_payload :: bytes

record ig_enroll_response =
  er_agent_id :: string
  er_agent_cert_pem :: string
  er_agent_key_pem :: string
  er_ca_cert_pem :: string
  er_expires_at :: u64

record ig_enroll_config =
  ec_host :: "string option"
  ec_port :: u16
  ec_ca_crt :: "string option"
  ec_agent_crt :: "string option"
  ec_agent_key :: "string option"
  ec_enrollment_id :: "string option"
  ec_xor_key :: "string option"
  ec_hostname :: "string option"
  ec_ip :: "string option"
  ec_os :: "string option"
  ec_monitor_type :: u8

section \<open>The socket\<close>

text \<open>
  What was written, and the outcomes of the coming \<^verbatim>\<open>write\<close> and \<^verbatim>\<open>read\<close> calls: a call moves some
  bytes (none: the peer closed), is interrupted by a signal, or fails.
\<close>

datatype wr_out = Wrote nat | WrIntr | WrErr
datatype rd_out = Got bytes | RdIntr | RdErr

record sock =
  so_out :: bytes
  so_wr :: "wr_out list"
  so_rd :: "rd_out list"

fun write_all_loop :: "wr_out list \<Rightarrow> bytes \<Rightarrow> bytes \<Rightarrow> bool \<times> wr_out list \<times> bytes" where
  "write_all_loop ws [] out = (True, ws, out)"
| "write_all_loop [] buf out = (False, [], out)"
| "write_all_loop (WrIntr # ws) buf out = write_all_loop ws buf out"
| "write_all_loop (WrErr # ws) buf out = (False, ws, out)"
| "write_all_loop (Wrote n # ws) buf out =
     (if n = 0 then (False, ws, out) else write_all_loop ws (drop n buf) (out @ take n buf))"

definition write_all :: "bytes \<Rightarrow> sock \<Rightarrow> bool \<times> sock" where
  "write_all buf s = (case write_all_loop (so_wr s) buf (so_out s) of
     (ok, ws, out) \<Rightarrow> (ok, s\<lparr>so_wr := ws, so_out := out\<rparr>))"

text \<open>A \<^verbatim>\<open>read\<close> moves at most what is asked for; the rest of a piece stays for the next one.\<close>

fun read_all_loop :: "rd_out list \<Rightarrow> nat \<Rightarrow> bytes \<Rightarrow> bytes option \<times> rd_out list" where
  "read_all_loop rs 0 acc = (Some acc, rs)"
| "read_all_loop [] (Suc n) acc = (None, [])"
| "read_all_loop (RdIntr # rs) (Suc n) acc = read_all_loop rs (Suc n) acc"
| "read_all_loop (RdErr # rs) (Suc n) acc = (None, rs)"
| "read_all_loop (Got c # rs) (Suc n) acc =
     (if c = [] then (None, rs)
      else if length c \<le> Suc n then read_all_loop rs (Suc n - length c) (acc @ c)
      else (Some (acc @ take (Suc n) c), Got (drop (Suc n) c) # rs))"

definition read_all :: "nat \<Rightarrow> sock \<Rightarrow> bytes option \<times> sock" where
  "read_all len s = (case read_all_loop (so_rd s) len [] of (r, rs) \<Rightarrow> (r, s\<lparr>so_rd := rs\<rparr>))"

section \<open>Strings and byte fields\<close>

text \<open>A write pointer is the bytes written and the room that remains.\<close>

type_synonym wpos = "bytes \<times> nat"

definition write_bytes_enroll :: "bytes \<Rightarrow> wpos \<Rightarrow> wpos option" where
  "write_bytes_enroll data p = (case p of (buf, remaining) \<Rightarrow>
     let len = length data
     in if len > 65535 \<or> remaining < len + 2 then None
        else Some (buf @ be16 (of_nat len) @ data, remaining - 2 - len))"

definition write_string :: "string option \<Rightarrow> wpos \<Rightarrow> wpos option" where
  "write_string s p = (case p of (buf, remaining) \<Rightarrow>
     let txt = (case s of None \<Rightarrow> [] | Some t \<Rightarrow> cstr t); len = length txt
     in if len > 65535 \<or> remaining < len + 2 then None
        else Some (buf @ be16 (of_nat len) @ map byte_of_char txt, remaining - 2 - len))"

text \<open>A failed read has already moved the pointer past the length.\<close>

definition read_bytes :: "(nat \<Rightarrow> bool) \<Rightarrow> bytes \<Rightarrow> bytes option \<times> bytes" where
  "read_bytes mem p =
     (if length p < 2 then (None, p)
      else let len = unat (of_be16 (p ! 0) (p ! 1)); p = drop 2 p
      in if length p < len then (None, p)
      else if \<not> mem (if len = 0 then 1 else len) then (None, p)
      else (Some (take len p), drop len p))"

definition read_string :: "(nat \<Rightarrow> bool) \<Rightarrow> bytes \<Rightarrow> string option \<times> bytes" where
  "read_string mem p =
     (if length p < 2 then (None, p)
      else let len = unat (of_be16 (p ! 0) (p ! 1)); p = drop 2 p
      in if length p < len then (None, p)
      else if \<not> mem (len + 1) then (None, p)
      else (Some (cstr (map char_of_byte (take len p))), drop len p))"

section \<open>Keys, proofs and protected payloads\<close>

definition hmac_sha256 :: "hmac_fun \<Rightarrow> bytes \<Rightarrow> bytes \<Rightarrow> bytes option" where
  "hmac_sha256 hm key data = (case hm key data of None \<Rightarrow> None | Some out \<Rightarrow> if length out = 32 then Some out else None)"

definition ascii :: "string \<Rightarrow> bytes" where
  "ascii s = map byte_of_char s"

text \<open>The label, a zero byte, the identifier, a zero byte and the two nonces.\<close>

definition transcript :: "string \<Rightarrow> string \<Rightarrow> bytes \<Rightarrow> bytes \<Rightarrow> bytes" where
  "transcript label enrollment_id client_nonce server_nonce =
     ascii label @ [0] @ ascii (cstr enrollment_id) @ [0] @ client_nonce @ server_nonce"

definition derive_session :: "hmac_fun \<Rightarrow> (nat \<Rightarrow> bool) \<Rightarrow> string \<Rightarrow> string \<Rightarrow> bytes \<Rightarrow> bytes \<Rightarrow> ig_xor_session option" where
  "derive_session hm mem xor_key enrollment_id client_nonce server_nonce =
     (let data = transcript ''knig enrollment v2 session'' enrollment_id client_nonce server_nonce
      in if \<not> mem (length data) then None
      else (case hmac_sha256 hm (ascii (cstr xor_key)) data of
          None \<Rightarrow> None
        | Some session \<Rightarrow>
            (case hmac_sha256 hm session (ascii ''knig enrollment enc'') of
               None \<Rightarrow> None
             | Some enc \<Rightarrow>
                 (case hmac_sha256 hm session (ascii ''knig enrollment mac'') of
                    None \<Rightarrow> None
                  | Some mac \<Rightarrow> Some \<lparr>xs_session = session, xs_enc = enc, xs_mac = mac\<rparr>))))"

definition server_proof :: "hmac_fun \<Rightarrow> (nat \<Rightarrow> bool) \<Rightarrow> ig_xor_session \<Rightarrow> string \<Rightarrow> bytes \<Rightarrow> bytes \<Rightarrow> bytes option" where
  "server_proof hm mem session enrollment_id client_nonce server_nonce =
     (let data = transcript ''knig enrollment server proof'' enrollment_id client_nonce server_nonce
      in if \<not> mem (length data) then None else hmac_sha256 hm (xs_mac session) data)"

definition frame_mac :: "hmac_fun \<Rightarrow> (nat \<Rightarrow> bool) \<Rightarrow> ig_xor_session \<Rightarrow> u8 \<Rightarrow> u32 \<Rightarrow> bytes \<Rightarrow> bytes option" where
  "frame_mac hm mem session msg_type seq ciphertext =
     (let data = [msg_type] @ be32 seq @ ciphertext
      in if \<not> mem (length data) then None else hmac_sha256 hm (xs_mac session) data)"

text \<open>The keystream comes in blocks of 32 bytes, block \<open>counter\<close> from the sequence number and the counter.\<close>

function xor_blocks :: "hmac_fun \<Rightarrow> bytes \<Rightarrow> u32 \<Rightarrow> nat \<Rightarrow> bytes \<Rightarrow> bytes option" where
  "xor_blocks hm enc seq counter src =
     (if src = [] then Some []
      else (case hmac_sha256 hm enc (be32 seq @ be32 (of_nat counter)) of
          None \<Rightarrow> None
        | Some block \<Rightarrow>
            map_option ((@) (map2 (XOR) (take 32 src) block)) (xor_blocks hm enc seq (Suc counter) (drop 32 src))))"
  by pat_completeness auto
termination
  by (relation "measure (\<lambda>(hm, enc, seq, counter, src). length src)") (auto simp: neq_Nil_conv)

declare xor_blocks.simps [simp del]

definition xor_crypt :: "hmac_fun \<Rightarrow> ig_xor_session \<Rightarrow> u32 \<Rightarrow> bytes \<Rightarrow> bytes option" where
  "xor_crypt hm session seq src = xor_blocks hm (xs_enc session) seq 0 src"

definition protect_payload :: "hmac_fun \<Rightarrow> (nat \<Rightarrow> bool) \<Rightarrow> ig_xor_session \<Rightarrow> u8 \<Rightarrow> u32 \<Rightarrow> bytes \<Rightarrow> bytes option" where
  "protect_payload hm mem session msg_type seq plain =
     (if length plain + IG_XOR_MAC_SIZE > IG_ENROLL_MAX_FRAME_SIZE then None
      else if \<not> mem (IG_XOR_MAC_SIZE + length plain) then None
      else (case xor_crypt hm session seq plain of
          None \<Rightarrow> None
        | Some ciphertext \<Rightarrow>
            (case frame_mac hm mem session msg_type seq ciphertext of
               None \<Rightarrow> None
             | Some mac \<Rightarrow> Some (mac @ ciphertext))))"

definition open_protected_payload :: "hmac_fun \<Rightarrow> (nat \<Rightarrow> bool) \<Rightarrow> ig_xor_session \<Rightarrow> u8 \<Rightarrow> u32 \<Rightarrow> bytes \<Rightarrow> bytes option" where
  "open_protected_payload hm mem session msg_type seq payload =
     (if length payload < IG_XOR_MAC_SIZE then None
      else let got_mac = take IG_XOR_MAC_SIZE payload; ciphertext = drop IG_XOR_MAC_SIZE payload;
               cipher_len = length ciphertext
      in (case frame_mac hm mem session msg_type seq ciphertext of
          None \<Rightarrow> None
        | Some want_mac \<Rightarrow>
            if got_mac \<noteq> want_mac then None
            else if \<not> mem (if cipher_len = 0 then 1 else cipher_len) then None
            else xor_crypt hm session seq ciphertext))"

section \<open>Frames\<close>

definition enroll_frame :: "u8 \<Rightarrow> u32 \<Rightarrow> bytes \<Rightarrow> bytes" where
  "enroll_frame msg_type seq payload =
     be32 (of_nat (length payload + IG_ENROLL_FRAME_HEADER_SIZE)) @ [msg_type] @ be32 seq @ payload"

definition send_frame :: "u8 \<Rightarrow> u32 \<Rightarrow> bytes \<Rightarrow> sock \<Rightarrow> bool \<times> sock" where
  "send_frame msg_type seq payload s =
     (if length payload + IG_ENROLL_FRAME_HEADER_SIZE > IG_ENROLL_MAX_FRAME_SIZE then (False, s)
      else let hdr = take IG_ENROLL_FRAME_HEADER_SIZE (enroll_frame msg_type seq payload)
      in (case write_all hdr s of
          (False, s) \<Rightarrow> (False, s)
        | (True, s) \<Rightarrow> if payload \<noteq> [] then write_all payload s else (True, s)))"

definition read_frame :: "(nat \<Rightarrow> bool) \<Rightarrow> sock \<Rightarrow> ig_frame option \<times> sock" where
  "read_frame mem s =
     (case read_all IG_ENROLL_FRAME_HEADER_SIZE s of
        (None, s) \<Rightarrow> (None, s)
      | (Some hdr, s) \<Rightarrow>
          (let frame_len = unat (of_be32 (hdr ! 0) (hdr ! 1) (hdr ! 2) (hdr ! 3));
               payload_len = frame_len - IG_ENROLL_FRAME_HEADER_SIZE;
               frame = (\<lambda>payload. \<lparr>fr_type = hdr ! 4, fr_seq = of_be32 (hdr ! 5) (hdr ! 6) (hdr ! 7) (hdr ! 8),
                  fr_payload = payload\<rparr>)
           in if frame_len < IG_ENROLL_FRAME_HEADER_SIZE \<or> frame_len > IG_ENROLL_MAX_FRAME_SIZE then (None, s)
              else if \<not> mem (if payload_len = 0 then 1 else payload_len) then (None, s)
              else if payload_len = 0 then (Some (frame []), s)
              else (case read_all payload_len s of
                  (None, s) \<Rightarrow> (None, s)
                | (Some payload, s) \<Rightarrow> (Some (frame payload), s))))"

section \<open>Messages\<close>

definition encode_hello :: "(nat \<Rightarrow> bool) \<Rightarrow> string \<Rightarrow> bytes \<Rightarrow> bytes option" where
  "encode_hello mem enrollment_id client_nonce =
     (let payload_len = 2 + length (cstr enrollment_id) + 2 + 32
      in if \<not> mem payload_len then None
      else (case Option.bind (write_string (Some enrollment_id) ([], payload_len)) (write_bytes_enroll client_nonce) of
          Some (buf, remaining) \<Rightarrow> if remaining \<noteq> 0 then None else Some buf
        | None \<Rightarrow> None))"

text \<open>The result code, and the server nonce and proof.\<close>

definition decode_challenge :: "(nat \<Rightarrow> bool) \<Rightarrow> ig_frame \<Rightarrow> int \<times> bytes \<times> bytes" where
  "decode_challenge mem frame =
     (if fr_type frame = IG_MSG_XOR_ENROLL_ERROR then (-2, [], [])
      else if fr_type frame \<noteq> IG_MSG_XOR_CHALLENGE then (-1, [], [])
      else (case read_bytes mem (fr_payload frame) of (nonce, p) \<Rightarrow>
        (case read_bytes mem p of (proof_buf, p) \<Rightarrow>
          (case (nonce, proof_buf) of
             (Some nonce, Some proof) \<Rightarrow>
               if length nonce = 32 \<and> length proof = 32 \<and> p = [] then (0, nonce, proof) else (-1, [], [])
           | _ \<Rightarrow> (-1, [], [])))))"

definition encode_request_plain :: "(nat \<Rightarrow> bool) \<Rightarrow> ig_enroll_config \<Rightarrow> bytes option" where
  "encode_request_plain mem cfg =
     (let hostname = the (ec_hostname cfg); ip = the (ec_ip cfg); os = the (ec_os cfg);
          payload_len = 2 + length (cstr hostname) + 2 + length (cstr ip) + 2 + length (cstr os) + 1
      in if \<not> mem payload_len then None
      else (case Option.bind (Option.bind (write_string (Some hostname) ([], payload_len))
                (write_string (Some ip))) (write_string (Some os)) of
          None \<Rightarrow> None
        | Some (buf, remaining) \<Rightarrow>
            if remaining < 1 then None
            else if remaining - 1 \<noteq> 0 then None
            else Some (buf @ [ec_monitor_type cfg])))"

definition be64_to_host :: "bytes \<Rightarrow> u64" where
  "be64_to_host p = of_hi_lo (of_be32 (p ! 0) (p ! 1) (p ! 2) (p ! 3)) (of_be32 (p ! 4) (p ! 5) (p ! 6) (p ! 7))"

definition decode_response_plain :: "(nat \<Rightarrow> bool) \<Rightarrow> bytes \<Rightarrow> ig_enroll_response option" where
  "decode_response_plain mem payload =
     (case read_string mem payload of (agent_id, p) \<Rightarrow>
      (case read_string mem p of (agent_cert, p) \<Rightarrow>
      (case read_string mem p of (agent_key, p) \<Rightarrow>
      (case read_string mem p of (ca_cert, p) \<Rightarrow>
        (case (agent_id, agent_cert, agent_key, ca_cert) of
           (Some i, Some c, Some k, Some ca) \<Rightarrow>
             if length p < 8 then None
             else if length p - 8 \<noteq> 0 then None
             else Some \<lparr>er_agent_id = i, er_agent_cert_pem = c, er_agent_key_pem = k, er_ca_cert_pem = ca,
                        er_expires_at = be64_to_host p\<rparr>
         | _ \<Rightarrow> None)))))"

text \<open>The reason that \<^verbatim>\<open>log_error_frame\<close> logs for a refusal.\<close>

definition log_error_frame :: "(nat \<Rightarrow> bool) \<Rightarrow> ig_frame \<Rightarrow> string option" where
  "log_error_frame mem frame =
     (if fr_type frame \<noteq> IG_MSG_XOR_ENROLL_ERROR then None
      else (case fst (read_string mem (fr_payload frame)) of Some msg \<Rightarrow> Some msg | None \<Rightarrow> Some ''unknown''))"

section \<open>Files\<close>

text \<open>
  A stored file is its content and its mode.  \<open>fo_written\<close> is how many bytes the one \<^verbatim>\<open>write\<close> takes,
  \<open>None\<close> when it fails; a new file gets the mode under the process's umask.
\<close>

type_synonym files = "string \<Rightarrow> (string \<times> nat) option"

record file_out =
  fo_open :: bool
  fo_umask :: nat
  fo_chmod :: bool
  fo_written :: "nat option"

definition write_text_file :: "file_out \<Rightarrow> string \<Rightarrow> string \<Rightarrow> nat \<Rightarrow> files \<Rightarrow> int \<times> files" where
  "write_text_file o1 path data fmode fs =
     (if \<not> fo_open o1 then (-1, fs)
      else let old_mode = (case fs path of None \<Rightarrow> fmode AND (511 - fo_umask o1) | Some (_, m) \<Rightarrow> m);
               fs = fs(path \<mapsto> ([], old_mode))
      in if \<not> fo_chmod o1 then (-1, fs)
      else (case fo_written o1 of
          None \<Rightarrow> (-1, fs(path \<mapsto> ([], fmode)))
        | Some n \<Rightarrow>
            let text = cstr data; fs = fs(path \<mapsto> (take n text, fmode))
            in (if n = length text then 0 else -1, fs)))"

text \<open>The files are readable for the agent, which runs as root, when they exist.\<close>

definition ig_enroll_needed :: "files \<Rightarrow> string \<Rightarrow> string \<Rightarrow> bool" where
  "ig_enroll_needed fs agent_crt agent_key \<longleftrightarrow> fs agent_crt = None \<or> fs agent_key = None"

section \<open>The enrollment\<close>

record enroll_env =
  ee_hmac :: hmac_fun
  ee_mem :: "nat \<Rightarrow> bool"
  ee_rand :: "bytes option"
  ee_resolved :: bool
  ee_socket :: int
  ee_connected :: bool
  ee_sock :: sock
  ee_file :: "string \<Rightarrow> file_out"

definition connect_tcp :: "enroll_env \<Rightarrow> int" where
  "connect_tcp env =
     (if \<not> ee_resolved env then -1
      else if ee_socket env < 0 then -1
      else if \<not> ee_connected env then -1
      else ee_socket env)"

definition missing_setting :: "ig_enroll_config \<Rightarrow> bool" where
  "missing_setting cfg \<longleftrightarrow> None \<in> {ec_host cfg, ec_ca_crt cfg, ec_agent_crt cfg, ec_agent_key cfg,
     ec_enrollment_id cfg, ec_xor_key cfg, ec_hostname cfg, ec_ip cfg, ec_os cfg}"

text \<open>The steps of \<open>ig_enroll_execute\<close>; a step that fails jumps to its clean-up.\<close>

definition enroll_challenge :: "enroll_env \<Rightarrow> bytes \<Rightarrow> sock \<Rightarrow> (bytes \<times> bytes) option \<times> sock" where
  "enroll_challenge env hello s =
     (case send_frame IG_MSG_XOR_HELLO 1 hello s of
        (False, s) \<Rightarrow> (None, s)
      | (True, s) \<Rightarrow>
          (case read_frame (ee_mem env) s of
             (None, s) \<Rightarrow> (None, s)
           | (Some frame, s) \<Rightarrow>
               if fr_type frame = IG_MSG_XOR_ENROLL_ERROR then (None, s)
               else (case decode_challenge (ee_mem env) frame of
                   (rc, nonce, proof) \<Rightarrow> (if rc < 0 then None else Some (nonce, proof), s))))"

definition enroll_session :: "enroll_env \<Rightarrow> ig_enroll_config \<Rightarrow> bytes \<Rightarrow> bytes \<Rightarrow> bytes \<Rightarrow> ig_xor_session option" where
  "enroll_session env cfg client_nonce server_nonce received_proof =
     (let enrollment_id = the (ec_enrollment_id cfg)
      in (case derive_session (ee_hmac env) (ee_mem env) (the (ec_xor_key cfg)) enrollment_id client_nonce server_nonce of
          None \<Rightarrow> None
        | Some session \<Rightarrow>
            (case server_proof (ee_hmac env) (ee_mem env) session enrollment_id client_nonce server_nonce of
               None \<Rightarrow> None
             | Some expected_proof \<Rightarrow> if expected_proof \<noteq> received_proof then None else Some session)))"

definition enroll_request :: "enroll_env \<Rightarrow> ig_enroll_config \<Rightarrow> ig_xor_session \<Rightarrow> sock \<Rightarrow> bool \<times> sock" where
  "enroll_request env cfg session s =
     (case encode_request_plain (ee_mem env) cfg of
        None \<Rightarrow> (False, s)
      | Some req_plain \<Rightarrow>
          (case protect_payload (ee_hmac env) (ee_mem env) session IG_MSG_XOR_ENROLL_REQUEST 3 req_plain of
             None \<Rightarrow> (False, s)
           | Some req_protected \<Rightarrow> send_frame IG_MSG_XOR_ENROLL_REQUEST 3 req_protected s))"

definition accept_response :: "enroll_env \<Rightarrow> ig_xor_session \<Rightarrow> ig_frame \<Rightarrow> ig_enroll_response option" where
  "accept_response env session frame =
     (if fr_type frame = IG_MSG_XOR_ENROLL_ERROR then None
      else if fr_type frame \<noteq> IG_MSG_XOR_ENROLL_RESPONSE then None
      else (case open_protected_payload (ee_hmac env) (ee_mem env) session (fr_type frame) (fr_seq frame) (fr_payload frame) of
          None \<Rightarrow> None
        | Some resp_plain \<Rightarrow> decode_response_plain (ee_mem env) resp_plain))"

definition store_certificates :: "enroll_env \<Rightarrow> ig_enroll_config \<Rightarrow> ig_enroll_response \<Rightarrow> files \<Rightarrow> bool \<times> files" where
  "store_certificates env cfg resp fs =
     (let ca_crt = the (ec_ca_crt cfg); agent_crt = the (ec_agent_crt cfg); agent_key = the (ec_agent_key cfg)
      in (case write_text_file (ee_file env ca_crt) ca_crt (er_ca_cert_pem resp) 0x1A4 fs of (rc, fs) \<Rightarrow>
        if rc < 0 then (False, fs)
        else (case write_text_file (ee_file env agent_crt) agent_crt (er_agent_cert_pem resp) 0x1A4 fs of (rc, fs) \<Rightarrow>
          if rc < 0 then (False, fs)
          else (case write_text_file (ee_file env agent_key) agent_key (er_agent_key_pem resp) 0x180 fs of (rc, fs) \<Rightarrow>
            (if rc < 0 then (False, fs) else (True, fs))))))"

definition enroll_ack :: "enroll_env \<Rightarrow> ig_xor_session \<Rightarrow> sock \<Rightarrow> sock" where
  "enroll_ack env session s =
     (case protect_payload (ee_hmac env) (ee_mem env) session IG_MSG_XOR_ENROLL_ACK 5 [] of
        None \<Rightarrow> s
      | Some ack_protected \<Rightarrow> snd (send_frame IG_MSG_XOR_ENROLL_ACK 5 ack_protected s))"

text \<open>The modes are 0644 and 0600.  The result is the code, the socket at the close and the files.\<close>

definition ig_enroll_execute :: "enroll_env \<Rightarrow> ig_enroll_config \<Rightarrow> files \<Rightarrow> int \<times> sock \<times> files" where
  "ig_enroll_execute env cfg fs =
     (let s = ee_sock env
      in if missing_setting cfg then (-1, s, fs)
      else (case ee_rand env of
          None \<Rightarrow> (-1, s, fs)
        | Some client_nonce \<Rightarrow>
            (case encode_hello (ee_mem env) (the (ec_enrollment_id cfg)) client_nonce of
               None \<Rightarrow> (-1, s, fs)
             | Some hello \<Rightarrow>
                 if connect_tcp env < 0 then (-1, s, fs)
                 else (case enroll_challenge env hello s of
                     (None, s) \<Rightarrow> (-1, s, fs)
                   | (Some (server_nonce, received_proof), s) \<Rightarrow>
                       (case enroll_session env cfg client_nonce server_nonce received_proof of
                          None \<Rightarrow> (-1, s, fs)
                        | Some session \<Rightarrow>
                            (case enroll_request env cfg session s of
                               (False, s) \<Rightarrow> (-1, s, fs)
                             | (True, s) \<Rightarrow>
                                 (case read_frame (ee_mem env) s of
                                    (None, s) \<Rightarrow> (-1, s, fs)
                                  | (Some frame, s) \<Rightarrow>
                                      (case accept_response env session frame of
                                         None \<Rightarrow> (-1, s, fs)
                                       | Some resp \<Rightarrow>
                                           (case store_certificates env cfg resp fs of
                                              (False, fs) \<Rightarrow> (-1, s, fs)
                                            | (True, fs) \<Rightarrow> (0, enroll_ack env session s, fs))))))))))"

section \<open>Encryption and authentication\<close>

lemma xor_blocks_Nil [simp]: "xor_blocks hm enc seq c [] = Some []"
  by (simp add: xor_blocks.simps)

lemma xor_blocks_step:
  assumes "src \<noteq> []" and "xor_blocks hm enc seq c src = Some d"
  obtains block rest where "hmac_sha256 hm enc (be32 seq @ be32 (of_nat c)) = Some block" "length block = 32"
    "xor_blocks hm enc seq (Suc c) (drop 32 src) = Some rest" "d = map2 (XOR) (take 32 src) block @ rest"
proof -
  from assms obtain block where b: "hmac_sha256 hm enc (be32 seq @ be32 (of_nat c)) = Some block"
    by (auto simp: xor_blocks.simps [of hm enc seq c src] split: option.splits)
  then have "length block = 32" by (auto simp: hmac_sha256_def split: option.splits if_splits)
  with b assms that show thesis by (auto simp: xor_blocks.simps [of hm enc seq c src])
qed

lemma map2_xor_self: "length xs \<le> length bs \<Longrightarrow> map2 (XOR) (map2 (XOR) xs bs) bs = (xs :: bytes)"
  by (rule nth_equalityI) (auto simp: xor.assoc)

lemma xor_blocks_involution:
  "xor_blocks hm enc seq c src = Some d \<Longrightarrow> xor_blocks hm enc seq c d = Some src \<and> length d = length src"
proof (induction hm enc seq c src arbitrary: d rule: xor_blocks.induct)
  case (1 hm enc seq c src)
  show ?case
  proof (cases "src = []")
    case True
    with "1.prems" show ?thesis by simp
  next
    case False
    obtain block rest where b: "hmac_sha256 hm enc (be32 seq @ be32 (of_nat c)) = Some block" "length block = 32"
      and r: "xor_blocks hm enc seq (Suc c) (drop 32 src) = Some rest"
      and d: "d = map2 (XOR) (take 32 src) block @ rest"
      by (rule xor_blocks_step [OF False "1.prems"])
    from "1.IH" [OF False b(1) r] have ih: "xor_blocks hm enc seq (Suc c) rest = Some (drop 32 src)"
      "length rest = length src - 32" by auto
    have undo: "map2 (XOR) (map2 (XOR) (take 32 src) block) block = take 32 src"
      by (rule map2_xor_self) (simp add: b(2))
    have dr: "take 32 d = map2 (XOR) (take 32 src) block" "drop 32 d = rest"
      using ih(2) by (auto simp: d b(2) min_def)
    have "d \<noteq> []" using False b(2) by (auto simp: d)
    then have "xor_blocks hm enc seq c d = Some (take 32 src @ drop 32 src)"
      by (simp only: xor_blocks.simps [of hm enc seq c d] dr b(1) ih(1) undo if_False option.case option.map)
    with ih(2) b(2) show ?thesis by (simp add: d min_def)
  qed
qed

lemma xor_crypt_back: "xor_crypt hm ss seq src = Some d \<Longrightarrow> xor_crypt hm ss seq d = Some src"
  unfolding xor_crypt_def by (drule xor_blocks_involution) simp

lemma length_xor_crypt: "xor_crypt hm ss seq src = Some d \<Longrightarrow> length d = length src"
  unfolding xor_crypt_def by (drule xor_blocks_involution) simp

lemma length_frame_mac: "frame_mac hm mem ss t seq c = Some m \<Longrightarrow> length m = IG_XOR_MAC_SIZE"
  by (auto simp: frame_mac_def hmac_sha256_def enroll_sizes Let_def split: option.splits if_splits)

lemma protect_payload_Some:
  assumes "protect_payload hm mem ss t seq plain = Some p"
  obtains cipher mac where "xor_crypt hm ss seq plain = Some cipher" "frame_mac hm mem ss t seq cipher = Some mac"
    "p = mac @ cipher" "length mac = IG_XOR_MAC_SIZE" "length cipher = length plain"
    "length p \<le> IG_ENROLL_MAX_FRAME_SIZE"
proof -
  from assms obtain cipher mac where c: "xor_crypt hm ss seq plain = Some cipher"
    "frame_mac hm mem ss t seq cipher = Some mac" "p = mac @ cipher"
    and len: "length plain + IG_XOR_MAC_SIZE \<le> IG_ENROLL_MAX_FRAME_SIZE"
    by (auto simp: protect_payload_def split: if_splits option.splits)
  with length_frame_mac length_xor_crypt that show thesis by auto
qed

lemma open_protected_Some:
  assumes "open_protected_payload hm mem ss t seq payload = Some plain"
  obtains cipher mac where "payload = mac @ cipher" "frame_mac hm mem ss t seq cipher = Some mac"
    "xor_crypt hm ss seq cipher = Some plain"
proof -
  let ?m = "take IG_XOR_MAC_SIZE payload" and ?c = "drop IG_XOR_MAC_SIZE payload"
  from assms have "frame_mac hm mem ss t seq ?c = Some ?m" "xor_crypt hm ss seq ?c = Some plain"
    by (auto simp: open_protected_payload_def Let_def split: if_splits option.splits)
  then show thesis by (intro that [of ?m ?c]) simp_all
qed

section \<open>What the socket moves\<close>

text \<open>The bytes that a script of reads still delivers before it fails.\<close>

fun delivers :: "rd_out list \<Rightarrow> bytes" where
  "delivers [] = []"
| "delivers (RdIntr # rs) = delivers rs"
| "delivers (RdErr # rs) = []"
| "delivers (Got c # rs) = (if c = [] then [] else c @ delivers rs)"

lemma read_all_loop_enough:
  "n \<le> length (delivers rs) \<Longrightarrow>
     \<exists>rs'. read_all_loop rs n acc = (Some (acc @ take n (delivers rs)), rs') \<and> delivers rs' = drop n (delivers rs)"
  by (induction rs n acc rule: read_all_loop.induct) (auto split: if_splits)

lemma read_all_loop_Some:
  "read_all_loop rs n acc = (Some b, rs') \<Longrightarrow> \<exists>x. b = acc @ x \<and> length x = n \<and> delivers rs = x @ delivers rs'"
proof (induction rs n acc rule: read_all_loop.induct)
  case (5 c rs n acc)
  from "5.prems" have c: "c \<noteq> []" by (auto split: if_splits)
  show ?case
  proof (cases "length c \<le> Suc n")
    case True
    with "5.prems" c have "read_all_loop rs (Suc n - length c) (acc @ c) = (Some b, rs')" by simp
    from "5.IH" [OF c True this] True c show ?thesis by auto
  next
    case False
    with "5.prems" c have "b = acc @ take (Suc n) c" "rs' = Got (drop (Suc n) c) # rs" by auto
    with False c show ?thesis by (intro exI [of _ "take (Suc n) c"]) (simp add: min_def)
  qed
qed auto

lemma read_all_Some:
  assumes "read_all n s = (Some b, s')"
  shows "length b = n" "delivers (so_rd s) = b @ delivers (so_rd s')" "so_out s' = so_out s" "so_wr s' = so_wr s"
proof -
  obtain rs where r: "read_all_loop (so_rd s) n [] = (Some b, rs)" and s': "s' = s\<lparr>so_rd := rs\<rparr>"
    using assms by (auto simp: read_all_def split: prod.splits)
  from read_all_loop_Some [OF r] s'
  show "length b = n" "delivers (so_rd s) = b @ delivers (so_rd s')" "so_out s' = so_out s" "so_wr s' = so_wr s" by auto
qed

lemma read_all_enough:
  assumes "delivers (so_rd s) = x @ y" and "length x = n"
  obtains s' where "read_all n s = (Some x, s')" "delivers (so_rd s') = y" "so_out s' = so_out s" "so_wr s' = so_wr s"
proof -
  from read_all_loop_enough [of n "so_rd s" "[]"] assms obtain rs
    where "read_all_loop (so_rd s) n [] = (Some x, rs)" "delivers rs = y" by auto
  then show thesis using that [of "s\<lparr>so_rd := rs\<rparr>"] by (simp add: read_all_def)
qed

lemma read_all_out: "so_out (snd (read_all n s)) = so_out s" "so_wr (snd (read_all n s)) = so_wr s"
  by (simp_all add: read_all_def split: prod.splits)

text \<open>A script that never fails and lets at least \<open>n\<close> writes move something takes any \<open>n\<close> bytes.\<close>

fun moves :: "wr_out \<Rightarrow> bool" where
  "moves (Wrote n) = (n \<noteq> 0)"
| "moves WrIntr = False"
| "moves WrErr = False"

definition takes :: "wr_out list \<Rightarrow> nat \<Rightarrow> bool" where
  "takes ws n \<longleftrightarrow> list_all (\<lambda>w. moves w \<or> w = WrIntr) ws \<and> n \<le> length (filter moves ws)"

lemma takes_mono: "takes ws n \<Longrightarrow> m \<le> n \<Longrightarrow> takes ws m"
  by (simp add: takes_def)

lemma write_all_loop_takes:
  "takes ws (length buf + m) \<Longrightarrow> \<exists>ws'. write_all_loop ws buf out = (True, ws', out @ buf) \<and> takes ws' m"
proof (induction ws buf out rule: write_all_loop.induct)
  case (5 n ws b bs out)
  from "5.prems" have n: "n \<noteq> 0" and t: "takes ws (length (b # bs) + m - 1)" by (auto simp: takes_def)
  have "length (drop n (b # bs)) + m \<le> length (b # bs) + m - 1" using n by (cases n) auto
  from "5.IH" [OF n takes_mono [OF t this]] n show ?case by (auto simp: append_take_drop_id simp del: drop_Cons take_Cons)
qed (auto simp: takes_def)

lemma write_all_takes:
  assumes "takes (so_wr s) (length buf + m)"
  obtains s' where "write_all buf s = (True, s')" "so_out s' = so_out s @ buf" "takes (so_wr s') m" "so_rd s' = so_rd s"
proof -
  from write_all_loop_takes [OF assms, of "so_out s"] obtain ws
    where "write_all_loop (so_wr s) buf (so_out s) = (True, ws, so_out s @ buf)" "takes ws m" by auto
  then show thesis using that [of "s\<lparr>so_wr := ws, so_out := so_out s @ buf\<rparr>"] by (simp add: write_all_def)
qed

lemma write_all_rd: "so_rd (snd (write_all buf s)) = so_rd s"
  by (simp add: write_all_def split: prod.splits)

section \<open>Frames and fields on the wire\<close>

lemma of_be32_inverse: "be32 (of_be32 a b c d) = [a, b, c, d]"
  unfolding be32_def of_be32_def
  by (intro arg_cong2 [where f = "(#)"] refl bit_word_eqI) (auto simp: bit_simps not_less dest: bit_imp_le_length)

lemma of_be16_inverse: "be16 (of_be16 a b) = [a, b]"
  unfolding be16_def of_be16_def
  by (intro arg_cong2 [where f = "(#)"] refl bit_word_eqI) (auto simp: bit_simps not_less dest: bit_imp_le_length)

lemma list_of_9: "length h = 9 \<Longrightarrow> h = [h ! 0, h ! 1, h ! 2, h ! 3, h ! 4, h ! 5, h ! 6, h ! 7, h ! 8]"
  by (rule nth_equalityI) (auto simp: less_Suc_eq numeral_eq_Suc nth_Cons split: nat.splits)

lemma frame_hdr:
  fixes t :: u8
  shows "take IG_ENROLL_FRAME_HEADER_SIZE (enroll_frame t q p)
    = be32 (of_nat (length p + IG_ENROLL_FRAME_HEADER_SIZE)) @ [t] @ be32 q"
  by (simp add: enroll_frame_def enroll_sizes)

lemma frame_hdr_fields:
  assumes "h = be32 v @ [t] @ be32 q"
  shows "of_be32 (h ! 0) (h ! Suc 0) (h ! 2) (h ! 3) = v" "h ! 4 = t" "of_be32 (h ! 5) (h ! 6) (h ! 7) (h ! 8) = q"
    "length h = 9"
  by (simp_all add: assms be32_def of_be32_be32)

text \<open>A frame that is sent is on the wire; a frame that is read was on it.\<close>

lemma send_frame_takes:
  assumes "length payload + IG_ENROLL_FRAME_HEADER_SIZE \<le> IG_ENROLL_MAX_FRAME_SIZE"
    and "takes (so_wr s) (length (enroll_frame t q payload) + m)"
  obtains s' where "send_frame t q payload s = (True, s')" "so_out s' = so_out s @ enroll_frame t q payload"
    "takes (so_wr s') m" "so_rd s' = so_rd s"
proof -
  let ?h = "take IG_ENROLL_FRAME_HEADER_SIZE (enroll_frame t q payload)"
  have parts: "enroll_frame t q payload = ?h @ payload"
    by (simp add: frame_hdr) (simp add: enroll_frame_def)
  then have "takes (so_wr s) (length ?h + (length payload + m))"
    using assms(2) by (metis add.assoc length_append)
  then obtain s1 where 1: "write_all ?h s = (True, s1)" "so_out s1 = so_out s @ ?h" "takes (so_wr s1) (length payload + m)"
    "so_rd s1 = so_rd s" by (rule write_all_takes)
  show thesis
  proof (cases "payload = []")
    case True
    then have "send_frame t q payload s = (True, s1)" using assms(1) 1(1) by (simp add: send_frame_def Let_def)
    with 1 True parts that show thesis by (metis add_0 append_Nil2 list.size(3))
  next
    case False
    obtain s2 where 2: "write_all payload s1 = (True, s2)" "so_out s2 = so_out s1 @ payload" "takes (so_wr s2) m"
      "so_rd s2 = so_rd s1" by (rule write_all_takes [OF 1(3)])
    have "send_frame t q payload s = (True, s2)" using assms(1) 1(1) 2(1) False by (simp add: send_frame_def Let_def)
    with 1 2 parts that show thesis by (metis append.assoc)
  qed
qed

lemma send_frame_rd: "so_rd (snd (send_frame t q p s)) = so_rd s"
  using write_all_rd by (auto simp: send_frame_def Let_def split: prod.splits bool.splits) (metis snd_conv)+

lemma read_frame_Some:
  assumes "read_frame mem s = (Some f, s')"
  shows "delivers (so_rd s) = enroll_frame (fr_type f) (fr_seq f) (fr_payload f) @ delivers (so_rd s')"
    "length (fr_payload f) + IG_ENROLL_FRAME_HEADER_SIZE \<le> IG_ENROLL_MAX_FRAME_SIZE"
proof -
  obtain hdr s1 where h: "read_all IG_ENROLL_FRAME_HEADER_SIZE s = (Some hdr, s1)"
    using assms by (auto simp: read_frame_def split: prod.splits option.splits)
  note hd = read_all_Some [OF h]
  define n where "n = unat (of_be32 (hdr ! 0) (hdr ! Suc 0) (hdr ! 2) (hdr ! 3))"
  have n: "IG_ENROLL_FRAME_HEADER_SIZE \<le> n" "n \<le> IG_ENROLL_MAX_FRAME_SIZE"
    using assms by (auto simp: read_frame_def h Let_def n_def [symmetric] split: if_splits)
  obtain p where f: "f = \<lparr>fr_type = hdr ! 4, fr_seq = of_be32 (hdr ! 5) (hdr ! 6) (hdr ! 7) (hdr ! 8), fr_payload = p\<rparr>"
    and p: "length p = n - IG_ENROLL_FRAME_HEADER_SIZE" "delivers (so_rd s1) = p @ delivers (so_rd s')"
    using assms n
    by (auto simp: read_frame_def h Let_def n_def [symmetric] dest: read_all_Some split: if_splits prod.splits option.splits)
  have "hdr = be32 (of_be32 (hdr ! 0) (hdr ! 1) (hdr ! 2) (hdr ! 3)) @ [hdr ! 4]
      @ be32 (of_be32 (hdr ! 5) (hdr ! 6) (hdr ! 7) (hdr ! 8))"
    using list_of_9 [of hdr] hd(1) by (simp add: of_be32_inverse enroll_sizes)
  moreover have "of_be32 (hdr ! 0) (hdr ! 1) (hdr ! 2) (hdr ! 3) = of_nat (length p + IG_ENROLL_FRAME_HEADER_SIZE)"
    using p(1) n by (simp add: n_def)
  ultimately have "hdr @ p = enroll_frame (fr_type f) (fr_seq f) (fr_payload f)"
    by (simp add: f enroll_frame_def)
  with hd(2) p show "delivers (so_rd s) = enroll_frame (fr_type f) (fr_seq f) (fr_payload f) @ delivers (so_rd s')"
    by (metis append.assoc)
  show "length (fr_payload f) + IG_ENROLL_FRAME_HEADER_SIZE \<le> IG_ENROLL_MAX_FRAME_SIZE" using p n by (simp add: f)
qed

lemma read_frame_enough:
  assumes "delivers (so_rd s) = enroll_frame t q p @ rest"
    and "length p + IG_ENROLL_FRAME_HEADER_SIZE \<le> IG_ENROLL_MAX_FRAME_SIZE"
  obtains s' where "read_frame (\<lambda>_. True) s = (Some \<lparr>fr_type = t, fr_seq = q, fr_payload = p\<rparr>, s')"
    "delivers (so_rd s') = rest" "so_out s' = so_out s" "so_wr s' = so_wr s"
proof -
  define h where "h = be32 (of_nat (length p + IG_ENROLL_FRAME_HEADER_SIZE)) @ [t] @ be32 q"
  note f = frame_hdr_fields [OF h_def]
  have dl: "delivers (so_rd s) = h @ p @ rest" using assms(1) by (simp add: h_def enroll_frame_def)
  have len: "length h = IG_ENROLL_FRAME_HEADER_SIZE" by (simp add: f enroll_sizes)
  obtain s1 where 1: "read_all IG_ENROLL_FRAME_HEADER_SIZE s = (Some h, s1)" "delivers (so_rd s1) = p @ rest"
    "so_out s1 = so_out s" "so_wr s1 = so_wr s"
    by (rule read_all_enough [OF dl len])
  have n: "unat (of_nat (length p + IG_ENROLL_FRAME_HEADER_SIZE) :: u32) = length p + IG_ENROLL_FRAME_HEADER_SIZE"
    using assms(2) by (simp only: unat_of_nat) (simp add: take_bit_eq_mod enroll_sizes)
  obtain s2 where 2: "read_all (length p) s1 = (Some p, s2)" "delivers (so_rd s2) = rest" "so_out s2 = so_out s1" "so_wr s2 = so_wr s1"
    by (rule read_all_enough [OF 1(2) refl])
  show thesis
  proof (cases "p = []")
    case True
    then have "read_frame (\<lambda>_. True) s = (Some \<lparr>fr_type = t, fr_seq = q, fr_payload = p\<rparr>, s1)"
      using assms(2) n by (simp add: read_frame_def 1 f Let_def)
    with True 1 that show thesis by simp
  next
    case False
    then have "read_frame (\<lambda>_. True) s = (Some \<lparr>fr_type = t, fr_seq = q, fr_payload = p\<rparr>, s2)"
      using assms(2) n 2 by (simp add: read_frame_def 1 f Let_def)
    with 1 2 that show thesis by simp
  qed
qed

lemma read_bytes_Some:
  assumes "read_bytes mem p = (Some b, p')"
  shows "p = be16 (of_nat (length b)) @ b @ p'"
proof -
  from assms have len: "2 \<le> length p" by (auto simp: read_bytes_def Let_def split: if_splits)
  then obtain x y q where p: "p = x # y # q" by (cases p; cases "tl p") auto
  define n where "n = unat (of_be16 x y)"
  have b: "b = take n q" "p' = drop n q" "n \<le> length q"
    using assms by (auto simp: read_bytes_def Let_def p n_def split: if_splits)
  then have "of_nat (length b) = of_be16 x y" by (simp add: n_def)
  with b show ?thesis by (simp add: p of_be16_inverse)
qed

lemma read_string_step:
  "length s \<le> 65535 \<Longrightarrow> read_string (\<lambda>_. True) (be16 (of_nat (length s)) @ map byte_of_char s @ rest) = (Some (cstr s), rest)"
  by (simp add: read_string_def Let_def be16_def of_be16_be16 unat_of_nat take_bit_eq_mod)

lemma read_bytes_step:
  "length b \<le> 65535 \<Longrightarrow> read_bytes (\<lambda>_. True) (be16 (of_nat (length b)) @ b @ rest) = (Some b, rest)"
  by (simp add: read_bytes_def Let_def be16_def of_be16_be16 unat_of_nat take_bit_eq_mod)

lemma decode_challenge_ok:
  assumes "decode_challenge mem f = (rc, nonce, pr)" and "\<not> rc < 0"
  shows "fr_type f = IG_MSG_XOR_CHALLENGE" "length nonce = 32" "length pr = 32"
    "fr_payload f = be16 32 @ nonce @ be16 32 @ pr"
proof -
  obtain n p where n: "read_bytes mem (fr_payload f) = (n, p)" by fastforce
  obtain m p' where m: "read_bytes mem p = (m, p')" by fastforce
  have *: "fr_type f = IG_MSG_XOR_CHALLENGE" "n = Some nonce" "m = Some pr" "length nonce = 32" "length pr = 32" "p' = []"
    using assms by (auto simp: decode_challenge_def n m split: if_splits option.splits)
  then show "fr_type f = IG_MSG_XOR_CHALLENGE" "length nonce = 32" "length pr = 32" by simp_all
  show "fr_payload f = be16 32 @ nonce @ be16 32 @ pr"
    using read_bytes_Some [of mem "fr_payload f" nonce p] read_bytes_Some [of mem p pr p'] n m * by simp
qed

section \<open>What an enrollment can write\<close>

lemma write_text_file_cases:
  assumes "write_text_file o1 path data fmode fs = (rc, fs')"
  obtains "rc = -1" "fs' = fs"
    | n m where "fs' = fs(path \<mapsto> (take n (cstr data), m))" "rc = 0 \<or> rc = -1"
        "rc = 0 \<Longrightarrow> n = length (cstr data) \<and> m = fmode"
proof -
  consider "\<not> fo_open o1" | "fo_open o1" "\<not> fo_chmod o1" | "fo_open o1" "fo_chmod o1" "fo_written o1 = None"
    | n where "fo_open o1" "fo_chmod o1" "fo_written o1 = Some n" by fastforce
  then show thesis
  proof cases
    case 1
    then show thesis using assms that(1) by (simp add: write_text_file_def)
  next
    case 2
    then show thesis using assms that(2) [of 0] by (auto simp: write_text_file_def Let_def)
  next
    case 3
    then show thesis using assms that(2) [of 0 fmode] by (auto simp: write_text_file_def Let_def)
  next
    case (4 n)
    then have *: "fs' = fs(path \<mapsto> (take n (cstr data), fmode))" "rc = (if n = length (cstr data) then 0 else -1)"
      using assms by (auto simp: write_text_file_def Let_def)
    show thesis by (rule that(2) [OF *(1)]) (use *(2) in \<open>auto split: if_splits\<close>)
  qed
qed

lemma write_text_file_other:
  "write_text_file o1 path data fmode fs = (rc, fs') \<Longrightarrow> q \<noteq> path \<Longrightarrow> fs' q = fs q"
  by (erule write_text_file_cases) auto

lemma write_text_file_keeps:
  "write_text_file o1 path data fmode fs = (rc, fs') \<Longrightarrow> fs q \<noteq> None \<Longrightarrow> fs' q \<noteq> None"
  by (erule write_text_file_cases) auto

lemma write_text_file_content:
  assumes "write_text_file o1 path data fmode fs = (rc, fs')" and "fs' q \<noteq> fs q"
  shows "q = path \<and> (\<exists>n. map_option fst (fs' q) = Some (take n (cstr data)))"
  using assms(1) by (rule write_text_file_cases) (use assms(2) in \<open>auto split: if_splits\<close>)

definition cert_files :: "ig_enroll_config \<Rightarrow> ig_enroll_response \<Rightarrow> (string option \<times> string) set" where
  "cert_files cfg resp = {(ec_ca_crt cfg, er_ca_cert_pem resp), (ec_agent_crt cfg, er_agent_cert_pem resp),
     (ec_agent_key cfg, er_agent_key_pem resp)}"

lemma not_missing:
  assumes "\<not> missing_setting cfg"
  shows "ec_ca_crt cfg = Some (the (ec_ca_crt cfg))" "ec_agent_crt cfg = Some (the (ec_agent_crt cfg))"
    "ec_agent_key cfg = Some (the (ec_agent_key cfg))"
  using assms by (auto simp: missing_setting_def)

lemma store_certificates_steps:
  assumes "store_certificates env cfg resp fs = (ok, fs')" and "\<not> missing_setting cfg"
  obtains fs1 fs2 rc1 rc2 rc3 where
    "write_text_file (ee_file env (the (ec_ca_crt cfg))) (the (ec_ca_crt cfg)) (er_ca_cert_pem resp) 0x1A4 fs = (rc1, fs1)"
    "rc1 < 0 \<and> \<not> ok \<and> fs' = fs1 \<or> \<not> rc1 < 0 \<and>
       write_text_file (ee_file env (the (ec_agent_crt cfg))) (the (ec_agent_crt cfg)) (er_agent_cert_pem resp) 0x1A4 fs1 = (rc2, fs2)
       \<and> (rc2 < 0 \<and> \<not> ok \<and> fs' = fs2 \<or> \<not> rc2 < 0 \<and>
         write_text_file (ee_file env (the (ec_agent_key cfg))) (the (ec_agent_key cfg)) (er_agent_key_pem resp) 0x180 fs2 = (rc3, fs')
         \<and> (ok \<longleftrightarrow> \<not> rc3 < 0))"
  using assms(1) by (auto simp: store_certificates_def Let_def split: prod.splits if_splits)

lemma store_certificates_content:
  assumes "store_certificates env cfg resp fs = (ok, fs')" and "\<not> missing_setting cfg" and "fs' p \<noteq> fs p"
  shows "\<exists>pem n. (Some p, pem) \<in> cert_files cfg resp \<and> map_option fst (fs' p) = Some (take n (cstr pem))"
proof -
  note nm = not_missing [OF assms(2)]
  obtain fs1 fs2 rc1 rc2 rc3 where w:
    "write_text_file (ee_file env (the (ec_ca_crt cfg))) (the (ec_ca_crt cfg)) (er_ca_cert_pem resp) 0x1A4 fs = (rc1, fs1)"
    "rc1 < 0 \<and> \<not> ok \<and> fs' = fs1 \<or> \<not> rc1 < 0 \<and>
       write_text_file (ee_file env (the (ec_agent_crt cfg))) (the (ec_agent_crt cfg)) (er_agent_cert_pem resp) 0x1A4 fs1 = (rc2, fs2)
       \<and> (rc2 < 0 \<and> \<not> ok \<and> fs' = fs2 \<or> \<not> rc2 < 0 \<and>
         write_text_file (ee_file env (the (ec_agent_key cfg))) (the (ec_agent_key cfg)) (er_agent_key_pem resp) 0x180 fs2 = (rc3, fs')
         \<and> (ok \<longleftrightarrow> \<not> rc3 < 0))"
    by (rule store_certificates_steps [OF assms(1,2)])
  have a: "fs1 p \<noteq> fs p \<Longrightarrow> ?thesis" if "fs' p = fs1 p"
    using write_text_file_content [OF w(1), of p] nm that by (auto simp: cert_files_def)
  have b: ?thesis if "write_text_file (ee_file env (the (ec_agent_crt cfg))) (the (ec_agent_crt cfg)) (er_agent_cert_pem resp) 0x1A4 fs1 = (rc2, fs2)"
    "fs2 p \<noteq> fs1 p" "fs' p = fs2 p"
    using write_text_file_content [OF that(1,2)] nm that(3) by (auto simp: cert_files_def)
  have c: ?thesis if "write_text_file (ee_file env (the (ec_agent_key cfg))) (the (ec_agent_key cfg)) (er_agent_key_pem resp) 0x180 fs2 = (rc3, fs')"
    "fs' p \<noteq> fs2 p"
    using write_text_file_content [OF that] nm by (auto simp: cert_files_def)
  show ?thesis using w(2) a b c assms(3) by metis
qed

lemma execute_stored:
  assumes "ig_enroll_execute env cfg fs = (rc, s', fs')"
  obtains "rc = -1" "fs' = fs"
    | cn hello sn pr ss frame resp s1 s2 s3 ok where
        "ee_rand env = Some cn" "\<not> missing_setting cfg"
        "enroll_challenge env hello (ee_sock env) = (Some (sn, pr), s1)"
        "enroll_session env cfg cn sn pr = Some ss" "enroll_request env cfg ss s1 = (True, s2)"
        "read_frame (ee_mem env) s2 = (Some frame, s3)" "accept_response env ss frame = Some resp"
        "store_certificates env cfg resp fs = (ok, fs')" "rc = (if ok then 0 else -1)"
  using assms by (auto simp: ig_enroll_execute_def Let_def split: if_splits option.splits prod.splits bool.splits)


lemma challenge_read:
  assumes "enroll_challenge env hello s = (Some (sn, pr), s1)"
  shows "\<exists>q1. delivers (so_rd s) = enroll_frame IG_MSG_XOR_CHALLENGE q1 (be16 32 @ sn @ be16 32 @ pr) @ delivers (so_rd s1)"
proof -
  obtain f s0 rc where f: "send_frame IG_MSG_XOR_HELLO 1 hello s = (True, s0)" "read_frame (ee_mem env) s0 = (Some f, s1)"
    "decode_challenge (ee_mem env) f = (rc, sn, pr)" "\<not> rc < 0"
    using assms by (auto simp: enroll_challenge_def split: prod.splits bool.splits option.splits if_splits)
  have "so_rd s0 = so_rd s" using send_frame_rd [of IG_MSG_XOR_HELLO 1 hello s] f(1) by simp
  with read_frame_Some(1) [OF f(2)] decode_challenge_ok [OF f(3,4)] show ?thesis by auto
qed

lemma request_keeps_reads: "enroll_request env cfg ss s = (ok, s') \<Longrightarrow> so_rd s' = so_rd s"
  using send_frame_rd [of IG_MSG_XOR_ENROLL_REQUEST 3 _ s]
  by (auto simp: enroll_request_def split: option.splits) (metis snd_conv)

lemma session_proof:
  assumes "enroll_session env cfg cn sn pr = Some ss"
  shows "derive_session (ee_hmac env) (ee_mem env) (the (ec_xor_key cfg)) (the (ec_enrollment_id cfg)) cn sn = Some ss"
    "server_proof (ee_hmac env) (ee_mem env) ss (the (ec_enrollment_id cfg)) cn sn = Some pr"
  using assms by (auto simp: enroll_session_def Let_def split: option.splits if_splits)

end
