(* ===== verification/Enroll_Server.thy ===== *)
theory Enroll_Server
  imports Collector Enroll
begin

text \<open>
  The backend's side of the enrollment: \<^verbatim>\<open>Backend/internal/enrollment\<close> (\<^verbatim>\<open>protocol.go\<close>,
  \<^verbatim>\<open>xor_crypto.go\<close> and the connection handler of \<^verbatim>\<open>server.go\<close>).  Go's HMAC-SHA256 never fails; it is a
  total function \<open>hf\<close> here.  The stores, the key vault, the random generator and the certificate
  issuer are parameters.
\<close>

section \<open>Fields and frames\<close>

definition nonceSize :: nat where "nonceSize = 32"
definition protectedMACSz :: nat where "protectedMACSz = 32"

definition readString :: "bytes \<Rightarrow> go_error + (string \<times> bytes)" where
  "readString r = gbind (readU16 r) (\<lambda>(len, r).
     if length r < unat len then Inl ShortBuffer
     else Inr (map char_of_byte (take (unat len) r), drop (unat len) r))"

definition readBytes :: "bytes \<Rightarrow> go_error + (bytes \<times> bytes)" where
  "readBytes r = gbind (readU16 r) (\<lambda>(len, r).
     if length r < unat len then Inl ShortBuffer else Inr (take (unat len) r, drop (unat len) r))"

definition writeBytes :: "bytes \<Rightarrow> bytes \<Rightarrow> go_error + bytes" where
  "writeBytes data buf =
     (if length data > 65535 then Inl (TooSmall (length data)) else Inr (buf @ be16 (of_nat (length data)) @ data))"

definition writeString :: "string \<Rightarrow> bytes \<Rightarrow> go_error + bytes" where
  "writeString s buf =
     (if length s > 65535 then Inl (TooSmall (length s)) else Inr (buf @ be16 (of_nat (length s)) @ ascii s))"

definition writeU64 :: "u64 \<Rightarrow> bytes \<Rightarrow> bytes" where
  "writeU64 v buf = buf @ be64 v"

record frameHeader =
  fh2_length :: u32
  fh2_msgTyp :: u8
  fh2_seqNum :: u32

definition readFrame :: "bytes \<Rightarrow> go_error + ((frameHeader \<times> bytes) \<times> bytes)" where
  "readFrame s = gbind (ReadFull FrameHeaderSize s) (\<lambda>(hdrBuf, s).
     let hdr = \<lparr>fh2_length = of_be32 (hdrBuf ! 0) (hdrBuf ! 1) (hdrBuf ! 2) (hdrBuf ! 3), fh2_msgTyp = hdrBuf ! 4,
           fh2_seqNum = of_be32 (hdrBuf ! 5) (hdrBuf ! 6) (hdrBuf ! 7) (hdrBuf ! 8)\<rparr>
     in if unat (fh2_length hdr) > MaxFrameSize then Inl (FrameTooLarge (unat (fh2_length hdr)))
        else if unat (fh2_length hdr) < FrameHeaderSize then Inl (TooSmall (unat (fh2_length hdr)))
        else gbind (ReadFull (unat (fh2_length hdr) - FrameHeaderSize) s) (\<lambda>(payload, s). Inr ((hdr, payload), s)))"

text \<open>What a connection that does not fail is given.\<close>

definition writeFrame :: "u8 \<Rightarrow> u32 \<Rightarrow> bytes \<Rightarrow> go_error + bytes" where
  "writeFrame msgTyp seqNum payload =
     (if length payload + FrameHeaderSize > MaxFrameSize then Inl (FrameTooLarge (length payload))
      else Inr (be32 (of_nat (length payload + FrameHeaderSize)) @ [msgTyp] @ be32 seqNum @ payload))"

section \<open>Keys and protected payloads\<close>

record SessionKeys =
  sk_session :: bytes
  sk_enc :: bytes
  sk_mac :: bytes

type_synonym hmac_total = "bytes \<Rightarrow> bytes \<Rightarrow> bytes"

definition DeriveSessionKeys :: "hmac_total \<Rightarrow> bytes \<Rightarrow> string \<Rightarrow> bytes \<Rightarrow> bytes \<Rightarrow> SessionKeys option" where
  "DeriveSessionKeys hf xorKey enrollmentID clientNonce serverNonce =
     (if xorKey = [] \<or> enrollmentID = [] \<or> length clientNonce \<noteq> nonceSize \<or> length serverNonce \<noteq> nonceSize then None
      else let session = hf xorKey (ascii ''knig enrollment v2 session'' @ [0] @ ascii enrollmentID @ [0]
             @ clientNonce @ serverNonce)
      in Some \<lparr>sk_session = session, sk_enc = hf session (ascii ''knig enrollment enc''),
               sk_mac = hf session (ascii ''knig enrollment mac'')\<rparr>)"

definition ServerProof :: "hmac_total \<Rightarrow> SessionKeys \<Rightarrow> string \<Rightarrow> bytes \<Rightarrow> bytes \<Rightarrow> bytes" where
  "ServerProof hf keys enrollmentID clientNonce serverNonce =
     hf (sk_mac keys) (ascii ''knig enrollment server proof'' @ [0] @ ascii enrollmentID @ [0] @ clientNonce @ serverNonce)"

definition frameMAC :: "hmac_total \<Rightarrow> bytes \<Rightarrow> u8 \<Rightarrow> u32 \<Rightarrow> bytes \<Rightarrow> bytes" where
  "frameMAC hf macKey msgTyp seqNum ciphertext = hf macKey ([msgTyp] @ be32 seqNum @ ciphertext)"

text \<open>One byte per turn of the inner loop; \<open>block\<close> is what is left of the current block.\<close>

fun xorKeystream :: "hmac_total \<Rightarrow> bytes \<Rightarrow> u32 \<Rightarrow> u32 \<Rightarrow> bytes \<Rightarrow> bytes \<Rightarrow> bytes" where
  "xorKeystream hf encKey seqNum counter block [] = []"
| "xorKeystream hf encKey seqNum counter (k # block) (b # src) =
     (b XOR k) # xorKeystream hf encKey seqNum counter block src"
| "xorKeystream hf encKey seqNum counter [] (b # src) =
     (case hf encKey (be32 seqNum @ be32 counter) of
        [] \<Rightarrow> []
      | k # block \<Rightarrow> (b XOR k) # xorKeystream hf encKey seqNum (counter + 1) block src)"

definition SealProtected :: "hmac_total \<Rightarrow> u8 \<Rightarrow> u32 \<Rightarrow> bytes \<Rightarrow> SessionKeys \<Rightarrow> bytes" where
  "SealProtected hf msgTyp seqNum plaintext keys =
     (let ciphertext = xorKeystream hf (sk_enc keys) seqNum 0 [] plaintext
      in frameMAC hf (sk_mac keys) msgTyp seqNum ciphertext @ ciphertext)"

definition OpenProtected :: "hmac_total \<Rightarrow> u8 \<Rightarrow> u32 \<Rightarrow> bytes \<Rightarrow> SessionKeys \<Rightarrow> bytes option" where
  "OpenProtected hf msgTyp seqNum payload keys =
     (if length payload < protectedMACSz then None
      else let got = take protectedMACSz payload; ciphertext = drop protectedMACSz payload
      in if got \<noteq> frameMAC hf (sk_mac keys) msgTyp seqNum ciphertext then None
         else Some (xorKeystream hf (sk_enc keys) seqNum 0 [] ciphertext))"

section \<open>Messages\<close>

record Request =
  rq2_Hostname :: string
  rq2_IP :: string
  rq2_OS :: string
  rq2_MonitorType :: u8

record Response =
  rs_AgentID :: string
  rs_AgentCertPEM :: string
  rs_AgentKeyPEM :: string
  rs_CACertPEM :: string
  rs_ExpiresAt :: u64

definition decodeHello :: "bytes \<Rightarrow> go_error + (string \<times> bytes)" where
  "decodeHello payload =
     gbind (readString payload) (\<lambda>(enrollmentID, r).
     gbind (readBytes r) (\<lambda>(clientNonce, r).
       if r \<noteq> [] then Inl (TrailingBytes (length r))
       else if enrollmentID = [] \<or> length clientNonce \<noteq> nonceSize then Inl ShortBuffer
       else Inr (enrollmentID, clientNonce)))"

definition encodeChallenge :: "bytes \<Rightarrow> bytes \<Rightarrow> go_error + bytes" where
  "encodeChallenge serverNonce proof = gbind (writeBytes serverNonce []) (writeBytes proof)"

definition decodeRequest :: "bytes \<Rightarrow> go_error + Request" where
  "decodeRequest payload =
     gbind (readString payload) (\<lambda>(hostname, r).
     gbind (readString r) (\<lambda>(ip, r).
     gbind (readString r) (\<lambda>(osName, r).
     gbind (readU8 r) (\<lambda>(monitorType, r).
       if r \<noteq> [] then Inl (TrailingBytes (length r))
       else Inr \<lparr>rq2_Hostname = hostname, rq2_IP = ip, rq2_OS = osName, rq2_MonitorType = monitorType\<rparr>))))"

definition encodeResponse :: "Response \<Rightarrow> go_error + bytes" where
  "encodeResponse resp =
     gbind (writeString (rs_AgentID resp) []) (\<lambda>w.
     gbind (writeString (rs_AgentCertPEM resp) w) (\<lambda>w.
     gbind (writeString (rs_AgentKeyPEM resp) w) (\<lambda>w.
     gbind (writeString (rs_CACertPEM resp) w) (\<lambda>w.
       Inr (writeU64 (rs_ExpiresAt resp) w)))))"

definition encodeError :: "string \<Rightarrow> go_error + bytes" where
  "encodeError message = writeString message []"

section \<open>The connection handler\<close>

record enrollment_row =
  rw_AgentID :: string
  rw_KeyCiphertext :: bytes
  rw_KeyNonce :: bytes
  rw_SecretHash :: string

record enroll_srv =
  sv_pending :: "string \<Rightarrow> enrollment_row option"
  sv_decrypt :: "bytes \<Rightarrow> bytes \<Rightarrow> bytes option"
  sv_hash :: "string \<Rightarrow> bytes \<Rightarrow> string"
  sv_nonce :: "bytes option"
  sv_enroll :: "string \<Rightarrow> string \<Rightarrow> Request \<Rightarrow> Response option"

text \<open>What the handler does besides answering: the service enrolls an agent, an enrollment is used up.\<close>

datatype srv_action = Enrolled string string Request | MarkedUsed string string

definition writeError :: "u32 \<Rightarrow> string \<Rightarrow> bytes" where
  "writeError seqNum message =
     (case encodeError message of
        Inl _ \<Rightarrow> []
      | Inr payload \<Rightarrow> (case writeFrame IG_MSG_XOR_ENROLL_ERROR seqNum payload of Inl _ \<Rightarrow> [] | Inr out \<Rightarrow> out))"

text \<open>The part after the acknowledgement has been asked for.\<close>

definition handleAck :: "hmac_total \<Rightarrow> SessionKeys \<Rightarrow> string \<Rightarrow> string \<Rightarrow> bytes \<Rightarrow> srv_action list" where
  "handleAck hf keys enrollmentID agentID inp =
     (case readFrame inp of
        Inl _ \<Rightarrow> []
      | Inr ((ackHdr, protectedAck), inp) \<Rightarrow>
          if fh2_msgTyp ackHdr = IG_MSG_XOR_ENROLL_ACK
             \<and> OpenProtected hf (fh2_msgTyp ackHdr) (fh2_seqNum ackHdr) protectedAck keys \<noteq> None
          then [MarkedUsed enrollmentID agentID] else [])"

text \<open>The request and its answer.\<close>

definition handleRequest :: "hmac_total \<Rightarrow> enroll_srv \<Rightarrow> SessionKeys \<Rightarrow> string \<Rightarrow> string \<Rightarrow> bytes \<Rightarrow> bytes \<times> srv_action list" where
  "handleRequest hf sv keys enrollmentID rowAgentID inp =
     (case readFrame inp of
        Inl _ \<Rightarrow> ([], [])
      | Inr ((reqHdr, protectedReq), inp) \<Rightarrow>
          let seqNum = fh2_seqNum reqHdr
          in if fh2_msgTyp reqHdr \<noteq> IG_MSG_XOR_ENROLL_REQUEST
             then (writeError seqNum ''unexpected protected request type'', [])
             else (case OpenProtected hf (fh2_msgTyp reqHdr) seqNum protectedReq keys of
                 None \<Rightarrow> (writeError seqNum ''invalid protected request'', [])
               | Some reqPlain \<Rightarrow>
                   (case decodeRequest reqPlain of
                      Inl _ \<Rightarrow> (writeError seqNum ''invalid enrollment request'', [])
                    | Inr req \<Rightarrow>
                        (case sv_enroll sv enrollmentID rowAgentID req of
                           None \<Rightarrow> (writeError seqNum ''enrollment failed'', [])
                         | Some resp \<Rightarrow>
                             let done1 = [Enrolled enrollmentID (rs_AgentID resp) req]
                             in (case encodeResponse resp of
                                 Inl _ \<Rightarrow> (writeError seqNum ''response encode failed'', done1)
                               | Inr respPlain \<Rightarrow>
                                   (case writeFrame IG_MSG_XOR_ENROLL_RESPONSE (seqNum + 1)
                                       (SealProtected hf IG_MSG_XOR_ENROLL_RESPONSE (seqNum + 1) respPlain keys) of
                                      Inl _ \<Rightarrow> ([], done1)
                                    | Inr out \<Rightarrow> (out, done1 @ handleAck hf keys enrollmentID (rs_AgentID resp) inp)))))))"

definition handleConn :: "hmac_total \<Rightarrow> enroll_srv \<Rightarrow> bytes \<Rightarrow> bytes \<times> srv_action list" where
  "handleConn hf sv inp =
     (case readFrame inp of
        Inl _ \<Rightarrow> ([], [])
      | Inr ((hdr, payload), inp) \<Rightarrow>
          let seqNum = fh2_seqNum hdr; fail = (\<lambda>message. (writeError seqNum message, []))
          in if fh2_msgTyp hdr \<noteq> IG_MSG_XOR_HELLO then fail ''unexpected enrollment message type''
             else (case decodeHello payload of
                 Inl _ \<Rightarrow> fail ''invalid enrollment hello''
               | Inr (enrollmentID, clientNonce) \<Rightarrow>
                   (case sv_pending sv enrollmentID of
                      None \<Rightarrow> fail ''enrollment failed''
                    | Some row \<Rightarrow>
                        (case sv_decrypt sv (rw_KeyCiphertext row) (rw_KeyNonce row) of
                           None \<Rightarrow> fail ''enrollment failed''
                         | Some xorKey \<Rightarrow>
                             if rw_SecretHash row \<noteq> sv_hash sv enrollmentID xorKey then fail ''enrollment failed''
                             else (case sv_nonce sv of
                                 None \<Rightarrow> fail ''nonce generation failed''
                               | Some serverNonce \<Rightarrow>
                                   (case DeriveSessionKeys hf xorKey enrollmentID clientNonce serverNonce of
                                      None \<Rightarrow> fail ''session key derivation failed''
                                    | Some keys \<Rightarrow>
                                        (case encodeChallenge serverNonce (ServerProof hf keys enrollmentID clientNonce serverNonce) of
                                           Inl _ \<Rightarrow> fail ''challenge encode failed''
                                         | Inr chPayload \<Rightarrow>
                                             (case writeFrame IG_MSG_XOR_CHALLENGE (seqNum + 1) chPayload of
                                                Inl _ \<Rightarrow> ([], [])
                                              | Inr out \<Rightarrow>
                                                  (case handleRequest hf sv keys enrollmentID (rw_AgentID row) inp of
                                                     (out', actions) \<Rightarrow> (out @ out', actions))))))))))"

section \<open>Both sides compute the same\<close>

text \<open>The agent's HMAC when the library call does not fail, and memory when \<^verbatim>\<open>calloc\<close> does not.\<close>

definition total_hmac :: "hmac_total \<Rightarrow> hmac_fun" where
  "total_hmac hf k d = Some (hf k d)"

definition keys_of :: "ig_xor_session \<Rightarrow> SessionKeys" where
  "keys_of ss = \<lparr>sk_session = xs_session ss, sk_enc = xs_enc ss, sk_mac = xs_mac ss\<rparr>"

abbreviation enough_mem :: "nat \<Rightarrow> bool" where
  "enough_mem \<equiv> \<lambda>_. True"

lemma total_hmac_sha256 [simp]:
  "(\<And>k d. length (hf k d) = 32) \<Longrightarrow> hmac_sha256 (total_hmac hf) k d = Some (hf k d)"
  by (simp add: hmac_sha256_def total_hmac_def)

lemma xorKeystream_block:
  "xorKeystream hf e q c block src =
     map2 (XOR) (take (length block) src) block @ xorKeystream hf e q c [] (drop (length block) src)"
proof (induction block arbitrary: src)
  case (Cons k block)
  then show ?case by (cases src) simp_all
qed simp

lemma xor_blocks_keystream:
  assumes "\<And>k d. length (hf k d) = 32"
  shows "xor_blocks (total_hmac hf) e q c src = Some (xorKeystream hf e q (of_nat c) [] src)"
proof (induction "total_hmac hf" e q c src rule: xor_blocks.induct)
  case (1 e q c src)
  show ?case
  proof (cases src)
    case Nil
    then show ?thesis by simp
  next
    case (Cons b bs)
    obtain k block where kb: "hf e (be32 q @ be32 (of_nat c)) = k # block" "length block = 31"
      using assms [of e "be32 q @ be32 (of_nat c)"] by (cases "hf e (be32 q @ be32 (of_nat c))") auto
    have rest: "xor_blocks (total_hmac hf) e q (Suc c) (drop 31 bs) = Some (xorKeystream hf e q (of_nat c + 1) [] (drop 31 bs))"
      using 1 [of "k # block"] Cons kb assms by (simp add: add.commute)
    have "xorKeystream hf e q (of_nat c + 1) block bs
        = map2 (XOR) (take 31 bs) block @ xorKeystream hf e q (of_nat c + 1) [] (drop 31 bs)"
      by (subst xorKeystream_block) (simp add: kb)
    moreover have "take 32 (b # bs) = b # take 31 bs" "drop 32 (b # bs) = drop 31 bs" by simp_all
    ultimately show ?thesis
      using rest kb assms by (simp add: xor_blocks.simps [of "total_hmac hf" e q c "b # bs"] Cons)
  qed
qed

lemma length_xorKeystream:
  assumes "\<And>k d. length (hf k d) = 32"
  shows "length (xorKeystream hf e q (of_nat c) [] src) = length src"
  using xor_blocks_involution [OF xor_blocks_keystream [where hf = hf, OF assms]] by simp

lemma frame_mac_frameMAC:
  "(\<And>k d. length (hf k d) = 32) \<Longrightarrow>
     frame_mac (total_hmac hf) enough_mem ss t q c = Some (frameMAC hf (sk_mac (keys_of ss)) t q c)"
  by (simp add: frame_mac_def frameMAC_def keys_of_def)

lemma protect_is_seal:
  assumes "\<And>k d. length (hf k d) = 32" and "length plain + 32 \<le> 65535"
  shows "protect_payload (total_hmac hf) enough_mem ss t q plain = Some (SealProtected hf t q plain (keys_of ss))"
  using assms(2)
  by (simp add: protect_payload_def SealProtected_def enroll_sizes xor_crypt_def keys_of_def Let_def
      xor_blocks_keystream [where hf = hf, OF assms(1)] frame_mac_frameMAC [where hf = hf, OF assms(1)])

lemma length_SealProtected:
  assumes "\<And>k d. length (hf k d) = 32"
  shows "length (SealProtected hf t q plain keys) = 32 + length plain"
  using length_xorKeystream [where hf = hf and c = 0, OF assms] assms
  by (simp add: SealProtected_def frameMAC_def Let_def)

text \<open>What one side sealed, the other opens, in both directions.\<close>

lemma xorKeystream_twice:
  assumes "\<And>k d. length (hf k d) = 32"
  shows "xorKeystream hf e q 0 [] (xorKeystream hf e q 0 [] src) = src"
proof -
  note x = xor_blocks_keystream [where hf = hf and c = 0, OF assms, simplified]
  show ?thesis using xor_blocks_involution [OF x [of e q src]] x [of e q "xorKeystream hf e q 0 [] src"] by simp
qed

lemma open_seal:
  assumes "\<And>k d. length (hf k d) = 32"
  shows "OpenProtected hf t q (SealProtected hf t q plain keys) keys = Some plain"
  using assms
  by (simp add: OpenProtected_def SealProtected_def Let_def protectedMACSz_def frameMAC_def
      xorKeystream_twice [where hf = hf, OF assms])

lemma open_is_open:
  assumes "\<And>k d. length (hf k d) = 32"
  shows "open_protected_payload (total_hmac hf) enough_mem ss t q p = OpenProtected hf t q p (keys_of ss)"
  by (simp add: open_protected_payload_def OpenProtected_def Let_def enroll_sizes protectedMACSz_def keys_of_def
      frame_mac_frameMAC [where hf = hf, OF assms] xor_crypt_def xor_blocks_keystream [where hf = hf, OF assms])

text \<open>The agent's key, and the keys of both sides.\<close>

definition session_of :: "hmac_total \<Rightarrow> string \<Rightarrow> string \<Rightarrow> bytes \<Rightarrow> bytes \<Rightarrow> ig_xor_session" where
  "session_of hf key i cn sn =
     (let s = hf (ascii key) (transcript ''knig enrollment v2 session'' i cn sn)
      in \<lparr>xs_session = s, xs_enc = hf s (ascii ''knig enrollment enc''), xs_mac = hf s (ascii ''knig enrollment mac'')\<rparr>)"

lemma derive_session_of:
  "(\<And>k d. length (hf k d) = 32) \<Longrightarrow> has_no_nul key \<Longrightarrow>
     derive_session (total_hmac hf) enough_mem key i cn sn = Some (session_of hf key i cn sn)"
  by (simp add: derive_session_def session_of_def Let_def)

lemma ascii_simps [simp]: "length (ascii s) = length s" "ascii s = [] \<longleftrightarrow> s = []" "map char_of_byte (ascii s) = s"
  by (simp_all add: ascii_def)

lemma DeriveSessionKeys_of:
  assumes "key \<noteq> []" and "i \<noteq> []" and "has_no_nul i" and "length cn = 32" and "length sn = 32"
  shows "DeriveSessionKeys hf (ascii key) i cn sn = Some (keys_of (session_of hf key i cn sn))"
  using assms by (simp add: DeriveSessionKeys_def session_of_def keys_of_def Let_def transcript_def nonceSize_def)

lemma server_proof_of:
  "(\<And>k d. length (hf k d) = 32) \<Longrightarrow> has_no_nul i \<Longrightarrow>
     server_proof (total_hmac hf) enough_mem ss i cn sn = Some (ServerProof hf (keys_of ss) i cn sn)"
  by (simp add: server_proof_def ServerProof_def keys_of_def Let_def transcript_def)

section \<open>Both sides read what the other wrote\<close>

lemma readFrame_frame:
  assumes "length p + IG_ENROLL_FRAME_HEADER_SIZE \<le> IG_ENROLL_MAX_FRAME_SIZE"
  shows "readFrame (enroll_frame t q p @ rest)
    = Inr ((\<lparr>fh2_length = of_nat (length p + IG_ENROLL_FRAME_HEADER_SIZE), fh2_msgTyp = t, fh2_seqNum = q\<rparr>, p), rest)"
proof -
  define h where "h = be32 (of_nat (length p + IG_ENROLL_FRAME_HEADER_SIZE)) @ [t] @ be32 q"
  note f = frame_hdr_fields [OF h_def]
  have n: "unat (of_nat (length p + IG_ENROLL_FRAME_HEADER_SIZE) :: u32) = length p + IG_ENROLL_FRAME_HEADER_SIZE"
    using assms by (simp only: unat_of_nat) (simp add: take_bit_eq_mod enroll_sizes)
  have "enroll_frame t q p @ rest = h @ p @ rest" by (simp add: h_def enroll_frame_def)
  moreover have "ReadFull FrameHeaderSize (h @ p @ rest) = Inr (h, p @ rest)" by (simp add: ReadFull_def FrameHeaderSize_def f)
  moreover have "ReadFull (length p) (p @ rest) = Inr (p, rest)" by (simp add: ReadFull_def)
  ultimately show ?thesis
    using assms n by (simp add: readFrame_def f Let_def MaxFrameSize_def FrameHeaderSize_def enroll_sizes)
qed

lemma writeFrame_frame:
  "length p + IG_ENROLL_FRAME_HEADER_SIZE \<le> IG_ENROLL_MAX_FRAME_SIZE \<Longrightarrow> writeFrame t q p = Inr (enroll_frame t q p)"
  by (simp add: writeFrame_def enroll_frame_def enroll_sizes MaxFrameSize_def FrameHeaderSize_def)

text \<open>A length-prefixed field.\<close>

definition field :: "bytes \<Rightarrow> bytes" where
  "field b = be16 (of_nat (length b)) @ b"

lemma readBytes_field: "length b \<le> 65535 \<Longrightarrow> gbind (readBytes (field b @ rest)) k = k (b, rest)"
  by (simp add: readBytes_def field_def readU16_step unat_of_nat take_bit_eq_mod)

lemma readString_field: "length s \<le> 65535 \<Longrightarrow> gbind (readString (field (ascii s) @ rest)) k = k (s, rest)"
  by (simp add: readString_def field_def readU16_step unat_of_nat take_bit_eq_mod)

lemma read_string_field:
  "length s \<le> 65535 \<Longrightarrow> read_string enough_mem (field (ascii s) @ rest) = (Some (cstr s), rest)"
  using read_string_step [of s rest] by (simp add: field_def ascii_def)

lemma write_string_field:
  "length (cstr s) \<le> 65535 \<Longrightarrow> write_string (Some s) (buf, length (cstr s) + 2 + n) = Some (buf @ field (ascii (cstr s)), n)"
  by (simp add: write_string_def field_def ascii_def Let_def)

lemma write_bytes_field:
  "length b \<le> 65535 \<Longrightarrow> write_bytes_enroll b (buf, length b + 2 + n) = Some (buf @ field b, n)"
  by (simp add: write_bytes_enroll_def field_def Let_def)

lemma encode_hello_bytes:
  assumes "length (cstr i) \<le> 65535" and "length cn = 32"
  shows "encode_hello enough_mem i cn = Some (field (ascii (cstr i)) @ field cn)"
  using write_string_field [OF assms(1), of "[]" 34] write_bytes_field [of cn "field (ascii (cstr i))" 0] assms
  by (simp add: encode_hello_def Let_def add.commute add.left_commute)

definition request_bytes :: "ig_enroll_config \<Rightarrow> bytes" where
  "request_bytes cfg = field (ascii (cstr (the (ec_hostname cfg)))) @ field (ascii (cstr (the (ec_ip cfg))))
     @ field (ascii (cstr (the (ec_os cfg)))) @ [ec_monitor_type cfg]"

definition request_of :: "ig_enroll_config \<Rightarrow> Request" where
  "request_of cfg = \<lparr>rq2_Hostname = cstr (the (ec_hostname cfg)), rq2_IP = cstr (the (ec_ip cfg)),
     rq2_OS = cstr (the (ec_os cfg)), rq2_MonitorType = ec_monitor_type cfg\<rparr>"

lemma encode_request_bytes:
  assumes "length (cstr (the (ec_hostname cfg))) \<le> 65535" and "length (cstr (the (ec_ip cfg))) \<le> 65535"
    and "length (cstr (the (ec_os cfg))) \<le> 65535"
  shows "encode_request_plain enough_mem cfg = Some (request_bytes cfg)"
proof -
  define h i o1 where "h = the (ec_hostname cfg)" and "i = the (ec_ip cfg)" and "o1 = the (ec_os cfg)"
  note d = h_def i_def o1_def
  have len: "2 + length (cstr h) + 2 + length (cstr i) + 2 + length (cstr o1) + 1
      = length (cstr h) + 2 + (length (cstr i) + 2 + (length (cstr o1) + 2 + 1))" by simp
  have "write_string (Some h) ([], length (cstr h) + 2 + (length (cstr i) + 2 + (length (cstr o1) + 2 + 1)))
      = Some ([] @ field (ascii (cstr h)), length (cstr i) + 2 + (length (cstr o1) + 2 + 1))"
    by (rule write_string_field) (use assms(1) d in simp)
  moreover have "write_string (Some i) ([] @ field (ascii (cstr h)), length (cstr i) + 2 + (length (cstr o1) + 2 + 1))
      = Some (([] @ field (ascii (cstr h))) @ field (ascii (cstr i)), length (cstr o1) + 2 + 1)"
    by (rule write_string_field) (use assms(2) d in simp)
  moreover have "write_string (Some o1) (([] @ field (ascii (cstr h))) @ field (ascii (cstr i)), length (cstr o1) + 2 + 1)
      = Some ((([] @ field (ascii (cstr h))) @ field (ascii (cstr i))) @ field (ascii (cstr o1)), 1)"
    by (rule write_string_field) (use assms(3) d in simp)
  ultimately show ?thesis
    by (simp only: encode_request_plain_def Let_def d [symmetric] len) (simp add: request_bytes_def d)
qed

lemma decodeRequest_bytes:
  assumes "length (cstr (the (ec_hostname cfg))) \<le> 65535" and "length (cstr (the (ec_ip cfg))) \<le> 65535"
    and "length (cstr (the (ec_os cfg))) \<le> 65535"
  shows "decodeRequest (request_bytes cfg) = Inr (request_of cfg)"
  using assms by (simp add: decodeRequest_def request_bytes_def request_of_def readString_field readU8_step)

definition response_bytes :: "Response \<Rightarrow> bytes" where
  "response_bytes r = field (ascii (rs_AgentID r)) @ field (ascii (rs_AgentCertPEM r)) @ field (ascii (rs_AgentKeyPEM r))
     @ field (ascii (rs_CACertPEM r)) @ be64 (rs_ExpiresAt r)"

definition response_ok :: "Response \<Rightarrow> bool" where
  "response_ok r \<longleftrightarrow> list_all (\<lambda>s. has_no_nul s) [rs_AgentID r, rs_AgentCertPEM r, rs_AgentKeyPEM r, rs_CACertPEM r]
     \<and> length (response_bytes r) + 32 + 9 \<le> 65535"

lemma encodeResponse_bytes:
  assumes "response_ok r"
  shows "encodeResponse r = Inr (response_bytes r)"
  using assms
  by (simp add: encodeResponse_def response_bytes_def writeString_def writeU64_def response_ok_def field_def)

lemma decode_response_bytes:
  assumes "response_ok r"
  shows "decode_response_plain enough_mem (response_bytes r) = Some \<lparr>er_agent_id = rs_AgentID r,
     er_agent_cert_pem = rs_AgentCertPEM r, er_agent_key_pem = rs_AgentKeyPEM r, er_ca_cert_pem = rs_CACertPEM r,
     er_expires_at = rs_ExpiresAt r\<rparr>"
proof -
  have len: "length (rs_AgentID r) \<le> 65535" "length (rs_AgentCertPEM r) \<le> 65535" "length (rs_AgentKeyPEM r) \<le> 65535"
    "length (rs_CACertPEM r) \<le> 65535"
    using assms by (simp_all add: response_ok_def response_bytes_def field_def)
  have e: "be64_to_host (be64 v) = v" for v
    by (simp add: be64_to_host_def be64_def be32_def of_be32_be32 of_hi_lo_halves)
  show ?thesis
    using assms len
    by (simp add: decode_response_plain_def response_bytes_def read_string_field response_ok_def e)
qed

section \<open>The handshake\<close>

text \<open>What the agent puts on the wire.\<close>

definition hello_wire :: "ig_enroll_config \<Rightarrow> bytes \<Rightarrow> bytes" where
  "hello_wire cfg cn = enroll_frame IG_MSG_XOR_HELLO 1 (field (ascii (the (ec_enrollment_id cfg))) @ field cn)"

definition request_wire :: "hmac_total \<Rightarrow> ig_enroll_config \<Rightarrow> ig_xor_session \<Rightarrow> bytes" where
  "request_wire hf cfg ss = enroll_frame IG_MSG_XOR_ENROLL_REQUEST 3
     (SealProtected hf IG_MSG_XOR_ENROLL_REQUEST 3 (request_bytes cfg) (keys_of ss))"

definition ack_wire :: "hmac_total \<Rightarrow> ig_xor_session \<Rightarrow> bytes" where
  "ack_wire hf ss = enroll_frame IG_MSG_XOR_ENROLL_ACK 5 (SealProtected hf IG_MSG_XOR_ENROLL_ACK 5 [] (keys_of ss))"

text \<open>
  The setting of a run in which nothing fails: the agent's configuration, the backend's records of
  the enrollment, and the environment of the agent.
\<close>

definition config_complete :: "ig_enroll_config \<Rightarrow> bool" where
  "config_complete cfg \<longleftrightarrow> \<not> missing_setting cfg
     \<and> the (ec_enrollment_id cfg) \<noteq> [] \<and> has_no_nul (the (ec_enrollment_id cfg)) \<and> length (the (ec_enrollment_id cfg)) \<le> 255
     \<and> the (ec_xor_key cfg) \<noteq> [] \<and> has_no_nul (the (ec_xor_key cfg))
     \<and> length (cstr (the (ec_hostname cfg))) \<le> 255 \<and> length (cstr (the (ec_ip cfg))) \<le> 255
     \<and> length (cstr (the (ec_os cfg))) \<le> 255
     \<and> distinct [ec_ca_crt cfg, ec_agent_crt cfg, ec_agent_key cfg]"

definition backend_knows :: "enroll_srv \<Rightarrow> ig_enroll_config \<Rightarrow> bytes \<Rightarrow> Response \<Rightarrow> bool" where
  "backend_knows sv cfg sn resp \<longleftrightarrow> (\<exists>row. sv_pending sv (the (ec_enrollment_id cfg)) = Some row
     \<and> sv_decrypt sv (rw_KeyCiphertext row) (rw_KeyNonce row) = Some (ascii (the (ec_xor_key cfg)))
     \<and> rw_SecretHash row = sv_hash sv (the (ec_enrollment_id cfg)) (ascii (the (ec_xor_key cfg)))
     \<and> sv_enroll sv (the (ec_enrollment_id cfg)) (rw_AgentID row) (request_of cfg) = Some resp)
     \<and> sv_nonce sv = Some sn \<and> length sn = 32 \<and> response_ok resp"

definition net_works :: "hmac_total \<Rightarrow> enroll_env \<Rightarrow> bytes \<Rightarrow> bool" where
  "net_works hf env cn \<longleftrightarrow> ee_hmac env = total_hmac hf \<and> ee_mem env = enough_mem
     \<and> ee_rand env = Some cn \<and> length cn = 32 \<and> 0 \<le> connect_tcp env
     \<and> so_out (ee_sock env) = [] \<and> takes (so_wr (ee_sock env)) 3000"

definition files_work :: "enroll_env \<Rightarrow> ig_enroll_config \<Rightarrow> Response \<Rightarrow> bool" where
  "files_work env cfg resp \<longleftrightarrow> (\<forall>(path, pem) \<in> {(ec_ca_crt cfg, rs_CACertPEM resp), (ec_agent_crt cfg, rs_AgentCertPEM resp),
            (ec_agent_key cfg, rs_AgentKeyPEM resp)}.
          let o1 = ee_file env (the path) in fo_open o1 \<and> fo_chmod o1 \<and> fo_written o1 = Some (length pem))"

lemma length_enroll_frame: "length (enroll_frame t q p) = 9 + length p"
  by (simp add: enroll_frame_def)

lemma length_request_bytes:
  "config_complete cfg \<Longrightarrow> length (request_bytes cfg) \<le> 772"
  by (simp add: request_bytes_def field_def config_complete_def)

lemma handle_ack_ok:
  assumes "\<And>k d. length (hf k d) = 32"
  shows "handleAck hf (keys_of ss) i a (ack_wire hf ss) = [MarkedUsed i a]"
proof -
  have "readFrame (ack_wire hf ss @ []) = Inr ((\<lparr>fh2_length = of_nat (length (SealProtected hf IG_MSG_XOR_ENROLL_ACK 5 [] (keys_of ss))
      + IG_ENROLL_FRAME_HEADER_SIZE), fh2_msgTyp = IG_MSG_XOR_ENROLL_ACK, fh2_seqNum = 5\<rparr>,
      SealProtected hf IG_MSG_XOR_ENROLL_ACK 5 [] (keys_of ss)), [])"
    unfolding ack_wire_def
    by (rule readFrame_frame) (simp add: length_SealProtected [where hf = hf, OF assms] enroll_sizes)
  then show ?thesis by (simp add: handleAck_def open_seal [where hf = hf, OF assms])
qed

lemma handle_request_ok:
  assumes "\<And>k d. length (hf k d) = 32" and "config_complete cfg" and "response_ok resp"
    and "sv_enroll sv i a (request_of cfg) = Some resp"
  shows "handleRequest hf sv (keys_of ss) i a (request_wire hf cfg ss @ inp) =
     (enroll_frame IG_MSG_XOR_ENROLL_RESPONSE 4 (SealProtected hf IG_MSG_XOR_ENROLL_RESPONSE 4 (response_bytes resp) (keys_of ss)),
      [Enrolled i (rs_AgentID resp) (request_of cfg)] @ handleAck hf (keys_of ss) i (rs_AgentID resp) inp)"
proof -
  note ls = length_SealProtected [where hf = hf, OF assms(1)]
  define p where "p = SealProtected hf IG_MSG_XOR_ENROLL_REQUEST 3 (request_bytes cfg) (keys_of ss)"
  have "length p + IG_ENROLL_FRAME_HEADER_SIZE \<le> IG_ENROLL_MAX_FRAME_SIZE"
    using length_request_bytes [OF assms(2)] by (simp add: p_def ls enroll_sizes)
  note r = readFrame_frame [OF this, of IG_MSG_XOR_ENROLL_REQUEST 3 inp]
  have o1: "OpenProtected hf IG_MSG_XOR_ENROLL_REQUEST 3 p (keys_of ss) = Some (request_bytes cfg)"
    unfolding p_def by (rule open_seal [where hf = hf, OF assms(1)])
  have d: "decodeRequest (request_bytes cfg) = Inr (request_of cfg)"
    by (rule decodeRequest_bytes) (use assms(2) in \<open>simp_all add: config_complete_def\<close>)
  have w: "writeFrame IG_MSG_XOR_ENROLL_RESPONSE 4 (SealProtected hf IG_MSG_XOR_ENROLL_RESPONSE 4 (response_bytes resp) (keys_of ss))
      = Inr (enroll_frame IG_MSG_XOR_ENROLL_RESPONSE 4 (SealProtected hf IG_MSG_XOR_ENROLL_RESPONSE 4 (response_bytes resp) (keys_of ss)))"
    by (rule writeFrame_frame) (use assms(3) in \<open>simp add: ls enroll_sizes response_ok_def\<close>)
  show ?thesis
    unfolding handleRequest_def request_wire_def p_def [symmetric] r
    by (simp add: Let_def o1 d assms(4) encodeResponse_bytes [OF assms(3)] w)
qed

definition challenge_bytes :: "hmac_total \<Rightarrow> ig_enroll_config \<Rightarrow> ig_xor_session \<Rightarrow> bytes \<Rightarrow> bytes \<Rightarrow> bytes" where
  "challenge_bytes hf cfg ss cn sn = field sn @ field (ServerProof hf (keys_of ss) (the (ec_enrollment_id cfg)) cn sn)"

lemma handle_conn_ok:
  assumes "\<And>k d. length (hf k d) = 32" and "config_complete cfg" and "length cn = 32" and "backend_knows sv cfg sn resp"
    and "ss = session_of hf (the (ec_xor_key cfg)) (the (ec_enrollment_id cfg)) cn sn"
  shows "handleConn hf sv (hello_wire cfg cn @ request_wire hf cfg ss @ inp) =
     (enroll_frame IG_MSG_XOR_CHALLENGE 2 (challenge_bytes hf cfg ss cn sn)
      @ enroll_frame IG_MSG_XOR_ENROLL_RESPONSE 4 (SealProtected hf IG_MSG_XOR_ENROLL_RESPONSE 4 (response_bytes resp) (keys_of ss)),
      [Enrolled (the (ec_enrollment_id cfg)) (rs_AgentID resp) (request_of cfg)]
      @ handleAck hf (keys_of ss) (the (ec_enrollment_id cfg)) (rs_AgentID resp) inp)"
proof -
  define i where "i = the (ec_enrollment_id cfg)"
  note cc = assms(2) [unfolded config_complete_def, folded i_def]
  obtain row where row: "sv_pending sv i = Some row"
     "sv_decrypt sv (rw_KeyCiphertext row) (rw_KeyNonce row) = Some (ascii (the (ec_xor_key cfg)))"
     "rw_SecretHash row = sv_hash sv i (ascii (the (ec_xor_key cfg)))"
     "sv_enroll sv i (rw_AgentID row) (request_of cfg) = Some resp" "sv_nonce sv = Some sn" "length sn = 32" "response_ok resp"
    using assms(4) by (auto simp: backend_knows_def i_def)
  define p where "p = field (ascii i) @ field cn"
  have "length p + IG_ENROLL_FRAME_HEADER_SIZE \<le> IG_ENROLL_MAX_FRAME_SIZE"
    using cc assms(3) by (simp add: p_def field_def enroll_sizes)
  note r = readFrame_frame [OF this, of IG_MSG_XOR_HELLO 1 "request_wire hf cfg ss @ inp"]
  have d: "decodeHello p = Inr (i, cn)"
    using cc assms(3)
    by (simp add: decodeHello_def p_def nonceSize_def readString_field [where rest = "field cn"]
        readBytes_field [where rest = "[]", simplified])
  have k: "DeriveSessionKeys hf (ascii (the (ec_xor_key cfg))) i cn sn = Some (keys_of ss)"
    unfolding assms(5) i_def [symmetric]
    by (rule DeriveSessionKeys_of) (use cc assms(3) row in auto)
  have c: "encodeChallenge sn (ServerProof hf (keys_of ss) i cn sn) = Inr (challenge_bytes hf cfg ss cn sn)"
    using row(6) assms(1)
    by (simp add: encodeChallenge_def writeBytes_def challenge_bytes_def field_def i_def ServerProof_def)
  have w: "writeFrame IG_MSG_XOR_CHALLENGE 2 (challenge_bytes hf cfg ss cn sn)
      = Inr (enroll_frame IG_MSG_XOR_CHALLENGE 2 (challenge_bytes hf cfg ss cn sn))"
    by (rule writeFrame_frame) (use row(6) assms(1) in \<open>simp add: challenge_bytes_def field_def enroll_sizes ServerProof_def\<close>)
  show ?thesis
    unfolding handleConn_def hello_wire_def i_def [symmetric] p_def [symmetric] r
    by (simp add: Let_def d row k c w handle_request_ok [where hf = hf, OF assms(1,2) row(7,4)])
qed

lemma challenge_ok:
  assumes "ee_mem env = enough_mem" and "delivers (so_rd s) = enroll_frame IG_MSG_XOR_CHALLENGE q (field sn @ field pr) @ rest"
    and "length sn = 32" and "length pr = 32" and "length p \<le> 500" and "takes (so_wr s) (509 + m)"
  obtains s' where "enroll_challenge env p s = (Some (sn, pr), s')" "delivers (so_rd s') = rest"
    "so_out s' = so_out s @ enroll_frame IG_MSG_XOR_HELLO 1 p" "takes (so_wr s') m"
proof -
  have t: "takes (so_wr s) (length (enroll_frame IG_MSG_XOR_HELLO 1 p) + m)"
    by (rule takes_mono [OF assms(6)]) (use assms(5) in \<open>simp add: length_enroll_frame\<close>)
  have l: "length p + IG_ENROLL_FRAME_HEADER_SIZE \<le> IG_ENROLL_MAX_FRAME_SIZE" using assms(5) by (simp add: enroll_sizes)
  obtain s1 where 1: "send_frame IG_MSG_XOR_HELLO 1 p s = (True, s1)" "so_out s1 = so_out s @ enroll_frame IG_MSG_XOR_HELLO 1 p"
    "takes (so_wr s1) m" "so_rd s1 = so_rd s"
    by (rule send_frame_takes [OF l t])
  have l2: "length (field sn @ field pr) + IG_ENROLL_FRAME_HEADER_SIZE \<le> IG_ENROLL_MAX_FRAME_SIZE"
    using assms(3,4) by (simp add: field_def enroll_sizes)
  have d1: "delivers (so_rd s1) = enroll_frame IG_MSG_XOR_CHALLENGE q (field sn @ field pr) @ rest" using 1(4) assms(2) by simp
  obtain s2 where 2: "read_frame enough_mem s1 = (Some \<lparr>fr_type = IG_MSG_XOR_CHALLENGE, fr_seq = q, fr_payload = field sn @ field pr\<rparr>, s2)"
    "delivers (so_rd s2) = rest" "so_out s2 = so_out s1" "so_wr s2 = so_wr s1"
    by (rule read_frame_enough [OF d1 l2])
  have "read_bytes enough_mem (field sn @ field pr) = (Some sn, field pr)" "read_bytes enough_mem (field pr) = (Some pr, [])"
    using read_bytes_step [of sn "field pr"] read_bytes_step [of pr "[]"] assms(3,4) by (simp_all add: field_def)
  then have "decode_challenge enough_mem \<lparr>fr_type = IG_MSG_XOR_CHALLENGE, fr_seq = q, fr_payload = field sn @ field pr\<rparr> = (0, sn, pr)"
    using assms(3,4) by (simp add: decode_challenge_def enroll_codes)
  then have "enroll_challenge env p s = (Some (sn, pr), s2)"
    by (simp add: enroll_challenge_def 1 2 assms(1)) (simp add: enroll_codes)
  with 1 2 that show thesis by simp
qed

text \<open>The response as the agent decodes it.\<close>

definition received :: "Response \<Rightarrow> ig_enroll_response" where
  "received r = \<lparr>er_agent_id = rs_AgentID r, er_agent_cert_pem = rs_AgentCertPEM r, er_agent_key_pem = rs_AgentKeyPEM r,
     er_ca_cert_pem = rs_CACertPEM r, er_expires_at = rs_ExpiresAt r\<rparr>"

lemma store_ok:
  assumes "files_work env cfg resp" and "response_ok resp"
  shows "store_certificates env cfg (received resp) fs
     = (True, fs(the (ec_ca_crt cfg) \<mapsto> (rs_CACertPEM resp, 0x1A4), the (ec_agent_crt cfg) \<mapsto> (rs_AgentCertPEM resp, 0x1A4),
          the (ec_agent_key cfg) \<mapsto> (rs_AgentKeyPEM resp, 0x180)))"
proof -
  have nn: "has_no_nul (rs_CACertPEM resp)" "has_no_nul (rs_AgentCertPEM resp)" "has_no_nul (rs_AgentKeyPEM resp)"
    using assms(2) by (simp_all add: response_ok_def)
  have w: "write_text_file (ee_file env (the path)) (the path) pem fmode g = (0, g(the path \<mapsto> (pem, fmode)))"
    if "(path, pem) \<in> {(ec_ca_crt cfg, rs_CACertPEM resp), (ec_agent_crt cfg, rs_AgentCertPEM resp),
            (ec_agent_key cfg, rs_AgentKeyPEM resp)}" "has_no_nul pem" for path pem fmode g
  proof -
    have "fo_open (ee_file env (the path))" "fo_chmod (ee_file env (the path))" "fo_written (ee_file env (the path)) = Some (length pem)"
      using assms(1) that(1) unfolding files_work_def Let_def by blast+
    with that(2) show ?thesis by (simp add: write_text_file_def Let_def)
  qed
  show ?thesis by (simp add: store_certificates_def received_def Let_def w nn)
qed

lemma request_ok:
  assumes "\<And>k d. length (hf k d) = 32" and "config_complete cfg" and "ee_hmac env = total_hmac hf"
    and "ee_mem env = enough_mem" and "takes (so_wr s) (900 + m)"
  obtains s' where "enroll_request env cfg ss s = (True, s')" "so_out s' = so_out s @ request_wire hf cfg ss"
    "takes (so_wr s') m" "so_rd s' = so_rd s"
proof -
  define qp where "qp = SealProtected hf IG_MSG_XOR_ENROLL_REQUEST 3 (request_bytes cfg) (keys_of ss)"
  note lb = length_request_bytes [OF assms(2)]
  have lq: "length qp + IG_ENROLL_FRAME_HEADER_SIZE \<le> IG_ENROLL_MAX_FRAME_SIZE"
    and tq: "takes (so_wr s) (length (enroll_frame IG_MSG_XOR_ENROLL_REQUEST 3 qp) + m)"
    using lb takes_mono [OF assms(5)]
    by (auto simp: qp_def length_SealProtected [where hf = hf, OF assms(1)] enroll_sizes length_enroll_frame)
  obtain s' where s': "send_frame IG_MSG_XOR_ENROLL_REQUEST 3 qp s = (True, s')"
    "so_out s' = so_out s @ enroll_frame IG_MSG_XOR_ENROLL_REQUEST 3 qp" "takes (so_wr s') m" "so_rd s' = so_rd s"
    by (rule send_frame_takes [OF lq tq])
  have "encode_request_plain enough_mem cfg = Some (request_bytes cfg)"
    by (rule encode_request_bytes) (use assms(2) in \<open>simp_all add: config_complete_def\<close>)
  moreover have "protect_payload (total_hmac hf) enough_mem ss IG_MSG_XOR_ENROLL_REQUEST 3 (request_bytes cfg) = Some qp"
    unfolding qp_def by (rule protect_is_seal [where hf = hf, OF assms(1)]) (use lb in simp)
  ultimately have "enroll_request env cfg ss s = (True, s')" using assms(3,4) s'(1) by (simp add: enroll_request_def)
  with s' that show thesis by (simp add: request_wire_def qp_def)
qed

lemma accept_ok:
  assumes "\<And>k d. length (hf k d) = 32" and "response_ok resp" and "ee_hmac env = total_hmac hf" and "ee_mem env = enough_mem"
  shows "accept_response env ss \<lparr>fr_type = IG_MSG_XOR_ENROLL_RESPONSE, fr_seq = q,
        fr_payload = SealProtected hf IG_MSG_XOR_ENROLL_RESPONSE q (response_bytes resp) (keys_of ss)\<rparr>
      = Some (received resp)"
  using assms(3,4) open_seal [where hf = hf, OF assms(1)] decode_response_bytes [OF assms(2)]
  by (simp add: accept_response_def received_def open_is_open [where hf = hf, OF assms(1)]) (simp add: enroll_codes)

lemma ack_ok:
  assumes "\<And>k d. length (hf k d) = 32" and "ee_hmac env = total_hmac hf" and "ee_mem env = enough_mem" and "takes (so_wr s) 100"
  shows "so_out (enroll_ack env ss s) = so_out s @ ack_wire hf ss"
proof -
  define ap where "ap = SealProtected hf IG_MSG_XOR_ENROLL_ACK 5 [] (keys_of ss)"
  have la: "length ap + IG_ENROLL_FRAME_HEADER_SIZE \<le> IG_ENROLL_MAX_FRAME_SIZE"
    and ta: "takes (so_wr s) (length (enroll_frame IG_MSG_XOR_ENROLL_ACK 5 ap) + 0)"
    using takes_mono [OF assms(4)]
    by (auto simp: ap_def length_SealProtected [where hf = hf, OF assms(1)] enroll_sizes length_enroll_frame)
  obtain s' where "send_frame IG_MSG_XOR_ENROLL_ACK 5 ap s = (True, s')" "so_out s' = so_out s @ enroll_frame IG_MSG_XOR_ENROLL_ACK 5 ap"
    by (rule send_frame_takes [OF la ta])
  with assms(2,3) protect_is_seal [where hf = hf and plain = "[]" and ss = ss and t = IG_MSG_XOR_ENROLL_ACK and q = 5, OF assms(1)]
  show ?thesis by (simp add: enroll_ack_def ap_def ack_wire_def)
qed

text \<open>The agent's run against the two frames of the backend.\<close>

lemma agent_run:
  assumes "\<And>k d. length (hf k d) = 32" and "config_complete cfg" and "net_works hf env cn" and "response_ok resp"
    and "ss = session_of hf (the (ec_xor_key cfg)) (the (ec_enrollment_id cfg)) cn sn" and "length sn = 32"
    and "delivers (so_rd (ee_sock env)) = enroll_frame IG_MSG_XOR_CHALLENGE 2 (challenge_bytes hf cfg ss cn sn)
      @ enroll_frame IG_MSG_XOR_ENROLL_RESPONSE 4 (SealProtected hf IG_MSG_XOR_ENROLL_RESPONSE 4 (response_bytes resp) (keys_of ss))"
  obtains s' where "ig_enroll_execute env cfg fs = (case store_certificates env cfg (received resp) fs of
        (False, fs') \<Rightarrow> (-1, s', fs') | (True, fs') \<Rightarrow> (0, enroll_ack env ss s', fs'))"
    "so_out (enroll_ack env ss s') = hello_wire cfg cn @ request_wire hf cfg ss @ ack_wire hf ss"
proof -
  define i where "i = the (ec_enrollment_id cfg)"
  define pr where "pr = ServerProof hf (keys_of ss) i cn sn"
  define rp where "rp = SealProtected hf IG_MSG_XOR_ENROLL_RESPONSE 4 (response_bytes resp) (keys_of ss)"
  note cc = assms(2) [unfolded config_complete_def, folded i_def]
  note ew = assms(3) [unfolded net_works_def]
  have h: "ee_hmac env = total_hmac hf" and m: "ee_mem env = enough_mem" and cn: "length cn = 32" using ew by simp_all
  have dl: "delivers (so_rd (ee_sock env)) = enroll_frame IG_MSG_XOR_CHALLENGE 2 (field sn @ field pr)
      @ enroll_frame IG_MSG_XOR_ENROLL_RESPONSE 4 rp @ []"
    using assms(7) by (simp add: challenge_bytes_def pr_def i_def rp_def)
  have hello: "encode_hello enough_mem i cn = Some (field (ascii i) @ field cn)"
    using encode_hello_bytes [of i cn] cc cn by simp
  have t0: "takes (so_wr (ee_sock env)) (509 + (900 + 100))" by (rule takes_mono [of _ 3000]) (use ew in auto)
  have lp: "length (field (ascii i) @ field cn) \<le> 500" using cc cn by (simp add: field_def)
  have lpr: "length pr = 32" using assms(1) by (simp add: pr_def ServerProof_def)
  obtain s1 where 1: "enroll_challenge env (field (ascii i) @ field cn) (ee_sock env) = (Some (sn, pr), s1)"
    "delivers (so_rd s1) = enroll_frame IG_MSG_XOR_ENROLL_RESPONSE 4 rp @ []"
    "so_out s1 = so_out (ee_sock env) @ enroll_frame IG_MSG_XOR_HELLO 1 (field (ascii i) @ field cn)" "takes (so_wr s1) (900 + 100)"
    by (rule challenge_ok [OF m dl assms(6) lpr lp t0])
  have ses: "enroll_session env cfg cn sn pr = Some ss"
    using cc h m derive_session_of [where hf = hf and key = "the (ec_xor_key cfg)" and i = i and cn = cn and sn = sn, OF assms(1)]
      server_proof_of [where hf = hf and i = i and ss = ss and cn = cn and sn = sn, OF assms(1)]
    by (simp add: enroll_session_def Let_def i_def [symmetric] assms(5) [folded i_def] pr_def)
  obtain s2 where 2: "enroll_request env cfg ss s1 = (True, s2)" "so_out s2 = so_out s1 @ request_wire hf cfg ss"
    "takes (so_wr s2) 100" "so_rd s2 = so_rd s1"
    by (rule request_ok [where hf = hf, OF assms(1,2) h m 1(4)])
  have lr: "length rp + IG_ENROLL_FRAME_HEADER_SIZE \<le> IG_ENROLL_MAX_FRAME_SIZE"
    using assms(4) by (simp add: rp_def length_SealProtected [where hf = hf, OF assms(1)] enroll_sizes response_ok_def)
  have d2: "delivers (so_rd s2) = enroll_frame IG_MSG_XOR_ENROLL_RESPONSE 4 rp @ []" using 1 2 by simp
  obtain s3 where 3: "read_frame enough_mem s2 = (Some \<lparr>fr_type = IG_MSG_XOR_ENROLL_RESPONSE, fr_seq = 4, fr_payload = rp\<rparr>, s3)"
    "so_out s3 = so_out s2" "so_wr s3 = so_wr s2"
    by (rule read_frame_enough [OF d2 lr])
  have "ig_enroll_execute env cfg fs = (case store_certificates env cfg (received resp) fs of
        (False, fs') \<Rightarrow> (-1, s3, fs') | (True, fs') \<Rightarrow> (0, enroll_ack env ss s3, fs'))"
    using cc ew hello 3(1)
    by (simp add: ig_enroll_execute_def Let_def i_def [symmetric] 1(1) ses 2(1)
        rp_def accept_ok [where hf = hf, OF assms(1,4) h m])
  moreover have "so_out (enroll_ack env ss s3) = hello_wire cfg cn @ request_wire hf cfg ss @ ack_wire hf ss"
    using ack_ok [where hf = hf and s = s3, OF assms(1) h m] ew 1(3) 2(2,3) 3(2,3) by (simp add: hello_wire_def i_def)
  ultimately show thesis by (rule that)
qed

text \<open>C11. An enrollment completes: when agent and backend share the enrollment identifier and the
  secret, whatever pieces the network cuts the messages into and however often signals interrupt the
  system calls, the agent ends with success, the backend has enrolled exactly the host the agent
  described and marks the enrollment used, and the three files hold exactly the certificates and
  the key that were issued, the key readable for its owner only.\<close>

theorem enrollment_completes:
  assumes "\<And>k d. length (hf k d) = 32" and "config_complete cfg" and "backend_knows sv cfg sn resp"
    and "net_works hf env cn" and "files_work env cfg resp"
    and "ss = session_of hf (the (ec_xor_key cfg)) (the (ec_enrollment_id cfg)) cn sn"
    and "delivers (so_rd (ee_sock env)) = fst (handleConn hf sv (hello_wire cfg cn @ request_wire hf cfg ss))"
  shows "\<exists>s'. ig_enroll_execute env cfg fs = (0, s',
        fs(the (ec_ca_crt cfg) \<mapsto> (rs_CACertPEM resp, 0x1A4), the (ec_agent_crt cfg) \<mapsto> (rs_AgentCertPEM resp, 0x1A4),
           the (ec_agent_key cfg) \<mapsto> (rs_AgentKeyPEM resp, 0x180)))
    \<and> so_out s' = hello_wire cfg cn @ request_wire hf cfg ss @ ack_wire hf ss
    \<and> handleConn hf sv (so_out s') = (delivers (so_rd (ee_sock env)),
        [Enrolled (the (ec_enrollment_id cfg)) (rs_AgentID resp) (request_of cfg),
         MarkedUsed (the (ec_enrollment_id cfg)) (rs_AgentID resp)])"
proof -
  have cn: "length cn = 32" and sn: "length sn = 32" and ro: "response_ok resp"
    using assms(3,4) by (auto simp: backend_knows_def net_works_def)
  note hc = handle_conn_ok [where hf = hf, OF assms(1,2) cn assms(3,6)]
  have dl: "delivers (so_rd (ee_sock env)) = enroll_frame IG_MSG_XOR_CHALLENGE 2 (challenge_bytes hf cfg ss cn sn)
      @ enroll_frame IG_MSG_XOR_ENROLL_RESPONSE 4 (SealProtected hf IG_MSG_XOR_ENROLL_RESPONSE 4 (response_bytes resp) (keys_of ss))"
    using assms(7) hc [of "[]"] by simp
  obtain s' where s': "ig_enroll_execute env cfg fs = (case store_certificates env cfg (received resp) fs of
        (False, fs') \<Rightarrow> (-1, s', fs') | (True, fs') \<Rightarrow> (0, enroll_ack env ss s', fs'))"
    "so_out (enroll_ack env ss s') = hello_wire cfg cn @ request_wire hf cfg ss @ ack_wire hf ss"
    by (rule agent_run [where hf = hf, OF assms(1,2,4) ro assms(6) sn dl])
  have "ig_enroll_execute env cfg fs = (0, enroll_ack env ss s',
        fs(the (ec_ca_crt cfg) \<mapsto> (rs_CACertPEM resp, 0x1A4), the (ec_agent_crt cfg) \<mapsto> (rs_AgentCertPEM resp, 0x1A4),
           the (ec_agent_key cfg) \<mapsto> (rs_AgentKeyPEM resp, 0x180)))"
    using s'(1) store_ok [OF assms(5) ro] by simp
  moreover have "handleConn hf sv (so_out (enroll_ack env ss s')) = (delivers (so_rd (ee_sock env)),
        [Enrolled (the (ec_enrollment_id cfg)) (rs_AgentID resp) (request_of cfg),
         MarkedUsed (the (ec_enrollment_id cfg)) (rs_AgentID resp)])"
    using hc [of "ack_wire hf ss"] handle_ack_ok [where hf = hf, OF assms(1)] by (simp add: s'(2) dl)
  ultimately show ?thesis using s'(2) by blast
qed

section \<open>A run\<close>

definition sample_hmac :: hmac_total where
  "sample_hmac k d = replicate 32 7"

definition sample_enroll_cfg :: ig_enroll_config where
  "sample_enroll_cfg = \<lparr>ec_host = Some ''backend'', ec_port = 9443, ec_ca_crt = Some ''ca.crt'', ec_agent_crt = Some ''agent.crt'',
     ec_agent_key = Some ''agent.key'', ec_enrollment_id = Some ''enr-1'', ec_xor_key = Some ''secret'',
     ec_hostname = Some ''web01'', ec_ip = Some ''10.0.0.5'', ec_os = Some ''Linux'', ec_monitor_type = 2\<rparr>"

definition sample_response :: Response where
  "sample_response = \<lparr>rs_AgentID = ''42'', rs_AgentCertPEM = ''CERT'', rs_AgentKeyPEM = ''KEY'', rs_CACertPEM = ''CA'',
     rs_ExpiresAt = 1900000000\<rparr>"

definition sample_srv :: enroll_srv where
  "sample_srv = \<lparr>sv_pending = (\<lambda>i. if i = ''enr-1'' then Some \<lparr>rw_AgentID = [], rw_KeyCiphertext = [], rw_KeyNonce = [], rw_SecretHash = ''h''\<rparr>
       else None), sv_decrypt = (\<lambda>_ _. Some (ascii ''secret'')), sv_hash = (\<lambda>_ _. ''h''), sv_nonce = Some (replicate 32 2),
     sv_enroll = (\<lambda>_ _ _. Some sample_response)\<rparr>"

definition sample_session :: ig_xor_session where
  "sample_session = session_of sample_hmac ''secret'' ''enr-1'' (replicate 32 1) (replicate 32 2)"

definition sample_answer :: bytes where
  "sample_answer = fst (handleConn sample_hmac sample_srv (hello_wire sample_enroll_cfg (replicate 32 1)
     @ request_wire sample_hmac sample_enroll_cfg sample_session))"

text \<open>The backend's bytes arrive in two pieces, with a signal in between.\<close>

definition sample_enroll_env :: enroll_env where
  "sample_enroll_env = \<lparr>ee_hmac = total_hmac sample_hmac, ee_mem = enough_mem, ee_rand = Some (replicate 32 1), ee_resolved = True,
     ee_socket = 5, ee_connected = True,
     ee_sock = \<lparr>so_out = [], so_wr = WrIntr # replicate 3000 (Wrote 1000), so_rd = [Got (take 5 sample_answer), RdIntr, Got (drop 5 sample_answer)]\<rparr>,
     ee_file = (\<lambda>p. \<lparr>fo_open = True, fo_umask = 0, fo_chmod = True,
        fo_written = Some (if p = ''ca.crt'' then 2 else if p = ''agent.crt'' then 4 else 3)\<rparr>)\<rparr>"

lemma sample_setting:
  "length (sample_hmac k d) = 32" "config_complete sample_enroll_cfg"
  "backend_knows sample_srv sample_enroll_cfg (replicate 32 2) sample_response"
  "net_works sample_hmac sample_enroll_env (replicate 32 1)" "files_work sample_enroll_env sample_enroll_cfg sample_response"
  "sample_session = session_of sample_hmac (the (ec_xor_key sample_enroll_cfg)) (the (ec_enrollment_id sample_enroll_cfg))
     (replicate 32 1) (replicate 32 2)"
proof -
  show "length (sample_hmac k d) = 32" by (simp add: sample_hmac_def)
  show "config_complete sample_enroll_cfg"
    by (simp add: config_complete_def sample_enroll_cfg_def missing_setting_def has_no_nul_def nul_def cstr_def)
  show "backend_knows sample_srv sample_enroll_cfg (replicate 32 2) sample_response"
    by (simp add: backend_knows_def sample_srv_def sample_enroll_cfg_def response_ok_def sample_response_def
        response_bytes_def field_def has_no_nul_def nul_def)
  show "net_works sample_hmac sample_enroll_env (replicate 32 1)"
    by (simp add: net_works_def sample_enroll_env_def connect_tcp_def takes_def list_all_iff)
  show "files_work sample_enroll_env sample_enroll_cfg sample_response"
    by (simp add: files_work_def sample_enroll_env_def sample_enroll_cfg_def sample_response_def)
  show "sample_session = session_of sample_hmac (the (ec_xor_key sample_enroll_cfg)) (the (ec_enrollment_id sample_enroll_cfg))
     (replicate 32 1) (replicate 32 2)"
    by (simp add: sample_session_def sample_enroll_cfg_def)
qed

lemma sample_answer_eq:
  "sample_answer = enroll_frame IG_MSG_XOR_CHALLENGE 2 (challenge_bytes sample_hmac sample_enroll_cfg sample_session (replicate 32 1) (replicate 32 2))
      @ enroll_frame IG_MSG_XOR_ENROLL_RESPONSE 4 (SealProtected sample_hmac IG_MSG_XOR_ENROLL_RESPONSE 4
          (response_bytes sample_response) (keys_of sample_session))"
  using handle_conn_ok [of sample_hmac, OF sample_setting(1,2) _ sample_setting(3,6), of "[]"]
  by (simp add: sample_answer_def)

lemma sample_delivers: "delivers (so_rd (ee_sock sample_enroll_env)) = sample_answer"
proof -
  have "5 < length sample_answer" by (simp add: sample_answer_eq length_enroll_frame)
  then show ?thesis by (auto simp: sample_enroll_env_def)
qed

theorem enrollment_completes_witness:
  "\<exists>s'. ig_enroll_execute sample_enroll_env sample_enroll_cfg (\<lambda>_. None) = (0, s',
       [''ca.crt'' \<mapsto> (''CA'', 0x1A4), ''agent.crt'' \<mapsto> (''CERT'', 0x1A4), ''agent.key'' \<mapsto> (''KEY'', 0x180)])"
proof -
  have d: "delivers (so_rd (ee_sock sample_enroll_env)) = fst (handleConn sample_hmac sample_srv
      (hello_wire sample_enroll_cfg (replicate 32 1) @ request_wire sample_hmac sample_enroll_cfg sample_session))"
    by (simp add: sample_delivers sample_answer_def)
  from enrollment_completes [of sample_hmac, OF sample_setting(1-6) d, of "\<lambda>_. None"]
  obtain s' where s': "ig_enroll_execute sample_enroll_env sample_enroll_cfg (\<lambda>_. None) = (0, s',
        [the (ec_ca_crt sample_enroll_cfg) \<mapsto> (rs_CACertPEM sample_response, 0x1A4),
         the (ec_agent_crt sample_enroll_cfg) \<mapsto> (rs_AgentCertPEM sample_response, 0x1A4),
         the (ec_agent_key sample_enroll_cfg) \<mapsto> (rs_AgentKeyPEM sample_response, 0x180)])"
    by blast
  have n: "the (ec_ca_crt sample_enroll_cfg) = ''ca.crt''" "the (ec_agent_crt sample_enroll_cfg) = ''agent.crt''"
    "the (ec_agent_key sample_enroll_cfg) = ''agent.key''" "rs_CACertPEM sample_response = ''CA''"
    "rs_AgentCertPEM sample_response = ''CERT''" "rs_AgentKeyPEM sample_response = ''KEY''"
    by (simp_all add: sample_enroll_cfg_def sample_response_def)
  show ?thesis using s' unfolding n by blast
qed

text \<open>C12. Nothing unauthenticated reaches the disk: when an enrollment changes a file at all, the file
  is one of the three certificate files and holds a prefix of its certificate or key, the socket
  delivered a challenge whose proof is the right HMAC of both nonces under keys derived from the
  shared secret and this run's nonce, and the answer it was decoded from carried the right HMAC of
  its type, sequence number and ciphertext under the same keys.\<close>

theorem enrollment_writes_only_authenticated:
  assumes "ig_enroll_execute env cfg fs = (rc, s', fs')" and "fs' p \<noteq> fs p"
  shows "\<exists>cn sn pr ss q1 q2 mac cipher plain resp rest pem n.
      ee_rand env = Some cn
    \<and> delivers (so_rd (ee_sock env)) = enroll_frame IG_MSG_XOR_CHALLENGE q1 (be16 32 @ sn @ be16 32 @ pr)
        @ enroll_frame IG_MSG_XOR_ENROLL_RESPONSE q2 (mac @ cipher) @ rest
    \<and> derive_session (ee_hmac env) (ee_mem env) (the (ec_xor_key cfg)) (the (ec_enrollment_id cfg)) cn sn = Some ss
    \<and> server_proof (ee_hmac env) (ee_mem env) ss (the (ec_enrollment_id cfg)) cn sn = Some pr
    \<and> frame_mac (ee_hmac env) (ee_mem env) ss IG_MSG_XOR_ENROLL_RESPONSE q2 cipher = Some mac
    \<and> xor_crypt (ee_hmac env) ss q2 cipher = Some plain
    \<and> decode_response_plain (ee_mem env) plain = Some resp
    \<and> (Some p, pem) \<in> cert_files cfg resp \<and> map_option fst (fs' p) = Some (take n (cstr pem))"
proof -
  obtain cn hello sn pr ss frame resp s1 s2 s3 ok where e: "ee_rand env = Some cn" "\<not> missing_setting cfg"
      "enroll_challenge env hello (ee_sock env) = (Some (sn, pr), s1)"
      "enroll_session env cfg cn sn pr = Some ss" "enroll_request env cfg ss s1 = (True, s2)"
      "read_frame (ee_mem env) s2 = (Some frame, s3)" "accept_response env ss frame = Some resp"
      "store_certificates env cfg resp fs = (ok, fs')"
    using assms(2) by (rule_tac execute_stored [OF assms(1)]) auto
  have ch: "\<exists>q1. delivers (so_rd (ee_sock env))
      = enroll_frame IG_MSG_XOR_CHALLENGE q1 (be16 32 @ sn @ be16 32 @ pr) @ delivers (so_rd s1)"
    by (rule challenge_read [OF e(3)])
  have rd: "so_rd s2 = so_rd s1" by (rule request_keeps_reads [OF e(5)])
  obtain plain where t: "fr_type frame = IG_MSG_XOR_ENROLL_RESPONSE"
      "open_protected_payload (ee_hmac env) (ee_mem env) ss IG_MSG_XOR_ENROLL_RESPONSE (fr_seq frame) (fr_payload frame) = Some plain"
      "decode_response_plain (ee_mem env) plain = Some resp"
    using e(7) by (auto simp: accept_response_def split: if_splits option.splits)
  obtain cipher mac where c: "fr_payload frame = mac @ cipher"
      "frame_mac (ee_hmac env) (ee_mem env) ss IG_MSG_XOR_ENROLL_RESPONSE (fr_seq frame) cipher = Some mac"
      "xor_crypt (ee_hmac env) ss (fr_seq frame) cipher = Some plain"
    by (rule open_protected_Some [OF t(2)])
  have "delivers (so_rd s1) = enroll_frame IG_MSG_XOR_ENROLL_RESPONSE (fr_seq frame) (mac @ cipher) @ delivers (so_rd s3)"
    using read_frame_Some(1) [OF e(6)] by (simp add: rd t c)
  with ch session_proof [OF e(4)] store_certificates_content [OF e(8,2) assms(2)] e(1) t(3) c(2,3)
  show ?thesis by metis
qed

theorem enrollment_writes_only_authenticated_witness:
  "\<exists>ss q1 q2 chal mac cipher plain rest. sample_answer = enroll_frame IG_MSG_XOR_CHALLENGE q1 chal
        @ enroll_frame IG_MSG_XOR_ENROLL_RESPONSE q2 (mac @ cipher) @ rest
     \<and> frame_mac (total_hmac sample_hmac) enough_mem ss IG_MSG_XOR_ENROLL_RESPONSE q2 cipher = Some mac
     \<and> xor_crypt (total_hmac sample_hmac) ss q2 cipher = Some plain \<and> decode_response_plain enough_mem plain \<noteq> None"
proof -
  have sn: "length (replicate 32 2 :: bytes) = 32" and ro: "response_ok sample_response"
    using sample_setting(3) by (auto simp: backend_knows_def)
  have d: "delivers (so_rd (ee_sock sample_enroll_env)) = enroll_frame IG_MSG_XOR_CHALLENGE 2
      (challenge_bytes sample_hmac sample_enroll_cfg sample_session (replicate 32 1) (replicate 32 2))
      @ enroll_frame IG_MSG_XOR_ENROLL_RESPONSE 4 (SealProtected sample_hmac IG_MSG_XOR_ENROLL_RESPONSE 4
          (response_bytes sample_response) (keys_of sample_session))"
    by (simp add: sample_delivers sample_answer_eq)
  obtain s' where "ig_enroll_execute sample_enroll_env sample_enroll_cfg (\<lambda>_. None) =
      (case store_certificates sample_enroll_env sample_enroll_cfg (received sample_response) (\<lambda>_. None) of
        (False, fs') \<Rightarrow> (-1, s', fs') | (True, fs') \<Rightarrow> (0, enroll_ack sample_enroll_env sample_session s', fs'))"
    by (rule agent_run [of sample_hmac, OF sample_setting(1,2,4) ro sample_setting(6) sn d])
  then have r: "ig_enroll_execute sample_enroll_env sample_enroll_cfg (\<lambda>_. None) = (0, enroll_ack sample_enroll_env sample_session s',
        [the (ec_ca_crt sample_enroll_cfg) \<mapsto> (rs_CACertPEM sample_response, 0x1A4),
         the (ec_agent_crt sample_enroll_cfg) \<mapsto> (rs_AgentCertPEM sample_response, 0x1A4),
         the (ec_agent_key sample_enroll_cfg) \<mapsto> (rs_AgentKeyPEM sample_response, 0x180)])"
    using store_ok [OF sample_setting(5) ro] by simp
  have env: "ee_hmac sample_enroll_env = total_hmac sample_hmac" "ee_mem sample_enroll_env = enough_mem"
    by (simp_all add: sample_enroll_env_def)
  show ?thesis
    using enrollment_writes_only_authenticated [OF r, of "the (ec_agent_key sample_enroll_cfg)"]
    unfolding env sample_delivers by fastforce
qed

text \<open>A failed enrollment can lock the agent out: when the disk takes only a part of the private
  key, the enrollment fails, but the certificate and the cut key are there, so no enrollment counts as
  needed any more, and the agent refuses to try again.\<close>

theorem short_key_write_blocks_retry:
  "let env = sample_enroll_env\<lparr>ee_file := (\<lambda>p. (ee_file sample_enroll_env p)
         \<lparr>fo_written := Some (if p = ''ca.crt'' then 2 else if p = ''agent.crt'' then 4 else 1)\<rparr>)\<rparr>;
       (rc, s', fs') = ig_enroll_execute env sample_enroll_cfg (\<lambda>_. None)
   in rc = -1 \<and> fs' ''agent.key'' = Some (''K'', 0x180)
     \<and> ig_enroll_needed (\<lambda>_. None) ''agent.crt'' ''agent.key'' \<and> \<not> ig_enroll_needed fs' ''agent.crt'' ''agent.key''"
proof -
  define env where "env = sample_enroll_env\<lparr>ee_file := (\<lambda>p. (ee_file sample_enroll_env p)
         \<lparr>fo_written := Some (if p = ''ca.crt'' then 2 else if p = ''agent.crt'' then 4 else 1)\<rparr>)\<rparr>"
  have sn: "length (replicate 32 2 :: bytes) = 32" and ro: "response_ok sample_response"
    using sample_setting(3) by (auto simp: backend_knows_def)
  have net: "net_works sample_hmac env (replicate 32 1)"
    using sample_setting(4) by (simp add: net_works_def env_def connect_tcp_def sample_enroll_env_def)
  have d: "delivers (so_rd (ee_sock env)) = enroll_frame IG_MSG_XOR_CHALLENGE 2
      (challenge_bytes sample_hmac sample_enroll_cfg sample_session (replicate 32 1) (replicate 32 2))
      @ enroll_frame IG_MSG_XOR_ENROLL_RESPONSE 4 (SealProtected sample_hmac IG_MSG_XOR_ENROLL_RESPONSE 4
          (response_bytes sample_response) (keys_of sample_session))"
    using sample_delivers by (simp add: env_def sample_answer_eq)
  obtain s' where r: "ig_enroll_execute env sample_enroll_cfg (\<lambda>_. None) =
      (case store_certificates env sample_enroll_cfg (received sample_response) (\<lambda>_. None) of
        (False, fs') \<Rightarrow> (-1, s', fs') | (True, fs') \<Rightarrow> (0, enroll_ack env sample_session s', fs'))"
    by (rule agent_run [of sample_hmac, OF sample_setting(1,2) net ro sample_setting(6) sn d])
  have "store_certificates env sample_enroll_cfg (received sample_response) (\<lambda>_. None) = (False,
      [''ca.crt'' \<mapsto> (''CA'', 0x1A4), ''agent.crt'' \<mapsto> (''CERT'', 0x1A4), ''agent.key'' \<mapsto> (''K'', 0x180)])"
    by (simp add: store_certificates_def Let_def write_text_file_def env_def sample_enroll_env_def sample_enroll_cfg_def
        received_def sample_response_def cstr_def nul_def)
  then show ?thesis by (simp add: env_def [symmetric] r ig_enroll_needed_def)
qed

end
