(* ===== verification/Agent_Env.thy ===== *)
theory Agent_Env
  imports Config Tcp_Client
begin

text \<open>
  How the agent finds out what it is to do: the command line, the configuration file and the
  environment file with the checks on their owner and mode, the settings of the transport and of
  the enrollment, and the version of the kernel (\<^verbatim>\<open>Agent/src/main.c\<close>).  The environment of the
  process is a map; \<^verbatim>\<open>getopt_long\<close> gives the sequence of recognised options.
\<close>

definition IG_CONFIG_PATH :: string where "IG_CONFIG_PATH = ''/etc/ig_monitor/ig.conf''"
definition IG_EBPF_BLOCK_AUDIT :: u32 where "IG_EBPF_BLOCK_AUDIT = 0"
definition IG_EBPF_BLOCK_DENY :: u32 where "IG_EBPF_BLOCK_DENY = 1"

section \<open>Files that only root can have written\<close>

text \<open>
  What \<^verbatim>\<open>open\<close> without following a final symbolic link yields, with the result of \<^verbatim>\<open>fstat\<close> on the
  descriptor (\<open>None\<close>: it fails) and whether \<^verbatim>\<open>fdopen\<close> succeeds; and what \<^verbatim>\<open>fopen\<close> reads.
\<close>

record sec_stat =
  ss_uid :: u32
  ss_mode :: u32

record opened =
  op_stat :: "sec_stat option"
  op_fdopen :: bool
  op_content :: string

record open_env =
  oe_nofollow :: "string \<Rightarrow> opened option"
  oe_fopen :: "string \<Rightarrow> string option"

definition S_IWOTH :: u32 where "S_IWOTH = 2"
definition is_regular :: "u32 \<Rightarrow> bool" where "is_regular m \<longleftrightarrow> m AND 0xF000 = 0x8000"

definition secure_open :: "open_env \<Rightarrow> string option \<Rightarrow> string option" where
  "secure_open oe path =
     (case path of
        None \<Rightarrow> None
      | Some path \<Rightarrow>
          (case oe_nofollow oe path of
             None \<Rightarrow> None
           | Some fd \<Rightarrow>
               (case op_stat fd of
                  None \<Rightarrow> None
                | Some st \<Rightarrow>
                    if ss_uid st \<noteq> 0 then None
                    else if ss_mode st AND S_IWOTH \<noteq> 0 then None
                    else if \<not> is_regular (ss_mode st) then None
                    else if op_fdopen fd then Some (op_content fd) else None)))"

definition find_system_file :: "open_env \<Rightarrow> string option \<Rightarrow> string \<Rightarrow> string option" where
  "find_system_file oe flag_path system_path =
     (case flag_path of
        Some p \<Rightarrow> if secure_open oe (Some p) \<noteq> None then Some p else None
      | None \<Rightarrow> if secure_open oe (Some system_path) \<noteq> None then Some system_path else None)"

text \<open>\<open>g_config_path\<close>\<close>

definition config_path :: "open_env \<Rightarrow> string option \<Rightarrow> string" where
  "config_path oe flag_conf =
     strncpy0 IG_MAX_PATH (case find_system_file oe flag_conf ''/etc/ig_monitor/ig.conf'' of
        Some found \<Rightarrow> found | None \<Rightarrow> IG_CONFIG_PATH)"

definition load_config :: "open_env \<Rightarrow> string \<Rightarrow> int \<times> ig_config" where
  "load_config oe path = ig_config_load (oe_fopen oe path)"

section \<open>The environment file\<close>

type_synonym proc_env = "string \<Rightarrow> string option"

definition line_end :: "char \<Rightarrow> bool" where
  "line_end c \<longleftrightarrow> c = newline \<or> c = cr"

text \<open>\<^verbatim>\<open>setenv\<close> refuses an empty name.\<close>

definition env_line :: "string \<Rightarrow> proc_env \<Rightarrow> proc_env" where
  "env_line l env =
     (let line = drop_trailing line_end (cstr l)
      in if line = [] \<or> hd line = CHR ''#'' then env
         else (case split_at (CHR ''='') line of
             None \<Rightarrow> env
           | Some (key, val) \<Rightarrow> if env key = None \<and> key \<noteq> [] then env(key \<mapsto> val) else env))"

definition load_env :: "open_env \<Rightarrow> string option \<Rightarrow> proc_env \<Rightarrow> proc_env" where
  "load_env oe path env =
     (case secure_open oe path of
        None \<Rightarrow> env
      | Some content \<Rightarrow> fold env_line (fgets_lines 512 content) env)"

section \<open>Settings from the environment\<close>

definition build_cert_path :: "nat \<Rightarrow> string \<Rightarrow> string" where
  "build_cert_path len filename = take (len - 1) (''/etc/ig_monitor/certs/'' @ filename)"

definition cert_path :: "proc_env \<Rightarrow> string \<Rightarrow> string \<Rightarrow> string" where
  "cert_path env var filename =
     (case env var of Some e \<Rightarrow> strncpy0 512 e | None \<Rightarrow> build_cert_path 512 filename)"

definition ca_crt_path :: "proc_env \<Rightarrow> string" where "ca_crt_path env = cert_path env ''IG_CA_CRT'' ''ca.crt''"
definition agent_crt_path :: "proc_env \<Rightarrow> string" where "agent_crt_path env = cert_path env ''IG_AGENT_CRT'' ''agent.crt''"
definition agent_key_path :: "proc_env \<Rightarrow> string" where "agent_key_path env = cert_path env ''IG_AGENT_KEY'' ''agent.key''"

definition server_address :: "proc_env \<Rightarrow> string \<times> u16" where
  "server_address env =
     ((case env ''IG_SERVER_HOST'' of None \<Rightarrow> ''127.0.0.1'' | Some h \<Rightarrow> h),
      word_of_int (case env ''IG_SERVER_PORT'' of None \<Rightarrow> 9000 | Some p \<Rightarrow> atoi p))"

definition set_value :: "string option \<Rightarrow> bool" where
  "set_value v \<longleftrightarrow> (case v of None \<Rightarrow> False | Some s \<Rightarrow> s \<noteq> [])"

definition enroll_address :: "proc_env \<Rightarrow> string \<times> u16" where
  "enroll_address env =
     (let host = env ''IG_ENROLL_HOST'';
          host = (if set_value host then host else env ''IG_SERVER_HOST'');
          host = (if set_value host then the host else ''127.0.0.1'');
          port = env ''IG_ENROLL_PORT''
      in (host, word_of_int (if set_value port then atoi (the port) else 9443)))"

definition parse_enroll_monitor_type :: "proc_env \<Rightarrow> u8" where
  "parse_enroll_monitor_type env =
     (case env ''IG_ENROLL_MONITOR_TYPE'' of
        None \<Rightarrow> IG_MON_LKM
      | Some raw \<Rightarrow>
          if raw = [] then IG_MON_LKM
          else if raw = ''ebpf'' \<or> raw = ''eBPF'' then IG_MON_EBPF
          else if raw = ''fanotify'' then IG_MON_FANOTIFY
          else IG_MON_LKM)"

text \<open>\<open>gethostname\<close> and the address of the socket to the server are parameters.\<close>

definition get_hostname :: "string option \<Rightarrow> nat \<Rightarrow> string" where
  "get_hostname r len = (case r of Some name \<Rightarrow> take (len - 1) name | None \<Rightarrow> take (len - 1) ''unknown-host'')"

definition get_local_ip :: "string option \<Rightarrow> string" where
  "get_local_ip sock = (case sock of None \<Rightarrow> ''0.0.0.0'' | Some ip \<Rightarrow> ip)"

section \<open>Values typed at the terminal\<close>

definition trim_input :: "string \<Rightarrow> string" where
  "trim_input s = drop_trailing trim_right_char s"

text \<open>
  The terminal: the input not yet read, whether it echoes, and the answers of \<^verbatim>\<open>isatty\<close>,
  \<^verbatim>\<open>tcgetattr\<close> and of the \<^verbatim>\<open>tcsetattr\<close> that turns the echo off.
\<close>

record terminal =
  tt_input :: string
  tt_echo :: bool
  tt_isatty :: bool
  tt_getattr :: bool
  tt_setattr :: bool

text \<open>The result code, the buffer, the terminal, and whether it echoed while the line was read.\<close>

definition read_interactive_value :: "nat \<Rightarrow> bool \<Rightarrow> terminal \<Rightarrow> int \<times> string \<times> terminal \<times> bool" where
  "read_interactive_value len echo tt =
     (if len = 0 then (-1, [], tt, tt_echo tt)
      else let hide = (\<not> echo \<and> tt_isatty tt \<and> tt_getattr tt \<and> tt_setattr tt);
               echoed = (tt_echo tt \<and> \<not> hide);
               n = fgets_len len (tt_input tt);
               buf = take n (tt_input tt);
               rest = drop n (tt_input tt)
      in if buf = [] then (-1, [], tt, echoed)
      else if newline \<notin> set (cstr buf) \<and> length (cstr buf) = len - 1
      then (-1, cstr buf, tt\<lparr>tt_input := drop 1 (dropWhile (\<lambda>c. c \<noteq> newline) rest)\<rparr>, echoed)
      else let val = trim_input (cstr buf)
      in (if val = [] then -1 else 0, val, tt\<lparr>tt_input := rest\<rparr>, echoed))"

section \<open>The command line\<close>

datatype cli_opt = OptEnroll | OptConf string | OptEnv string | OptMode string | OptForeground | OptVerbose
  | OptHelp | OptUnknown

record options =
  o_conf :: "string option"
  o_env :: "string option"
  o_foreground :: bool
  o_verbose :: bool
  o_enroll :: bool
  o_block :: u32

definition default_options :: options where
  "default_options = \<lparr>o_conf = None, o_env = None, o_foreground = False, o_verbose = False, o_enroll = False,
     o_block = IG_EBPF_BLOCK_DENY\<rparr>"

text \<open>The exit code of \<^verbatim>\<open>main\<close> when an option ends it, else the options.\<close>

fun parse_options :: "cli_opt list \<Rightarrow> options \<Rightarrow> int + options" where
  "parse_options [] o1 = Inr o1"
| "parse_options (OptEnroll # os) o1 = parse_options os (o1\<lparr>o_enroll := True\<rparr>)"
| "parse_options (OptConf p # os) o1 = parse_options os (o1\<lparr>o_conf := Some p\<rparr>)"
| "parse_options (OptEnv p # os) o1 = parse_options os (o1\<lparr>o_env := Some p\<rparr>)"
| "parse_options (OptMode m # os) o1 =
     (if m = ''maintenance'' then parse_options os (o1\<lparr>o_block := IG_EBPF_BLOCK_AUDIT\<rparr>)
      else if m = ''lock'' then parse_options os (o1\<lparr>o_block := IG_EBPF_BLOCK_DENY\<rparr>)
      else Inl 1)"
| "parse_options (OptForeground # os) o1 = parse_options os (o1\<lparr>o_foreground := True\<rparr>)"
| "parse_options (OptVerbose # os) o1 = parse_options os (o1\<lparr>o_verbose := True\<rparr>)"
| "parse_options (OptHelp # os) o1 = Inl 0"
| "parse_options (OptUnknown # os) o1 = Inl 1"

text \<open>The options on top of the configuration.\<close>

definition apply_options :: "options \<Rightarrow> ig_config \<Rightarrow> ig_config" where
  "apply_options o1 cfg =
     (let cfg = (if o_foreground o1 then cfg\<lparr>daemonize := 0\<rparr> else cfg);
          cfg = (if o_verbose o1 then cfg\<lparr>verbose := 1\<rparr> else cfg)
      in if daemonize cfg = 0 \<and> log_file cfg = IG_LOG_FILE then cfg\<lparr>log_file := ''/dev/stderr''\<rparr> else cfg)"

section \<open>The version of the kernel\<close>

definition KERNEL_VER :: "int \<Rightarrow> int \<Rightarrow> int" where
  "KERNEL_VER ma mi = ma * 65536 + mi * 256"

definition scan_int :: "string \<Rightarrow> (int \<times> string) option" where
  "scan_int s = (case scan_number s of None \<Rightarrow> None
     | Some (neg, v, rest) \<Rightarrow> Some (sint (word_of_int (if neg then - int v else int v) :: u32), rest))"

text \<open>\<^verbatim>\<open>sscanf(release, "%d.%d.%d", ...)\<close>: the numbers up to the first mismatch, the others zero.\<close>

definition scan_release :: "string \<Rightarrow> int \<times> int \<times> int" where
  "scan_release s =
     (case scan_int s of
        None \<Rightarrow> (0, 0, 0)
      | Some (ma, r) \<Rightarrow>
          if r = [] \<or> hd r \<noteq> CHR ''.'' then (ma, 0, 0)
          else (case scan_int (tl r) of
              None \<Rightarrow> (ma, 0, 0)
            | Some (mi, r) \<Rightarrow>
                if r = [] \<or> hd r \<noteq> CHR ''.'' then (ma, mi, 0)
                else (case scan_int (tl r) of None \<Rightarrow> (ma, mi, 0) | Some (pa, _) \<Rightarrow> (ma, mi, pa))))"

definition get_kernel_version :: "string option \<Rightarrow> int" where
  "get_kernel_version release =
     (case release of None \<Rightarrow> 0
      | Some r \<Rightarrow> (case scan_release r of (ma, mi, pa) \<Rightarrow> KERNEL_VER ma mi + pa))"

definition kver_major :: "int \<Rightarrow> int" where "kver_major kver = kver div 65536"
definition kver_minor :: "int \<Rightarrow> int" where "kver_minor kver = (kver mod 65536) div 256"

definition ebpf_wanted :: "ig_config \<Rightarrow> int \<Rightarrow> bool" where
  "ebpf_wanted cfg kver \<longleftrightarrow> ebpf_enabled cfg \<noteq> 0 \<and> kver \<ge> KERNEL_VER 5 8"

section \<open>What the environment file can do\<close>

text \<open>The assignments of a file, in order.\<close>

definition env_assignment :: "string \<Rightarrow> (string \<times> string) option" where
  "env_assignment l =
     (let line = drop_trailing line_end (cstr l)
      in if line = [] \<or> hd line = CHR ''#'' then None
         else (case split_at (CHR ''='') line of Some (key, val) \<Rightarrow> if key = [] then None else Some (key, val) | None \<Rightarrow> None))"

definition env_assignments :: "string \<Rightarrow> (string \<times> string) list" where
  "env_assignments content = List.map_filter env_assignment (fgets_lines 512 content)"

lemma env_line_assignment:
  "env_line l env = (case env_assignment l of None \<Rightarrow> env | Some (k, v) \<Rightarrow> if env k = None then env(k \<mapsto> v) else env)"
  by (auto simp: env_line_def env_assignment_def Let_def split: option.splits)

lemma fold_env_line:
  "fold env_line ls env = map_of (List.map_filter env_assignment ls) ++ env"
proof (induction ls arbitrary: env)
  case Nil
  then show ?case by (simp add: List.map_filter_def)
next
  case (Cons l ls)
  show ?case
  proof (cases "env_assignment l")
    case None
    then show ?thesis using Cons by (simp add: env_line_assignment List.map_filter_def)
  next
    case (Some kv)
    obtain k v where kv: "kv = (k, v)" by fastforce
    show ?thesis
      using Cons [of "env_line l env"] Some kv
      by (auto simp: env_line_assignment List.map_filter_def map_add_def fun_eq_iff split: option.splits)
  qed
qed

lemma secure_open_Some:
  assumes "secure_open oe path = Some content"
  obtains p fd st where "path = Some p" "oe_nofollow oe p = Some fd" "op_stat fd = Some st" "ss_uid st = 0"
    "ss_mode st AND S_IWOTH = 0" "is_regular (ss_mode st)" "content = op_content fd"
  using assms by (auto simp: secure_open_def split: option.splits if_splits)

text \<open>The environment file only provides defaults, and only a trusted one does: when loading it
  changes a variable, the variable was not set before, it now has the value of the first assignment
  to it in the file, and the file is a regular one owned by root that others cannot write and that is
  not reached through a symbolic link.\<close>

theorem env_file_is_trusted_defaults:
  assumes "load_env oe path env k \<noteq> env k"
  shows "env k = None \<and> (\<exists>p fd st. path = Some p \<and> oe_nofollow oe p = Some fd \<and> op_stat fd = Some st
    \<and> ss_uid st = 0 \<and> ss_mode st AND S_IWOTH = 0 \<and> is_regular (ss_mode st)
    \<and> load_env oe path env k = map_of (env_assignments (op_content fd)) k)"
proof -
  from assms obtain content where c: "secure_open oe path = Some content"
    by (auto simp: load_env_def split: option.splits)
  then have l: "load_env oe path env = map_of (env_assignments content) ++ env"
    by (simp add: load_env_def fold_env_line env_assignments_def)
  obtain p fd st where f: "path = Some p" "oe_nofollow oe p = Some fd" "op_stat fd = Some st" "ss_uid st = 0"
    "ss_mode st AND S_IWOTH = 0" "is_regular (ss_mode st)" "content = op_content fd"
    by (rule secure_open_Some [OF c])
  from assms l have "env k = None" by (auto simp: map_add_def split: option.splits)
  with f l show ?thesis by (auto simp: map_add_def)
qed

definition sample_open_env :: open_env where
  "sample_open_env = \<lparr>oe_nofollow = (\<lambda>p. if p = ''/etc/ig_monitor/ig.env'' then Some \<lparr>op_stat = Some \<lparr>ss_uid = 0, ss_mode = 0x81A4\<rparr>,
       op_fdopen = True, op_content = ''IG_SERVER_PORT=9001'' @ [newline]\<rparr> else None), oe_fopen = (\<lambda>_. None)\<rparr>"

theorem env_file_is_trusted_defaults_witness:
  "load_env sample_open_env (Some ''/etc/ig_monitor/ig.env'') (\<lambda>_. None) ''IG_SERVER_PORT'' = Some ''9001''"
proof -
  have f: "fgets_lines 512 (''IG_SERVER_PORT=9001'' @ [newline]) = [''IG_SERVER_PORT=9001'' @ [newline]]"
    using fgets_lines_cons [of "''IG_SERVER_PORT=9001''" 512 "[]"] by (simp add: newline_def)
  have d: "drop_trailing line_end (cstr (''IG_SERVER_PORT=9001'' @ [newline])) = ''IG_SERVER_PORT=9001''"
    by (simp add: drop_trailing_def line_end_def newline_def cr_def cstr_def nul_def)
  have s: "split_at (CHR ''='') ''IG_SERVER_PORT=9001'' = Some (''IG_SERVER_PORT'', ''9001'')"
    by (simp add: split_at_def)
  have e: "env_assignment (''IG_SERVER_PORT=9001'' @ [newline]) = Some (''IG_SERVER_PORT'', ''9001'')"
    by (simp only: env_assignment_def d s Let_def) simp
  have a: "env_assignments (''IG_SERVER_PORT=9001'' @ [newline]) = [(''IG_SERVER_PORT'', ''9001'')]"
    unfolding env_assignments_def f by (simp only: List.map_filter_simps e option.case)
  have o1: "secure_open sample_open_env (Some ''/etc/ig_monitor/ig.env'') = Some (''IG_SERVER_PORT=9001'' @ [newline])"
    by (simp add: secure_open_def sample_open_env_def is_regular_def S_IWOTH_def)
  have "load_env sample_open_env (Some ''/etc/ig_monitor/ig.env'') (\<lambda>_. None) ''IG_SERVER_PORT'' \<noteq> None"
    using a by (simp add: load_env_def o1 fold_env_line env_assignments_def del: append_Cons append_Nil append.simps)
  from env_file_is_trusted_defaults [of sample_open_env _ "\<lambda>_. None", OF this]
  show ?thesis using a by (auto simp: sample_open_env_def)
qed

section \<open>The check of the configuration file has no effect\<close>

text \<open>The owner and mode of the default configuration file do not matter: without an option, and
  with an option that names a file the check refuses, the agent loads \<^verbatim>\<open>/etc/ig_monitor/ig.conf\<close>
  through a plain \<^verbatim>\<open>fopen\<close>, whatever the check said about it.\<close>

theorem config_check_is_void:
  "load_config oe (config_path oe None) = ig_config_load (oe_fopen oe IG_CONFIG_PATH)
   \<and> load_config oe (config_path oe (Some p)) = ig_config_load (oe_fopen oe
        (if secure_open oe (Some p) = None then IG_CONFIG_PATH else strncpy0 IG_MAX_PATH p))"
proof -
  have "strncpy0 IG_MAX_PATH IG_CONFIG_PATH = IG_CONFIG_PATH"
    by (rule strncpy0_short) (simp_all add: IG_CONFIG_PATH_def IG_MAX_PATH_def has_no_nul_def nul_def)
  then show ?thesis
    by (auto simp: load_config_def config_path_def find_system_file_def IG_CONFIG_PATH_def [symmetric] split: option.splits)
qed

section \<open>The kernel version\<close>

lemma scan_int_dec:
  assumes "n < 2147483648" and "rest = [] \<or> \<not> isdigit (hd rest)"
  shows "scan_int (dec n @ rest) = Some (int n, rest)"
proof -
  have "sint (word_of_int (int n) :: u32) = int n"
    using assms(1) by (simp add: int_word_sint del: of_int_of_nat_eq)
  then show ?thesis by (simp add: scan_int_def scan_number_dec [OF assms(2)])
qed

lemma dot_not_digit: "\<not> isdigit CHR ''.''"
  by (simp add: isdigit_def)

lemma scan_release_text:
  assumes "ma < 2147483648" and "mi < 2147483648" and "pa < 2147483648" and "suffix = [] \<or> \<not> isdigit (hd suffix)"
  shows "scan_release (dec ma @ ''.'' @ dec mi @ ''.'' @ dec pa @ suffix) = (int ma, int mi, int pa)"
  using scan_int_dec [OF assms(1), of "CHR ''.'' # dec mi @ ''.'' @ dec pa @ suffix"]
    scan_int_dec [OF assms(2), of "CHR ''.'' # dec pa @ suffix"] scan_int_dec [OF assms(3,4)]
  by (simp add: scan_release_def dot_not_digit)

text \<open>The kernel gate compares versions: of a release \<open>major.minor.patch\<close> with minor and patch below
  256 the agent reads back major and minor, and it wants eBPF exactly when the configuration allows
  it and the version is at least 5.8.\<close>

theorem kernel_gate_compares_versions:
  assumes "ma < 2147483648" and "mi < 256" and "pa < 256" and "suffix = [] \<or> \<not> isdigit (hd suffix)"
    and "kver = get_kernel_version (Some (dec ma @ ''.'' @ dec mi @ ''.'' @ dec pa @ suffix))"
  shows "kver_major kver = int ma \<and> kver_minor kver = int mi
    \<and> (ebpf_wanted cfg kver \<longleftrightarrow> ebpf_enabled cfg \<noteq> 0 \<and> (ma > 5 \<or> ma = 5 \<and> mi \<ge> 8))"
proof -
  have k: "kver = int ma * 65536 + int mi * 256 + int pa"
    using scan_release_text [of ma mi pa suffix] assms by (simp add: get_kernel_version_def KERNEL_VER_def)
  define r where "r = int mi * 256 + int pa"
  have "0 \<le> r" "r < 65536" using assms(2,3) by (simp_all add: r_def)
  then have "r div 65536 = 0" "r mod 65536 = r" by simp_all
  moreover have "kver = r + int ma * 65536" by (simp add: k r_def)
  ultimately have "kver div 65536 = int ma" "kver mod 65536 = int mi * 256 + int pa" by (simp_all add: r_def)
  moreover have "(int mi * 256 + int pa) div 256 = int mi" using assms(3) by auto
  moreover have "KERNEL_VER 5 8 \<le> kver \<longleftrightarrow> ma > 5 \<or> ma = 5 \<and> mi \<ge> 8"
    using assms(2,3) unfolding k KERNEL_VER_def by auto
  ultimately show ?thesis by (simp add: kver_major_def kver_minor_def ebpf_wanted_def)
qed

theorem kernel_gate_compares_versions_witness:
  "kver_minor (get_kernel_version (Some (dec 5 @ ''.'' @ dec 15 @ ''.'' @ dec 0 @ ''-91-generic''))) = 15"
  using kernel_gate_compares_versions [of 5 15 0 "''-91-generic''"] by (simp add: isdigit_def)

text \<open>A patch level of 256 or more carries into the minor number, as in the release 4.14.300.\<close>

theorem large_patch_level_changes_minor:
  "kver_minor (get_kernel_version (Some (dec 4 @ ''.'' @ dec 14 @ ''.'' @ dec 300))) = 15"
  using scan_release_text [of 4 14 300 "[]"] by (simp add: get_kernel_version_def KERNEL_VER_def kver_minor_def)

section \<open>Typed values\<close>

lemma long_line_pieces:
  assumes "newline \<notin> set l" and "0 < len - 1" and "Suc (length l) > len - 1"
  shows "fgets_len len (l @ newline # rest) = len - 1"
  using assms by (simp add: fgets_len_def takeWhile_append)

text \<open>A value typed at the prompt is usable or refused: success gives a non-empty text that fits the
  buffer and does not end in a blank; a line too long for the buffer is refused and consumed to its
  end, so that the next prompt starts on the next line; when the terminal lets its echo be switched
  off, a hidden value is not shown; and the terminal echoes afterwards as it did before.\<close>

theorem interactive_value_clean:
  assumes "read_interactive_value len echo tt = (rc, val, tt', echoed)" and "0 < len - 1"
  shows "(rc = 0 \<longrightarrow> val \<noteq> [] \<and> length val < len \<and> \<not> trim_right_char (last val))
    \<and> (tt_input tt = l @ newline # rest \<and> newline \<notin> set l \<and> nul \<notin> set l \<and> length l \<ge> len - 1
         \<longrightarrow> rc = -1 \<and> tt_input tt' = rest)
    \<and> (\<not> echo \<and> tt_isatty tt \<and> tt_getattr tt \<and> tt_setattr tt \<longrightarrow> \<not> echoed) \<and> tt_echo tt' = tt_echo tt"
proof -
  define n where "n = fgets_len len (tt_input tt)"
  define buf where "buf = take n (tt_input tt)"
  have bl: "length (cstr buf) < len"
  proof -
    have "length (cstr buf) \<le> length buf" by (simp add: cstr_def length_takeWhile_le)
    also have "\<dots> \<le> len - 1" by (simp add: buf_def n_def fgets_len_def)
    finally show ?thesis using assms(2) by simp
  qed
  note r = assms(1) [unfolded read_interactive_value_def Let_def, folded n_def, folded buf_def]
  have ok: "rc = 0 \<longrightarrow> val \<noteq> [] \<and> length val < len \<and> \<not> trim_right_char (last val)"
    using r assms(2) drop_trailing_last [of trim_right_char "cstr buf"] length_drop_trailing [of trim_right_char "cstr buf"] bl
    by (auto simp: trim_input_def split: if_splits)
  have long: "rc = -1 \<and> tt_input tt' = rest"
    if h: "tt_input tt = l @ newline # rest" "newline \<notin> set l" "nul \<notin> set l" "length l \<ge> len - 1"
  proof -
    have n': "n = len - 1" using long_line_pieces [OF h(2) assms(2)] h by (simp add: n_def)
    then have b: "buf = take n l" using h by (simp add: buf_def)
    have c: "cstr buf = buf" by (rule cstr_id) (use h(3) in \<open>auto simp: b has_no_nul_def dest: in_set_takeD\<close>)
    have "newline \<notin> set buf" "length buf = len - 1" "buf \<noteq> []"
      using h n' assms(2) by (auto simp: b dest: in_set_takeD)
    moreover have "drop 1 (dropWhile (\<lambda>c. c \<noteq> newline) (drop n (tt_input tt))) = rest"
      using h n' by (auto simp: dropWhile_append dest: in_set_dropD)
    ultimately show ?thesis using r c assms(2) by auto
  qed
  have "\<not> echo \<and> tt_isatty tt \<and> tt_getattr tt \<and> tt_setattr tt \<longrightarrow> \<not> echoed" "tt_echo tt' = tt_echo tt"
    using r assms(2) by (auto split: if_splits)
  with ok long show ?thesis by blast
qed

theorem interactive_value_clean_witness:
  "let tt = \<lparr>tt_input = ''abcdef'' @ [newline] @ ''id-1'' @ [newline], tt_echo = True, tt_isatty = True, tt_getattr = True, tt_setattr = True\<rparr>;
       (rc, val, tt', echoed) = read_interactive_value 4 False tt
   in rc = -1 \<and> \<not> echoed \<and> tt_input tt' = ''id-1'' @ [newline]"
proof -
  let ?tt = "\<lparr>tt_input = ''abcdef'' @ [newline] @ ''id-1'' @ [newline], tt_echo = True, tt_isatty = True, tt_getattr = True, tt_setattr = True\<rparr>"
  obtain rc val tt' echoed where r: "read_interactive_value 4 False ?tt = (rc, val, tt', echoed)" by (metis prod_cases4)
  have "rc = -1 \<and> \<not> echoed \<and> tt_input tt' = ''id-1'' @ [newline]"
    using interactive_value_clean [OF r, of "''abcdef''" "''id-1'' @ [newline]"] by (simp add: newline_def nul_def)
  then show ?thesis unfolding Let_def r by simp
qed

end
