(* ===== verification/Ebpf_Kernel.thy ===== *)
theory Ebpf_Kernel
  imports Lkm_Client Proc_Types Monitor "HOL-Library.AList"
begin

text \<open>
  The eBPF side of the agent's first backend: \<^verbatim>\<open>Agent/src/ebpf/ig_trace.bpf.c\<close>, its maps, its seven
  security programs and its three tracepoint programs.  The kernel's helpers are modelled by what they document:
  a hash map refuses a new key when it is full, a reservation in the ring buffer fails when there is no
  room, the LRU map may evict other keys on an update; which of these happens is part of the context of a program's run.
\<close>

section \<open>Constants\<close>

definition IG_EBPF_OP_READ :: u32 where "IG_EBPF_OP_READ = 1"
definition IG_EBPF_OP_WRITE :: u32 where "IG_EBPF_OP_WRITE = 2"
definition IG_EBPF_OP_DELETE :: u32 where "IG_EBPF_OP_DELETE = 4"
definition IG_EBPF_OP_ATTR :: u32 where "IG_EBPF_OP_ATTR = 8"

definition IG_HOOK_FILE_PERMISSION :: u32 where "IG_HOOK_FILE_PERMISSION = 1"
definition IG_HOOK_FILE_OPEN :: u32 where "IG_HOOK_FILE_OPEN = 2"
definition IG_HOOK_PATH_UNLINK :: u32 where "IG_HOOK_PATH_UNLINK = 3"
definition IG_HOOK_PATH_RENAME :: u32 where "IG_HOOK_PATH_RENAME = 4"
definition IG_HOOK_PATH_TRUNCATE :: u32 where "IG_HOOK_PATH_TRUNCATE = 5"
definition IG_HOOK_PATH_CHMOD :: u32 where "IG_HOOK_PATH_CHMOD = 6"
definition IG_HOOK_INODE_SETATTR :: u32 where "IG_HOOK_INODE_SETATTR = 7"

definition BPF_MAY_WRITE :: u32 where "BPF_MAY_WRITE = 2"
definition BPF_MAY_READ :: u32 where "BPF_MAY_READ = 4"
definition BPF_FMODE_READ :: u32 where "BPF_FMODE_READ = 1"
definition BPF_FMODE_WRITE :: u32 where "BPF_FMODE_WRITE = 2"
definition BPF_ATTR_MODE :: u32 where "BPF_ATTR_MODE = 1"
definition BPF_ATTR_UID :: u32 where "BPF_ATTR_UID = 2"
definition BPF_ATTR_GID :: u32 where "BPF_ATTR_GID = 4"
definition BPF_ATTR_SIZE :: u32 where "BPF_ATTR_SIZE = 8"

lemmas ebpf_ops = IG_EBPF_OP_READ_def IG_EBPF_OP_WRITE_def IG_EBPF_OP_DELETE_def IG_EBPF_OP_ATTR_def

definition POLICY_MAP_MAX :: nat where "POLICY_MAP_MAX = 16384"
definition HOOK_STATS_MAX :: u32 where "HOOK_STATS_MAX = 16"

section \<open>Maps\<close>

record inode_policy =
  ip_mask :: u32
  ip_block :: u32

record audit_event =
  ae_dev :: u64
  ae_ino :: u64
  ae_pid :: u32
  ae_uid :: u32
  ae_op_mask :: u32
  ae_hook_id :: u32
  ae_denied :: u32
  ae_comm :: string
  ae_ts_ns :: u64

record ig_proc_entry =
  be_pid :: u32
  be_ppid :: u32
  be_uid :: u32
  be_euid :: u32
  be_sid :: u32
  be_comm :: string
  be_tty :: string
  be_start_time_ns :: u64
  be_cmdline :: string

type_synonym policy_map = "(inode_key \<times> inode_policy) list"

record bpf =
  bp_policy :: policy_map
  bp_ring :: "audit_event list"
  bp_stats :: "u32 \<Rightarrow> u64"
  bp_procs :: "u32 \<Rightarrow> ig_proc_entry option"

definition E2BIG :: int where "E2BIG = 7"

text \<open>\<^verbatim>\<open>bpf_map_update_elem\<close> with \<^verbatim>\<open>BPF_ANY\<close> and \<^verbatim>\<open>bpf_map_delete_elem\<close> on the policy map.\<close>

definition policy_map_update :: "inode_key \<Rightarrow> inode_policy \<Rightarrow> policy_map \<Rightarrow> int \<times> policy_map" where
  "policy_map_update k p m =
     (if map_of m k = None \<and> length m \<ge> POLICY_MAP_MAX then (- E2BIG, m) else (0, AList.update k p m))"

definition policy_map_delete :: "inode_key \<Rightarrow> policy_map \<Rightarrow> int \<times> policy_map" where
  "policy_map_delete k m = (if map_of m k = None then (- ENOENT, m) else (0, AList.delete k m))"

section \<open>The security programs\<close>

text \<open>
  The context of a run: what the helpers for the current task return, the clock, and whether the ring
  buffer has room.
\<close>

record bpf_ctx =
  bx_pid_tgid :: u64
  bx_uid_gid :: u64
  bx_now :: u64
  bx_comm :: string
  bx_room :: bool

definition count_hook :: "u32 \<Rightarrow> bpf \<Rightarrow> bpf" where
  "count_hook hook_id s =
     (if hook_id < HOOK_STATS_MAX then s\<lparr>bp_stats := (bp_stats s)(hook_id := bp_stats s hook_id + 1)\<rparr> else s)"

text \<open>An inode is the device of its super block and its number.\<close>

type_synonym bpf_inode = "u32 \<times> u64"

definition inode_key_of :: "bpf_inode \<Rightarrow> inode_key" where
  "inode_key_of i = (ucast (fst i), snd i)"

definition audit_event_of :: "bpf_ctx \<Rightarrow> inode_key \<Rightarrow> inode_policy \<Rightarrow> u32 \<Rightarrow> u32 \<Rightarrow> audit_event" where
  "audit_event_of cx key p op_mask hook_id =
     \<lparr>ae_dev = fst key, ae_ino = snd key, ae_pid = ucast (drop_bit 32 (bx_pid_tgid cx)),
      ae_uid = ucast (bx_uid_gid cx AND 0xffffffff), ae_op_mask = op_mask, ae_hook_id = hook_id,
      ae_denied = (if ip_block p \<noteq> 0 then 1 else 0), ae_comm = strncpy0 16 (bx_comm cx), ae_ts_ns = bx_now cx\<rparr>"

definition audit_inode :: "bpf_ctx \<Rightarrow> bpf_inode \<Rightarrow> u32 \<Rightarrow> u32 \<Rightarrow> bpf \<Rightarrow> int \<times> bpf" where
  "audit_inode cx inode op_mask hook_id s =
     (let key = inode_key_of inode
      in case map_of (bp_policy s) key of
           None \<Rightarrow> (0, s)
         | Some p \<Rightarrow>
             if ip_mask p AND op_mask = 0 then (0, s)
             else let s = count_hook hook_id s
             in if \<not> bx_room cx then (if ip_block p \<noteq> 0 then - EPERM else 0, s)
             else (if ip_block p \<noteq> 0 then - EPERM else 0,
                   s\<lparr>bp_ring := bp_ring s @ [audit_event_of cx key p op_mask hook_id]\<rparr>))"

text \<open>
  The arguments: a file, dentry or path that may be null, whose inode may be null; \<open>ret\<close> is the verdict of the
  programs before this one.
\<close>

type_synonym bpf_object = "bpf_inode option option"

definition check_file_permission :: "bpf_ctx \<Rightarrow> bpf_object \<Rightarrow> u32 \<Rightarrow> int \<Rightarrow> bpf \<Rightarrow> int \<times> bpf" where
  "check_file_permission cx file msk ret s =
     (if ret \<noteq> 0 then (ret, s)
      else case file of None \<Rightarrow> (0, s)
      | Some f_inode \<Rightarrow>
          let op_mask = 0;
              op_mask = (if msk AND BPF_MAY_READ \<noteq> 0 then op_mask OR IG_EBPF_OP_READ else op_mask);
              op_mask = (if msk AND BPF_MAY_WRITE \<noteq> 0 then op_mask OR IG_EBPF_OP_WRITE else op_mask)
          in if op_mask = 0 then (0, s)
             else (case f_inode of None \<Rightarrow> (0, s) | Some i \<Rightarrow> audit_inode cx i op_mask IG_HOOK_FILE_PERMISSION s))"

definition check_file_open :: "bpf_ctx \<Rightarrow> (u32 \<times> bpf_inode option) option \<Rightarrow> int \<Rightarrow> bpf \<Rightarrow> int \<times> bpf" where
  "check_file_open cx file ret s =
     (if ret \<noteq> 0 then (ret, s)
      else case file of None \<Rightarrow> (0, s)
      | Some (fmode, f_inode) \<Rightarrow>
          let op_mask = 0;
              op_mask = (if fmode AND BPF_FMODE_READ \<noteq> 0 then op_mask OR IG_EBPF_OP_READ else op_mask);
              op_mask = (if fmode AND BPF_FMODE_WRITE \<noteq> 0 then op_mask OR IG_EBPF_OP_WRITE else op_mask)
          in if op_mask = 0 then (0, s)
             else (case f_inode of None \<Rightarrow> (0, s) | Some i \<Rightarrow> audit_inode cx i op_mask IG_HOOK_FILE_OPEN s))"

definition check_path_unlink :: "bpf_ctx \<Rightarrow> bpf_object \<Rightarrow> int \<Rightarrow> bpf \<Rightarrow> int \<times> bpf" where
  "check_path_unlink cx de ret s =
     (if ret \<noteq> 0 then (ret, s)
      else case de of None \<Rightarrow> (0, s)
      | Some d_inode \<Rightarrow>
          (case d_inode of None \<Rightarrow> (0, s) | Some i \<Rightarrow> audit_inode cx i IG_EBPF_OP_DELETE IG_HOOK_PATH_UNLINK s))"

definition check_path_rename :: "bpf_ctx \<Rightarrow> bpf_object \<Rightarrow> bpf_object \<Rightarrow> int \<Rightarrow> bpf \<Rightarrow> int \<times> bpf" where
  "check_path_rename cx old_de new_de ret s =
     (if ret \<noteq> 0 then (ret, s)
      else case (case old_de of Some (Some i) \<Rightarrow> audit_inode cx i IG_EBPF_OP_WRITE IG_HOOK_PATH_RENAME s | _ \<Rightarrow> (0, s)) of
        (result, s) \<Rightarrow>
          if result \<noteq> 0 then (result, s)
          else (case new_de of Some (Some i) \<Rightarrow> audit_inode cx i IG_EBPF_OP_DELETE IG_HOOK_PATH_RENAME s | _ \<Rightarrow> (0, s)))"

definition check_path_truncate :: "bpf_ctx \<Rightarrow> bpf_object \<Rightarrow> int \<Rightarrow> bpf \<Rightarrow> int \<times> bpf" where
  "check_path_truncate cx path ret s =
     (if ret \<noteq> 0 then (ret, s)
      else case path of None \<Rightarrow> (0, s)
      | Some d_inode \<Rightarrow>
          (case d_inode of None \<Rightarrow> (0, s) | Some i \<Rightarrow> audit_inode cx i IG_EBPF_OP_WRITE IG_HOOK_PATH_TRUNCATE s))"

definition check_path_chmod :: "bpf_ctx \<Rightarrow> bpf_object \<Rightarrow> int \<Rightarrow> bpf \<Rightarrow> int \<times> bpf" where
  "check_path_chmod cx path ret s =
     (if ret \<noteq> 0 then (ret, s)
      else case path of None \<Rightarrow> (0, s)
      | Some d_inode \<Rightarrow>
          (case d_inode of None \<Rightarrow> (0, s) | Some i \<Rightarrow> audit_inode cx i IG_EBPF_OP_ATTR IG_HOOK_PATH_CHMOD s))"

definition check_inode_setattr :: "bpf_ctx \<Rightarrow> bpf_object \<Rightarrow> u32 option \<Rightarrow> int \<Rightarrow> bpf \<Rightarrow> int \<times> bpf" where
  "check_inode_setattr cx de attr ret s =
     (if ret \<noteq> 0 then (ret, s)
      else case (de, attr) of
        (Some d_inode, Some valid) \<Rightarrow>
          let op_mask = 0;
              op_mask = (if valid AND (BPF_ATTR_MODE OR BPF_ATTR_UID OR BPF_ATTR_GID) \<noteq> 0 then op_mask OR IG_EBPF_OP_ATTR else op_mask);
              op_mask = (if valid AND BPF_ATTR_SIZE \<noteq> 0 then op_mask OR IG_EBPF_OP_WRITE else op_mask)
          in if op_mask = 0 then (0, s)
             else (case d_inode of None \<Rightarrow> (0, s) | Some i \<Rightarrow> audit_inode cx i op_mask IG_HOOK_INODE_SETATTR s)
      | _ \<Rightarrow> (0, s))"

text \<open>The seven programs are attached to these calls of the security framework.\<close>

datatype bpf_call =
    BFile_permission bpf_object u32
  | BFile_open "(u32 \<times> bpf_inode option) option"
  | BPath_unlink bpf_object
  | BPath_rename bpf_object bpf_object
  | BPath_truncate bpf_object
  | BPath_chmod bpf_object
  | BInode_setattr bpf_object "u32 option"

fun bpf_check :: "bpf_ctx \<Rightarrow> bpf_call \<Rightarrow> int \<Rightarrow> bpf \<Rightarrow> int \<times> bpf" where
  "bpf_check cx (BFile_permission f m) ret s = check_file_permission cx f m ret s"
| "bpf_check cx (BFile_open f) ret s = check_file_open cx f ret s"
| "bpf_check cx (BPath_unlink d) ret s = check_path_unlink cx d ret s"
| "bpf_check cx (BPath_rename od nd) ret s = check_path_rename cx od nd ret s"
| "bpf_check cx (BPath_truncate p) ret s = check_path_truncate cx p ret s"
| "bpf_check cx (BPath_chmod p) ret s = check_path_chmod cx p ret s"
| "bpf_check cx (BInode_setattr d a) ret s = check_inode_setattr cx d a ret s"

section \<open>The process map\<close>

text \<open>
  A task as the programs read it: \<open>bt_signal\<close> is the session and the name of the terminal, \<open>bm_read\<close> what
  \<^verbatim>\<open>bpf_probe_read_user\<close> copies from \<open>arg_start\<close>; a read that faults fills the buffer with zeroes.
\<close>

record bpf_mm =
  bm_arg_start :: u64
  bm_arg_end :: u64
  bm_read :: "nat \<Rightarrow> string option"

record bpf_task =
  bt_tgid :: u32
  bt_parent :: "u32 option"
  bt_uid :: u32
  bt_euid :: u32
  bt_signal :: "(u32 \<times> string option) option"
  bt_start :: u64
  bt_comm :: string
  bt_mm :: "bpf_mm option"

definition CMDLINE_MAX :: nat where "CMDLINE_MAX = 160"

definition fill_entry_from_task :: "bpf_task \<Rightarrow> ig_proc_entry" where
  "fill_entry_from_task t =
     \<lparr>be_pid = bt_tgid t, be_ppid = (case bt_parent t of None \<Rightarrow> 0 | Some p \<Rightarrow> p), be_uid = bt_uid t, be_euid = bt_euid t,
      be_sid = (case bt_signal t of None \<Rightarrow> 0 | Some (sid, _) \<Rightarrow> sid), be_comm = strncpy0 16 (bt_comm t),
      be_tty = (case bt_signal t of Some (_, Some name) \<Rightarrow> strncpy0 16 name | _ \<Rightarrow> []),
      be_start_time_ns = bt_start t, be_cmdline = []\<rparr>"

text \<open>An update of the LRU map: whether it succeeds and which other keys it evicts.\<close>

record lru_out =
  lo_ok :: bool
  lo_evict :: "u32 list"

definition proc_map_update :: "lru_out \<Rightarrow> u32 \<Rightarrow> ig_proc_entry \<Rightarrow> (u32 \<Rightarrow> ig_proc_entry option) \<Rightarrow> (u32 \<Rightarrow> ig_proc_entry option)" where
  "proc_map_update lo key e m =
     (if \<not> lo_ok lo then m else (\<lambda>k. if k = key then Some e else if k \<in> set (lo_evict lo) then None else m k))"

definition on_sched_fork :: "lru_out \<Rightarrow> bpf_task option \<Rightarrow> bpf \<Rightarrow> bpf" where
  "on_sched_fork lo child s =
     (case child of None \<Rightarrow> s
      | Some t \<Rightarrow> s\<lparr>bp_procs := proc_map_update lo (bt_tgid t) (fill_entry_from_task t) (bp_procs s)\<rparr>)"

definition bpf_nul_to_space :: "char \<Rightarrow> char" where
  "bpf_nul_to_space c = (if c = nul then CHR '' '' else c)"

definition bpf_cmdline :: "bpf_mm \<Rightarrow> string" where
  "bpf_cmdline mm =
     (let len = unat (bm_arg_end mm - bm_arg_start mm);
          len = (if len > CMDLINE_MAX - 1 then CMDLINE_MAX - 1 else len)
      in map bpf_nul_to_space (case bm_read mm len of Some t \<Rightarrow> t | None \<Rightarrow> replicate len nul))"

definition on_sched_exec :: "lru_out \<Rightarrow> bpf_task option \<Rightarrow> bpf \<Rightarrow> bpf" where
  "on_sched_exec lo task s =
     (case task of None \<Rightarrow> s
      | Some t \<Rightarrow>
          let key = bt_tgid t;
              s = (if bp_procs s key = None
                   then s\<lparr>bp_procs := proc_map_update lo key (fill_entry_from_task t) (bp_procs s)\<rparr> else s)
          in case bp_procs s key of
               None \<Rightarrow> s
             | Some e \<Rightarrow>
                 let e = e\<lparr>be_comm := strncpy0 16 (bt_comm t)\<rparr>;
                     e = (case bt_mm t of None \<Rightarrow> e
                        | Some mm \<Rightarrow> if bm_arg_end mm \<le> bm_arg_start mm then e else e\<lparr>be_cmdline := bpf_cmdline mm\<rparr>)
                 in s\<lparr>bp_procs := (bp_procs s)(key \<mapsto> e)\<rparr>)"

definition on_sched_exit :: "bpf_task option \<Rightarrow> bpf \<Rightarrow> bpf" where
  "on_sched_exit task s = (case task of None \<Rightarrow> s | Some t \<Rightarrow> s\<lparr>bp_procs := (bp_procs s)(bt_tgid t := None)\<rparr>)"

section \<open>The policy map as a policy store\<close>

text \<open>The map keeps mask and block mode; the path stays in user space.\<close>

definition map_inv :: "policy_map \<Rightarrow> bool" where
  "map_inv m \<longleftrightarrow> distinct (map fst m) \<and> length m \<le> POLICY_MAP_MAX"

definition map_pol :: "policy_map \<Rightarrow> inode_key \<Rightarrow> policy option" where
  "map_pol m k = map_option (\<lambda>p. \<lparr>pol_mask = ip_mask p, pol_block = ip_block p, pol_path = []\<rparr>) (map_of m k)"

definition map_keep :: "policy \<Rightarrow> policy" where
  "map_keep p = p\<lparr>pol_path := []\<rparr>"

definition map_add_policy :: "policy_map \<Rightarrow> inode_key \<Rightarrow> policy \<Rightarrow> policy_map option" where
  "map_add_policy m k p =
     (case policy_map_update k \<lparr>ip_mask = pol_mask p, ip_block = pol_block p\<rparr> m of
        (rc, m') \<Rightarrow> if rc = 0 then Some m' else None)"

lemma length_update: "length (AList.update k v m) = (if map_of m k = None then Suc (length m) else length m)"
  by (induction m) auto

lemma policy_map_update_inv: "policy_map_update k p m = (rc, m') \<Longrightarrow> map_inv m \<Longrightarrow> map_inv m'"
  by (auto simp: policy_map_update_def map_inv_def length_update AList.distinct_update POLICY_MAP_MAX_def split: if_splits)

lemma policy_map_update_of: "policy_map_update k p m = (0, m') \<Longrightarrow> map_of m' = (map_of m)(k \<mapsto> p)"
  by (auto simp: policy_map_update_def AList.update_conv' E2BIG_def split: if_splits)

lemma policy_map_delete_of: "policy_map_delete k m = (rc, m') \<Longrightarrow> map_of m' = (map_of m)(k := None)"
  by (auto simp: policy_map_delete_def AList.delete_conv' fun_upd_idem split: if_splits)

lemma policy_map_delete_inv: "policy_map_delete k m = (rc, m') \<Longrightarrow> map_inv m \<Longrightarrow> map_inv m'"
  using AList.length_delete_le [of k m]
  by (auto simp: policy_map_delete_def map_inv_def AList.distinct_delete split: if_splits)

interpretation bpf_map: policy_store map_inv map_pol map_keep map_add_policy
  "\<lambda>m k. snd (policy_map_delete k m)" "\<lambda>m. []"
proof
  fix m k p m' assume inv: "map_inv m" and add: "map_add_policy m k p = Some m'"
  have u: "policy_map_update k \<lparr>ip_mask = pol_mask p, ip_block = pol_block p\<rparr> m = (0, m')"
    using add by (auto simp: map_add_policy_def split: prod.splits if_splits)
  show "map_inv m'" by (rule policy_map_update_inv [OF u inv])
  show "map_pol m' = (map_pol m)(k \<mapsto> map_keep p)"
    by (simp add: fun_eq_iff map_pol_def policy_map_update_of [OF u] map_keep_def)
next
  fix m k assume inv: "map_inv m"
  obtain rc m' where d: "policy_map_delete k m = (rc, m')" by fastforce
  show "map_inv (snd (policy_map_delete k m))" using policy_map_delete_inv [OF d inv] d by simp
  show "map_pol (snd (policy_map_delete k m)) = (map_pol m)(k := None)"
    by (simp add: fun_eq_iff map_pol_def d policy_map_delete_of [OF d])
qed (simp_all add: map_inv_def map_pol_def fun_eq_iff)

section \<open>What the programs enforce\<close>

type_synonym bpf_target = "inode_key \<times> u32 \<times> u32"

definition object_target :: "bpf_object \<Rightarrow> u32 \<Rightarrow> u32 \<Rightarrow> bpf_target list" where
  "object_target obj op hook = (case obj of Some (Some i) \<Rightarrow> [(inode_key_of i, op, hook)] | _ \<Rightarrow> [])"

definition ops_of :: "bool \<Rightarrow> u32 \<Rightarrow> bool \<Rightarrow> u32 \<Rightarrow> u32" where
  "ops_of a x b y = (if a then x else 0) OR (if b then y else 0)"

fun bpf_targets :: "bpf_call \<Rightarrow> bpf_target list" where
  "bpf_targets (BFile_permission f m) =
     object_target f (ops_of (m AND BPF_MAY_READ \<noteq> 0) IG_EBPF_OP_READ (m AND BPF_MAY_WRITE \<noteq> 0) IG_EBPF_OP_WRITE) IG_HOOK_FILE_PERMISSION"
| "bpf_targets (BFile_open f) = (case f of None \<Rightarrow> [] | Some (m, i) \<Rightarrow>
     object_target (Some i) (ops_of (m AND BPF_FMODE_READ \<noteq> 0) IG_EBPF_OP_READ (m AND BPF_FMODE_WRITE \<noteq> 0) IG_EBPF_OP_WRITE) IG_HOOK_FILE_OPEN)"
| "bpf_targets (BPath_unlink d) = object_target d IG_EBPF_OP_DELETE IG_HOOK_PATH_UNLINK"
| "bpf_targets (BPath_rename od nd) = object_target od IG_EBPF_OP_WRITE IG_HOOK_PATH_RENAME
     @ object_target nd IG_EBPF_OP_DELETE IG_HOOK_PATH_RENAME"
| "bpf_targets (BPath_truncate p) = object_target p IG_EBPF_OP_WRITE IG_HOOK_PATH_TRUNCATE"
| "bpf_targets (BPath_chmod p) = object_target p IG_EBPF_OP_ATTR IG_HOOK_PATH_CHMOD"
| "bpf_targets (BInode_setattr d a) = (case a of None \<Rightarrow> [] | Some v \<Rightarrow>
     object_target d (ops_of (v AND (BPF_ATTR_MODE OR BPF_ATTR_UID OR BPF_ATTR_GID) \<noteq> 0) IG_EBPF_OP_ATTR
       (v AND BPF_ATTR_SIZE \<noteq> 0) IG_EBPF_OP_WRITE) IG_HOOK_INODE_SETATTR)"

definition bpf_denied :: "policy_map \<Rightarrow> bpf_target \<Rightarrow> bool" where
  "bpf_denied m t \<longleftrightarrow> (case map_of m (fst t) of None \<Rightarrow> False | Some p \<Rightarrow> ip_mask p AND fst (snd t) \<noteq> 0 \<and> ip_block p \<noteq> 0)"

text \<open>The targets a call looks at: up to the first that is denied.\<close>

fun looked_at :: "policy_map \<Rightarrow> bpf_target list \<Rightarrow> bpf_target list" where
  "looked_at m [] = []"
| "looked_at m (t # ts) = t # (if bpf_denied m t then [] else looked_at m ts)"

definition audits :: "bpf_ctx \<Rightarrow> policy_map \<Rightarrow> bpf_target list \<Rightarrow> audit_event list" where
  "audits cx m ts = List.map_filter (\<lambda>(k, op, hook). case map_of m k of None \<Rightarrow> None
     | Some p \<Rightarrow> if ip_mask p AND op = 0 then None else Some (audit_event_of cx k p op hook)) ts"

definition verdict :: "bpf_ctx \<Rightarrow> bpf_target list \<Rightarrow> bpf \<Rightarrow> int \<Rightarrow> bpf \<Rightarrow> bool" where
  "verdict cx ts s rc s' \<longleftrightarrow> rc = (if \<exists>t \<in> set ts. bpf_denied (bp_policy s) t then - EPERM else 0)
     \<and> bp_policy s' = bp_policy s \<and> bp_procs s' = bp_procs s
     \<and> bp_ring s' = bp_ring s @ (if bx_room cx then audits cx (bp_policy s) (looked_at (bp_policy s) ts) else [])"

lemma count_hook_frame [simp]:
  "bp_policy (count_hook h s) = bp_policy s" "bp_procs (count_hook h s) = bp_procs s" "bp_ring (count_hook h s) = bp_ring s"
  by (simp_all add: count_hook_def)

lemma audit_inode_verdict:
  "audit_inode cx i op hook s = (rc, s') \<Longrightarrow> verdict cx [(inode_key_of i, op, hook)] s rc s'"
  by (auto simp: audit_inode_def verdict_def bpf_denied_def audits_def List.map_filter_def Let_def split: option.splits if_splits)

lemma verdict_nothing: "verdict cx [] s 0 s"
  by (simp add: verdict_def audits_def List.map_filter_def)

lemma verdict_zero_op: "verdict cx [(k, 0, hook)] s 0 s"
  by (auto simp: verdict_def bpf_denied_def audits_def List.map_filter_def split: option.splits)

text \<open>One object, checked for some operations.\<close>

lemma object_verdict:
  assumes "rc_s = (case obj of None \<Rightarrow> (0, s) | Some d \<Rightarrow>
      if op = 0 then (0, s) else case d of None \<Rightarrow> (0, s) | Some i \<Rightarrow> audit_inode cx i op hook s)"
  shows "verdict cx (object_target obj op hook) s (fst rc_s) (snd rc_s)"
  using assms audit_inode_verdict [of cx _ op hook s] verdict_nothing [of cx s] verdict_zero_op [of cx _ hook s]
  by (auto simp: object_target_def split: option.splits)

lemma verdict_append:
  assumes "verdict cx ts s rc s1" and "rc = 0 \<Longrightarrow> verdict cx us s1 rc' s2" and "rc \<noteq> 0 \<Longrightarrow> rc' = rc \<and> s2 = s1"
  shows "verdict cx (ts @ us) s rc' s2"
proof (cases "\<exists>t \<in> set ts. bpf_denied (bp_policy s) t")
  case True
  have "looked_at (bp_policy s) (ts @ us) = looked_at (bp_policy s) ts"
    using True by (induction ts) auto
  moreover have "rc \<noteq> 0" using True assms(1) by (simp add: verdict_def EPERM_def)
  ultimately show ?thesis using assms True by (auto simp: verdict_def)
next
  case False
  have "looked_at (bp_policy s) (ts @ us) = ts @ looked_at (bp_policy s) us" "looked_at (bp_policy s) ts = ts"
    using False by (induction ts) auto
  moreover have "audits cx m (xs @ ys) = audits cx m xs @ audits cx m ys" for m xs ys
    by (simp add: audits_def List.map_filter_def)
  ultimately show ?thesis using assms False by (auto simp: verdict_def)
qed

lemma ops_of_steps:
  "(if b then (if a then 0 OR x else 0) OR y else (if a then 0 OR x else 0)) = ops_of a x b y"
  by (simp add: ops_of_def)

lemma ebpf_ops_set: "IG_EBPF_OP_DELETE \<noteq> 0" "IG_EBPF_OP_WRITE \<noteq> 0" "IG_EBPF_OP_ATTR \<noteq> 0"
  by (simp_all add: ebpf_ops)

lemmas bpf_programs = check_file_permission_def check_file_open_def check_path_unlink_def check_path_truncate_def
  check_path_chmod_def check_inode_setattr_def

lemma check_verdict: "verdict cx (bpf_targets call) s (fst (bpf_check cx call 0 s)) (snd (bpf_check cx call 0 s))"
proof (cases call)
  case (BPath_rename od nd)
  obtain rc s1 where a: "(case od of Some (Some i) \<Rightarrow> audit_inode cx i IG_EBPF_OP_WRITE IG_HOOK_PATH_RENAME s | _ \<Rightarrow> (0, s)) = (rc, s1)"
    by fastforce
  have v1: "verdict cx (object_target od IG_EBPF_OP_WRITE IG_HOOK_PATH_RENAME) s rc s1"
    using a audit_inode_verdict [of cx _ IG_EBPF_OP_WRITE IG_HOOK_PATH_RENAME s] verdict_nothing [of cx s]
    by (auto simp: object_target_def split: option.splits)
  obtain rc' s2 where b: "(case nd of Some (Some i) \<Rightarrow> audit_inode cx i IG_EBPF_OP_DELETE IG_HOOK_PATH_RENAME s1 | _ \<Rightarrow> (0, s1)) = (rc', s2)"
    by fastforce
  have v2: "verdict cx (object_target nd IG_EBPF_OP_DELETE IG_HOOK_PATH_RENAME) s1 rc' s2"
    using b audit_inode_verdict [of cx _ IG_EBPF_OP_DELETE IG_HOOK_PATH_RENAME s1] verdict_nothing [of cx s1]
    by (auto simp: object_target_def split: option.splits)
  show ?thesis
    using verdict_append [OF v1, of "object_target nd IG_EBPF_OP_DELETE IG_HOOK_PATH_RENAME" rc' s2] v2
      verdict_append [OF v1, of "object_target nd IG_EBPF_OP_DELETE IG_HOOK_PATH_RENAME" rc s1]
    by (auto simp: BPath_rename check_path_rename_def a b)
next
  case (BFile_permission f m)
  show ?thesis unfolding BFile_permission bpf_targets.simps
    by (rule object_verdict) (unfold bpf_check.simps check_file_permission_def Let_def ops_of_steps, simp)
next
  case (BFile_open f)
  show ?thesis
  proof (cases f)
    case (Some mi)
    obtain m i where mi: "mi = (m, i)" by fastforce
    show ?thesis unfolding BFile_open Some mi bpf_targets.simps option.case prod.case
      by (rule object_verdict) (unfold bpf_check.simps check_file_open_def Let_def ops_of_steps, simp)
  qed (simp add: BFile_open check_file_open_def verdict_nothing)
next
  case (BInode_setattr d a)
  show ?thesis
  proof (cases a)
    case (Some v)
    show ?thesis unfolding BInode_setattr Some bpf_targets.simps option.case
      by (rule object_verdict) (unfold bpf_check.simps check_inode_setattr_def Let_def ops_of_steps, simp split: option.split)
  qed (simp add: BInode_setattr check_inode_setattr_def verdict_nothing split: option.split)
next
  case (BPath_unlink d)
  show ?thesis unfolding BPath_unlink bpf_targets.simps
    by (rule object_verdict) (cases d; simp add: check_path_unlink_def ebpf_ops_set)
next
  case (BPath_truncate d)
  show ?thesis unfolding BPath_truncate bpf_targets.simps
    by (rule object_verdict) (cases d; simp add: check_path_truncate_def ebpf_ops_set)
next
  case (BPath_chmod d)
  show ?thesis unfolding BPath_chmod bpf_targets.simps
    by (rule object_verdict) (cases d; simp add: check_path_chmod_def ebpf_ops_set)
qed

text \<open>C8. The eBPF programs enforce the policy map: unless an earlier program already refused, a call is
  refused with -EPERM exactly when one of its inodes has a denying policy for what the call does to
  it, whether or not the ring buffer has room; with room, every covered inode looked at is reported
  with its outcome; the policies do not change.\<close>

theorem bpf_programs_enforce_policy:
  assumes "bpf_check cx call ret s = (rc, s')"
  shows "(ret \<noteq> 0 \<longrightarrow> rc = ret \<and> s' = s)
    \<and> (ret = 0 \<longrightarrow> rc = (if \<exists>t \<in> set (bpf_targets call). bpf_denied (bp_policy s) t then - EPERM else 0)
        \<and> bp_policy s' = bp_policy s
        \<and> bp_ring s' = bp_ring s @ (if bx_room cx then audits cx (bp_policy s) (looked_at (bp_policy s) (bpf_targets call)) else []))"
proof -
  have "ret \<noteq> 0 \<Longrightarrow> bpf_check cx call ret s = (ret, s)"
    by (cases call) (simp_all add: bpf_programs check_path_rename_def)
  moreover have "ret = 0 \<Longrightarrow> verdict cx (bpf_targets call) s rc s'"
    using check_verdict [of cx call s] assms by simp
  ultimately show ?thesis using assms by (auto simp: verdict_def)
qed

definition sample_bpf_ctx :: bpf_ctx where
  "sample_bpf_ctx = \<lparr>bx_pid_tgid = 0x2A0000002B, bx_uid_gid = 0, bx_now = 5, bx_comm = ''mv'', bx_room = True\<rparr>"

definition sample_bpf :: bpf where
  "sample_bpf = \<lparr>bp_policy = [((8, 77), \<lparr>ip_mask = 14, ip_block = 1\<rparr>)], bp_ring = [], bp_stats = (\<lambda>_. 0), bp_procs = (\<lambda>_. None)\<rparr>"

theorem bpf_programs_enforce_policy_witness:
  "fst (bpf_check sample_bpf_ctx (BPath_rename (Some (Some (8, 5))) (Some (Some (8, 77)))) 0 sample_bpf) = - EPERM
   \<and> map ae_hook_id (bp_ring (snd (bpf_check sample_bpf_ctx (BPath_rename (Some (Some (8, 5))) (Some (Some (8, 77)))) 0 sample_bpf)))
       = [IG_HOOK_PATH_RENAME]"
proof -
  let ?c = "BPath_rename (Some (Some (8, 5))) (Some (Some (8, 77)))"
  obtain rc s' where r: "bpf_check sample_bpf_ctx ?c 0 sample_bpf = (rc, s')" by fastforce
  from bpf_programs_enforce_policy [OF r] show ?thesis
    unfolding r
    by (simp add: object_target_def inode_key_of_def sample_bpf_def sample_bpf_ctx_def bpf_denied_def ebpf_ops audits_def
        List.map_filter_def audit_event_of_def)
qed

section \<open>The process map follows tasks, not processes\<close>

text \<open>The tracepoints fire for every thread.  A thread that ends takes the entry of its whole process with it,
  and a thread that starts erases the command line its process got from \<^verbatim>\<open>exec\<close>, whatever the map held before.\<close>

theorem thread_exit_forgets_process:
  assumes "bt_tgid thread = p" and "lo_ok lo"
  shows "bp_procs (on_sched_exit (Some thread) s) p = None
    \<and> map_option be_cmdline (bp_procs (on_sched_fork lo (Some thread) s) p) = Some []"
  using assms by (simp add: on_sched_exit_def on_sched_fork_def proc_map_update_def fill_entry_from_task_def)

end
