(* ===== verification/Agent_Main.thy ===== *)
theory Agent_Main
  imports Agent_Env Enroll Pid_Cache Ebpf_Kernel Event_Queue
begin

text \<open>
  The agent's main program: \<^verbatim>\<open>Agent/src/main.c\<close>.  The thread that receives kernel events, the
  processing of an event (integrity check, baseline, transport with reconnection), the reload of the
  configuration, the start in its order, the main loop and the shutdown.  The global variables are one
  record; the policy table of the kernel is beside it.  What the operating system answers is a record
  of parameters.  Log lines that only inform are left out.
\<close>

section \<open>The state\<close>

text \<open>What the agent reports: an alert of an event, of a tampered file, of dropped events.\<close>

datatype report = EventAlert ig_event | Tampered string string string | NewlyRegistered string
  | Unregistered string | QueueOverflow u64 u64

datatype ebpf_cmd = EbpfAddPath string u32 u32 | EbpfRemovePath string

text \<open>\<open>g_log_fp\<close> is the file that is open, \<open>None\<close> before and after logging.\<close>

record logging =
  lg_file :: "string option"
  lg_syslog :: bool
  lg_verbose :: int

record agent =
  ag_cfg :: ig_config
  ag_config_path :: string
  ag_log :: logging
  ag_db :: ig_scan_result
  ag_tcp :: ig_tcp_client
  ag_agent_id :: string
  ag_transport_ok :: bool
  ag_ebpf_active :: bool
  ag_lkm_active :: bool
  ag_block :: u32
  ag_lkm_fd :: int
  ag_running :: bool
  ag_reload :: bool
  ag_queue :: "ig_event ig_event_queue"
  ag_last_dropped :: u64
  ag_reports :: "report list"
  ag_ebpf_cmds :: "ebpf_cmd list"

record agent_os =
  os_fs :: fs
  os_sha :: sha_env
  os_stat :: "string \<Rightarrow> stat option"
  os_mem :: "nat \<Rightarrow> bool"
  os_open :: open_env
  os_log_opens :: "string \<Rightarrow> bool"
  os_inet_pton :: "string \<Rightarrow> u32 option"
  os_conn :: "nat \<Rightarrow> int \<times> connect_env \<times> bool"
  os_bkt :: "u64 \<Rightarrow> u64 \<Rightarrow> nat"
  os_kmem :: bool
  os_libbpf :: bool

definition current_transport_monitor_type :: "agent \<Rightarrow> u8 option" where
  "current_transport_monitor_type ag =
     (if ag_ebpf_active ag then Some IG_MON_EBPF else if ag_lkm_active ag then Some IG_MON_LKM else None)"

definition SIGHUP :: int where "SIGHUP = 1"
definition SIGINT :: int where "SIGINT = 2"
definition SIGTERM :: int where "SIGTERM = 15"

definition signal_handler :: "int \<Rightarrow> agent \<Rightarrow> agent" where
  "signal_handler sig ag =
     (if sig = SIGTERM \<or> sig = SIGINT then ag\<lparr>ag_running := False\<rparr>
      else if sig = SIGHUP then ag\<lparr>ag_reload := True\<rparr> else ag)"

section \<open>Logging\<close>

definition init_logging :: "(string \<Rightarrow> bool) \<Rightarrow> ig_config \<Rightarrow> logging \<Rightarrow> logging" where
  "init_logging opens cfg lg =
     (let lg = (if log_to_syslog cfg \<noteq> 0 then lg\<lparr>lg_syslog := True\<rparr> else lg);
          lg = lg\<lparr>lg_verbose := verbose cfg\<rparr>
      in lg\<lparr>lg_file := Some (if opens (log_file cfg) then log_file cfg else ''stderr'')\<rparr>)"

definition close_logging :: "logging \<Rightarrow> logging" where
  "close_logging lg = lg\<lparr>lg_file := None\<rparr>"

section \<open>The thread that receives kernel events\<close>

definition lkm_event_type :: "u32 \<Rightarrow> u32" where
  "lkm_event_type op =
     (if op = IG_OP_WRITE then IG_EVENT_MODIFY
      else if op = IG_OP_DELETE then IG_EVENT_DELETE
      else if op = IG_OP_RENAME then IG_EVENT_MOVE
      else IG_EVENT_UNKNOWN)"

definition lkm_chain_info :: "proc_fs \<Rightarrow> ig_lkm_chain_entry \<Rightarrow> ig_proc_info" where
  "lkm_chain_info fs src =
     (let dst = zero_proc_info\<lparr>pi_pid := ce_pid src, pi_ppid := ce_ppid src, pi_uid := ce_uid src,
           pi_euid := ce_euid src, pi_sid := ce_sid src, pi_start_time_ns := ce_start_time_ns src,
           pi_comm := strncpy0 IG_PA_COMM_LEN (ce_comm src), pi_tty := strncpy0 IG_PA_TTY_LEN (ce_tty src),
           pi_exe := strncpy0 IG_PA_EXE_LEN (ce_exe src), pi_cmdline := strncpy0 IG_PA_CMDLINE_LEN (ce_cmdline src)\<rparr>
      in if pi_exe dst = [] \<or> pi_cmdline dst = [] then ig_pa_enrich_entry fs dst else dst)"

definition lkm_chain :: "proc_fs \<Rightarrow> ig_lkm_event \<Rightarrow> ig_pid_chain" where
  "lkm_chain fs lev =
     (let es = map (lkm_chain_info fs) (take (min (unat (le_chain_depth lev)) IG_PA_MAX_DEPTH) (le_chain lev))
      in \<lparr>c_depth = int (unat (le_chain_depth lev)), c_truncated = int (unat (le_chain_truncated lev)),
          c_chain = take IG_PA_MAX_DEPTH (es @ replicate IG_PA_MAX_DEPTH zero_proc_info)\<rparr>)"

definition lkm_to_event :: "proc_fs \<Rightarrow> ig_lkm_event \<Rightarrow> ig_event" where
  "lkm_to_event fs lev =
     (let chain = lkm_chain fs lev
      in zero_event\<lparr>ev_type := lkm_event_type (le_op lev), ev_source := IG_SOURCE_LKM, ev_pid := le_pid lev,
          ev_uid := le_uid lev, ev_dev := le_dev lev, ev_ino := le_ino lev, ev_blocked := sint (le_blocked lev),
          ev_timestamp := int (unat (le_timestamp_ns lev div 1000000000)), ev_path := strncpy0 IG_MAX_PATH (le_path lev),
          ev_comm := strncpy0 16 (le_comm lev), ev_chain := chain,
          ev_sid := (if c_depth chain > 0 then pi_sid (c_chain chain ! 0) else 0)\<rparr>)"

text \<open>
  The loop: each turn has the value of \<open>g_running\<close> at its head, the result of
  \<open>lkm_read_event_timeout\<close>, the event it read and \<^verbatim>\<open>/proc\<close> at that time.
\<close>

fun lkm_event_thread :: "(bool \<times> int \<times> ig_lkm_event \<times> proc_fs) list \<Rightarrow> ig_event ig_event_queue \<Rightarrow> ig_event ig_event_queue" where
  "lkm_event_thread [] q = q"
| "lkm_event_thread ((running, ret, lev, fs) # ts) q =
     (if \<not> running then q
      else if ret = - ETIMEDOUT then lkm_event_thread ts q
      else if ret \<noteq> 0 then q
      else lkm_event_thread ts (ig_queue_push q (lkm_to_event fs lev)))"

section \<open>Processing an event\<close>

definition agent_id_text :: "u64 \<Rightarrow> string" where
  "agent_id_text i = dec (unat i)"

definition send_event_with_reconnect :: "agent_os \<Rightarrow> ig_event \<Rightarrow> agent \<Rightarrow> agent" where
  "send_event_with_reconnect os ev ag =
     (if \<not> ag_transport_ok ag \<or> ag_agent_id ag = [] then ag
      else (case ig_tcp_send_event (ag_tcp ag) ev of
        (ret, tcp) \<Rightarrow>
          if ret = -2
          then (let ag = ag\<lparr>ag_tcp := tcp, ag_transport_ok := False\<rparr>
            in (case ig_tcp_reconnect (os_inet_pton os) (os_conn os) tcp of
                (rc, tcp, _) \<Rightarrow>
                  let ag = ag\<lparr>ag_tcp := tcp\<rparr>
                  in if rc = 0
                     then ag\<lparr>ag_agent_id := agent_id_text (tc_agent_id tcp), ag_transport_ok := True,
                            ag_tcp := snd (ig_tcp_send_event tcp ev)\<rparr>
                     else ag))
          else ag\<lparr>ag_tcp := tcp\<rparr>))"

definition report :: "report \<Rightarrow> agent \<Rightarrow> agent" where
  "report r ag = ag\<lparr>ag_reports := ag_reports ag @ [r]\<rparr>"

definition db_update :: "agent_os \<Rightarrow> string \<Rightarrow> agent \<Rightarrow> agent" where
  "db_update os path ag = ag\<lparr>ag_db := ig_baseline_db_update (os_sha os) (os_stat os) (os_mem os) path (ag_db ag)\<rparr>"

text \<open>The part on the baseline.\<close>

definition check_integrity :: "agent_os \<Rightarrow> ig_event \<Rightarrow> agent \<Rightarrow> agent" where
  "check_integrity os ev ag =
     (let path = ev_path ev
      in if ev_type ev = IG_EVENT_MODIFY
         then (case ig_baseline_check_file (os_sha os) (ag_db ag) path of
             (r, expected, actual) \<Rightarrow>
               let ag = (if r = IG_INTEGRITY_MISMATCH then report (Tampered path expected actual) ag
                  else if r = IG_INTEGRITY_NEW then report (NewlyRegistered path) ag else ag)
               in db_update os path ag)
         else if ev_type ev = IG_EVENT_CREATE then report (NewlyRegistered path) (db_update os path ag)
         else if ev_type ev = IG_EVENT_DELETE
         then (case ig_baseline_check_file (os_sha os) (ag_db ag) path of
             (r, _) \<Rightarrow>
               if r = IG_INTEGRITY_MATCH then ag
               else report (Unregistered path) (ag\<lparr>ag_db := ig_baseline_db_remove path (ag_db ag)\<rparr>))
         else ag)"

definition process_event :: "agent_os \<Rightarrow> ig_event \<Rightarrow> agent \<Rightarrow> agent" where
  "process_event os ev ag =
     (let ag = (if ev_source ev \<noteq> IG_SOURCE_EBPF \<and> ev_source ev \<noteq> IG_SOURCE_LKM then report (EventAlert ev) ag else ag)
      in send_event_with_reconnect os ev (check_integrity os ev ag))"

section \<open>Reloading the configuration\<close>


definition protect_mask :: u32 where
  "protect_mask = IG_EBPF_OP_WRITE OR IG_EBPF_OP_DELETE OR IG_EBPF_OP_ATTR"

definition watched :: "ig_config \<Rightarrow> string \<Rightarrow> bool" where
  "watched cfg path \<longleftrightarrow> path \<in> set (map w_path (watches cfg))"

definition ebpf_diff :: "u32 \<Rightarrow> ig_config \<Rightarrow> ig_config \<Rightarrow> ebpf_cmd list" where
  "ebpf_diff block old_cfg new_cfg =
     map EbpfRemovePath (filter (\<lambda>p. \<not> watched new_cfg p) (map w_path (watches old_cfg)))
     @ map (\<lambda>p. EbpfAddPath p protect_mask block) (filter (\<lambda>p. \<not> watched old_cfg p) (map w_path (watches new_cfg)))"

definition reload_logging :: "agent_os \<Rightarrow> ig_config \<Rightarrow> agent \<Rightarrow> agent" where
  "reload_logging os new_cfg ag =
     (let cfg = ag_cfg ag
      in if log_file cfg \<noteq> log_file new_cfg \<or> log_to_syslog cfg \<noteq> log_to_syslog new_cfg
         then (let lg = close_logging (ag_log ag);
                   cfg = cfg\<lparr>log_file := strncpy0 IG_MAX_PATH (log_file new_cfg), log_to_syslog := log_to_syslog new_cfg,
                         verbose := verbose new_cfg\<rparr>
               in ag\<lparr>ag_cfg := cfg, ag_log := init_logging (os_log_opens os) cfg lg\<rparr>)
         else if verbose cfg \<noteq> verbose new_cfg
         then ag\<lparr>ag_cfg := cfg\<lparr>verbose := verbose new_cfg\<rparr>, ag_log := (ag_log ag)\<lparr>lg_verbose := verbose new_cfg\<rparr>\<rparr>
         else ag)"

definition block_mode :: "agent \<Rightarrow> u32" where
  "block_mode ag = (if ag_block ag \<noteq> 0 then IG_BLOCK_DENY else IG_BLOCK_AUDIT)"

text \<open>\<^verbatim>\<open>lkm_clear_all\<close> and the injection of the baseline.\<close>

definition inject_policies :: "agent_os \<Rightarrow> agent \<Rightarrow> policy_ht \<Rightarrow> int \<times> policy_ht" where
  "inject_policies os ag ht =
     lkm_add_from_baseline (os_bkt os) (os_kmem os) (ag_lkm_fd ag) (os_stat os) (ag_db ag) (block_mode ag)
       (snd (lkm_clear_all (os_bkt os) (ag_lkm_fd ag) ht))"

definition reload_config :: "agent_os \<Rightarrow> bool \<Rightarrow> agent \<Rightarrow> policy_ht \<Rightarrow> agent \<times> policy_ht" where
  "reload_config os alloc_ok ag ht =
     (if \<not> alloc_ok then (ag, ht)
      else (case load_config (os_open os) (ag_config_path ag) of
        (rc, new_cfg) \<Rightarrow>
          if rc < 0 then (ag, ht)
          else (let old_watches = ag_cfg ag;
                    ag = reload_logging os new_cfg ag;
                    ag = (if os_libbpf os \<and> ag_ebpf_active ag
                          then ag\<lparr>ag_ebpf_cmds := ag_ebpf_cmds ag @ ebpf_diff (ag_block ag) old_watches new_cfg\<rparr> else ag);
                    ht = (if ag_lkm_active ag then snd (inject_policies os ag ht) else ht)
                in (ag\<lparr>ag_cfg := (ag_cfg ag)\<lparr>watches := watches new_cfg\<rparr>\<rparr>, ht))))"

section \<open>The main loop\<close>

text \<open>
  One turn of the loop: the signals that arrive before its head, what the waits in \<open>ig_queue_pop\<close> see, whether
  the allocation of a reload succeeds, and what the system answers.
\<close>

record loop_in =
  li_signals :: "int list"
  li_waits :: "(int \<times> ig_event list) list"
  li_alloc :: bool
  li_os :: agent_os

definition check_dropped :: "agent \<Rightarrow> agent" where
  "check_dropped ag =
     (let cur = ig_queue_dropped (ag_queue ag)
      in if cur \<noteq> ag_last_dropped ag
         then (report (QueueOverflow cur (cur - ag_last_dropped ag)) ag)\<lparr>ag_last_dropped := cur\<rparr> else ag)"

definition loop_body :: "loop_in \<Rightarrow> agent \<Rightarrow> policy_ht \<Rightarrow> (agent \<times> policy_ht) option" where
  "loop_body li ag ht =
     (case (if ag_reload ag then reload_config (li_os li) (li_alloc li) (ag\<lparr>ag_reload := False\<rparr>) ht else (ag, ht)) of
       (ag, ht) \<Rightarrow>
         (case ig_queue_pop (ag_queue ag) 500 (li_waits li) of
            Popped ev q \<Rightarrow> Some (check_dropped (process_event (li_os li) ev (ag\<lparr>ag_queue := q\<rparr>)), ht)
          | PopFail q \<Rightarrow> Some (check_dropped (ag\<lparr>ag_queue := q\<rparr>), ht)
          | PopBlocked q \<Rightarrow> None))"

text \<open>\<open>None\<close>: the wait of a turn has not ended.\<close>

fun main_loop :: "loop_in list \<Rightarrow> agent \<Rightarrow> policy_ht \<Rightarrow> (agent \<times> policy_ht) option" where
  "main_loop [] ag ht = Some (ag, ht)"
| "main_loop (li # lis) ag ht =
     (let ag = fold signal_handler (li_signals li) ag
      in if \<not> ag_running ag then Some (ag, ht)
         else (case loop_body li ag ht of None \<Rightarrow> None | Some (ag, ht) \<Rightarrow> main_loop lis ag ht))"

section \<open>What each step leaves alone\<close>

lemma report_frame [simp]:
  "ag_tcp (report r ag) = ag_tcp ag" "ag_transport_ok (report r ag) = ag_transport_ok ag"
  "ag_agent_id (report r ag) = ag_agent_id ag" "ag_queue (report r ag) = ag_queue ag"
  "ag_running (report r ag) = ag_running ag" "ag_reload (report r ag) = ag_reload ag" "ag_db (report r ag) = ag_db ag"
  "ag_reports (report r ag) = ag_reports ag @ [r]" "ag_last_dropped (report r ag) = ag_last_dropped ag"
  by (simp_all add: report_def)

lemma check_integrity_frame [simp]:
  "ag_tcp (check_integrity os ev ag) = ag_tcp ag" "ag_transport_ok (check_integrity os ev ag) = ag_transport_ok ag"
  "ag_agent_id (check_integrity os ev ag) = ag_agent_id ag" "ag_queue (check_integrity os ev ag) = ag_queue ag"
  "ag_running (check_integrity os ev ag) = ag_running ag" "ag_reload (check_integrity os ev ag) = ag_reload ag"
  by (simp_all add: check_integrity_def Let_def db_update_def split: prod.splits)

lemma send_event_frame [simp]:
  "ag_queue (send_event_with_reconnect os ev ag) = ag_queue ag"
  "ag_running (send_event_with_reconnect os ev ag) = ag_running ag"
  "ag_reload (send_event_with_reconnect os ev ag) = ag_reload ag"
  "ag_db (send_event_with_reconnect os ev ag) = ag_db ag"
  "ag_reports (send_event_with_reconnect os ev ag) = ag_reports ag"
  by (simp_all add: send_event_with_reconnect_def Let_def split: prod.splits)

lemma process_event_frame [simp]:
  "ag_queue (process_event os ev ag) = ag_queue ag" "ag_running (process_event os ev ag) = ag_running ag"
  "ag_reload (process_event os ev ag) = ag_reload ag"
  by (simp_all add: process_event_def Let_def)

lemma check_dropped_frame [simp]:
  "ag_queue (check_dropped ag) = ag_queue ag" "ag_running (check_dropped ag) = ag_running ag"
  "ag_reload (check_dropped ag) = ag_reload ag" "ag_tcp (check_dropped ag) = ag_tcp ag"
  "ag_transport_ok (check_dropped ag) = ag_transport_ok ag" "ag_agent_id (check_dropped ag) = ag_agent_id ag"
  by (simp_all add: check_dropped_def Let_def)

lemma reload_config_frame:
  assumes "reload_config os ok ag ht = (ag', ht')"
  shows "ag_tcp ag' = ag_tcp ag" "ag_transport_ok ag' = ag_transport_ok ag" "ag_agent_id ag' = ag_agent_id ag"
    "ag_queue ag' = ag_queue ag" "ag_running ag' = ag_running ag" "ag_reload ag' = ag_reload ag" "ag_db ag' = ag_db ag"
  using assms by (auto simp: reload_config_def reload_logging_def Let_def split: if_splits prod.splits)

lemma signal_frame [simp]:
  "ag_tcp (signal_handler sig ag) = ag_tcp ag" "ag_transport_ok (signal_handler sig ag) = ag_transport_ok ag"
  "ag_agent_id (signal_handler sig ag) = ag_agent_id ag"
  by (simp_all add: signal_handler_def)

lemma signals_frame [simp]:
  "ag_tcp (fold signal_handler sigs ag) = ag_tcp ag" "ag_transport_ok (fold signal_handler sigs ag) = ag_transport_ok ag"
  "ag_agent_id (fold signal_handler sigs ag) = ag_agent_id ag"
  by (induction sigs arbitrary: ag) simp_all

section \<open>A sample agent\<close>

text \<open>An agent whose connection accepts nothing any more, on a network that is down.\<close>

definition down_os :: agent_os where
  "down_os = \<lparr>os_fs = two_dirs 5 6, os_sha = sample_sha 1, os_stat = (\<lambda>_. Some \<lparr>st_dev = 1, st_ino = 7, st_mode = 0x81A4, st_mtime = 0, st_size = 0\<rparr>),
     os_mem = (\<lambda>_. True), os_open = \<lparr>oe_nofollow = (\<lambda>_. None), oe_fopen = (\<lambda>_. None)\<rparr>, os_log_opens = (\<lambda>_. True),
     os_inet_pton = (\<lambda>_. None), os_conn = (\<lambda>_. (0, \<lparr>en_resolved = False, en_socket = 0, en_connected = False, en_tls = None\<rparr>, True)),
     os_bkt = (\<lambda>_ _. 0), os_kmem = True, os_libbpf = False\<rparr>"

definition sample_agent :: agent where
  "sample_agent = \<lparr>ag_cfg = default_config, ag_config_path = IG_CONFIG_PATH, ag_log = \<lparr>lg_file = None, lg_syslog = False, lg_verbose = 0\<rparr>,
     ag_db = \<lparr>sr_entries = [\<lparr>se_path = ''/w/a/f'', se_hash = hex_byte 2, se_mtime = 0, se_size = 0\<rparr>], sr_capacity = 64, sr_errors = 0\<rparr>,
     ag_tcp = (open_client [] [])\<lparr>tc_send_failures := 2\<rparr>, ag_agent_id = ''42'', ag_transport_ok = True,
     ag_ebpf_active = False, ag_lkm_active = True, ag_block = IG_EBPF_BLOCK_DENY, ag_lkm_fd = 4, ag_running = True,
     ag_reload = False, ag_queue = ig_queue_init zero_event, ag_last_dropped = 0, ag_reports = [], ag_ebpf_cmds = []\<rparr>"

definition modify_event :: ig_event where
  "modify_event = zero_event\<lparr>ev_type := IG_EVENT_MODIFY, ev_source := IG_SOURCE_LKM, ev_path := ''/w/a/f''\<rparr>"

definition delete_event :: ig_event where
  "delete_event = zero_event\<lparr>ev_type := IG_EVENT_DELETE, ev_source := IG_SOURCE_LKM, ev_path := ''/w/a/f''\<rparr>"

section \<open>Integrity\<close>

definition integrity_reports :: "string option \<Rightarrow> string \<Rightarrow> string \<Rightarrow> report list" where
  "integrity_reports old h path =
     (case old of None \<Rightarrow> [NewlyRegistered path] | Some h0 \<Rightarrow> if h = h0 then [] else [Tampered path h0 h])"

lemma process_event_db [simp]: "ag_db (process_event os ev ag) = ag_db (check_integrity os ev ag)"
proof -
  have "ag_db (check_integrity os ev (report r ag)) = ag_db (check_integrity os ev ag)" for r
    by (simp add: check_integrity_def Let_def db_update_def report_def split: prod.splits)
  then show ?thesis by (simp add: process_event_def Let_def)
qed

lemma process_kernel_event_reports:
  "ev_source ev = IG_SOURCE_LKM \<or> ev_source ev = IG_SOURCE_EBPF \<Longrightarrow>
     ag_reports (process_event os ev ag) = ag_reports (check_integrity os ev ag)"
  by (auto simp: process_event_def Let_def ig_source_codes)

text \<open>C32. A modification is judged against the baseline and then learned: when the file can be read,
  processing the event reports tampering exactly when the recorded hash differs from the hash now, a new
  file exactly when none was recorded, and afterwards the baseline records the hash now for this
  path and is unchanged for every other.\<close>

theorem modification_judged_and_learned:
  assumes "ev_type ev = IG_EVENT_MODIFY" and "ev_source ev = IG_SOURCE_LKM \<or> ev_source ev = IG_SOURCE_EBPF"
    and "ig_sha256_file (os_sha os) (ev_path ev) = Some h" and "os_stat os (ev_path ev) = Some st"
    and "has_no_nul (ev_path ev)" and "length (ev_path ev) < IG_MAX_PATH" and "os_mem os = (\<lambda>_. True)"
  shows "ag_reports (process_event os ev ag)
        = ag_reports ag @ integrity_reports (recorded (ag_db ag) (ev_path ev)) h (ev_path ev)
    \<and> recorded (ag_db (process_event os ev ag)) = (recorded (ag_db ag))(ev_path ev \<mapsto> h)"
proof -
  let ?p = "ev_path ev"
  have c: "check_integrity os ev ag = db_update os ?p
      (case recorded (ag_db ag) ?p of None \<Rightarrow> report (NewlyRegistered ?p) ag
       | Some h0 \<Rightarrow> if h = h0 then ag else report (Tampered ?p h0 h) ag)"
    using assms(1,3) by (simp add: check_integrity_def Let_def check_file_recorded split: option.splits)
  have "recorded (ig_baseline_db_update (os_sha os) (os_stat os) (os_mem os) ?p db) = (recorded db)(?p \<mapsto> h)" for db
    by (rule update_recorded) (use assms(3-7) in \<open>auto simp: result_grow_def Let_def\<close>)
  then show ?thesis
    using process_kernel_event_reports [OF assms(2)] c
    by (auto simp: db_update_def integrity_reports_def split: option.splits)
qed

theorem modification_judged_and_learned_witness:
  "ag_reports (process_event down_os modify_event sample_agent) = [Tampered ''/w/a/f'' (hex_byte 2) (hex_byte 1)]"
proof -
  have "hex_byte 1 \<noteq> hex_byte 2" by (simp add: hex_byte_def hex_digit_def)
  then show ?thesis
    using modification_judged_and_learned [of modify_event down_os "hex_byte 1"]
    by (simp add: modify_event_def down_os_def sample_hash sample_agent_def has_no_nul_def nul_def IG_MAX_PATH_def
        integrity_reports_def recorded_def entry_at_def)
qed

text \<open>A deletion is forgotten only when it happened: processing a DELETE event removes the path from the
  baseline exactly when the file no longer has the recorded hash, so a refused deletion, whose file is
  still there unchanged, leaves the baseline as it was.\<close>

theorem deletion_forgotten_when_gone:
  assumes "ev_type ev = IG_EVENT_DELETE" and "distinct (map se_path (sr_entries (ag_db ag)))"
  shows "recorded (ag_db (process_event os ev ag)) =
    (let h = ig_sha256_file (os_sha os) (ev_path ev)
     in if h \<noteq> None \<and> recorded (ag_db ag) (ev_path ev) = h then recorded (ag_db ag)
        else (recorded (ag_db ag))(ev_path ev := None))"
proof -
  have t: "ev_type ev \<noteq> IG_EVENT_MODIFY" "ev_type ev \<noteq> IG_EVENT_CREATE" using assms(1) by (auto simp: ig_event_codes)
  show ?thesis
    using assms(1) t remove_recorded [OF assms(2), of "ev_path ev"]
    by (auto simp: check_integrity_def Let_def check_file_recorded split: option.splits prod.splits)
qed

theorem deletion_forgotten_when_gone_witness:
  "recorded (ag_db (process_event down_os delete_event sample_agent)) ''/w/a/f'' = None"
proof -
  have "hex_byte 1 \<noteq> hex_byte 2" by (simp add: hex_byte_def hex_digit_def)
  then show ?thesis
    using deletion_forgotten_when_gone [of delete_event sample_agent down_os]
    by (simp add: delete_event_def down_os_def sample_hash sample_agent_def recorded_def entry_at_def Let_def)
qed

section \<open>A reconnection that fails is the last one\<close>

lemma process_event_down:
  "\<not> ag_transport_ok ag \<Longrightarrow> ag_tcp (process_event os ev ag) = ag_tcp ag \<and> \<not> ag_transport_ok (process_event os ev ag)"
  by (simp add: process_event_def Let_def send_event_with_reconnect_def)

lemma loop_body_no_transport:
  assumes "loop_body li ag ht = Some (ag', ht')" and "\<not> ag_transport_ok ag"
  shows "ag_tcp ag' = ag_tcp ag \<and> \<not> ag_transport_ok ag'"
proof -
  obtain a1 h1 where r: "(if ag_reload ag then reload_config (li_os li) (li_alloc li) (ag\<lparr>ag_reload := False\<rparr>) ht else (ag, ht)) = (a1, h1)"
    by fastforce
  have a1: "ag_tcp a1 = ag_tcp ag" "\<not> ag_transport_ok a1"
    using r assms(2) reload_config_frame(1,2) [of "li_os li" "li_alloc li" "ag\<lparr>ag_reload := False\<rparr>" ht a1 h1]
    by (auto split: if_splits)
  then show ?thesis
    using assms(1) unfolding loop_body_def r prod.case
    by (auto simp: process_event_down split: pop_result.splits)
qed

lemma main_loop_no_transport:
  "main_loop lis ag ht = Some (ag', ht') \<Longrightarrow> \<not> ag_transport_ok ag \<Longrightarrow> ag_tcp ag' = ag_tcp ag"
proof (induction lis ag ht rule: main_loop.induct)
  case (2 li lis ag ht)
  show ?case
  proof (cases "ag_running (fold signal_handler (li_signals li) ag)")
    case False
    with "2.prems" show ?thesis by (auto simp: Let_def)
  next
    case True
    then obtain a1 h1 where b: "loop_body li (fold signal_handler (li_signals li) ag) ht = Some (a1, h1)"
      "main_loop lis a1 h1 = Some (ag', ht')"
      using "2.prems"(1) by (auto simp: Let_def split: option.splits)
    have "ag_tcp a1 = ag_tcp ag \<and> \<not> ag_transport_ok a1"
      using loop_body_no_transport [OF b(1)] "2.prems"(2) by simp
    with "2.IH" [OF refl _ b(1) refl b(2)] True show ?thesis by auto
  qed
qed simp

text \<open>After one failed reconnection the agent is silent for good: when sending an event counts as
  a transport failure and the twenty attempts to reconnect fail, then whatever the main loop goes
  through afterwards, with the network up or not, the agent neither sends nor connects again.\<close>

theorem failed_reconnect_is_final:
  assumes "ag_transport_ok ag" and "ag_agent_id ag \<noteq> []"
    and "fst (ig_tcp_send_event (ag_tcp ag) ev) = -2"
    and "ig_tcp_reconnect (os_inet_pton os) (os_conn os) (snd (ig_tcp_send_event (ag_tcp ag) ev)) = (rc, tcp, waits)"
    and "rc \<noteq> 0" and "main_loop lis (send_event_with_reconnect os ev ag) ht = Some (ag', ht')"
  shows "ag_tcp ag' = tcp"
proof -
  obtain ret t where t: "ig_tcp_send_event (ag_tcp ag) ev = (ret, t)" by fastforce
  have "ag_tcp (send_event_with_reconnect os ev ag) = tcp" "\<not> ag_transport_ok (send_event_with_reconnect os ev ag)"
    using assms(1-5) t by (auto simp: send_event_with_reconnect_def Let_def)
  with main_loop_no_transport [OF assms(6)] show ?thesis by simp
qed

lemma reconnect_loop_unresolved:
  "(\<And>n. \<not> en_resolved (fst (snd (envs n)))) \<Longrightarrow> fst (reconnect_loop pton n delay envs cli) = -1"
proof (induction n arbitrary: delay)
  case (Suc n)
  obtain r env ok where e: "envs (IG_RECONNECT_MAX_RETRIES - Suc n) = (r, env, ok)" by (metis prod_cases3)
  have "\<not> en_resolved env" using Suc.prems [of "IG_RECONNECT_MAX_RETRIES - Suc n"] e by simp
  then have "ig_tcp_connect env cli = (-1, cli)" by (simp add: ig_tcp_connect_def)
  moreover have "fst (reconnect_loop pton n (next_delay delay) envs cli) = -1" by (rule Suc.IH [OF Suc.prems])
  ultimately show ?case by (cases "reconnect_loop pton n (next_delay delay) envs cli") (simp add: e Let_def)
qed simp

theorem failed_reconnect_is_final_witness:
  "\<exists>ag' ht'. main_loop [] (send_event_with_reconnect down_os modify_event sample_agent) ig_policy_init = Some (ag', ht')
     \<and> fst (snd (ig_tcp_reconnect (os_inet_pton down_os) (os_conn down_os) (snd (ig_tcp_send_event (ag_tcp sample_agent) modify_event))))
        = ag_tcp ag'"
proof -
  let ?t = "ig_tcp_send_event (ag_tcp sample_agent) modify_event"
  obtain rc tcp waits where r: "ig_tcp_reconnect (os_inet_pton down_os) (os_conn down_os) (snd ?t) = (rc, tcp, waits)"
    by (metis prod_cases3)
  have rc: "rc \<noteq> 0"
    using reconnect_loop_unresolved [of "os_conn down_os" "os_inet_pton down_os" IG_RECONNECT_MAX_RETRIES IG_RECONNECT_INIT_SEC
        "ig_tcp_disconnect (snd ?t)"] r
    by (simp add: ig_tcp_reconnect_def down_os_def)
  have small: "length (cstr (ev_path modify_event)) < IG_MAX_PATH" "length (cstr (ev_filename modify_event)) < 256"
    "map_source (ev_source modify_event) \<noteq> 0"
    by (simp_all add: modify_event_def zero_event_def cstr_def nul_def IG_MAX_PATH_def map_source_def
        IG_SOURCE_LKM_def IG_SOURCE_EBPF_def IG_MON_LKM_def)
  have conn: "tc_state (ag_tcp sample_agent) = IG_CONN_CONNECTED" by (simp add: sample_agent_def open_client_def)
  have "length (file_event_bytes (event_msg (tc_agent_id (ag_tcp sample_agent)) modify_event)) \<le> 65535"
    using event_bytes_bound [OF small(1,2), of "tc_agent_id (ag_tcp sample_agent)"]
    by (simp add: IG_MAX_PAYLOAD_def IG_MAX_FRAME_SIZE_def)
  then have f: "fst ?t = -2"
    using send_event_eq [OF small(1,2) conn small(3)]
    by (simp add: sample_agent_def open_client_def ig_tcp_init_def ig_tcp_send_frame_def next_seq_def Let_def
        frame_header_encode_eq IG_FRAME_HEADER_SIZE_def IG_MAX_FRAME_SIZE_def frame_header_bytes_def be32_def
        ssl_write_all_def IG_SEND_MAX_RETRIES_def)
  have a: "ag_transport_ok sample_agent" "ag_agent_id sample_agent \<noteq> []" by (simp_all add: sample_agent_def)
  have "main_loop [] (send_event_with_reconnect down_os modify_event sample_agent) ig_policy_init
      = Some (send_event_with_reconnect down_os modify_event sample_agent, ig_policy_init)" by simp
  from failed_reconnect_is_final [OF a f r rc this] r this show ?thesis by auto
qed

section \<open>Every event in the queue is processed\<close>

text \<open>The turns of the loop on a list of events: each takes its event from the queue and processes it.\<close>

fun process_all :: "loop_in list \<Rightarrow> ig_event list \<Rightarrow> agent \<Rightarrow> agent" where
  "process_all (li # lis) (ev # evs) ag = process_all lis evs
     (check_dropped (process_event (li_os li) ev (ag\<lparr>ag_queue := snd (the (queue_take (ag_queue ag)))\<rparr>)))"
| "process_all _ _ ag = ag"

lemma main_loop_processes:
  assumes "queue_inv (ag_queue ag)" and "queue_items (ag_queue ag) = evs" and "ag_running ag" and "\<not> ag_reload ag"
    and "length lis = length evs" and "\<forall>li \<in> set lis. li_signals li = []"
  shows "main_loop lis ag ht = Some (process_all lis evs ag, ht) \<and> queue_items (ag_queue (process_all lis evs ag)) = []"
  using assms
proof (induction lis arbitrary: ag evs)
  case Nil
  then show ?case by simp
next
  case (Cons li lis)
  then obtain ev evs' where e: "evs = ev # evs'" by (cases evs) auto
  obtain q where q: "queue_take (ag_queue ag) = Some (ev, q)" "queue_items q = evs'" "queue_inv q"
    using queue_take_front [of "ag_queue ag" ev evs'] Cons.prems e by auto
  let ?a = "check_dropped (process_event (li_os li) ev (ag\<lparr>ag_queue := q\<rparr>))"
  have b: "loop_body li ag ht = Some (?a, ht)"
    using q Cons.prems by (simp add: loop_body_def ig_queue_pop.simps)
  have "main_loop lis ?a ht = Some (process_all lis evs' ?a, ht) \<and> queue_items (ag_queue (process_all lis evs' ?a)) = []"
    by (rule Cons.IH) (use Cons.prems e q in auto)
  with q b Cons.prems e show ?case by simp
qed

text \<open>C23. Every event is processed: events that were pushed into an empty queue and fitted are all
  processed, each once and in the order of the pushes, within as many turns of the main loop, whether
  the transport works or not, as long as no signal stops the agent; the queue is then empty.\<close>

theorem queued_events_all_processed:
  assumes "queue_inv q" and "queue_items q = []" and "length evs \<le> IG_EVENT_QUEUE_SIZE"
    and "ag_queue ag = foldl ig_queue_push q evs" and "ag_running ag" and "\<not> ag_reload ag"
    and "length lis = length evs" and "\<forall>li \<in> set lis. li_signals li = []"
  shows "main_loop lis ag ht = Some (process_all lis evs ag, ht) \<and> queue_items (ag_queue (process_all lis evs ag)) = []"
proof -
  have "queue_inv (ag_queue ag)" "queue_items (ag_queue ag) = evs"
    using eq.inv_pushes [OF assms(1), of evs] eq.pushes_room [OF assms(1), of evs] assms(2,3,4) by simp_all
  from main_loop_processes [OF this assms(5-8)] show ?thesis .
qed

theorem queued_events_all_processed_witness:
  "\<exists>ag'. main_loop (replicate 2 \<lparr>li_signals = [], li_waits = [], li_alloc = True, li_os = down_os\<rparr>)
      (sample_agent\<lparr>ag_queue := foldl ig_queue_push (ig_queue_init zero_event) [modify_event, delete_event]\<rparr>) ig_policy_init
      = Some (ag', ig_policy_init) \<and> queue_items (ag_queue ag') = []"
  using queued_events_all_processed [of "ig_queue_init zero_event" "[modify_event, delete_event]"
      "sample_agent\<lparr>ag_queue := foldl ig_queue_push (ig_queue_init zero_event) [modify_event, delete_event]\<rparr>"
      "replicate 2 \<lparr>li_signals = [], li_waits = [], li_alloc = True, li_os = down_os\<rparr>" ig_policy_init]
  by (simp add: queue_inv_init queue_items_init IG_EVENT_QUEUE_SIZE_def sample_agent_def del: main_loop.simps process_all.simps)

end
