(* ===== verification/Agent_Start.thy ===== *)
theory Agent_Start
  imports Agent_Main
begin

text \<open>
  How the agent starts, runs and stops: the rest of \<^verbatim>\<open>Agent/src/main.c\<close>.  The interactive enrollment,
  the steps of \<^verbatim>\<open>main\<close> in their order with their early exits, and the shutdown.  What each call of the
  operating system answers is a field of \<open>start_in\<close>.
\<close>

section \<open>Interactive enrollment\<close>

text \<open>The exit code, the terminal and the files.\<close>

definition run_enroll_mode :: "enroll_env \<Rightarrow> proc_env \<Rightarrow> string option \<Rightarrow> string option \<Rightarrow> terminal \<Rightarrow> files
    \<Rightarrow> int \<times> terminal \<times> files" where
  "run_enroll_mode ee env host_name ip tt fs =
     (case enroll_address env of (enroll_host, enroll_port) \<Rightarrow>
        let ca_crt = ca_crt_path env; agent_crt = agent_crt_path env; agent_key = agent_key_path env
        in if \<not> ig_enroll_needed fs agent_crt agent_key then (1, tt, fs)
        else (case read_interactive_value 256 True tt of
          (rc, enrollment_id, tt, _) \<Rightarrow>
            if rc < 0 then (1, tt, fs)
            else (case read_interactive_value 512 False tt of
              (rc, xor_key, tt, _) \<Rightarrow>
                if rc < 0 then (1, tt, fs)
                else (let cfg = \<lparr>ec_host = Some enroll_host, ec_port = enroll_port, ec_ca_crt = Some ca_crt,
                         ec_agent_crt = Some agent_crt, ec_agent_key = Some agent_key,
                         ec_enrollment_id = Some enrollment_id, ec_xor_key = Some xor_key,
                         ec_hostname = Some (get_hostname host_name 256), ec_ip = Some (get_local_ip ip),
                         ec_os = Some ''Linux'', ec_monitor_type = parse_enroll_monitor_type env\<rparr>
                  in (case ig_enroll_execute ee cfg fs of
                       (rc, _, fs) \<Rightarrow> (if rc < 0 then 1 else 0, tt, fs))))))"

section \<open>Starting\<close>

record start_in =
  si_opts :: "cli_opt list"
  si_environ :: proc_env
  si_os :: agent_os
  si_calloc :: bool
  si_release :: "string option"
  si_daemon :: int
  si_lock :: int
  si_queue_alloc :: bool
  si_ebpf_init :: int
  si_dev_exists :: bool
  si_dev_open :: "int + int"
  si_files :: files
  si_hostname :: "string option"
  si_ip :: "string option"
  si_tls :: int
  si_connect :: connect_env
  si_reg_alloc :: bool
  si_enroll :: enroll_env
  si_terminal :: terminal

text \<open>
  The options, then the environment, then the configuration: exit code, or what \<^verbatim>\<open>main\<close> goes on with; there is no
  configuration when the agent only enrolls.
\<close>

definition start_config :: "start_in \<Rightarrow> int + (options \<times> proc_env \<times> string \<times> ig_config option)" where
  "start_config si =
     (case parse_options (si_opts si) default_options of
        Inl code \<Rightarrow> Inl code
      | Inr o1 \<Rightarrow>
          (let oe = os_open (si_os si);
               g_config_path = config_path oe (o_conf o1);
               env = (case find_system_file oe (o_env o1) ''/etc/ig_monitor/ig.env'' of
                  None \<Rightarrow> si_environ si
                | Some p \<Rightarrow> load_env oe (Some p) (si_environ si))
           in if o_enroll o1 then Inr (o1, env, g_config_path, None)
              else if \<not> si_calloc si then Inl 1
              else (case load_config oe g_config_path of
                  (rc, cfg) \<Rightarrow> if rc < 0 then Inl 1 else Inr (o1, env, g_config_path, Some (apply_options o1 cfg)))))"

definition initial_agent :: "options \<Rightarrow> string \<Rightarrow> ig_config \<Rightarrow> agent" where
  "initial_agent o1 path cfg = \<lparr>ag_cfg = cfg, ag_config_path = path,
     ag_log = \<lparr>lg_file = None, lg_syslog = False, lg_verbose = 0\<rparr>, ag_db = empty_scan, ag_tcp = ig_tcp_init [] 0,
     ag_agent_id = [], ag_transport_ok = False, ag_ebpf_active = False, ag_lkm_active = False, ag_block = o_block o1,
     ag_lkm_fd = -1, ag_running = True, ag_reload = False, ag_queue = ig_queue_init zero_event, ag_last_dropped = 0,
     ag_reports = [], ag_ebpf_cmds = []\<rparr>"

text \<open>eBPF first, the kernel module only without it.\<close>

definition select_backend :: "start_in \<Rightarrow> agent \<Rightarrow> agent" where
  "select_backend si ag =
     (let kver = get_kernel_version (si_release si);
          ag = (if os_libbpf (si_os si) \<and> ebpf_wanted (ag_cfg ag) kver \<and> \<not> si_ebpf_init si < 0
                then ag\<lparr>ag_ebpf_active := True\<rparr> else ag)
      in if ag_ebpf_active ag then ag
         else if si_dev_exists si
         then (case lkm_client_init (si_dev_open si) of
             (rc, fd) \<Rightarrow> let ag = ag\<lparr>ag_lkm_fd := fd\<rparr> in if rc = 0 then ag\<lparr>ag_lkm_active := True\<rparr> else ag)
         else ag)"

text \<open>The client of the transport, with the registration data cached for reconnections.\<close>

definition transport_client :: "proc_env \<Rightarrow> start_in \<Rightarrow> u8 \<Rightarrow> ig_tcp_client" where
  "transport_client env si monitor_type =
     (case server_address env of (host, port) \<Rightarrow>
        (ig_tcp_init host port)\<lparr>tc_reg_hostname := strncpy0 256 (get_hostname (si_hostname si) 256),
           tc_reg_ip := strncpy0 64 (get_local_ip (si_ip si)), tc_reg_os := ''Linux'',
           tc_reg_monitor_type := monitor_type, tc_reg_cached := True\<rparr>)"

definition start_transport :: "start_in \<Rightarrow> proc_env \<Rightarrow> agent \<Rightarrow> agent" where
  "start_transport si env ag =
     (case current_transport_monitor_type ag of
        None \<Rightarrow> ag
      | Some monitor_type \<Rightarrow>
          if ig_enroll_needed (si_files si) (agent_crt_path env) (agent_key_path env) then ag
          else if si_tls si < 0 then ag
          else (case ig_tcp_connect (si_connect si) (transport_client env si monitor_type) of
            (rc, tcp) \<Rightarrow>
              if rc < 0
              then (case ig_tcp_reconnect (os_inet_pton (si_os si)) (os_conn (si_os si)) tcp of
                (rc, tcp, _) \<Rightarrow>
                  if rc = 0
                  then ag\<lparr>ag_tcp := tcp, ag_agent_id := agent_id_text (tc_agent_id tcp), ag_transport_ok := True\<rparr>
                  else ag\<lparr>ag_tcp := tcp\<rparr>)
              else (case ig_tcp_register (os_inet_pton (si_os si)) (si_reg_alloc si) (get_hostname (si_hostname si) 256)
                  (get_local_ip (si_ip si)) monitor_type ''Linux'' tcp of
                (rc, tcp) \<Rightarrow>
                  if rc = 0
                  then ag\<lparr>ag_tcp := tcp, ag_agent_id := agent_id_text (tc_agent_id tcp), ag_transport_ok := True\<rparr>
                  else ag\<lparr>ag_tcp := tcp\<rparr>)))"

text \<open>The first scan, and the policies of the files it found.\<close>

definition start_protection :: "start_in \<Rightarrow> agent \<Rightarrow> policy_ht \<Rightarrow> agent \<times> policy_ht" where
  "start_protection si ag ht =
     (let os = si_os si;
          ag = ag\<lparr>ag_db := snd (ig_baseline_db_build (os_fs os) (os_sha os) (os_mem os) (ag_cfg ag) ig_baseline_db_init)\<rparr>;
          ht = (if ag_lkm_active ag then snd (inject_policies os ag ht) else ht);
          ag = (if os_libbpf os \<and> ag_ebpf_active ag
                then ag\<lparr>ag_ebpf_cmds := map (\<lambda>w. EbpfAddPath (w_path w) protect_mask (ag_block ag)) (watches (ag_cfg ag))\<rparr> else ag)
      in (ag, ht))"

text \<open>
  \<^verbatim>\<open>main\<close> up to its loop.  \<open>Inl\<close>: the process exits with this code before it watches anything; the
  boolean says whether the lock on the pid file is held at that point.
\<close>

definition agent_start :: "start_in \<Rightarrow> policy_ht \<Rightarrow> (int \<times> bool) + (agent \<times> policy_ht)" where
  "agent_start si ht =
     (case start_config si of
        Inl code \<Rightarrow> Inl (code, False)
      | Inr (o1, env, path, None) \<Rightarrow>
          Inl (fst (run_enroll_mode (si_enroll si) env (si_hostname si) (si_ip si) (si_terminal si) (si_files si)), False)
      | Inr (o1, env, path, Some cfg) \<Rightarrow>
          let ag = initial_agent o1 path cfg;
              ag = ag\<lparr>ag_log := init_logging (os_log_opens (si_os si)) cfg (ag_log ag)\<rparr>
          in if watches cfg = [] then Inl (1, False)
             else if si_daemon si < 0 then Inl (1, False)
             else let ag = (if daemonize cfg \<noteq> 0
                  then ag\<lparr>ag_log := init_logging (os_log_opens (si_os si)) cfg (close_logging (ag_log ag))\<rparr> else ag)
             in if si_lock si < 0 then Inl (1, False)
             else if \<not> si_queue_alloc si then Inl (0, True)
             else let ag = select_backend si ag
             in if \<not> ag_ebpf_active ag \<and> \<not> ag_lkm_active ag then Inl (0, True)
             else Inr (start_protection si (start_transport si env ag) ht))"

section \<open>Stopping\<close>

definition agent_shutdown :: "agent \<Rightarrow> agent" where
  "agent_shutdown ag =
     (let ag = (if ag_lkm_active ag then ag\<lparr>ag_lkm_fd := lkm_client_cleanup (ag_lkm_fd ag)\<rparr> else ag);
          ag = ag\<lparr>ag_tcp := ig_tcp_free (ig_tcp_disconnect (ag_tcp ag))\<rparr>;
          ag = ag\<lparr>ag_db := ig_baseline_db_free (ag_db ag)\<rparr>
      in ag\<lparr>ag_log := close_logging (ag_log ag)\<rparr>)"

text \<open>The whole run: the exit code with the agent after its shutdown, or \<open>None\<close> while the loop still waits;
  and the kernel's table.\<close>

definition agent_main :: "start_in \<Rightarrow> loop_in list \<Rightarrow> policy_ht \<Rightarrow> (int \<times> agent option \<times> policy_ht) option" where
  "agent_main si lis ht =
     (case agent_start si ht of
        Inl (code, _) \<Rightarrow> Some (code, None, ht)
      | Inr (ag, ht) \<Rightarrow> (case main_loop lis ag ht of None \<Rightarrow> None | Some (ag, ht) \<Rightarrow> Some (0, Some (agent_shutdown ag), ht)))"

section \<open>The kernel's table after an injection\<close>

lemma clear_all_table: "fd \<ge> 0 \<Longrightarrow> lkm_clear_all bkt fd ht = (0, inode_policy_clear ht)"
  by (simp add: lkm_clear_all_def lkm_ioctl_def ig_ioctl_def)

lemma inject_policies_table:
  assumes "ag_lkm_fd ag \<ge> 0" and "os_kmem os" and "inject_policies os ag ht = (n, ht')"
  shows "ht_inv (os_bkt os) ht'"
    and "ht_pol (os_bkt os) ht' = map_of (rev (map (apsnd stored) (baseline_policies (os_stat os) (block_mode ag) (sr_entries (ag_db ag)))))"
proof -
  have i: "lkm_add_from_baseline (os_bkt os) True (ag_lkm_fd ag) (os_stat os) (ag_db ag) (block_mode ag) (inode_policy_clear ht) = (n, ht')"
    using assms by (simp add: inject_policies_def clear_all_table)
  have c: "ht_inv (os_bkt os) (inode_policy_clear ht)" "ht_pol (os_bkt os) (inode_policy_clear ht) = Map.empty"
    by (simp_all add: ht_inv_def inode_policy_clear_def ht_pol_def find_entry_def fun_eq_iff)
  from baseline_injected(1,2) [OF c(1) assms(1) i] c(2)
  show "ht_inv (os_bkt os) ht'"
    "ht_pol (os_bkt os) ht' = map_of (rev (map (apsnd stored) (baseline_policies (os_stat os) (block_mode ag) (sr_entries (ag_db ag)))))"
    by simp_all
qed

lemma start_transport_frame [simp]:
  "ag_lkm_active (start_transport si env ag) = ag_lkm_active ag" "ag_ebpf_active (start_transport si env ag) = ag_ebpf_active ag"
  "ag_lkm_fd (start_transport si env ag) = ag_lkm_fd ag" "ag_block (start_transport si env ag) = ag_block ag"
  "ag_cfg (start_transport si env ag) = ag_cfg ag" "ag_running (start_transport si env ag) = ag_running ag"
  "ag_reload (start_transport si env ag) = ag_reload ag" "ag_queue (start_transport si env ag) = ag_queue ag"
  by (auto simp: start_transport_def split: option.splits prod.splits)

text \<open>What \<^verbatim>\<open>open\<close> documents: a descriptor is not negative, an error number is positive.\<close>

definition open_documented :: "int + int \<Rightarrow> bool" where
  "open_documented r \<longleftrightarrow> (case r of Inl e \<Rightarrow> e > 0 | Inr fd \<Rightarrow> fd \<ge> 0)"

lemma select_backend_fd:
  assumes "open_documented (si_dev_open si)" and "\<not> ag_lkm_active ag"
    and "ag_lkm_active (select_backend si ag)"
  shows "ag_lkm_fd (select_backend si ag) \<ge> 0" "\<not> ag_ebpf_active (select_backend si ag)"
  using assms
  by (auto simp: select_backend_def Let_def lkm_client_init_def open_documented_def split: if_splits sum.splits prod.splits)

lemma select_backend_frame [simp]:
  "ag_block (select_backend si ag) = ag_block ag" "ag_cfg (select_backend si ag) = ag_cfg ag"
  "ag_running (select_backend si ag) = ag_running ag" "ag_reload (select_backend si ag) = ag_reload ag"
  "ag_queue (select_backend si ag) = ag_queue ag"
  by (auto simp: select_backend_def Let_def split: prod.splits)

lemma agent_start_Inr:
  assumes "agent_start si ht = Inr (ag, ht')"
  obtains o1 env path cfg a0 where "start_config si = Inr (o1, env, path, Some cfg)" "watches cfg \<noteq> []"
    "\<not> ag_lkm_active a0" "ag_block a0 = o_block o1" "ag_cfg a0 = cfg" "ag_running a0" "\<not> ag_reload a0"
    "ag_queue a0 = ig_queue_init zero_event"
    "(ag, ht') = start_protection si (start_transport si env (select_backend si a0)) ht"
    "ag_ebpf_active (select_backend si a0) \<or> ag_lkm_active (select_backend si a0)" "\<not> ag_ebpf_active a0"
proof -
  obtain o1 env path cfg where c: "start_config si = Inr (o1, env, path, Some cfg)" "watches cfg \<noteq> []"
    using assms by (auto simp: agent_start_def Let_def split: sum.splits prod.splits option.splits if_splits)
  define a1 where "a1 = (initial_agent o1 path cfg)\<lparr>ag_log := init_logging (os_log_opens (si_os si)) cfg (ag_log (initial_agent o1 path cfg))\<rparr>"
  define a0 where "a0 = (if daemonize cfg \<noteq> 0 then a1\<lparr>ag_log := init_logging (os_log_opens (si_os si)) cfg (close_logging (ag_log a1))\<rparr> else a1)"
  have f: "\<not> ag_lkm_active a0" "ag_block a0 = o_block o1" "ag_cfg a0 = cfg" "ag_running a0" "\<not> ag_reload a0"
    "ag_queue a0 = ig_queue_init zero_event" "\<not> ag_ebpf_active a0"
    by (simp_all add: a0_def a1_def initial_agent_def)
  have "(ag, ht') = start_protection si (start_transport si env (select_backend si a0)) ht"
    "ag_ebpf_active (select_backend si a0) \<or> ag_lkm_active (select_backend si a0)"
    using assms c by (auto simp: agent_start_def a0_def a1_def Let_def split: if_splits)
  with c f that show thesis by blast
qed

section \<open>What an interactive enrollment leaves\<close>

lemma store_certificates_stored:
  assumes "store_certificates env cfg resp fs = (True, fs')" and "\<not> missing_setting cfg"
  shows "fs' (the (ec_agent_crt cfg)) \<noteq> None" "fs' (the (ec_agent_key cfg)) \<noteq> None"
proof -
  obtain fs1 fs2 rc1 rc2 rc3 where w:
    "write_text_file (ee_file env (the (ec_agent_crt cfg))) (the (ec_agent_crt cfg)) (er_agent_cert_pem resp) 0x1A4 fs1 = (rc2, fs2)"
    "\<not> rc2 < 0"
    "write_text_file (ee_file env (the (ec_agent_key cfg))) (the (ec_agent_key cfg)) (er_agent_key_pem resp) 0x180 fs2 = (rc3, fs')"
    "\<not> rc3 < 0"
    using store_certificates_steps [OF assms] by (metis (full_types))
  have "fs2 (the (ec_agent_crt cfg)) \<noteq> None" using w(1) by (rule write_text_file_cases) (use w(2) in auto)
  then show "fs' (the (ec_agent_crt cfg)) \<noteq> None" by (rule write_text_file_keeps [OF w(3)])
  show "fs' (the (ec_agent_key cfg)) \<noteq> None" using w(3) by (rule write_text_file_cases) (use w(4) in auto)
qed

lemma execute_done:
  assumes "ig_enroll_execute ee cfg fs = (rc, s', fs')" and "\<not> rc < 0"
  shows "fs' (the (ec_agent_crt cfg)) \<noteq> None \<and> fs' (the (ec_agent_key cfg)) \<noteq> None"
  using assms(1)
proof (cases rule: execute_stored)
  case (2 cn hello sn pr ss frame resp s1 s2 s3 ok)
  then have "ok" using assms(2) by (simp split: if_splits)
  with 2 store_certificates_stored show ?thesis by metis
qed (use assms(2) in simp)

definition offline_env :: enroll_env where
  "offline_env = \<lparr>ee_hmac = (\<lambda>_ _. None), ee_mem = (\<lambda>_. True), ee_rand = None, ee_resolved = False, ee_socket = 0,
     ee_connected = False, ee_sock = \<lparr>so_out = [], so_wr = [], so_rd = []\<rparr>,
     ee_file = (\<lambda>_. \<lparr>fo_open = True, fo_umask = 18, fo_chmod = True, fo_written = None\<rparr>)\<rparr>"

definition no_terminal :: terminal where
  "no_terminal = \<lparr>tt_input = [], tt_echo = True, tt_isatty = False, tt_getattr = False, tt_setattr = False\<rparr>"



section \<open>A sample start\<close>

text \<open>An agent that finds the device, is not enrolled and watches one tree.\<close>

definition sample_conf :: string where
  "sample_conf = concat (map (\<lambda>l. l @ [newline]) [''[watch]'', watch_line (watch_w ''/w'')])"

definition sample_start :: start_in where
  "sample_start = \<lparr>si_opts = [], si_environ = (\<lambda>_. None),
     si_os = down_os\<lparr>os_open := \<lparr>oe_nofollow = (\<lambda>_. None), oe_fopen = (\<lambda>_. Some sample_conf)\<rparr>,
       os_stat := (\<lambda>_. Some \<lparr>st_dev = 8, st_ino = 77, st_mode = 0x81A4, st_mtime = 0, st_size = 0\<rparr>)\<rparr>,
     si_calloc = True, si_release = None, si_daemon = 0, si_lock = 0, si_queue_alloc = True, si_ebpf_init = -1,
     si_dev_exists = True, si_dev_open = Inr 4, si_files = (\<lambda>_. None), si_hostname = None, si_ip = None, si_tls = -1,
     si_connect = \<lparr>en_resolved = False, en_socket = 0, en_connected = False, en_tls = None\<rparr>, si_reg_alloc = True,
     si_enroll = offline_env, si_terminal = no_terminal\<rparr>"

lemma sample_conf_load: "ig_config_load (Some sample_conf) = (0, default_config\<lparr>watches := [watch_w ''/w'']\<rparr>)"
proof -
  have w: "watch_line (watch_w ''/w'') = ''/w = recursive''" by (simp add: watch_line_def watch_w_def setting_def)
  have f: "fgets_lines 1024 sample_conf = map (\<lambda>l. l @ [newline]) [''[watch]'', watch_line (watch_w ''/w'')]"
    unfolding sample_conf_def by (rule fgets_text) (simp add: w newline_def)
  have a: "config_line (''[watch]'' @ [newline]) (default_config, SECTION_GLOBAL) = (default_config, SECTION_WATCH)"
    by (rule config_line_skip)
  have "plain ''/w''" by (simp add: plain_def has_no_nul_def trim_left_char_def trim_right_char_def c_chars)
  then have b: "config_line (watch_line (watch_w ''/w'') @ [newline]) (default_config, SECTION_WATCH)
      = (default_config\<lparr>watches := [watch_w ''/w'']\<rparr>, SECTION_WATCH)"
    using config_line_setting [of "''/w''" "''recursive''" default_config SECTION_WATCH]
    by (simp add: watch_line_def watch_w_def add_watch_def default_config_def IG_MAX_WATCHES_def strncpy0_plain)
  show ?thesis by (simp only: ig_config_load_def option.case f list.map fold.simps a b comp_def id_def fst_conv)
qed

lemma sample_started:
  obtains ag ht' where "agent_start sample_start ht = Inr (ag, ht')" "ag_lkm_active ag" "ag_running ag" "\<not> ag_reload ag"
    "ag_block ag = IG_EBPF_BLOCK_DENY" "watches (ag_cfg ag) = [watch_w ''/w'']"
proof -
  have c: "start_config sample_start = Inr (default_options, (\<lambda>_. None), IG_CONFIG_PATH,
      Some (default_config\<lparr>watches := [watch_w ''/w'']\<rparr>))"
    by (simp add: start_config_def sample_start_def default_options_def config_path_def find_system_file_def secure_open_def
        load_config_def sample_conf_load apply_options_def default_config_def IG_CONFIG_PATH_def strncpy0_def cstr_def nul_def
        IG_MAX_PATH_def)
  have "\<exists>ag ht'. agent_start sample_start ht = Inr (ag, ht') \<and> ag_lkm_active ag \<and> ag_running ag \<and> \<not> ag_reload ag
    \<and> ag_block ag = IG_EBPF_BLOCK_DENY \<and> watches (ag_cfg ag) = [watch_w ''/w'']"
    unfolding agent_start_def c sum.case prod.case option.case
    by (simp add: sample_start_def down_os_def Let_def select_backend_def initial_agent_def lkm_client_init_def
        start_protection_def start_transport_def current_transport_monitor_type_def ig_enroll_needed_def default_config_def
        default_options_def split: prod.splits)
  with that show thesis by blast
qed

lemma agent_start_table:
  assumes "agent_start si ht = Inr (ag, ht')" and "ag_lkm_active ag" and "open_documented (si_dev_open si)"
    and "os_kmem (si_os si)"
  shows "ag_db ag = snd (ig_baseline_scan (os_fs (si_os si)) (os_sha (si_os si)) (os_mem (si_os si)) (ag_cfg ag))
    \<and> ht_inv (os_bkt (si_os si)) ht'
    \<and> ht_pol (os_bkt (si_os si)) ht' = map_of (rev (map (apsnd stored)
         (baseline_policies (os_stat (si_os si)) (block_mode ag) (sr_entries (ag_db ag)))))
    \<and> ag_running ag \<and> \<not> ag_reload ag \<and> queue_inv (ag_queue ag) \<and> queue_items (ag_queue ag) = []"
proof -
  obtain o1 env path cfg a0 where a: "start_config si = Inr (o1, env, path, Some cfg)"
    "\<not> ag_lkm_active a0" "ag_running a0" "\<not> ag_reload a0" "ag_queue a0 = ig_queue_init zero_event"
    "(ag, ht') = start_protection si (start_transport si env (select_backend si a0)) ht"
    using assms(1) by (rule agent_start_Inr) blast
  define a1 where "a1 = start_transport si env (select_backend si a0)"
  define a2 where "a2 = a1\<lparr>ag_db := snd (ig_baseline_db_build (os_fs (si_os si)) (os_sha (si_os si)) (os_mem (si_os si)) (ag_cfg a1) ig_baseline_db_init)\<rparr>"
  have same: "ag_lkm_active a2 = ag_lkm_active a1" by (simp add: a2_def)
  have s: "ag = a2 \<or> ag = a2\<lparr>ag_ebpf_cmds := map (\<lambda>w. EbpfAddPath (w_path w) protect_mask (ag_block a2)) (watches (ag_cfg a2))\<rparr>"
    "ht' = (if ag_lkm_active a2 then snd (inject_policies (si_os si) a2 ht) else ht)"
    using a(6) by (auto simp: start_protection_def Let_def a1_def [symmetric] a2_def [symmetric] same split: if_splits)
  have l: "ag_lkm_active a2" using s(1) assms(2) by auto
  then have "ag_lkm_active (select_backend si a0)" by (simp add: a2_def a1_def)
  then have fd: "ag_lkm_fd a2 \<ge> 0" using select_backend_fd(1) [OF assms(3) a(2)] by (simp add: a2_def a1_def)
  obtain n where n: "inject_policies (si_os si) a2 ht = (n, ht')" using s(2) l by (metis prod.collapse)
  note t = inject_policies_table [OF fd assms(4) n]
  have b: "ag_db a2 = snd (ig_baseline_scan (os_fs (si_os si)) (os_sha (si_os si)) (os_mem (si_os si)) (ag_cfg a2))"
    by (simp add: a2_def ig_baseline_db_build_def)
  have q: "ag_running a2" "\<not> ag_reload a2" "ag_queue a2 = ig_queue_init zero_event" using a by (simp_all add: a2_def a1_def)
  from s(1) show ?thesis
    by (rule disjE) (use t b q in \<open>simp_all add: block_mode_def queue_inv_init queue_items_init\<close>)
qed

text \<open>The agent runs protected or not at all: when it reaches its main loop with the kernel module, its
  baseline is the scan of the configured watches, and the kernel's table holds exactly the policies of
  the files of this baseline with the deciding value of the mode it was started in, whatever an earlier
  run left in the table; it is running, no reload is pending and its queue is empty.\<close>

theorem agent_starts_protected:
  assumes "agent_start si ht = Inr (ag, ht')" and "ag_lkm_active ag" and "open_documented (si_dev_open si)"
    and "os_kmem (si_os si)"
  shows "ag_db ag = snd (ig_baseline_scan (os_fs (si_os si)) (os_sha (si_os si)) (os_mem (si_os si)) (ag_cfg ag))
    \<and> ht_inv (os_bkt (si_os si)) ht'
    \<and> ht_pol (os_bkt (si_os si)) ht' = map_of (rev (map (apsnd stored)
         (baseline_policies (os_stat (si_os si)) (block_mode ag) (sr_entries (ag_db ag)))))
    \<and> ag_running ag \<and> \<not> ag_reload ag \<and> queue_inv (ag_queue ag) \<and> queue_items (ag_queue ag) = []"
  by (rule agent_start_table [OF assms])

theorem agent_starts_protected_witness:
  "\<exists>ag ht'. agent_start sample_start ig_policy_init = Inr (ag, ht')
    \<and> ht_pol (\<lambda>_ _. 0) ht' = map_of (rev (map (apsnd stored)
         (baseline_policies (os_stat (si_os sample_start)) IG_BLOCK_DENY (sr_entries (ag_db ag)))))"
proof -
  obtain ag ht' where s: "agent_start sample_start ig_policy_init = Inr (ag, ht')" "ag_lkm_active ag" "ag_block ag = IG_EBPF_BLOCK_DENY"
    by (rule sample_started) blast
  have o: "open_documented (si_dev_open sample_start)" "os_kmem (si_os sample_start)"
    "os_bkt (si_os sample_start) = (\<lambda>_ _. 0)"
    by (simp_all add: sample_start_def open_documented_def down_os_def)
  from agent_starts_protected [OF s(1,2) o(1,2)] s o show ?thesis by (simp add: block_mode_def IG_EBPF_BLOCK_DENY_def)
qed

section \<open>Reloading\<close>

text \<open>A reload does not look at the new watch list for what it protects: with the kernel module, after any reload that finds
  a configuration the kernel's table holds exactly the policies of the old baseline, whichever
  watches the new configuration adds or drops; the baseline itself is not rebuilt either.\<close>

theorem reload_reinjects_old_baseline:
  assumes "reload_config os True ag ht = (ag', ht')" and "ag_lkm_active ag" and "ag_lkm_fd ag \<ge> 0" and "os_kmem os"
    and "load_config (os_open os) (ag_config_path ag) = (0, new_cfg)"
  shows "watches (ag_cfg ag') = watches new_cfg \<and> ag_db ag' = ag_db ag
    \<and> ht_pol (os_bkt os) ht' = map_of (rev (map (apsnd stored)
         (baseline_policies (os_stat os) (block_mode ag) (sr_entries (ag_db ag)))))"
proof -
  have frame: "ag_lkm_active (reload_logging os c a) = ag_lkm_active a" "ag_lkm_fd (reload_logging os c a) = ag_lkm_fd a"
    "ag_db (reload_logging os c a) = ag_db a" "block_mode (reload_logging os c a) = block_mode a"
    "ag_ebpf_active (reload_logging os c a) = ag_ebpf_active a" "ag_block (reload_logging os c a) = ag_block a" for c a
    by (simp_all add: reload_logging_def Let_def block_mode_def)
  define a1 where "a1 = reload_logging os new_cfg ag"
  define a2 where "a2 = (if os_libbpf os \<and> ag_ebpf_active ag
      then a1\<lparr>ag_ebpf_cmds := ag_ebpf_cmds a1 @ ebpf_diff (ag_block a1) (ag_cfg ag) new_cfg\<rparr> else a1)"
  have a2: "ag_lkm_active a2" "ag_lkm_fd a2 \<ge> 0" "ag_db a2 = ag_db ag" "block_mode a2 = block_mode ag"
    using assms(2,3) by (simp_all add: a2_def a1_def frame block_mode_def)
  have r: "ag' = a2\<lparr>ag_cfg := (ag_cfg a2)\<lparr>watches := watches new_cfg\<rparr>\<rparr>" "ht' = snd (inject_policies os a2 ht)"
    using assms(1,2,5) a2(1)
    by (auto simp: reload_config_def Let_def a1_def a2_def frame)
  obtain n where n: "inject_policies os a2 ht = (n, ht')" using r(2) by (metis prod.collapse)
  show ?thesis using inject_policies_table(2) [OF a2(2) assms(4) n] r(1) a2 by simp
qed

theorem reload_reinjects_old_baseline_witness:
  "\<exists>ag' ht'. reload_config (si_os sample_start) True sample_agent ig_policy_init = (ag', ht')
    \<and> watches (ag_cfg ag') = [watch_w ''/w''] \<and> ag_db ag' = ag_db sample_agent"
proof -
  obtain ag' ht' where r: "reload_config (si_os sample_start) True sample_agent ig_policy_init = (ag', ht')" by fastforce
  have o: "os_kmem (si_os sample_start)" "ag_lkm_active sample_agent" "ag_lkm_fd sample_agent \<ge> 0"
    "load_config (os_open (si_os sample_start)) (ag_config_path sample_agent) = (0, default_config\<lparr>watches := [watch_w ''/w'']\<rparr>)"
    by (simp_all add: sample_start_def down_os_def sample_agent_def load_config_def sample_conf_load)
  from reload_reinjects_old_baseline [OF r o(2,3,1,4)] r show ?thesis by simp
qed

section \<open>Ending\<close>

lemma signal_handler_stops:
  "\<not> ag_running (signal_handler SIGTERM ag)" "\<not> ag_running ag \<Longrightarrow> \<not> ag_running (signal_handler sig ag)"
  by (simp_all add: signal_handler_def)

lemma fold_signals_stopped: "\<not> ag_running ag \<Longrightarrow> \<not> ag_running (fold signal_handler sigs ag)"
  by (induction sigs arbitrary: ag) (simp_all add: signal_handler_stops)

lemma fold_signals_stop: "SIGTERM \<in> set sigs \<Longrightarrow> \<not> ag_running (fold signal_handler sigs ag)"
proof (induction sigs arbitrary: ag)
  case (Cons sig sigs)
  show ?case
  proof (cases "sig = SIGTERM")
    case True
    then show ?thesis using fold_signals_stopped [OF signal_handler_stops(1)] by simp
  next
    case False
    with Cons show ?thesis by simp
  qed
qed simp



end
