(* ===== verification/Event_Path.thy ===== *)
theory Event_Path
  imports Agent_Main Collector Lkm_Events Tcp_Client
begin

text \<open>
  The way of an event: from the module that captured it (\<^verbatim>\<open>ig_lkm_events.c\<close>), through the agent's
  receiving thread (\<^verbatim>\<open>main.c\<close>) and its wire format (\<^verbatim>\<open>protocol.c\<close>), to the collector (\<^verbatim>\<open>collector/protocol.go\<close>).
\<close>

section \<open>The event of the receiving thread\<close>

lemma strncpy0_field: "0 < n \<Longrightarrow> has_no_nul (strncpy0 n s) \<and> length (strncpy0 n s) < n"
  by (simp add: length_strncpy0)

lemma lkm_chain_info_facts:
  "pi_pid (lkm_chain_info fs e) = ce_pid e" "pi_ppid (lkm_chain_info fs e) = ce_ppid e"
  "pi_uid (lkm_chain_info fs e) = ce_uid e" "pi_sid (lkm_chain_info fs e) = ce_sid e"
  by (simp_all add: lkm_chain_info_def Let_def enrich_entry_facts)

lemma lkm_chain_info_wf: "proc_info_wf (lkm_chain_info fs e)"
proof -
  have "proc_info_wf (zero_proc_info\<lparr>pi_pid := ce_pid e, pi_ppid := ce_ppid e, pi_uid := ce_uid e,
           pi_euid := ce_euid e, pi_sid := ce_sid e, pi_start_time_ns := ce_start_time_ns e,
           pi_comm := strncpy0 IG_PA_COMM_LEN (ce_comm e), pi_tty := strncpy0 IG_PA_TTY_LEN (ce_tty e),
           pi_exe := strncpy0 IG_PA_EXE_LEN (ce_exe e), pi_cmdline := strncpy0 IG_PA_CMDLINE_LEN (ce_cmdline e)\<rparr>)"
    using strncpy0_field [of IG_PA_COMM_LEN "ce_comm e"] strncpy0_field [of IG_PA_TTY_LEN "ce_tty e"]
      strncpy0_field [of IG_PA_EXE_LEN "ce_exe e"] strncpy0_field [of IG_PA_CMDLINE_LEN "ce_cmdline e"]
    by (simp add: proc_info_wf_def pa_lens)
  then show ?thesis by (simp add: lkm_chain_info_def Let_def enrich_entry_facts(5))
qed

lemma lkm_chain_entries:
  assumes "length (le_chain lev) = unat (le_chain_depth lev)" and "unat (le_chain_depth lev) \<le> IG_PA_MAX_DEPTH"
  shows "c_chain (lkm_chain fs lev) = map (lkm_chain_info fs) (le_chain lev)
      @ replicate (IG_PA_MAX_DEPTH - length (le_chain lev)) zero_proc_info"
    and "c_depth (lkm_chain fs lev) = int (length (le_chain lev))"
  using assms by (simp_all add: lkm_chain_def Let_def min_absorb1)

lemma lkm_chain_wf:
  assumes "length (le_chain lev) = unat (le_chain_depth lev)" and "unat (le_chain_depth lev) \<le> IG_PA_MAX_DEPTH"
  shows "chain_wf (lkm_chain fs lev)"
proof -
  have "length (le_chain lev) \<le> IG_PA_MAX_DEPTH" using assms by simp
  then show ?thesis
    unfolding chain_wf_def lkm_chain_entries [OF assms] by (auto simp: list_all_iff lkm_chain_info_wf)
qed

text \<open>The type of an event: every string of it is a C string that fits its array, its chain is well-formed,
  and the transport knows its source.\<close>

definition event_wf :: "ig_event \<Rightarrow> bool" where
  "event_wf ev \<longleftrightarrow> has_no_nul (ev_path ev) \<and> length (ev_path ev) < IG_MAX_PATH
     \<and> has_no_nul (ev_filename ev) \<and> length (ev_filename ev) < 256
     \<and> has_no_nul (ev_comm ev) \<and> length (ev_comm ev) < 16
     \<and> chain_wf (ev_chain ev) \<and> map_source (ev_source ev) \<noteq> 0"

lemma lkm_to_event_wf:
  assumes "length (le_chain lev) = unat (le_chain_depth lev)" and "unat (le_chain_depth lev) \<le> IG_PA_MAX_DEPTH"
  shows "event_wf (lkm_to_event fs lev)"
  using strncpy0_field [of IG_MAX_PATH "le_path lev"] strncpy0_field [of 16 "le_comm lev"] lkm_chain_wf [OF assms, of fs]
  by (simp add: event_wf_def lkm_to_event_def Let_def zero_event_def IG_MAX_PATH_def map_source_def IG_SOURCE_LKM_def
      IG_SOURCE_EBPF_def IG_MON_LKM_def has_no_nul_def [of "[]"])

section \<open>The captured event\<close>

lemma captured_chain:
  assumes "ig_collect_chain cx c = ((es, trunc), c')"
  shows "length (le_chain (make_event bkt cx ht dev ino op blocked (es, trunc)))
      = unat (le_chain_depth (make_event bkt cx ht dev ino op blocked (es, trunc)))"
    and "unat (le_chain_depth (make_event bkt cx ht dev ino op blocked (es, trunc))) \<le> IG_PA_MAX_DEPTH"
    and "length es \<le> IG_PA_MAX_DEPTH" and "es \<noteq> []"
proof -
  obtain cs ct where c: "ig_proc_cache_collect_chain c (t_pid (lt_task (cx_tasks cx (cx_current cx))))
      IG_LKM_CHAIN_MAX = ((cs, ct), c')"
    using assms by (auto simp: ig_collect_chain_def split: prod.splits if_splits)
  obtain ls lt where l: "live_chain (cx_tasks cx) (cx_current cx) = (ls, lt)" by fastforce
  have es: "(es, trunc) = (if cs \<noteq> [] then (cs, ct) else (ls, if lt then 1 else 0))"
    using assms c l by (simp add: ig_collect_chain_def split: if_splits)
  note facts = pc_chain_facts [OF c] live_chain_facts [OF l]
  show n: "length es \<le> IG_PA_MAX_DEPTH" "es \<noteq> []"
    using es facts by (cases "cs = []"; simp add: IG_LKM_CHAIN_MAX_def pa_lens)+
  show "length (le_chain (make_event bkt cx ht dev ino op blocked (es, trunc)))
      = unat (le_chain_depth (make_event bkt cx ht dev ino op blocked (es, trunc)))"
    "unat (le_chain_depth (make_event bkt cx ht dev ino op blocked (es, trunc))) \<le> IG_PA_MAX_DEPTH"
    using n by (simp_all add: make_event_def pa_lens unat_of_nat take_bit_nat_eq_self)
qed

text \<open>What the collector should know of a captured event.\<close>

definition captured_type :: "u32 \<Rightarrow> u8" where
  "captured_type op = (if op = IG_OP_DELETE then IG_EVT_DELETE else if op = IG_OP_RENAME then IG_EVT_MOVE else IG_EVT_MODIFY)"

definition tells :: "lkm_ctx \<Rightarrow> string \<Rightarrow> u64 \<Rightarrow> u64 \<Rightarrow> u32 \<Rightarrow> u32 \<Rightarrow> ig_lkm_chain_entry list \<Rightarrow> u8 \<Rightarrow> FileEventMsg \<Rightarrow> bool" where
  "tells cx path dev ino op blocked es trunc v \<longleftrightarrow>
     TargetDev v = dev \<and> TargetIno v = ino \<and> EventType v = captured_type op \<and> Blocked v = (blocked \<noteq> 0)
     \<and> Pid v = cx_tgid cx \<and> UID v = cx_uid cx \<and> FilePath v = path \<and> SID v = ce_sid (hd es)
     \<and> unat (ChainDepth v) = length es \<and> ChainTruncated v = (trunc \<noteq> 0)
     \<and> map (\<lambda>p. (p_pid p, p_ppid p, p_uid p)) (ChainEntries v) = map (\<lambda>e. (ce_pid e, ce_ppid e, ce_uid e)) es"

lemma chain_visited_captured:
  assumes "ig_collect_chain cx c = ((es, trunc), c')" and "lev = make_event bkt cx ht dev ino op blocked (es, trunc)"
  shows "chain_visited (Some (lkm_chain fs lev)) = map (lkm_chain_info fs) es"
    "unat (chain_depth_byte (Some (lkm_chain fs lev))) = length es" "chain_trunc_byte (Some (lkm_chain fs lev)) \<noteq> 0 \<longleftrightarrow> trunc \<noteq> 0"
    "pi_sid (c_chain (lkm_chain fs lev) ! 0) = ce_sid (hd es)" "0 < c_depth (lkm_chain fs lev)"
proof -
  note n = captured_chain(3,4) [OF assms(1)]
  have es: "le_chain lev = es" "le_chain_truncated lev = trunc" by (simp_all add: assms(2) make_event_def)
  have "length (le_chain lev) = unat (le_chain_depth lev)" "unat (le_chain_depth lev) \<le> IG_PA_MAX_DEPTH"
    unfolding assms(2) by (rule captured_chain(1,2) [OF assms(1)])+
  note e = lkm_chain_entries [OF this, of fs, unfolded es]
  show d: "unat (chain_depth_byte (Some (lkm_chain fs lev))) = length es"
    using n by (simp add: chain_depth_byte_def e pa_lens unat_of_nat take_bit_nat_eq_self)
  show "chain_visited (Some (lkm_chain fs lev)) = map (lkm_chain_info fs) es"
    using n by (simp add: chain_visited_def d e min_absorb1)
  show "chain_trunc_byte (Some (lkm_chain fs lev)) \<noteq> 0 \<longleftrightarrow> trunc \<noteq> 0"
    by (simp add: chain_trunc_byte_def lkm_chain_def Let_def es uint_0_iff)
  show "pi_sid (c_chain (lkm_chain fs lev) ! 0) = ce_sid (hd es)" using n(2) by (cases es) (simp_all add: e lkm_chain_info_facts)
  show "0 < c_depth (lkm_chain fs lev)" using n(2) by (cases es) (simp_all add: e)
qed

lemma captured_view:
  assumes "ig_collect_chain cx c = ((es, trunc), c')" and "op \<in> {IG_OP_WRITE, IG_OP_DELETE, IG_OP_RENAME}"
  shows "tells cx (strncpy0 IG_MAX_LKM_PATH (inode_policy_path bkt ht dev ino)) dev ino op blocked es trunc
    (event_view (event_msg aid (lkm_to_event fs (make_event bkt cx ht dev ino op blocked (es, trunc)))))"
proof -
  define lev where "lev = make_event bkt cx ht dev ino op blocked (es, trunc)"
  note ch = chain_visited_captured [OF assms(1) lev_def, of fs]
  have f: "le_dev lev = dev" "le_ino lev = ino" "le_op lev = op" "le_blocked lev = blocked" "le_pid lev = cx_tgid cx"
    "le_uid lev = cx_uid cx" "le_path lev = strncpy0 IG_MAX_LKM_PATH (inode_policy_path bkt ht dev ino)"
    by (simp_all add: lev_def make_event_def)
  have len: "length (le_path lev) < 256"
    using length_strncpy0 [of IG_MAX_LKM_PATH "inode_policy_path bkt ht dev ino"] by (simp add: f IG_MAX_LKM_PATH_def)
  have path: "strncpy0 IG_MAX_PATH (le_path lev) = le_path lev"
    by (rule strncpy0_short) (use len in \<open>simp_all add: f IG_MAX_PATH_def\<close>)
  have "map_event_type (lkm_event_type op) = captured_type op"
    using assms(2) by (auto simp: map_event_type_def lkm_event_type_def captured_type_def ig_op_codes ig_event_codes)
  moreover have "take (unat (of_nat (length (le_path lev)) :: u16)) (le_path lev) = le_path lev"
    using len by (simp add: unat_of_nat take_bit_nat_eq_self)
  moreover have "sint blocked = 0 \<longleftrightarrow> blocked = 0" by (metis signed_0 signed_word_eqI)
  ultimately show ?thesis
    using ch path
    by (simp add: lev_def [symmetric] tells_def event_view_def event_msg_def lkm_to_event_def Let_def f str_view_def
        process_view_def lkm_chain_info_facts comp_def)
qed

section \<open>Properties\<close>

text \<open>C22. Every event the agent takes from the module is well-formed: whatever the module captured and
  whatever \<^verbatim>\<open>/proc\<close> says when the agent completes it, each string is terminated within its array, the chain
  has its sixteen slots with at most sixteen of them filled, and the transport will not drop it.\<close>

theorem kernel_events_well_formed:
  assumes "ig_collect_chain cx c = ((es, trunc), c')"
  shows "event_wf (lkm_to_event fs (make_event bkt cx ht dev ino op blocked (es, trunc)))"
  by (rule lkm_to_event_wf [OF captured_chain(1,2) [OF assms]])

theorem kernel_events_well_formed_witness:
  "\<exists>es trunc. event_wf (lkm_to_event sample_proc (make_event (\<lambda>_ _. 0) sample_ctx ig_policy_init 8 77 IG_OP_DELETE 1 (es, trunc)))"
proof -
  obtain es trunc c' where c: "ig_collect_chain sample_ctx (empty_cache 0) = ((es, trunc), c')" by (metis prod_cases3 surj_pair)
  from kernel_events_well_formed [OF c, of sample_proc "\<lambda>_ _. 0" ig_policy_init 8 77 IG_OP_DELETE 1] show ?thesis by blast
qed

end
