(* ===== verification/Ebpf_Paths.thy ===== *)
theory Ebpf_Paths
  imports Ebpf_Kernel C_Text
begin

text \<open>
  The two tables of \<^verbatim>\<open>Agent/src/ebpf/ig_trace.c\<close>: the path cache, an open-addressing hash table with tombstones
  from inodes to paths, and the direct-mapped table that suppresses repeated events.  Both are
  arrays under a lock; here they are functions from the slot number.
\<close>

section \<open>The path cache\<close>

definition PATH_CACHE_CAP :: nat where "PATH_CACHE_CAP = 16384"

datatype slot_state = SLOT_EMPTY | SLOT_USED | SLOT_DELETED

record path_cache_entry =
  pce_dev :: u64
  pce_ino :: u64
  pce_path :: string
  pce_used :: slot_state

type_synonym path_cache = "nat \<Rightarrow> path_cache_entry"

definition path_cache_init :: path_cache where
  "path_cache_init = (\<lambda>_. \<lparr>pce_dev = 0, pce_ino = 0, pce_path = [], pce_used = SLOT_EMPTY\<rparr>)"

definition path_cache_hash :: "u64 \<Rightarrow> u64 \<Rightarrow> nat" where
  "path_cache_hash dev ino =
     (let h = (dev * 2654435761) XOR (ino * 2246822519)
      in unat ((h XOR drop_bit 32 h) AND 16383))"

text \<open>\<open>(idx + i) & PATH_CACHE_MASK\<close>\<close>

definition probe :: "nat \<Rightarrow> nat \<Rightarrow> nat" where
  "probe idx i = (idx + i) mod PATH_CACHE_CAP"

definition key_at :: "path_cache \<Rightarrow> nat \<Rightarrow> inode_key \<Rightarrow> bool" where
  "key_at c s k \<longleftrightarrow> pce_used (c s) = SLOT_USED \<and> pce_dev (c s) = fst k \<and> pce_ino (c s) = snd k"

definition entry_for :: "inode_key \<Rightarrow> string \<Rightarrow> path_cache_entry" where
  "entry_for k path = \<lparr>pce_dev = fst k, pce_ino = snd k, pce_path = strncpy0 IG_MAX_PATH path, pce_used = SLOT_USED\<rparr>"

text \<open>The loops; the first argument counts the slots not probed yet.\<close>

fun put_loop :: "nat \<Rightarrow> nat \<Rightarrow> nat \<Rightarrow> nat option \<Rightarrow> inode_key \<Rightarrow> string \<Rightarrow> path_cache \<Rightarrow> path_cache" where
  "put_loop 0 idx i tomb k path c = c"
| "put_loop (Suc n) idx i tomb k path c =
     (let slot = probe idx i
      in case pce_used (c slot) of
           SLOT_EMPTY \<Rightarrow> c((case tomb of Some t \<Rightarrow> t | None \<Rightarrow> slot) := entry_for k path)
         | SLOT_DELETED \<Rightarrow> put_loop n idx (Suc i) (if tomb = None then Some slot else tomb) k path c
         | SLOT_USED \<Rightarrow>
             if key_at c slot k then c(slot := (c slot)\<lparr>pce_path := strncpy0 IG_MAX_PATH path\<rparr>)
             else put_loop n idx (Suc i) tomb k path c)"

fun get_loop :: "nat \<Rightarrow> nat \<Rightarrow> nat \<Rightarrow> inode_key \<Rightarrow> path_cache \<Rightarrow> string option" where
  "get_loop 0 idx i k c = None"
| "get_loop (Suc n) idx i k c =
     (let slot = probe idx i
      in if pce_used (c slot) = SLOT_EMPTY then None
         else if key_at c slot k then Some (pce_path (c slot))
         else get_loop n idx (Suc i) k c)"

fun remove_loop :: "nat \<Rightarrow> nat \<Rightarrow> nat \<Rightarrow> inode_key \<Rightarrow> path_cache \<Rightarrow> path_cache" where
  "remove_loop 0 idx i k c = c"
| "remove_loop (Suc n) idx i k c =
     (let slot = probe idx i
      in if pce_used (c slot) = SLOT_EMPTY then c
         else if key_at c slot k then c(slot := (c slot)\<lparr>pce_used := SLOT_DELETED\<rparr>)
         else remove_loop n idx (Suc i) k c)"

definition path_cache_put :: "u64 \<Rightarrow> u64 \<Rightarrow> string \<Rightarrow> path_cache \<Rightarrow> path_cache" where
  "path_cache_put dev ino path c = put_loop PATH_CACHE_CAP (path_cache_hash dev ino) 0 None (dev, ino) path c"

definition path_cache_get :: "u64 \<Rightarrow> u64 \<Rightarrow> nat \<Rightarrow> path_cache \<Rightarrow> string" where
  "path_cache_get dev ino out_sz c =
     (case get_loop PATH_CACHE_CAP (path_cache_hash dev ino) 0 (dev, ino) c of
        Some path \<Rightarrow> strncpy0 out_sz path
      | None \<Rightarrow> take (out_sz - 1) (''<ino='' @ dec (unat ino) @ ''>''))"

definition path_cache_remove :: "u64 \<Rightarrow> u64 \<Rightarrow> path_cache \<Rightarrow> path_cache" where
  "path_cache_remove dev ino c = remove_loop PATH_CACHE_CAP (path_cache_hash dev ino) 0 (dev, ino) c"

section \<open>Suppressing repeated events\<close>

definition HOOK_DEDUP_WIN_NS :: u64 where "HOOK_DEDUP_WIN_NS = 200000000"

record hook_dedup_entry =
  hd_dev :: u64
  hd_ino :: u64
  hd_op_mask :: u32
  hd_used :: bool
  hd_last_ts_ns :: u64

type_synonym hook_dedup = "nat \<Rightarrow> hook_dedup_entry"

definition hook_dedup_init :: hook_dedup where
  "hook_dedup_init = (\<lambda>_. \<lparr>hd_dev = 0, hd_ino = 0, hd_op_mask = 0, hd_used = False, hd_last_ts_ns = 0\<rparr>)"

definition hook_dedup_hash :: "u64 \<Rightarrow> u64 \<Rightarrow> u32 \<Rightarrow> nat" where
  "hook_dedup_hash dev ino op_mask =
     (let h = ((dev * 2654435761) XOR (ino * 2246822519)) XOR (ucast op_mask * 374761393)
      in unat ((h XOR drop_bit 32 h) AND 4095))"

text \<open>Whether to suppress the event, and the table.\<close>

definition hook_dedup_check :: "u64 \<Rightarrow> u64 \<Rightarrow> u32 \<Rightarrow> u64 \<Rightarrow> hook_dedup \<Rightarrow> bool \<times> hook_dedup" where
  "hook_dedup_check dev ino op_mask ts_ns t =
     (let slot = hook_dedup_hash dev ino op_mask; e = t slot;
          suppress = (hd_used e \<and> hd_dev e = dev \<and> hd_ino e = ino \<and> hd_op_mask e = op_mask
            \<and> ts_ns - hd_last_ts_ns e < HOOK_DEDUP_WIN_NS)
      in (suppress, if suppress then t
          else t(slot := \<lparr>hd_dev = dev, hd_ino = ino, hd_op_mask = op_mask, hd_used = True, hd_last_ts_ns = ts_ns\<rparr>)))"

section \<open>Probing\<close>

lemma probe_less [simp]: "probe h i < PATH_CACHE_CAP"
  by (simp add: probe_def PATH_CACHE_CAP_def)

lemma probe_inj: "i < PATH_CACHE_CAP \<Longrightarrow> j < PATH_CACHE_CAP \<Longrightarrow> probe h i = probe h j \<Longrightarrow> i = j"
proof (rule ccontr)
  assume i: "i < PATH_CACHE_CAP" and j: "j < PATH_CACHE_CAP" and e: "probe h i = probe h j" and ne: "i \<noteq> j"
  have "int (h + i) mod int PATH_CACHE_CAP = int (h + j) mod int PATH_CACHE_CAP"
    using e by (simp only: probe_def zmod_int [symmetric])
  then have "int PATH_CACHE_CAP dvd int i - int j" by (simp add: mod_eq_dvd_iff)
  then have "\<bar>int PATH_CACHE_CAP\<bar> \<le> \<bar>int i - int j\<bar>" using ne by (intro dvd_imp_le_int) simp_all
  then show False using i j by linarith
qed

lemma probe_surj:
  assumes "s < PATH_CACHE_CAP"
  obtains i where "i < PATH_CACHE_CAP" "probe h i = s"
proof -
  define i where "i = (s + PATH_CACHE_CAP - h mod PATH_CACHE_CAP) mod PATH_CACHE_CAP"
  have h: "h mod PATH_CACHE_CAP \<le> s + PATH_CACHE_CAP"
    using mod_less_divisor [of PATH_CACHE_CAP h] by (simp add: PATH_CACHE_CAP_def)
  have "probe h i = (h mod PATH_CACHE_CAP + (s + PATH_CACHE_CAP - h mod PATH_CACHE_CAP)) mod PATH_CACHE_CAP"
    unfolding probe_def i_def by (metis mod_add_eq mod_mod_trivial)
  also have "\<dots> = s" using h assms by simp
  finally have "probe h i = s" .
  then show thesis using that [of i] by (simp add: i_def PATH_CACHE_CAP_def)
qed

lemma get_loop_Some:
  "get_loop n h i k c = Some p \<Longrightarrow> \<exists>j. i \<le> j \<and> j < i + n \<and> key_at c (probe h j) k \<and> pce_path (c (probe h j)) = p"
proof (induction n h i k c rule: get_loop.induct)
  case (2 n h i k c)
  show ?case
  proof (cases "key_at c (probe h i) k")
    case True
    with "2.prems" show ?thesis by (intro exI [of _ i]) (auto simp: Let_def split: if_splits)
  next
    case False
    with 2 obtain j where "Suc i \<le> j \<and> j < Suc i + n \<and> key_at c (probe h j) k \<and> pce_path (c (probe h j)) = p"
      by (auto simp: Let_def split: if_splits)
    then show ?thesis by (intro exI [of _ j]) simp
  qed
qed simp

text \<open>The probes before \<open>j\<close> are occupied by other keys or tombstones.\<close>

definition passes :: "path_cache \<Rightarrow> nat \<Rightarrow> inode_key \<Rightarrow> nat \<Rightarrow> nat \<Rightarrow> bool" where
  "passes c h k i j \<longleftrightarrow> (\<forall>m. i \<le> m \<and> m < j \<longrightarrow> pce_used (c (probe h m)) \<noteq> SLOT_EMPTY \<and> \<not> key_at c (probe h m) k)"

lemma passes_step: "passes c h k i j \<Longrightarrow> i < j \<Longrightarrow>
    pce_used (c (probe h i)) \<noteq> SLOT_EMPTY \<and> \<not> key_at c (probe h i) k \<and> passes c h k (Suc i) j"
  by (simp add: passes_def)

lemma get_loop_hit:
  "passes c h k i j \<Longrightarrow> i \<le> j \<Longrightarrow> j < i + n \<Longrightarrow> key_at c (probe h j) k \<Longrightarrow>
     get_loop n h i k c = Some (pce_path (c (probe h j)))"
proof (induction n h i k c rule: get_loop.induct)
  case (2 n h i k c)
  show ?case
  proof (cases "i = j")
    case True
    with "2.prems" show ?thesis by (simp add: Let_def key_at_def)
  next
    case False
    with "2.prems" passes_step [of c h k i j] "2.IH" [OF refl] show ?thesis by (simp add: Let_def)
  qed
qed simp

lemma remove_loop_hit:
  "passes c h k i j \<Longrightarrow> i \<le> j \<Longrightarrow> j < i + n \<Longrightarrow> key_at c (probe h j) k \<Longrightarrow>
     remove_loop n h i k c = c(probe h j := (c (probe h j))\<lparr>pce_used := SLOT_DELETED\<rparr>)"
proof (induction n h i k c rule: remove_loop.induct)
  case (2 n h i k c)
  show ?case
  proof (cases "i = j")
    case True
    with "2.prems" show ?thesis by (simp add: Let_def key_at_def)
  next
    case False
    with "2.prems" passes_step [of c h k i j] "2.IH" [OF refl] show ?thesis by (simp add: Let_def)
  qed
qed simp

lemma remove_loop_miss: "(\<And>s. s < PATH_CACHE_CAP \<Longrightarrow> \<not> key_at c s k) \<Longrightarrow> remove_loop n h i k c = c"
  by (induction n h i k c rule: remove_loop.induct) (auto simp: Let_def)

lemma put_loop_hit:
  "passes c h k i j \<Longrightarrow> i \<le> j \<Longrightarrow> j < i + n \<Longrightarrow> key_at c (probe h j) k \<Longrightarrow>
     put_loop n h i tomb k path c = c(probe h j := (c (probe h j))\<lparr>pce_path := strncpy0 IG_MAX_PATH path\<rparr>)"
proof (induction n h i tomb k path c rule: put_loop.induct)
  case (2 n h i tomb k path c)
  show ?case
  proof (cases "i = j")
    case True
    with "2.prems" show ?thesis by (simp add: Let_def key_at_def)
  next
    case False
    with "2.prems" passes_step [of c h k i j] "2.IH" [OF refl] show ?thesis
      by (cases "pce_used (c (probe h i))") (simp_all add: Let_def)
  qed
qed simp

lemma put_loop_full:
  "(\<And>s. s < PATH_CACHE_CAP \<Longrightarrow> \<not> key_at c s k \<and> pce_used (c s) \<noteq> SLOT_EMPTY) \<Longrightarrow> put_loop n h i tomb k path c = c"
proof (induction n h i tomb k path c rule: put_loop.induct)
  case (2 n h i tomb k path c)
  then show ?case by (cases "pce_used (c (probe h i))") (auto simp: Let_def)
qed simp

lemma put_loop_miss:
  "(\<And>s. s < PATH_CACHE_CAP \<Longrightarrow> \<not> key_at c s k) \<Longrightarrow> i \<le> e \<Longrightarrow> e < i + n \<Longrightarrow> pce_used (c (probe h e)) = SLOT_EMPTY
    \<Longrightarrow> (\<forall>m. i \<le> m \<and> m < e \<longrightarrow> pce_used (c (probe h m)) \<noteq> SLOT_EMPTY) \<Longrightarrow>
    \<exists>t. put_loop n h i tomb k path c = c(t := entry_for k path)
      \<and> (case tomb of Some t0 \<Rightarrow> t = t0 | None \<Rightarrow> \<exists>j. i \<le> j \<and> j \<le> e \<and> t = probe h j \<and> pce_used (c t) \<noteq> SLOT_USED)"
proof (induction n h i tomb k path c rule: put_loop.induct)
  case (2 n h i tomb k path c)
  show ?case
  proof (cases "i = e")
    case True
    with "2.prems"(4) show ?thesis by (intro exI [of _ "case tomb of Some t \<Rightarrow> t | None \<Rightarrow> probe h i"]) (auto simp: Let_def split: option.splits)
  next
    case False
    then have lt: "Suc i \<le> e" "e < Suc i + n" and ne: "pce_used (c (probe h i)) \<noteq> SLOT_EMPTY"
      and rest: "\<forall>m. Suc i \<le> m \<and> m < e \<longrightarrow> pce_used (c (probe h m)) \<noteq> SLOT_EMPTY"
      using "2.prems" by auto
    show ?thesis
    proof (cases "pce_used (c (probe h i))")
      case SLOT_DELETED
      from "2.IH"(2) [OF refl SLOT_DELETED "2.prems"(1) lt "2.prems"(4) rest]
      have "put_loop (Suc n) h i tomb k path c = c((case tomb of Some t0 \<Rightarrow> t0 | None \<Rightarrow> probe h i) := entry_for k path)"
        using SLOT_DELETED by (cases tomb) (auto simp: Let_def fun_upd_def)
      with SLOT_DELETED lt(1) show ?thesis
        by (intro exI [of _ "case tomb of Some t0 \<Rightarrow> t0 | None \<Rightarrow> probe h i"]) (auto split: option.splits)
    next
      case SLOT_USED
      have nk: "\<not> key_at c (probe h i) k" using "2.prems"(1) [of "probe h i"] by simp
      have "put_loop (Suc n) h i tomb k path c = put_loop n h (Suc i) tomb k path c" using SLOT_USED nk by (simp add: Let_def)
      with "2.IH"(1) [OF refl SLOT_USED nk "2.prems"(1) lt "2.prems"(4) rest]
      obtain t where "put_loop (Suc n) h i tomb k path c = c(t := entry_for k path)"
        "case tomb of Some t0 \<Rightarrow> t = t0 | None \<Rightarrow> \<exists>j. Suc i \<le> j \<and> j \<le> e \<and> t = probe h j \<and> pce_used (c t) \<noteq> SLOT_USED"
        by metis
      then show ?thesis by (intro exI [of _ t]) (auto split: option.splits dest: Suc_leD)
    qed (use ne in simp)
  qed
qed simp

section \<open>The path cache is a map\<close>

definition pc_hash :: "inode_key \<Rightarrow> nat" where
  "pc_hash k = path_cache_hash (fst k) (snd k)"

text \<open>Every key is reachable from its hash over occupied slots, and is in one slot only.\<close>

definition slots_inv :: "path_cache \<Rightarrow> bool" where
  "slots_inv c \<longleftrightarrow>
     (\<forall>k i. i < PATH_CACHE_CAP \<and> key_at c (probe (pc_hash k) i) k \<longrightarrow>
        (\<forall>j < i. pce_used (c (probe (pc_hash k) j)) \<noteq> SLOT_EMPTY))
     \<and> (\<forall>k s t. s < PATH_CACHE_CAP \<and> t < PATH_CACHE_CAP \<and> key_at c s k \<and> key_at c t k \<longrightarrow> s = t)"

definition pc_abs :: "path_cache \<Rightarrow> inode_key \<Rightarrow> string option" where
  "pc_abs c k = get_loop PATH_CACHE_CAP (pc_hash k) 0 k c"

lemma slots_inv_reach: "slots_inv c \<Longrightarrow> i < PATH_CACHE_CAP \<Longrightarrow> key_at c (probe (pc_hash k) i) k \<Longrightarrow> j < i
    \<Longrightarrow> pce_used (c (probe (pc_hash k) j)) \<noteq> SLOT_EMPTY"
  unfolding slots_inv_def by blast

lemma slots_inv_once: "slots_inv c \<Longrightarrow> s < PATH_CACHE_CAP \<Longrightarrow> t < PATH_CACHE_CAP \<Longrightarrow> key_at c s k \<Longrightarrow> key_at c t k \<Longrightarrow> s = t"
  unfolding slots_inv_def by blast

lemma pc_passes:
  assumes "slots_inv c" and "i < PATH_CACHE_CAP" and "key_at c (probe (pc_hash k) i) k"
  shows "passes c (pc_hash k) k 0 i"
  unfolding passes_def
proof (intro allI impI conjI)
  fix m assume m: "0 \<le> m \<and> m < i"
  then show "pce_used (c (probe (pc_hash k) m)) \<noteq> SLOT_EMPTY" using slots_inv_reach [OF assms] by simp
  show "\<not> key_at c (probe (pc_hash k) m) k"
  proof
    assume "key_at c (probe (pc_hash k) m) k"
    then have "probe (pc_hash k) m = probe (pc_hash k) i" by (rule slots_inv_once [OF assms(1) probe_less probe_less _ assms(3)])
    then show False using probe_inj [of m i "pc_hash k"] m assms(2) by simp
  qed
qed

lemma pc_abs_iff:
  assumes "slots_inv c"
  shows "pc_abs c k = Some p \<longleftrightarrow> (\<exists>s < PATH_CACHE_CAP. key_at c s k \<and> pce_path (c s) = p)"
proof
  assume "pc_abs c k = Some p"
  from get_loop_Some [OF this [unfolded pc_abs_def]]
  show "\<exists>s < PATH_CACHE_CAP. key_at c s k \<and> pce_path (c s) = p" using probe_less by blast
next
  assume "\<exists>s < PATH_CACHE_CAP. key_at c s k \<and> pce_path (c s) = p"
  then obtain s where s: "s < PATH_CACHE_CAP" "key_at c s k" "pce_path (c s) = p" by blast
  obtain i where i: "i < PATH_CACHE_CAP" "probe (pc_hash k) i = s" by (rule probe_surj [OF s(1)])
  have "key_at c (probe (pc_hash k) i) k" using s i by simp
  from get_loop_hit [OF pc_passes [OF assms i(1) this] _ _ this] s i show "pc_abs c k = Some p" by (simp add: pc_abs_def)
qed

lemma pc_abs_None: "slots_inv c \<Longrightarrow> pc_abs c k = None \<longleftrightarrow> (\<forall>s < PATH_CACHE_CAP. \<not> key_at c s k)"
proof -
  assume "slots_inv c"
  from pc_abs_iff [OF this, of k] have "(\<exists>p. pc_abs c k = Some p) \<longleftrightarrow> (\<exists>s < PATH_CACHE_CAP. key_at c s k)" by auto
  then show ?thesis by auto
qed

lemma pc_absI:
  assumes "slots_inv c'" and "\<And>k p. m k = Some p \<longleftrightarrow> (\<exists>s < PATH_CACHE_CAP. key_at c' s k \<and> pce_path (c' s) = p)"
  shows "pc_abs c' = m"
proof
  fix k
  have "pc_abs c' k = Some p \<longleftrightarrow> m k = Some p" for p by (simp only: pc_abs_iff [OF assms(1)] assms(2))
  then show "pc_abs c' k = m k" by (metis not_None_eq)
qed

lemma slots_inv_init: "slots_inv path_cache_init" and pc_abs_init: "pc_abs path_cache_init = Map.empty"
proof -
  have k: "\<not> key_at path_cache_init s k" for s k by (simp add: key_at_def path_cache_init_def)
  then show i: "slots_inv path_cache_init" by (simp add: slots_inv_def)
  show "pc_abs path_cache_init = Map.empty" by (rule pc_absI [OF i]) (simp add: k)
qed

text \<open>Overwriting the path of a key, filling a free slot on its probe path, burying a key.\<close>

lemma pc_overwrite:
  assumes "slots_inv c" and "s < PATH_CACHE_CAP" and "key_at c s k"
  shows "slots_inv (c(s := (c s)\<lparr>pce_path := p\<rparr>))" "pc_abs (c(s := (c s)\<lparr>pce_path := p\<rparr>)) = (pc_abs c)(k \<mapsto> p)"
proof -
  let ?c = "c(s := (c s)\<lparr>pce_path := p\<rparr>)"
  have same: "pce_used (?c t) = pce_used (c t)" "key_at ?c t k' = key_at c t k'" for t k' by (simp_all add: key_at_def)
  show inv: "slots_inv ?c" using assms(1) unfolding slots_inv_def same .
  show "pc_abs ?c = (pc_abs c)(k \<mapsto> p)"
  proof (rule pc_absI [OF inv])
    fix k' q
    show "((pc_abs c)(k \<mapsto> p)) k' = Some q \<longleftrightarrow> (\<exists>t < PATH_CACHE_CAP. key_at ?c t k' \<and> pce_path (?c t) = q)"
    proof (cases "k' = k")
      case True
      have only: "t = s" if "t < PATH_CACHE_CAP" "key_at c t k" for t by (rule slots_inv_once [OF assms(1) that(1) assms(2) that(2) assms(3)])
      have "(\<exists>t < PATH_CACHE_CAP. key_at ?c t k \<and> pce_path (?c t) = q) \<longleftrightarrow> q = p"
      proof
        assume "\<exists>t < PATH_CACHE_CAP. key_at ?c t k \<and> pce_path (?c t) = q"
        then obtain t where t: "t < PATH_CACHE_CAP" "key_at c t k" "pce_path (?c t) = q" unfolding same by blast
        from only [OF t(1,2)] t(3) show "q = p" by simp
      next
        assume "q = p"
        then show "\<exists>t < PATH_CACHE_CAP. key_at ?c t k \<and> pce_path (?c t) = q"
          by (intro exI [of _ s]) (simp add: same assms(2,3))
      qed
      then show ?thesis using True by auto
    next
      case False
      have "pce_path (?c t) = pce_path (c t)" if "key_at c t k'" for t
        using that assms(3) False by (auto simp: key_at_def prod_eq_iff)
      then have "key_at ?c t k' \<and> pce_path (?c t) = q \<longleftrightarrow> key_at c t k' \<and> pce_path (c t) = q" for t
        by (metis same(2))
      then show ?thesis using False pc_abs_iff [OF assms(1), of k' q] by simp
    qed
  qed
qed

lemma slots_insert:
  assumes "slots_inv c" and "pc_abs c k = None" and "i < PATH_CACHE_CAP" and "pce_used (c (probe (pc_hash k) i)) \<noteq> SLOT_USED"
    and "\<And>j. j < i \<Longrightarrow> pce_used (c (probe (pc_hash k) j)) \<noteq> SLOT_EMPTY"
    and c'_def: "c' = c(probe (pc_hash k) i := entry_for k p)"
  shows "slots_inv c'" "pc_abs c' = (pc_abs c)(k \<mapsto> strncpy0 IG_MAX_PATH p)"
proof -
  let ?s = "probe (pc_hash k) i"
  have new: "key_at c' ?s k' \<longleftrightarrow> k' = k" for k' by (auto simp: c'_def key_at_def entry_for_def prod_eq_iff)
  have old: "key_at c' t k' = key_at c t k'" if "t \<noteq> ?s" for t k' using that by (simp add: c'_def key_at_def)
  have gone: "\<not> key_at c ?s k'" for k' using assms(4) by (simp add: key_at_def)
  have absent: "\<not> key_at c t k" if "t < PATH_CACHE_CAP" for t using pc_abs_None [OF assms(1)] assms(2) that by blast
  have ne: "pce_used (c' t) \<noteq> SLOT_EMPTY" if "pce_used (c t) \<noteq> SLOT_EMPTY \<or> t = ?s" for t
    using that by (auto simp: c'_def entry_for_def)
  show inv: "slots_inv c'"
    unfolding slots_inv_def
  proof (intro conjI allI impI; elim conjE)
    fix k' m j assume m: "m < PATH_CACHE_CAP" "key_at c' (probe (pc_hash k') m) k'" and j: "j < m"
    show "pce_used (c' (probe (pc_hash k') j)) \<noteq> SLOT_EMPTY"
    proof (cases "probe (pc_hash k') m = ?s")
      case True
      then have "k' = k" using m(2) new by simp
      then have "m = i" using True probe_inj m(1) assms(3) by blast
      then show ?thesis using ne assms(5) j \<open>k' = k\<close> by simp
    next
      case False
      then show ?thesis using ne slots_inv_reach [OF assms(1) m(1)] m(2) old j by simp
    qed
  next
    fix k' a b assume ab: "a < PATH_CACHE_CAP" "b < PATH_CACHE_CAP" "key_at c' a k'" "key_at c' b k'"
    show "a = b"
      using ab new old absent slots_inv_once [OF assms(1) ab(1,2), of k'] by (cases "a = ?s"; cases "b = ?s") auto
  qed
  show "pc_abs c' = (pc_abs c)(k \<mapsto> strncpy0 IG_MAX_PATH p)"
  proof (rule pc_absI [OF inv])
    fix k' q
    show "((pc_abs c)(k \<mapsto> strncpy0 IG_MAX_PATH p)) k' = Some q \<longleftrightarrow> (\<exists>t < PATH_CACHE_CAP. key_at c' t k' \<and> pce_path (c' t) = q)"
    proof (cases "k' = k")
      case True
      have "t = ?s" if "t < PATH_CACHE_CAP" "key_at c' t k" for t using that old absent by metis
      moreover have "pce_path (c' ?s) = strncpy0 IG_MAX_PATH p" by (simp add: c'_def entry_for_def)
      moreover have "key_at c' ?s k" using new by simp
      ultimately have "(\<exists>t < PATH_CACHE_CAP. key_at c' t k \<and> pce_path (c' t) = q) \<longleftrightarrow> q = strncpy0 IG_MAX_PATH p"
        using probe_less by metis
      then show ?thesis using True by auto
    next
      case False
      have "key_at c' t k' \<and> pce_path (c' t) = q \<longleftrightarrow> key_at c t k' \<and> pce_path (c t) = q" for t
        using False new gone old by (cases "t = ?s") (auto simp: c'_def)
      then show ?thesis using False pc_abs_iff [OF assms(1), of k' q] by simp
    qed
  qed
qed

lemma pc_bury:
  assumes "slots_inv c" and "s < PATH_CACHE_CAP" and "key_at c s k"
    and c'_def: "c' = c(s := (c s)\<lparr>pce_used := SLOT_DELETED\<rparr>)"
  shows "slots_inv c'" "pc_abs c' = (pc_abs c)(k := None)"
proof -
  have keys: "key_at c' t k' \<longleftrightarrow> t \<noteq> s \<and> key_at c t k'" for t k' by (auto simp: c'_def key_at_def)
  have ne: "pce_used (c t) \<noteq> SLOT_EMPTY \<Longrightarrow> pce_used (c' t) \<noteq> SLOT_EMPTY" for t by (simp add: c'_def)
  show inv: "slots_inv c'"
    unfolding slots_inv_def keys using ne slots_inv_reach [OF assms(1)] slots_inv_once [OF assms(1)] by blast
  show "pc_abs c' = (pc_abs c)(k := None)"
  proof (rule pc_absI [OF inv])
    fix k' q
    have "t = s" if "t < PATH_CACHE_CAP" "key_at c t k" for t using that slots_inv_once [OF assms(1)] assms(2,3) by blast
    moreover have "t \<noteq> s" if "key_at c t k'" "k' \<noteq> k" for t using that assms(3) by (auto simp: key_at_def prod_eq_iff)
    moreover have "pce_path (c' t) = pce_path (c t)" for t by (simp add: c'_def)
    ultimately show "((pc_abs c)(k := None)) k' = Some q \<longleftrightarrow> (\<exists>t < PATH_CACHE_CAP. key_at c' t k' \<and> pce_path (c' t) = q)"
      unfolding keys using pc_abs_iff [OF assms(1), of k' q] by (cases "k' = k") auto
  qed
qed

text \<open>Storing a key the cache holds, or a new one while a never-used slot is left.\<close>

lemma pc_put:
  assumes "slots_inv c" and room: "pc_abs c k \<noteq> None \<or> (\<exists>s < PATH_CACHE_CAP. pce_used (c s) = SLOT_EMPTY)"
  defines "c' \<equiv> path_cache_put (fst k) (snd k)"
  shows "slots_inv (c' p c) \<and> pc_abs (c' p c) = (pc_abs c)(k \<mapsto> strncpy0 IG_MAX_PATH p)"
proof (cases "pc_abs c k")
  case (Some q)
  then obtain s where s: "s < PATH_CACHE_CAP" "key_at c s k" using pc_abs_iff [OF assms(1)] by blast
  obtain i where i: "i < PATH_CACHE_CAP" "probe (pc_hash k) i = s" by (rule probe_surj [OF s(1)])
  have k: "key_at c (probe (pc_hash k) i) k" using s i by simp
  have "c' p c = c(s := (c s)\<lparr>pce_path := strncpy0 IG_MAX_PATH p\<rparr>)"
    using put_loop_hit [OF pc_passes [OF assms(1) i(1) k] _ _ k, of PATH_CACHE_CAP None p] i
    by (simp add: c'_def path_cache_put_def pc_hash_def)
  then show ?thesis using pc_overwrite [OF assms(1) s] by simp
next
  case None
  then have absent: "\<not> key_at c s k" if "s < PATH_CACHE_CAP" for s using pc_abs_None [OF assms(1)] that by blast
  obtain s where s: "s < PATH_CACHE_CAP" "pce_used (c s) = SLOT_EMPTY" using room None by blast
  obtain i where i: "i < PATH_CACHE_CAP" "probe (pc_hash k) i = s" by (rule probe_surj [OF s(1)])
  define e where "e = (LEAST m. pce_used (c (probe (pc_hash k) m)) = SLOT_EMPTY)"
  have e: "pce_used (c (probe (pc_hash k) e)) = SLOT_EMPTY" "e \<le> i"
    and before: "\<And>m. m < e \<Longrightarrow> pce_used (c (probe (pc_hash k) m)) \<noteq> SLOT_EMPTY"
    using s i unfolding e_def by (auto intro: LeastI Least_le dest: not_less_Least)
  obtain t j where t: "put_loop PATH_CACHE_CAP (pc_hash k) 0 None k p c = c(t := entry_for k p)"
    "j \<le> e" "t = probe (pc_hash k) j" "pce_used (c t) \<noteq> SLOT_USED"
    using put_loop_miss [OF absent, where i = 0 and e = e and n = PATH_CACHE_CAP and h = "pc_hash k" and tomb = None and path = p] e before i(1)
    by auto
  have "c' p c = c(probe (pc_hash k) j := entry_for k p)"
    using t by (simp add: c'_def path_cache_put_def pc_hash_def)
  then show ?thesis
    using slots_insert [OF assms(1) None, of j "c' p c" p] t e(2) i(1) before by simp
qed

lemma pc_remove:
  assumes "slots_inv c"
  shows "slots_inv (path_cache_remove (fst k) (snd k) c) \<and> pc_abs (path_cache_remove (fst k) (snd k) c) = (pc_abs c)(k := None)"
proof (cases "pc_abs c k")
  case (Some q)
  then obtain s where s: "s < PATH_CACHE_CAP" "key_at c s k" using pc_abs_iff [OF assms(1)] by blast
  obtain i where i: "i < PATH_CACHE_CAP" "probe (pc_hash k) i = s" by (rule probe_surj [OF s(1)])
  have k: "key_at c (probe (pc_hash k) i) k" using s i by simp
  have "path_cache_remove (fst k) (snd k) c = c(s := (c s)\<lparr>pce_used := SLOT_DELETED\<rparr>)"
    using remove_loop_hit [OF pc_passes [OF assms(1) i(1) k] _ _ k, of PATH_CACHE_CAP] i
    by (simp add: path_cache_remove_def pc_hash_def)
  then show ?thesis using pc_bury [OF assms(1) s] by simp
next
  case None
  have "path_cache_remove (fst k) (snd k) c = c"
    using remove_loop_miss [of c k] pc_abs_None [OF assms(1)] None by (simp add: path_cache_remove_def)
  then show ?thesis using assms(1) None by auto
qed

lemma pc_get: "path_cache_get (fst k) (snd k) n c =
    (case pc_abs c k of Some p \<Rightarrow> strncpy0 n p | None \<Rightarrow> take (n - 1) (''<ino='' @ dec (unat (snd k)) @ ''>''))"
  by (simp add: path_cache_get_def pc_abs_def pc_hash_def)

text \<open>Slots ever used; a call uses up at most one more, and none becomes unused again.\<close>

definition pc_touched :: "path_cache \<Rightarrow> nat set" where
  "pc_touched c = {s. s < PATH_CACHE_CAP \<and> pce_used (c s) \<noteq> SLOT_EMPTY}"

lemma put_loop_shape: "tomb = None \<or> (\<exists>t. tomb = Some t \<and> pce_used (c t) \<noteq> SLOT_EMPTY) \<Longrightarrow>
    put_loop n h i tomb k path c = c \<or> (\<exists>s e. put_loop n h i tomb k path c = c(s := e) \<and> pce_used e = SLOT_USED)"
proof (induction n h i tomb k path c rule: put_loop.induct)
  case (2 n h i tomb k path c)
  show ?case
  proof (cases "pce_used (c (probe h i))")
    case SLOT_EMPTY
    then show ?thesis
      by (intro disjI2 exI [of _ "case tomb of Some t \<Rightarrow> t | None \<Rightarrow> probe h i"] exI [of _ "entry_for k path"])
         (auto simp: entry_for_def Let_def split: option.splits)
  next
    case SLOT_DELETED
    then show ?thesis using "2.IH"(2) [OF refl SLOT_DELETED] "2.prems" by (auto simp: Let_def)
  next
    case SLOT_USED
    show ?thesis
    proof (cases "key_at c (probe h i) k")
      case True
      with SLOT_USED show ?thesis
        by (intro disjI2 exI [of _ "probe h i"] exI [of _ "(c (probe h i))\<lparr>pce_path := strncpy0 IG_MAX_PATH path\<rparr>"])
           (simp add: Let_def)
    next
      case False
      with SLOT_USED show ?thesis using "2.IH"(1) [OF refl SLOT_USED False "2.prems"] by (simp add: Let_def)
    qed
  qed
qed simp

lemma remove_loop_touched: "pc_touched (remove_loop n h i k c) = pc_touched c"
  by (induction n h i k c rule: remove_loop.induct) (auto simp: Let_def pc_touched_def split: if_splits)

lemma put_touched: "\<exists>s. pc_touched (path_cache_put dev ino path c) \<subseteq> insert s (pc_touched c)"
proof -
  consider "path_cache_put dev ino path c = c" | s e where "path_cache_put dev ino path c = c(s := e)"
    using put_loop_shape [of None c PATH_CACHE_CAP] unfolding path_cache_put_def by blast
  then show ?thesis
  proof cases
    case 2
    then show ?thesis by (intro exI [of _ s]) (auto simp: pc_touched_def split: if_splits)
  qed auto
qed

lemma pc_touched_finite [simp]: "finite (pc_touched c)" by (simp add: pc_touched_def)

lemma put_touched_card: "card (pc_touched (path_cache_put dev ino path c)) \<le> Suc (card (pc_touched c))"
proof -
  obtain s where "pc_touched (path_cache_put dev ino path c) \<subseteq> insert s (pc_touched c)" using put_touched by blast
  then have "card (pc_touched (path_cache_put dev ino path c)) \<le> card (insert s (pc_touched c))" by (intro card_mono) simp_all
  also have "\<dots> \<le> Suc (card (pc_touched c))" by (simp add: card_insert_if)
  finally show ?thesis .
qed

lemma pc_empty_left: "card (pc_touched c) < PATH_CACHE_CAP \<Longrightarrow> \<exists>s < PATH_CACHE_CAP. pce_used (c s) = SLOT_EMPTY"
proof (rule ccontr)
  assume lt: "card (pc_touched c) < PATH_CACHE_CAP" and "\<not> (\<exists>s < PATH_CACHE_CAP. pce_used (c s) = SLOT_EMPTY)"
  then have "pc_touched c = {..< PATH_CACHE_CAP}" by (auto simp: pc_touched_def)
  with lt show False by simp
qed

text \<open>A sequence of stores (a path) and removals (none), as the policy calls make it.\<close>

fun pc_call :: "inode_key \<times> string option \<Rightarrow> path_cache \<Rightarrow> path_cache" where
  "pc_call (k, Some path) c = path_cache_put (fst k) (snd k) path c"
| "pc_call (k, None) c = path_cache_remove (fst k) (snd k) c"

definition pc_map :: "inode_key \<times> string option \<Rightarrow> (inode_key \<Rightarrow> string option) \<Rightarrow> (inode_key \<Rightarrow> string option)" where
  "pc_map x m = m(fst x := map_option (strncpy0 IG_MAX_PATH) (snd x))"

definition pc_puts :: "(inode_key \<times> string option) list \<Rightarrow> nat" where
  "pc_puts xs = length (filter (\<lambda>x. snd x \<noteq> None) xs)"

lemma pc_call_step:
  assumes "slots_inv c" and "snd x \<noteq> None \<Longrightarrow> card (pc_touched c) < PATH_CACHE_CAP"
  shows "slots_inv (pc_call x c) \<and> pc_abs (pc_call x c) = pc_map x (pc_abs c)"
proof (cases x)
  case (Pair k po)
  show ?thesis
  proof (cases po)
    case None
    then show ?thesis using Pair pc_remove [OF assms(1)] by (simp add: pc_map_def)
  next
    case (Some path)
    then have "\<exists>s < PATH_CACHE_CAP. pce_used (c s) = SLOT_EMPTY" using Pair assms(2) by (intro pc_empty_left) simp
    then show ?thesis using Pair Some pc_put [OF assms(1)] by (simp add: pc_map_def)
  qed
qed

lemma pc_call_card: "card (pc_touched (pc_call x c)) \<le> card (pc_touched c) + pc_puts [x]"
proof (cases x)
  case (Pair k po)
  then show ?thesis
    by (cases po) (simp_all add: pc_puts_def path_cache_remove_def remove_loop_touched put_touched_card)
qed

lemma pc_calls: "slots_inv c \<Longrightarrow> card (pc_touched c) + pc_puts xs \<le> PATH_CACHE_CAP \<Longrightarrow>
    slots_inv (fold pc_call xs c) \<and> pc_abs (fold pc_call xs c) = fold pc_map xs (pc_abs c)"
proof (induction xs arbitrary: c)
  case (Cons x xs)
  have n: "pc_puts (x # xs) = pc_puts [x] + pc_puts xs" "snd x \<noteq> None \<Longrightarrow> pc_puts [x] = 1" by (auto simp: pc_puts_def)
  have "slots_inv (pc_call x c) \<and> pc_abs (pc_call x c) = pc_map x (pc_abs c)"
    using Cons.prems n by (intro pc_call_step) auto
  moreover have "card (pc_touched (pc_call x c)) + pc_puts xs \<le> PATH_CACHE_CAP"
    using Cons.prems n(1) pc_call_card [of x c] by linarith
  ultimately show ?case using Cons.IH [of "pc_call x c"] by simp
qed simp

text \<open>C10. Over any sequence of stores and removals with at most 16384 stores, an open-addressing lookup
  gives what the map those calls describe gives: the path last stored under the inode, cut to the
  buffer, and the \<open><ino=...>\<close> text if it was removed since or never stored.\<close>

theorem path_cache_is_a_map:
  assumes "pc_puts calls \<le> PATH_CACHE_CAP"
  shows "path_cache_get dev ino out_sz (fold pc_call calls path_cache_init)
    = (case fold pc_map calls Map.empty (dev, ino) of
         Some path \<Rightarrow> strncpy0 out_sz path
       | None \<Rightarrow> take (out_sz - 1) (''<ino='' @ dec (unat ino) @ ''>''))"
proof -
  have "pc_touched path_cache_init = {}" by (simp add: pc_touched_def path_cache_init_def)
  then have "pc_abs (fold pc_call calls path_cache_init) = fold pc_map calls Map.empty"
    using pc_calls [OF slots_inv_init, of calls] assms by (simp add: pc_abs_init)
  then show ?thesis
    using pc_get [of "(dev, ino)" out_sz "fold pc_call calls path_cache_init"] unfolding fst_conv snd_conv by (simp split: option.splits)
qed

theorem path_cache_is_a_map_witness:
  "path_cache_get 1 2 4096 (fold pc_call [((1, 2), Some ''/a''), ((3, 4), Some ''/b''), ((3, 4), None)] path_cache_init) = ''/a''
   \<and> path_cache_get 3 4 4096 (fold pc_call [((1, 2), Some ''/a''), ((3, 4), Some ''/b''), ((3, 4), None)] path_cache_init) = ''<ino=4>''"
proof -
  have few: "pc_puts [((1, 2), Some ''/a''), ((3, 4), Some ''/b''), ((3, 4), None)] \<le> PATH_CACHE_CAP"
    by (simp add: pc_puts_def PATH_CACHE_CAP_def)
  have four: "dec 4 = ''4''" by (simp add: dec.simps digit_char_def char_of_def bit_0)
  show ?thesis
    unfolding path_cache_is_a_map [OF few] by (simp add: pc_map_def strncpy0_def IG_MAX_PATH_def cstr_def nul_def four)
qed

definition pc_worn :: "path_cache \<Rightarrow> bool" where
  "pc_worn c \<longleftrightarrow> (\<forall>s < PATH_CACHE_CAP. pce_used (c s) \<noteq> SLOT_EMPTY)"

lemma pc_worn_absent: "pc_worn c \<Longrightarrow> slots_inv c \<Longrightarrow> pc_abs c k = None \<Longrightarrow> path_cache_put (fst k) (snd k) p c = c"
  unfolding path_cache_put_def prod.collapse pc_worn_def
  using pc_abs_None [of c k] by (intro put_loop_full) auto

lemma pc_worn_call:
  assumes "pc_worn c" and "slots_inv c"
  shows "pc_worn (pc_call x c) \<and> slots_inv (pc_call x c) \<and> (pc_abs c k = None \<longrightarrow> pc_abs (pc_call x c) k = None)"
proof (cases x)
  case (Pair k' po)
  show ?thesis
  proof (cases po)
    case None
    have "pc_touched (path_cache_remove (fst k') (snd k') c) = pc_touched c" by (simp add: path_cache_remove_def remove_loop_touched)
    then have "pc_worn (path_cache_remove (fst k') (snd k') c)" using assms(1) by (auto simp: pc_worn_def pc_touched_def)
    then show ?thesis using Pair None pc_remove [OF assms(2), of k'] by simp
  next
    case (Some p)
    show ?thesis
    proof (cases "pc_abs c k' = None")
      case True
      then show ?thesis using Pair Some pc_worn_absent [OF assms True] assms by simp
    next
      case False
      have "pc_worn (path_cache_put (fst k') (snd k') p c)"
        using put_loop_shape [of None c PATH_CACHE_CAP "path_cache_hash (fst k') (snd k')" 0 "(fst k', snd k')" p] assms(1)
        unfolding path_cache_put_def pc_worn_def by (auto split: if_splits)
      then show ?thesis using Pair Some False pc_put [OF assms(2), of k' p] by auto
    qed
  qed
qed

text \<open>Tombstones never become free: once all 16384 slots have been used, a key the table does not hold
  is never stored, however many of the others have been removed, and stays so over every later
  sequence of stores and removals of other keys.\<close>

theorem worn_path_cache_learns_nothing:
  assumes "slots_inv c" and "pc_worn c" and "pc_abs c (dev, ino) = None"
  shows "path_cache_get dev ino out_sz (fold pc_call calls c) = take (out_sz - 1) (''<ino='' @ dec (unat ino) @ ''>'')"
proof -
  have "pc_abs (fold pc_call calls c) (dev, ino) = None"
    using assms by (induction calls arbitrary: c) (simp_all add: pc_worn_call)
  then show ?thesis using pc_get [of "(dev, ino)" out_sz] by simp
qed

theorem worn_path_cache_learns_nothing_witness:
  "path_cache_get 1 2 4096 (fold pc_call [((1, 2), Some ''/a'')] (\<lambda>_. \<lparr>pce_dev = 0, pce_ino = 0, pce_path = [], pce_used = SLOT_DELETED\<rparr>))
   = ''<ino=2>''"
proof -
  let ?c = "(\<lambda>_. \<lparr>pce_dev = 0, pce_ino = 0, pce_path = [], pce_used = SLOT_DELETED\<rparr>) :: path_cache"
  have none: "\<not> key_at ?c s k" for s k by (simp add: key_at_def)
  have inv: "slots_inv ?c" unfolding slots_inv_def by (simp add: none)
  have two: "dec 2 = ''2''" by (simp add: dec.simps digit_char_def char_of_def bit_0)
  show ?thesis
    using worn_path_cache_learns_nothing [OF inv, of 1 2 4096 "[((1, 2), Some ''/a'')]"] pc_abs_None [OF inv, of "(1, 2)"]
    by (simp add: pc_worn_def none two)
qed

section \<open>What is suppressed\<close>

type_synonym dedup_event = "(u64 \<times> u64 \<times> u32) \<times> u64"

text \<open>The events let through so far, latest first, and the table.\<close>

definition dedup_step :: "dedup_event \<Rightarrow> dedup_event list \<times> hook_dedup \<Rightarrow> dedup_event list \<times> hook_dedup" where
  "dedup_step ev st =
     (case hook_dedup_check (fst (fst ev)) (fst (snd (fst ev))) (snd (snd (fst ev))) (snd ev) (snd st) of
        (suppress, t) \<Rightarrow> (if suppress then fst st else ev # fst st, t))"

definition dedup_inv :: "dedup_event list \<times> hook_dedup \<Rightarrow> bool" where
  "dedup_inv st \<longleftrightarrow> (\<forall>s. hd_used (snd st s) \<longrightarrow>
     ((hd_dev (snd st s), hd_ino (snd st s), hd_op_mask (snd st s)), hd_last_ts_ns (snd st s)) \<in> set (fst st))"

lemma dedup_step_inv: "dedup_inv st \<Longrightarrow> dedup_inv (dedup_step ev st)"
  by (cases st) (auto simp: dedup_step_def hook_dedup_check_def dedup_inv_def Let_def)

lemma dedup_run_inv: "dedup_inv st \<Longrightarrow> dedup_inv (fold dedup_step evs st)"
  by (induction evs arbitrary: st) (simp_all add: dedup_step_inv)

lemma dedup_init_inv: "dedup_inv ([], hook_dedup_init)"
  by (simp add: dedup_inv_def hook_dedup_init_def)

text \<open>An event is suppressed only if one of the same inode and operations was let through whose time
  stamp is less than 200 ms behind, whatever events collided with it in the table in between; and
  right after an event was let through, its repetition within the window is suppressed.\<close>

theorem dedup_suppresses_repeats:
  assumes "fold dedup_step evs ([], hook_dedup_init) = (passed, t)"
  shows "(fst (hook_dedup_check dev ino op_mask ts t) \<longrightarrow>
        (\<exists>ts0. ((dev, ino, op_mask), ts0) \<in> set passed \<and> ts - ts0 < HOOK_DEDUP_WIN_NS))
    \<and> (\<not> fst (hook_dedup_check dev ino op_mask ts t) \<longrightarrow> ts' - ts < HOOK_DEDUP_WIN_NS \<longrightarrow>
        fst (hook_dedup_check dev ino op_mask ts' (snd (hook_dedup_check dev ino op_mask ts t))))"
proof -
  have "dedup_inv (passed, t)" using dedup_run_inv [OF dedup_init_inv, of evs] assms by simp
  then have slot: "hd_used (t s) \<Longrightarrow> ((hd_dev (t s), hd_ino (t s), hd_op_mask (t s)), hd_last_ts_ns (t s)) \<in> set passed" for s
    by (simp add: dedup_inv_def)
  show ?thesis
    using slot [of "hook_dedup_hash dev ino op_mask"] unfolding hook_dedup_check_def Let_def fst_conv snd_conv
    by (intro conjI impI exI [of _ "hd_last_ts_ns (t (hook_dedup_hash dev ino op_mask))"]) auto
qed

theorem dedup_suppresses_repeats_witness:
  "fst (hook_dedup_check 1 2 4 900 (snd (hook_dedup_check 1 2 4 500 hook_dedup_init)))"
  using dedup_suppresses_repeats [of "[]" "[]" hook_dedup_init 1 2 4 500 900]
  by (simp add: HOOK_DEDUP_WIN_NS_def)

end
