(* ===== verification/Ebpf_User.thy ===== *)
theory Ebpf_User
  imports Ebpf_Paths Pid_Ancestry Walker Event_Queue "HOL-Library.Signed_Division"
begin

text \<open>
  The user space of the eBPF backend: \<^verbatim>\<open>Agent/src/ebpf/ig_trace.c\<close>, without its two tables (\<open>Ebpf_Paths\<close>).
  Policies are put on every inode of a watched tree; records from the ring buffer become events of the
  agent's queue.  The state holds the globals of the file, the queue and the kernel's maps.  A watched
  tree is walked without a bound on its depth, so the walks take fuel and \<open>None\<close> means it ran out.
\<close>

section \<open>State\<close>

text \<open>The arguments of the alert that is logged for a record.\<close>

record ebpf_alert =
  ea_outcome :: string
  ea_op :: string
  ea_hook :: string
  ea_path :: string
  ea_pid :: u32
  ea_uid :: u32
  ea_comm :: string
  ea_chain :: "(int \<times> string) cres"

record ebpf_user =
  eu_skel :: bool
  eu_rb :: bool
  eu_running :: bool
  eu_paths :: path_cache
  eu_dedup :: hook_dedup
  eu_cached :: int
  eu_ctr :: u64
  eu_queue :: "ig_event ig_event_queue option"
  eu_alerts :: "ebpf_alert list"
  eu_kern :: bpf

definition fresh_bpf :: bpf where
  "fresh_bpf = \<lparr>bp_policy = [], bp_ring = [], bp_stats = (\<lambda>_. 0), bp_procs = (\<lambda>_. None)\<rparr>"

definition ebpf_user_init :: ebpf_user where
  "ebpf_user_init = \<lparr>eu_skel = False, eu_rb = False, eu_running = True, eu_paths = path_cache_init, eu_dedup = hook_dedup_init,
     eu_cached = 0, eu_ctr = 0, eu_queue = None, eu_alerts = [], eu_kern = fresh_bpf\<rparr>"

section \<open>Ancestry\<close>

definition bpf_proc_info :: "ig_proc_entry \<Rightarrow> ig_proc_info" where
  "bpf_proc_info e =
     zero_proc_info\<lparr>pi_pid := be_pid e, pi_ppid := be_ppid e, pi_uid := be_uid e, pi_euid := be_euid e, pi_sid := be_sid e,
       pi_start_time_ns := be_start_time_ns e, pi_comm := strncpy0 IG_PA_COMM_LEN (be_comm e),
       pi_tty := strncpy0 IG_PA_TTY_LEN (be_tty e), pi_cmdline := strncpy0 IG_PA_CMDLINE_LEN (be_cmdline e)\<rparr>"

text \<open>One turn of the loop: the process map, or \<^verbatim>\<open>/proc\<close>.\<close>

definition ebpf_look :: "(u32 \<Rightarrow> ig_proc_entry option) option \<Rightarrow> boot_meta \<Rightarrow> proc_fs \<Rightarrow> u32 \<Rightarrow> ig_proc_info option" where
  "ebpf_look procs m fs cur =
     (case (case procs of None \<Rightarrow> None | Some ps \<Rightarrow> ps cur) of
        Some e \<Rightarrow> Some (ig_pa_enrich_entry fs (bpf_proc_info e))
      | None \<Rightarrow>
          let tmp = ig_pa_resolve m fs cur
          in if c_depth tmp > 0 then Some (c_chain tmp ! 0) else None)"

definition ig_ebpf_chain_collect :: "(u32 \<Rightarrow> ig_proc_entry option) option \<Rightarrow> boot_meta \<Rightarrow> proc_fs \<Rightarrow> u32 \<Rightarrow> ig_pid_chain" where
  "ig_ebpf_chain_collect procs m fs start_pid =
     (if sint start_pid \<le> 0 then zero_chain
      else case walk (ebpf_look procs m fs) pa_root pi_ppid IG_PA_MAX_DEPTH start_pid of (es, trunc) \<Rightarrow>
        \<lparr>c_depth = int (length es), c_truncated = (if trunc then 1 else 0),
         c_chain = take IG_PA_MAX_DEPTH (es @ replicate IG_PA_MAX_DEPTH zero_proc_info)\<rparr>)"

section \<open>Policies\<close>

definition op_mask_to_str :: "u32 \<Rightarrow> string" where
  "op_mask_to_str op =
     (if op = IG_EBPF_OP_READ then ''READ'' else if op = IG_EBPF_OP_WRITE then ''WRITE''
      else if op = IG_EBPF_OP_DELETE then ''DELETE'' else if op = IG_EBPF_OP_ATTR then ''ATTR'' else ''MULTI'')"

definition hook_id_to_str :: "u32 \<Rightarrow> string" where
  "hook_id_to_str h =
     (if h = 1 then ''file_permission'' else if h = 2 then ''file_open'' else if h = 3 then ''path_unlink''
      else if h = 4 then ''path_rename'' else if h = 5 then ''path_truncate'' else if h = 6 then ''path_chmod''
      else if h = 7 then ''inode_setattr'' else ''unknown'')"

definition on_policy :: "(policy_map \<Rightarrow> int \<times> policy_map) \<Rightarrow> ebpf_user \<Rightarrow> int \<times> ebpf_user" where
  "on_policy f u = (case f (bp_policy (eu_kern u)) of (rc, m) \<Rightarrow> (rc, u\<lparr>eu_kern := (eu_kern u)\<lparr>bp_policy := m\<rparr>\<rparr>))"

definition add_policy_inode :: "u64 \<Rightarrow> u64 \<Rightarrow> u32 \<Rightarrow> u32 \<Rightarrow> ebpf_user \<Rightarrow> int \<times> ebpf_user" where
  "add_policy_inode dev ino msk block u =
     (if \<not> eu_skel u then (-1, u) else on_policy (policy_map_update (dev, ino) \<lparr>ip_mask = msk, ip_block = block\<rparr>) u)"

definition remove_policy_inode :: "u64 \<Rightarrow> u64 \<Rightarrow> ebpf_user \<Rightarrow> int \<times> ebpf_user" where
  "remove_policy_inode dev ino u = (if \<not> eu_skel u then (-1, u) else on_policy (policy_map_delete (dev, ino)) u)"

text \<open>\<^verbatim>\<open>snprintf(child, sizeof(child), "%s/%s", path, ent->d_name)\<close>, cut to the buffer.\<close>

definition child_path :: "string \<Rightarrow> string \<Rightarrow> string" where
  "child_path path name = take (IG_MAX_PATH - 1) (path @ ''/'' @ name)"

fun remove_path_internal :: "nat \<Rightarrow> fs \<Rightarrow> string \<Rightarrow> bool \<Rightarrow> ebpf_user \<Rightarrow> (int \<times> ebpf_user) option"
and ebpf_remove_entries :: "nat \<Rightarrow> fs \<Rightarrow> string \<Rightarrow> string list \<Rightarrow> ebpf_user \<Rightarrow> ebpf_user option" where
  "remove_path_internal 0 fs path recursive u = None"
| "remove_path_internal (Suc n) fs path recursive u =
     (case fs_lstat fs path of
        None \<Rightarrow> Some (-1, u)
      | Some st \<Rightarrow>
          (let kdev = stat_dev_to_kernel (st_dev st); kino = st_ino st;
               u = u\<lparr>eu_paths := path_cache_remove kdev kino (eu_paths u)\<rparr>;
               u = snd (remove_policy_inode kdev kino u)
           in if \<not> recursive \<or> \<not> is_dir st then Some (0, u)
              else (case fs_readdir fs path of
                      None \<Rightarrow> Some (-1, u)
                    | Some names \<Rightarrow> map_option (\<lambda>u. (0, u)) (ebpf_remove_entries n fs path names u))))"
| "ebpf_remove_entries n fs path [] u = Some u"
| "ebpf_remove_entries n fs path (e # es) u =
     (if e = ''.'' \<or> e = ''..'' then ebpf_remove_entries n fs path es u
      else (case remove_path_internal n fs (child_path path e) True u of
              None \<Rightarrow> None
            | Some (rc, u) \<Rightarrow> ebpf_remove_entries n fs path es u))"

fun add_path_internal :: "nat \<Rightarrow> fs \<Rightarrow> string \<Rightarrow> u32 \<Rightarrow> u32 \<Rightarrow> bool \<Rightarrow> ebpf_user \<Rightarrow> (int \<times> ebpf_user) option"
and ebpf_add_entries :: "nat \<Rightarrow> fs \<Rightarrow> string \<Rightarrow> u32 \<Rightarrow> u32 \<Rightarrow> string list \<Rightarrow> ebpf_user \<Rightarrow> ebpf_user option" where
  "add_path_internal 0 fs path msk block recursive u = None"
| "add_path_internal (Suc n) fs path msk block recursive u =
     (case fs_lstat fs path of
        None \<Rightarrow> Some (-1, u)
      | Some st \<Rightarrow>
          (let kdev = stat_dev_to_kernel (st_dev st); kino = st_ino st;
               u = (case add_policy_inode kdev kino msk block u of
                      (rc, u) \<Rightarrow> if rc = 0 then u\<lparr>eu_paths := path_cache_put kdev kino path (eu_paths u)\<rparr> else u)
           in if \<not> recursive \<or> \<not> is_dir st then Some (0, u)
              else (case fs_readdir fs path of
                      None \<Rightarrow> Some (-1, u)
                    | Some names \<Rightarrow> map_option (\<lambda>u. (0, u)) (ebpf_add_entries n fs path msk block names u))))"
| "ebpf_add_entries n fs path msk block [] u = Some u"
| "ebpf_add_entries n fs path msk block (e # es) u =
     (if e = ''.'' \<or> e = ''..'' then ebpf_add_entries n fs path msk block es u
      else (case add_path_internal n fs (child_path path e) msk block True u of
              None \<Rightarrow> None
            | Some (rc, u) \<Rightarrow> ebpf_add_entries n fs path msk block es u))"

definition ebpf_policy_add_path_recursive :: "nat \<Rightarrow> fs \<Rightarrow> string \<Rightarrow> u32 \<Rightarrow> u32 \<Rightarrow> ebpf_user \<Rightarrow> (int \<times> ebpf_user) option" where
  "ebpf_policy_add_path_recursive n fs path msk block u = add_path_internal n fs path msk block True u"

definition ebpf_policy_add_path :: "nat \<Rightarrow> fs \<Rightarrow> string \<Rightarrow> u32 \<Rightarrow> u32 \<Rightarrow> ebpf_user \<Rightarrow> (int \<times> ebpf_user) option" where
  "ebpf_policy_add_path n fs path msk block u = add_path_internal n fs path msk block False u"

definition ebpf_policy_remove_path :: "nat \<Rightarrow> fs \<Rightarrow> string \<Rightarrow> ebpf_user \<Rightarrow> (int \<times> ebpf_user) option" where
  "ebpf_policy_remove_path n fs path u = remove_path_internal n fs path False u"

definition ebpf_policy_remove_path_recursive :: "nat \<Rightarrow> fs \<Rightarrow> string \<Rightarrow> ebpf_user \<Rightarrow> (int \<times> ebpf_user) option" where
  "ebpf_policy_remove_path_recursive n fs path u = remove_path_internal n fs path True u"

text \<open>The result and the policy written through the two pointers.\<close>

definition ebpf_policy_has_path :: "fs \<Rightarrow> string \<Rightarrow> ebpf_user \<Rightarrow> int \<times> inode_policy option" where
  "ebpf_policy_has_path fs path u =
     (if \<not> eu_skel u then (-1, None)
      else case fs_lstat fs path of
        None \<Rightarrow> (-1, None)
      | Some st \<Rightarrow>
          (case map_of (bp_policy (eu_kern u)) (stat_dev_to_kernel (st_dev st), st_ino st) of
             None \<Rightarrow> (0, None)
           | Some value \<Rightarrow> (1, Some value)))"

section \<open>Events\<close>

definition op_to_ig_type :: "u32 \<Rightarrow> u32" where
  "op_to_ig_type op =
     (if op AND IG_EBPF_OP_DELETE \<noteq> 0 then IG_EVENT_DELETE
      else if op AND IG_EBPF_OP_WRITE \<noteq> 0 then IG_EVENT_MODIFY
      else if op AND IG_EBPF_OP_ATTR \<noteq> 0 then IG_EVENT_ATTRIB
      else IG_EVENT_ACCESS)"

text \<open>What the outside gives while a record is handled: the two clocks (seconds and nanoseconds) and \<^verbatim>\<open>/proc\<close>.\<close>

record event_env =
  ee_real :: "(int \<times> int) option"
  ee_mono :: "(int \<times> int) option"
  ee_boot :: boot_meta
  ee_proc :: proc_fs

definition ig_mono_to_real_offset_ns :: "event_env \<Rightarrow> ebpf_user \<Rightarrow> int \<times> ebpf_user" where
  "ig_mono_to_real_offset_ns env u =
     (let u = (if eu_ctr u AND 0x3FF = 0
               then (case (ee_real env, ee_mono env) of
                       (Some (rs, rn), Some (ms, mn)) \<Rightarrow> u\<lparr>eu_cached := (rs - ms) * 1000000000 + (rn - mn)\<rparr>
                     | _ \<Rightarrow> u)
               else u);
          u = u\<lparr>eu_ctr := eu_ctr u + 1\<rparr>
      in (eu_cached u, u))"

text \<open>The text behind the last slash, or all of it.\<close>

definition base_name :: "string \<Rightarrow> string" where
  "base_name path = rev (takeWhile (\<lambda>c. c \<noteq> CHR ''/'') (rev path))"

definition audit_to_event :: "audit_event \<Rightarrow> string \<Rightarrow> ig_pid_chain \<Rightarrow> int \<Rightarrow> ig_event" where
  "audit_to_event e path chain offset =
     zero_event\<lparr>ev_type := op_to_ig_type (ae_op_mask e), ev_source := IG_SOURCE_EBPF,
       ev_timestamp := (sint (ae_ts_ns e) + offset) sdiv 1000000000,
       ev_pid := ae_pid e, ev_uid := ae_uid e, ev_dev := ae_dev e, ev_ino := ae_ino e, ev_blocked := sint (ae_denied e),
       ev_chain := chain, ev_sid := (if c_depth chain > 0 then pi_sid (c_chain chain ! 0) else 0),
       ev_path := strncpy0 IG_MAX_PATH path, ev_comm := strncpy0 16 (ae_comm e),
       ev_filename := strncpy0 256 (base_name path)\<rparr>"

text \<open>\<open>None\<close> is a record shorter than the structure.\<close>

definition handle_audit_event :: "event_env \<Rightarrow> audit_event option \<Rightarrow> ebpf_user \<Rightarrow> ebpf_user" where
  "handle_audit_event env data u =
     (case data of None \<Rightarrow> u
      | Some e \<Rightarrow>
          (case hook_dedup_check (ae_dev e) (ae_ino e) (ae_op_mask e) (ae_ts_ns e) (eu_dedup u) of (suppress, t) \<Rightarrow>
             let u = u\<lparr>eu_dedup := t\<rparr>
             in if suppress then u
             else
               (let path = path_cache_get (ae_dev e) (ae_ino e) IG_MAX_PATH (eu_paths u);
                    chain = ig_ebpf_chain_collect (if eu_skel u then Some (bp_procs (eu_kern u)) else None)
                              (ee_boot env) (ee_proc env) (ae_pid e);
                    u = u\<lparr>eu_alerts := eu_alerts u @
                          [\<lparr>ea_outcome = (if ae_denied e \<noteq> 0 then ''DENY'' else ''AUDIT''), ea_op = op_mask_to_str (ae_op_mask e),
                            ea_hook = hook_id_to_str (ae_hook_id e), ea_path = path, ea_pid = ae_pid e, ea_uid = ae_uid e,
                            ea_comm = ae_comm e, ea_chain = ig_pa_format_full chain 8192\<rparr>]\<rparr>;
                    u = (if ae_hook_id e = IG_HOOK_PATH_UNLINK \<and> ae_denied e = 0
                         then (let u = snd (remove_policy_inode (ae_dev e) (ae_ino e) u)
                               in u\<lparr>eu_paths := path_cache_remove (ae_dev e) (ae_ino e) (eu_paths u)\<rparr>)
                         else u)
                in (case eu_queue u of
                      None \<Rightarrow> u
                    | Some q \<Rightarrow>
                        (case ig_mono_to_real_offset_ns env u of (offset, u) \<Rightarrow>
                           u\<lparr>eu_queue := Some (ig_queue_push q (audit_to_event e path chain offset))\<rparr>)))))"

section \<open>Life cycle\<close>

text \<open>What the generated skeleton and the ring buffer constructor answer.\<close>

record bpf_load =
  bl_open :: bool
  bl_load :: int
  bl_attach :: int
  bl_ring :: bool

definition ebpf_policy_init :: "bpf_load \<Rightarrow> ig_event ig_event_queue option \<Rightarrow> ebpf_user \<Rightarrow> int \<times> ebpf_user" where
  "ebpf_policy_init l queue u =
     (if \<not> bl_open l then (-1, u\<lparr>eu_skel := False\<rparr>)
      else let u = u\<lparr>eu_skel := True\<rparr>
      in if bl_load l \<noteq> 0 then (-1, u\<lparr>eu_skel := False\<rparr>)
      else let u = u\<lparr>eu_kern := fresh_bpf\<rparr>
      in if bl_attach l \<noteq> 0 then (-1, u\<lparr>eu_skel := False\<rparr>)
      else let u = u\<lparr>eu_rb := bl_ring l\<rparr>
      in if \<not> bl_ring l then (-1, u\<lparr>eu_skel := False\<rparr>)
      else (0, u\<lparr>eu_queue := queue\<rparr>))"

text \<open>
  \<^verbatim>\<open>ring_buffer__poll\<close>: below zero it consumed nothing, else the callback ran on every record of the
  ring, in order.
\<close>

definition ring_poll :: "int \<Rightarrow> event_env list \<Rightarrow> ebpf_user \<Rightarrow> ebpf_user" where
  "ring_poll err envs u =
     (if err < 0 then u
      else fold (\<lambda>(env, e). handle_audit_event env (Some e)) (zip envs (bp_ring (eu_kern u)))
             (u\<lparr>eu_kern := (eu_kern u)\<lparr>bp_ring := drop (length envs) (bp_ring (eu_kern u))\<rparr>\<rparr>))"

text \<open>
  The loop: before each turn the calls the kernel checked meanwhile, then \<open>g_running\<close>, the result of the
  poll and the surroundings of the records it delivers.
\<close>

record poll_turn =
  pt_calls :: "(bpf_ctx \<times> bpf_call \<times> int) list"
  pt_stop :: bool
  pt_err :: int
  pt_envs :: "event_env list"

definition kernel_calls :: "(bpf_ctx \<times> bpf_call \<times> int) list \<Rightarrow> ebpf_user \<Rightarrow> ebpf_user" where
  "kernel_calls cs u =
     (if \<not> eu_skel u then u
      else u\<lparr>eu_kern := fold (\<lambda>(cx, c, ret). \<lambda>s. snd (bpf_check cx c ret s)) cs (eu_kern u)\<rparr>)"

definition ebpf_policy_stop :: "ebpf_user \<Rightarrow> ebpf_user" where
  "ebpf_policy_stop u = u\<lparr>eu_running := False\<rparr>"

definition EINTR :: int where "EINTR = 4"

fun ebpf_poll_thread :: "poll_turn list \<Rightarrow> ebpf_user \<Rightarrow> ebpf_user" where
  "ebpf_poll_thread [] u = u"
| "ebpf_poll_thread (t # ts) u =
     (let u = kernel_calls (pt_calls t) (if pt_stop t then ebpf_policy_stop u else u)
      in if \<not> eu_running u then u
      else (let u = ring_poll (pt_err t) (pt_envs t) u
            in if pt_err t = - EINTR then ebpf_poll_thread ts u
               else if pt_err t < 0 then u
               else ebpf_poll_thread ts u))"

definition ebpf_policy_cleanup :: "ebpf_user \<Rightarrow> ebpf_user" where
  "ebpf_policy_cleanup u =
     (let u = (if eu_rb u then u\<lparr>eu_rb := False\<rparr> else u)
      in if eu_skel u then u\<lparr>eu_skel := False\<rparr> else u)"

section \<open>The nodes of a tree\<close>

text \<open>
  The specification of both walks: the plain listing of a tree, each node with its path and its key, a directory before its
  entries.
\<close>

definition node_key :: "stat \<Rightarrow> inode_key" where
  "node_key st = (stat_dev_to_kernel (st_dev st), st_ino st)"

fun nodes :: "nat \<Rightarrow> fs \<Rightarrow> bool \<Rightarrow> string \<Rightarrow> (string \<times> inode_key) list option"
and node_entries :: "nat \<Rightarrow> fs \<Rightarrow> string \<Rightarrow> string list \<Rightarrow> (string \<times> inode_key) list option" where
  "nodes 0 fs rcs path = None"
| "nodes (Suc n) fs rcs path =
     (case fs_lstat fs path of
        None \<Rightarrow> Some []
      | Some st \<Rightarrow>
          if \<not> rcs \<or> \<not> is_dir st then Some [(path, node_key st)]
          else (case fs_readdir fs path of
                  None \<Rightarrow> Some [(path, node_key st)]
                | Some names \<Rightarrow> map_option (Cons (path, node_key st)) (node_entries n fs path names)))"
| "node_entries n fs path [] = Some []"
| "node_entries n fs path (e # es) =
     (if e = ''.'' \<or> e = ''..'' then node_entries n fs path es
      else (case nodes n fs True (child_path path e) of
              None \<Rightarrow> None
            | Some xs \<Rightarrow> map_option ((@) xs) (node_entries n fs path es)))"

definition top_rc :: "fs \<Rightarrow> bool \<Rightarrow> string \<Rightarrow> int" where
  "top_rc fs rcs path =
     (case fs_lstat fs path of None \<Rightarrow> -1 | Some st \<Rightarrow> if rcs \<and> is_dir st \<and> fs_readdir fs path = None then -1 else 0)"

definition add_node :: "u32 \<Rightarrow> u32 \<Rightarrow> string \<times> inode_key \<Rightarrow> ebpf_user \<Rightarrow> ebpf_user" where
  "add_node msk block x u =
     (case add_policy_inode (fst (snd x)) (snd (snd x)) msk block u of
        (rc, u) \<Rightarrow> if rc = 0 then u\<lparr>eu_paths := path_cache_put (fst (snd x)) (snd (snd x)) (fst x) (eu_paths u)\<rparr> else u)"

definition remove_node :: "string \<times> inode_key \<Rightarrow> ebpf_user \<Rightarrow> ebpf_user" where
  "remove_node x u =
     snd (remove_policy_inode (fst (snd x)) (snd (snd x))
       (u\<lparr>eu_paths := path_cache_remove (fst (snd x)) (snd (snd x)) (eu_paths u)\<rparr>))"

lemma node_steps:
  "(case add_policy_inode (stat_dev_to_kernel (st_dev st)) (st_ino st) msk block u of
      (rc, u) \<Rightarrow> if rc = 0 then u\<lparr>eu_paths := path_cache_put (stat_dev_to_kernel (st_dev st)) (st_ino st) path (eu_paths u)\<rparr> else u)
     = add_node msk block (path, node_key st) u"
  "snd (remove_policy_inode (stat_dev_to_kernel (st_dev st)) (st_ino st)
      (u\<lparr>eu_paths := path_cache_remove (stat_dev_to_kernel (st_dev st)) (st_ino st) (eu_paths u)\<rparr>))
     = remove_node (path, node_key st) u"
  by (simp_all add: add_node_def remove_node_def node_key_def split_def)

lemma add_is_fold:
  "add_path_internal n fs path msk block rcs u
     = map_option (\<lambda>ns. (top_rc fs rcs path, fold (add_node msk block) ns u)) (nodes n fs rcs path)"
  "ebpf_add_entries n fs path msk block es u = map_option (\<lambda>ns. fold (add_node msk block) ns u) (node_entries n fs path es)"
proof (induction n fs rcs path and n fs path es arbitrary: u and u rule: nodes_node_entries.induct)
  case (2 n fs rcs path)
  then show ?case
    by (auto simp: Let_def top_rc_def node_steps option.map_comp o_def split: option.splits)
next
  case (4 n fs path e es)
  show ?case
  proof (cases "e = ''.'' \<or> e = ''..''")
    case True
    then show ?thesis using "4.IH"(1) by auto
  next
    case False
    show ?thesis
    proof (cases "nodes n fs True (child_path path e)")
      case None
      then show ?thesis using False "4.IH"(2) by simp
    next
      case (Some xs)
      then show ?thesis using False "4.IH"(2) "4.IH"(3) by (simp add: option.map_comp o_def)
    qed
  qed
qed simp_all

lemma remove_is_fold:
  "remove_path_internal n fs path rcs u
     = map_option (\<lambda>ns. (top_rc fs rcs path, fold remove_node ns u)) (nodes n fs rcs path)"
  "ebpf_remove_entries n fs path es u = map_option (\<lambda>ns. fold remove_node ns u) (node_entries n fs path es)"
proof (induction n fs rcs path and n fs path es arbitrary: u and u rule: nodes_node_entries.induct)
  case (2 n fs rcs path)
  then show ?case
    by (auto simp: Let_def top_rc_def node_steps(2) [where path = path] option.map_comp o_def split: option.splits)
next
  case (4 n fs path e es)
  show ?case
  proof (cases "e = ''.'' \<or> e = ''..''")
    case True
    then show ?thesis using "4.IH"(1) by auto
  next
    case False
    show ?thesis
    proof (cases "nodes n fs True (child_path path e)")
      case None
      then show ?thesis using False "4.IH"(2) by simp
    next
      case (Some xs)
      then show ?thesis using False "4.IH"(2) "4.IH"(3) by (simp add: option.map_comp o_def)
    qed
  qed
qed simp_all

section \<open>When a walk ends\<close>

text \<open>Names that fit: every entry of a directory gives a path that is not cut.\<close>

definition names_fit :: "fs \<Rightarrow> bool" where
  "names_fit fs \<longleftrightarrow> (\<forall>p names e. fs_readdir fs p = Some names \<longrightarrow> e \<in> set names \<longrightarrow> e \<noteq> ''.'' \<longrightarrow> e \<noteq> ''..'' \<longrightarrow>
     length (p @ ''/'' @ e) < IG_MAX_PATH)"

lemma child_path_longer:
  assumes "names_fit fs" and "fs_readdir fs p = Some names" and "e \<in> set names" and "\<not> (e = ''.'' \<or> e = ''..'')"
  shows "length p < length (child_path p e) \<and> length (child_path p e) < IG_MAX_PATH"
proof -
  have "length (p @ ''/'' @ e) < IG_MAX_PATH" using assms unfolding names_fit_def by blast
  then show ?thesis by (simp add: child_path_def)
qed

lemma nodes_enough:
  "names_fit fs \<Longrightarrow> length path < IG_MAX_PATH \<Longrightarrow> IG_MAX_PATH \<le> n + length path \<Longrightarrow> \<exists>ns. nodes n fs rcs path = Some ns"
  "names_fit fs \<Longrightarrow> (\<And>e. e \<in> set es \<Longrightarrow> \<not> (e = ''.'' \<or> e = ''..'') \<Longrightarrow>
      length path < length (child_path path e) \<and> length (child_path path e) < IG_MAX_PATH) \<Longrightarrow>
     IG_MAX_PATH \<le> Suc n + length path \<Longrightarrow> \<exists>ns. node_entries n fs path es = Some ns"
proof (induction n fs rcs path and n fs path es rule: nodes_node_entries.induct)
  case (2 n fs rcs path)
  show ?case
  proof (cases "\<exists>st names. fs_lstat fs path = Some st \<and> rcs \<and> is_dir st \<and> fs_readdir fs path = Some names")
    case True
    then obtain st names where d: "fs_lstat fs path = Some st" "rcs" "is_dir st" "fs_readdir fs path = Some names" by blast
    have "\<exists>ns. node_entries n fs path names = Some ns"
      using "2.prems" d by (intro "2.IH" [OF d(1) _ d(4)] child_path_longer [OF "2.prems"(1) d(4)]) auto
    then show ?thesis using d by auto
  next
    case False
    then show ?thesis by (auto split: option.splits)
  qed
next
  case (4 n fs path e es)
  show ?case
  proof (cases "e = ''.'' \<or> e = ''..''")
    case True
    then show ?thesis using "4.IH"(1) "4.prems" by simp
  next
    case False
    have f: "length path < length (child_path path e)" "length (child_path path e) < IG_MAX_PATH"
      using "4.prems"(2) [of e] False by auto
    have "\<exists>xs. nodes n fs True (child_path path e) = Some xs"
      using "4.prems" f by (intro "4.IH"(2) [OF False]) auto
    then obtain xs where xs: "nodes n fs True (child_path path e) = Some xs" by blast
    have "\<exists>ns. node_entries n fs path es = Some ns" using "4.prems" by (intro "4.IH"(3) [OF False xs]) auto
    then show ?thesis using False xs by auto
  qed
qed simp_all

lemma node_entries_fail: "e \<in> set es \<Longrightarrow> e \<noteq> ''.'' \<Longrightarrow> e \<noteq> ''..'' \<Longrightarrow> nodes n fs True (child_path path e) = None \<Longrightarrow>
    node_entries n fs path es = None"
  by (induction es) (auto split: option.splits)

text \<open>A full path buffer: the entry is cut off and the child is the directory itself.\<close>

lemma nodes_endless:
  assumes "length path = IG_MAX_PATH - 1" and "fs_lstat fs path = Some st" and "is_dir st"
    and "fs_readdir fs path = Some names" and "e \<in> set names" "e \<noteq> ''.''" "e \<noteq> ''..''"
  shows "nodes n fs True path = None"
proof (induction n)
  case (Suc n)
  have "child_path path e = path" using assms(1) by (simp add: child_path_def)
  then have "node_entries n fs path names = None" using Suc node_entries_fail [OF assms(5-7)] by simp
  then show ?case using assms by simp
qed simp

end
