(* ===== verification/Ebpf_System.thy ===== *)
theory Ebpf_System
  imports Ebpf_User Event_Path
begin

text \<open>
  What the two halves of the eBPF backend do together: the walks of \<open>Ebpf_User\<close> fill the policy map and the path cache,
  the programs of \<open>Ebpf_Kernel\<close> enforce the map, and their records come back as events.
\<close>

abbreviation pol :: "ebpf_user \<Rightarrow> policy_map" where
  "pol u \<equiv> bp_policy (eu_kern u)"

section \<open>The policies of a listing\<close>

lemma map_room: "map_inv m \<Longrightarrow> card (dom (map_of m) \<union> K) \<le> POLICY_MAP_MAX \<Longrightarrow> finite K \<Longrightarrow> k \<in> K \<Longrightarrow>
    map_of m k = None \<Longrightarrow> length m < POLICY_MAP_MAX"
proof -
  assume inv: "map_inv m" and c: "card (dom (map_of m) \<union> K) \<le> POLICY_MAP_MAX" and K: "finite K" "k \<in> K" and n: "map_of m k = None"
  have "length m = card (dom (map_of m))"
    using inv distinct_card [of "map fst m"] by (simp add: map_inv_def dom_map_of_conv_image_fst)
  also have "\<dots> < card (dom (map_of m) \<union> K)"
    using K n by (intro psubset_card_mono) (auto simp: finite_dom_map_of)
  finally show ?thesis using c by simp
qed

definition same_but_policy :: "ebpf_user \<Rightarrow> ebpf_user \<Rightarrow> bool" where
  "same_but_policy u u' \<longleftrightarrow> u' = u\<lparr>eu_paths := eu_paths u', eu_kern := (eu_kern u)\<lparr>bp_policy := bp_policy (eu_kern u')\<rparr>\<rparr>"

lemma same_but_policy_refl [simp]: "same_but_policy u u"
  by (simp add: same_but_policy_def)

lemma same_but_policy_trans: "same_but_policy u v \<Longrightarrow> same_but_policy v w \<Longrightarrow> same_but_policy u w"
  unfolding same_but_policy_def
proof -
  assume v: "v = u\<lparr>eu_paths := eu_paths v, eu_kern := (eu_kern u)\<lparr>bp_policy := pol v\<rparr>\<rparr>"
    and w: "w = v\<lparr>eu_paths := eu_paths w, eu_kern := (eu_kern v)\<lparr>bp_policy := pol w\<rparr>\<rparr>"
  show "w = u\<lparr>eu_paths := eu_paths w, eu_kern := (eu_kern u)\<lparr>bp_policy := pol w\<rparr>\<rparr>"
    by (subst w, subst v) (subst (2) v, simp)
qed

lemma same_but_policyD: "same_but_policy u v \<Longrightarrow> eu_skel v = eu_skel u \<and> eu_queue v = eu_queue u \<and> eu_running v = eu_running u
    \<and> eu_dedup v = eu_dedup u \<and> bp_ring (eu_kern v) = bp_ring (eu_kern u)"
  unfolding same_but_policy_def by (erule ssubst) simp

lemma add_node_step:
  assumes "eu_skel u" and "map_inv (pol u)" and "map_of (pol u) k = None \<Longrightarrow> length (pol u) < POLICY_MAP_MAX"
  shows "map_inv (pol (add_node msk block (p, k) u))"
    "map_of (pol (add_node msk block (p, k) u)) = (map_of (pol u))(k \<mapsto> \<lparr>ip_mask = msk, ip_block = block\<rparr>)"
    "eu_paths (add_node msk block (p, k) u) = pc_call (k, Some p) (eu_paths u)"
    "same_but_policy u (add_node msk block (p, k) u)"
proof -
  obtain rc m where r: "policy_map_update k \<lparr>ip_mask = msk, ip_block = block\<rparr> (pol u) = (rc, m)" by fastforce
  have z: "rc = 0" using r assms(3) by (auto simp: policy_map_update_def split: if_splits)
  have a: "add_node msk block (p, k) u =
      u\<lparr>eu_kern := (eu_kern u)\<lparr>bp_policy := m\<rparr>, eu_paths := path_cache_put (fst k) (snd k) p (eu_paths u)\<rparr>"
    using assms(1) r z by (simp add: add_node_def add_policy_inode_def on_policy_def)
  show "map_inv (pol (add_node msk block (p, k) u))" using policy_map_update_inv [OF r assms(2)] by (simp add: a)
  show "map_of (pol (add_node msk block (p, k) u)) = (map_of (pol u))(k \<mapsto> \<lparr>ip_mask = msk, ip_block = block\<rparr>)"
    using policy_map_update_of r z by (simp add: a)
  show "eu_paths (add_node msk block (p, k) u) = pc_call (k, Some p) (eu_paths u)" by (simp add: a)
  show "same_but_policy u (add_node msk block (p, k) u)" by (simp add: a same_but_policy_def)
qed

lemma add_nodes:
  assumes "eu_skel u" and "map_inv (pol u)" and "card (dom (map_of (pol u)) \<union> snd ` set ns) \<le> POLICY_MAP_MAX"
  shows "map_inv (pol (fold (add_node msk block) ns u))
    \<and> map_of (pol (fold (add_node msk block) ns u))
        = (\<lambda>k. if k \<in> snd ` set ns then Some \<lparr>ip_mask = msk, ip_block = block\<rparr> else map_of (pol u) k)
    \<and> eu_paths (fold (add_node msk block) ns u) = fold pc_call (map (\<lambda>(p, k). (k, Some p)) ns) (eu_paths u)
    \<and> same_but_policy u (fold (add_node msk block) ns u)"
  using assms
proof (induction ns arbitrary: u)
  case (Cons x ns)
  obtain p k where x: "x = (p, k)" by (cases x)
  let ?u = "add_node msk block (p, k) u"
  have room: "map_of (pol u) k = None \<Longrightarrow> length (pol u) < POLICY_MAP_MAX"
    using map_room [OF Cons.prems(2,3), of k] by (simp add: x)
  note s = add_node_step [OF Cons.prems(1,2) room, of k msk block p, simplified]
  have "dom (map_of (pol ?u)) \<union> snd ` set ns = dom (map_of (pol u)) \<union> snd ` set (x # ns)"
    by (auto simp: s(2) x)
  then have "card (dom (map_of (pol ?u)) \<union> snd ` set ns) \<le> POLICY_MAP_MAX" using Cons.prems(3) by simp
  moreover have "eu_skel ?u" using same_but_policyD [OF s(4)] Cons.prems(1) by simp
  ultimately have ih: "map_inv (pol (fold (add_node msk block) ns ?u))"
    "map_of (pol (fold (add_node msk block) ns ?u))
       = (\<lambda>k. if k \<in> snd ` set ns then Some \<lparr>ip_mask = msk, ip_block = block\<rparr> else map_of (pol ?u) k)"
    "eu_paths (fold (add_node msk block) ns ?u) = fold pc_call (map (\<lambda>(p, k). (k, Some p)) ns) (eu_paths ?u)"
    "same_but_policy ?u (fold (add_node msk block) ns ?u)"
    using Cons.IH [of ?u] s(1) by simp_all
  have "map_of (pol (fold (add_node msk block) ns ?u))
      = (\<lambda>k'. if k' \<in> snd ` set (x # ns) then Some \<lparr>ip_mask = msk, ip_block = block\<rparr> else map_of (pol u) k')"
    by (rule ext) (simp add: ih(2) s(2) x)
  then show ?case using ih(1,3) s(3) same_but_policy_trans [OF s(4) ih(4)] by (simp add: x)
qed simp

lemma remove_node_step:
  assumes "eu_skel u" and "map_inv (pol u)"
  shows "map_inv (pol (remove_node (p, k) u))" "map_of (pol (remove_node (p, k) u)) = (map_of (pol u))(k := None)"
    "eu_paths (remove_node (p, k) u) = pc_call (k, None) (eu_paths u)" "same_but_policy u (remove_node (p, k) u)"
proof -
  obtain rc m where r: "policy_map_delete k (pol u) = (rc, m)" by fastforce
  have a: "remove_node (p, k) u =
      u\<lparr>eu_paths := path_cache_remove (fst k) (snd k) (eu_paths u), eu_kern := (eu_kern u)\<lparr>bp_policy := m\<rparr>\<rparr>"
    using assms(1) r by (simp add: remove_node_def remove_policy_inode_def on_policy_def)
  show "map_inv (pol (remove_node (p, k) u))" using policy_map_delete_inv [OF r assms(2)] by (simp add: a)
  show "map_of (pol (remove_node (p, k) u)) = (map_of (pol u))(k := None)" using policy_map_delete_of [OF r] by (simp add: a)
  show "eu_paths (remove_node (p, k) u) = pc_call (k, None) (eu_paths u)" by (simp add: a)
  show "same_but_policy u (remove_node (p, k) u)" by (simp add: a same_but_policy_def)
qed

lemma remove_nodes:
  assumes "eu_skel u" and "map_inv (pol u)"
  shows "map_inv (pol (fold remove_node ns u))
    \<and> map_of (pol (fold remove_node ns u)) = (\<lambda>k. if k \<in> snd ` set ns then None else map_of (pol u) k)
    \<and> eu_paths (fold remove_node ns u) = fold pc_call (map (\<lambda>(p, k). (k, None)) ns) (eu_paths u)
    \<and> same_but_policy u (fold remove_node ns u)"
  using assms
proof (induction ns arbitrary: u)
  case (Cons x ns)
  obtain p k where x: "x = (p, k)" by (cases x)
  note s = remove_node_step [OF Cons.prems, of p k]
  have "eu_skel (remove_node (p, k) u)" using same_but_policyD [OF s(4)] Cons.prems(1) by simp
  then have ih: "map_inv (pol (fold remove_node ns (remove_node (p, k) u)))"
    "map_of (pol (fold remove_node ns (remove_node (p, k) u)))
       = (\<lambda>k'. if k' \<in> snd ` set ns then None else map_of (pol (remove_node (p, k) u)) k')"
    "eu_paths (fold remove_node ns (remove_node (p, k) u)) = fold pc_call (map (\<lambda>(p, k). (k, None)) ns) (eu_paths (remove_node (p, k) u))"
    "same_but_policy (remove_node (p, k) u) (fold remove_node ns (remove_node (p, k) u))"
    using Cons.IH [of "remove_node (p, k) u"] s(1) by simp_all
  have "map_of (pol (fold remove_node ns (remove_node (p, k) u))) = (\<lambda>k'. if k' \<in> snd ` set (x # ns) then None else map_of (pol u) k')"
    by (rule ext) (simp add: ih(2) s(2) x)
  then show ?case using ih(1,3) s(3) same_but_policy_trans [OF s(4) ih(4)] by (simp add: x)
qed simp

lemma node_count: "map_inv m \<Longrightarrow> length m + length ns \<le> N \<Longrightarrow> card (dom (map_of m) \<union> snd ` set ns) \<le> N"
proof -
  assume inv: "map_inv m" and n: "length m + length ns \<le> N"
  have "card (dom (map_of m) \<union> snd ` set ns) \<le> card (fst ` set m) + card (snd ` set ns)"
    by (simp add: dom_map_of_conv_image_fst card_Un_le)
  also have "\<dots> \<le> length m + length ns"
    by (intro add_mono order.trans [OF card_image_le] card_length) simp_all
  finally show ?thesis using n by simp
qed

section \<open>Watching a tree\<close>

lemma init_state: "ebpf_policy_init l q u = (0, u') \<Longrightarrow> eu_skel u' \<and> eu_kern u' = fresh_bpf \<and> eu_queue u' = q \<and> eu_paths u' = eu_paths u"
  by (auto simp: ebpf_policy_init_def Let_def split: if_splits)

lemma fresh_map: "map_inv (bp_policy fresh_bpf)" "bp_policy fresh_bpf = []"
  by (simp_all add: fresh_bpf_def map_inv_def)

text \<open>Verdicts of the programs on a map that has one policy on a set of keys.\<close>

lemma uniform_verdict:
  assumes "map_of (bp_policy s) = (\<lambda>k. if k \<in> K then Some \<lparr>ip_mask = msk, ip_block = block\<rparr> else None)"
  shows "fst (bpf_check cx call 0 s) =
    (if block \<noteq> 0 \<and> (\<exists>(k, op, hook) \<in> set (bpf_targets call). k \<in> K \<and> msk AND op \<noteq> 0) then - EPERM else 0)"
proof -
  have "bpf_denied (bp_policy s) t \<longleftrightarrow> block \<noteq> 0 \<and> fst t \<in> K \<and> msk AND fst (snd t) \<noteq> 0" for t
    by (auto simp: bpf_denied_def assms)
  moreover have "(\<exists>(k, op, hook) \<in> set ts. k \<in> K \<and> msk AND op \<noteq> 0) \<longleftrightarrow> (\<exists>t \<in> set ts. fst t \<in> K \<and> msk AND fst (snd t) \<noteq> 0)" for ts :: "bpf_target list"
    by (simp add: split_def)
  ultimately show ?thesis using check_verdict [of cx call s] by (simp add: verdict_def)
qed

lemma watched_map:
  assumes "ebpf_policy_init l q u = (0, u0)" and "ebpf_policy_add_path_recursive n fs path msk block u0 = Some (rc, u1)"
    and "nodes n fs True path = Some ns" and "length ns \<le> POLICY_MAP_MAX"
  shows "map_of (pol u1) = (\<lambda>k. if k \<in> snd ` set ns then Some \<lparr>ip_mask = msk, ip_block = block\<rparr> else None)"
proof -
  note i = init_state [OF assms(1)]
  have "u1 = fold (add_node msk block) ns u0"
    using assms(2,3) by (simp add: ebpf_policy_add_path_recursive_def add_is_fold)
  moreover have "card (dom (map_of (pol u0)) \<union> snd ` set ns) \<le> POLICY_MAP_MAX"
    using assms(4) node_count [OF fresh_map(1), of ns] i by (simp add: fresh_map)
  ultimately show ?thesis
    using add_nodes [of u0 ns msk block] i fresh_map(1) by (simp add: fresh_map(2) fun_eq_iff del: split_paired_All)
qed

text \<open>A watched tree is enforced: after the backend starts and a tree of at most 16384 nodes is added with
  a deny policy, the programs refuse with -EPERM exactly the calls whose inodes include a node of
  the tree on which they do something the mask covers; every other call passes, and in audit mode all do.\<close>

theorem watched_tree_is_enforced:
  assumes "ebpf_policy_init l q u = (0, u0)" and "ebpf_policy_add_path_recursive n fs path msk block u0 = Some (rc, u1)"
    and "nodes n fs True path = Some ns" and "length ns \<le> POLICY_MAP_MAX"
  shows "fst (bpf_check cx call 0 (eu_kern u1)) =
    (if block \<noteq> 0 \<and> (\<exists>(k, op, hook) \<in> set (bpf_targets call). k \<in> snd ` set ns \<and> msk AND op \<noteq> 0) then - EPERM else 0)"
  by (rule uniform_verdict [OF watched_map [OF assms]])

definition one_dir :: fs where
  "one_dir = \<lparr>fs_lstat = (\<lambda>p. if p = ''/w'' then Some \<lparr>st_dev = 0x801, st_ino = 5, st_mode = 0x41ED, st_mtime = 0, st_size = 0\<rparr>
       else if p = ''/w/a'' then Some \<lparr>st_dev = 0x801, st_ino = 6, st_mode = 0x81A4, st_mtime = 0, st_size = 0\<rparr> else None),
     fs_readdir = (\<lambda>p. if p = ''/w'' then Some [''.'', ''..'', ''a''] else None)\<rparr>"

definition good_load :: bpf_load where
  "good_load = \<lparr>bl_open = True, bl_load = 0, bl_attach = 0, bl_ring = True\<rparr>"

lemma good_init: "ebpf_policy_init good_load q u = (0, u\<lparr>eu_skel := True, eu_kern := fresh_bpf, eu_rb := True, eu_queue := q\<rparr>)"
  by (simp add: ebpf_policy_init_def good_load_def)

lemma one_dir_dev: "stat_dev_to_kernel 0x801 = 0x800001"
  by code_simp

lemma one_dir_nodes: "nodes 2 one_dir True ''/w'' = Some [(''/w'', (0x800001, 5)), (''/w/a'', (0x800001, 6))]"
  by (simp add: numeral_2_eq_2 one_dir_def is_dir_def child_path_def IG_MAX_PATH_def node_key_def one_dir_dev)

theorem watched_tree_is_enforced_witness:
  "\<exists>rc u1. ebpf_policy_add_path_recursive 2 one_dir ''/w'' 14 1 (snd (ebpf_policy_init good_load None ebpf_user_init)) = Some (rc, u1)
     \<and> fst (bpf_check sample_bpf_ctx (BPath_unlink (Some (Some (0x800001, 6)))) 0 (eu_kern u1)) = - EPERM
     \<and> fst (bpf_check sample_bpf_ctx (BPath_unlink (Some (Some (0x800001, 7)))) 0 (eu_kern u1)) = 0"
proof -
  define u0 where "u0 = snd (ebpf_policy_init good_load None ebpf_user_init)"
  have i: "ebpf_policy_init good_load None ebpf_user_init = (0, u0)" by (simp add: u0_def good_init)
  obtain rc u1 where a: "ebpf_policy_add_path_recursive 2 one_dir ''/w'' 14 1 u0 = Some (rc, u1)"
    by (simp add: ebpf_policy_add_path_recursive_def add_is_fold one_dir_nodes)
  note v = watched_tree_is_enforced [OF i a one_dir_nodes]
  show ?thesis
    unfolding u0_def [symmetric] a
    by (intro exI conjI, rule refl)
       (simp_all del: bpf_check.simps add: v POLICY_MAP_MAX_def object_target_def inode_key_of_def ebpf_ops)
qed

section \<open>Watching and unwatching\<close>

lemma pc_puts_map: "pc_puts (map (\<lambda>(p, k). (k, Some p)) ns) = length ns" "pc_puts (map (\<lambda>(p, k). (k, None)) ns) = 0"
  by (induction ns) (simp_all add: pc_puts_def split_def)

lemma pc_puts_append: "pc_puts (xs @ ys) = pc_puts xs + pc_puts ys"
  by (simp add: pc_puts_def)

lemma pc_map_nodes:
  "fold pc_map (map (\<lambda>(p, k). (k, None)) ns) m k = (if k \<in> snd ` set ns then None else m k)"
  by (induction ns arbitrary: m) (auto simp: pc_map_def)

lemma pc_map_outside: "k \<notin> snd ` set ns \<Longrightarrow> fold pc_map (map (\<lambda>(p, k). (k, Some p)) ns) m k = m k"
  by (induction ns arbitrary: m) (auto simp: pc_map_def)

text \<open>Taking a path off the list undoes putting it on: on an unchanged tree that had no policies and no paths before, adding it and
  then removing it, with room in both tables, leaves the policy map and what the path cache answers as they were.\<close>

theorem unwatch_undoes_watch:
  assumes "eu_skel u" and "map_inv (pol u)" and "slots_inv (eu_paths u)" and "nodes n fs True path = Some ns"
    and "length (pol u) + length ns \<le> POLICY_MAP_MAX" and "card (pc_touched (eu_paths u)) + length ns \<le> PATH_CACHE_CAP"
    and "\<And>k. k \<in> snd ` set ns \<Longrightarrow> map_of (pol u) k = None \<and> pc_abs (eu_paths u) k = None"
  shows "\<exists>rc u1 u2. ebpf_policy_add_path_recursive n fs path msk block u = Some (rc, u1)
    \<and> ebpf_policy_remove_path_recursive n fs path u1 = Some (rc, u2)
    \<and> map_of (pol u2) = map_of (pol u) \<and> (\<forall>dev ino sz. path_cache_get dev ino sz (eu_paths u2) = path_cache_get dev ino sz (eu_paths u))"
proof -
  let ?puts = "map (\<lambda>(p, k). (k, Some p)) ns" and ?dels = "map (\<lambda>(p, k). (k, None :: string option)) ns"
  define u1 where "u1 = fold (add_node msk block) ns u"
  define u2 where "u2 = fold remove_node ns u1"
  have a: "map_inv (pol u1)" "map_of (pol u1) = (\<lambda>k. if k \<in> snd ` set ns then Some \<lparr>ip_mask = msk, ip_block = block\<rparr> else map_of (pol u) k)"
    "eu_paths u1 = fold pc_call ?puts (eu_paths u)" "eu_skel u1"
    using add_nodes [OF assms(1,2) node_count [OF assms(2,5)], of msk block] same_but_policyD assms(1) unfolding u1_def by blast+
  have r: "map_of (pol u2) = (\<lambda>k. if k \<in> snd ` set ns then None else map_of (pol u1) k)" "eu_paths u2 = fold pc_call ?dels (eu_paths u1)"
    using remove_nodes [OF a(4,1), of ns] unfolding u2_def by blast+
  have "pc_abs (eu_paths u2) = fold pc_map (?puts @ ?dels) (pc_abs (eu_paths u))"
    using pc_calls [OF assms(3), of "?puts @ ?dels"] assms(6) pc_puts_map [of ns] by (simp add: r(2) a(3) pc_puts_append)
  then have "pc_abs (eu_paths u2) k = pc_abs (eu_paths u) k" for k
    using assms(7) [of k] by (auto simp: pc_map_nodes pc_map_outside)
  then have c: "path_cache_get dev ino sz (eu_paths u2) = path_cache_get dev ino sz (eu_paths u)" for dev ino sz
    using pc_get [of "(dev, ino)" sz] by (simp del: split_paired_All)
  have m: "map_of (pol u2) = map_of (pol u)"
    by (rule ext) (use assms(7) in \<open>simp add: r(1) a(2) del: split_paired_All\<close>)
  show ?thesis
    by (intro exI [of _ "top_rc fs True path"] exI [of _ u1] exI [of _ u2])
       (simp add: ebpf_policy_add_path_recursive_def ebpf_policy_remove_path_recursive_def add_is_fold remove_is_fold assms(4)
         u1_def [symmetric] u2_def [symmetric] m c)
qed

theorem unwatch_undoes_watch_witness:
  "\<exists>rc u1 u2. ebpf_policy_add_path_recursive 2 one_dir ''/w'' 14 1 (ebpf_user_init\<lparr>eu_skel := True\<rparr>) = Some (rc, u1)
     \<and> ebpf_policy_remove_path_recursive 2 one_dir ''/w'' u1 = Some (rc, u2) \<and> map_of (pol u2) = Map.empty"
proof -
  let ?u = "ebpf_user_init\<lparr>eu_skel := True\<rparr>"
  have p: "pol ?u = []" "eu_paths ?u = path_cache_init" by (simp_all add: ebpf_user_init_def fresh_bpf_def)
  have i: "eu_skel ?u" "map_inv (pol ?u)" "slots_inv (eu_paths ?u)" using slots_inv_init unfolding p by (simp_all add: map_inv_def)
  have t: "pc_touched path_cache_init = {}" by (simp add: pc_touched_def path_cache_init_def)
  from unwatch_undoes_watch [OF i one_dir_nodes, of 14 1] show ?thesis
    unfolding p by (simp add: t pc_abs_init POLICY_MAP_MAX_def PATH_CACHE_CAP_def) blast
qed

section \<open>Walks that end and walks that do not\<close>

text \<open>C38. The walks end on every file system whose directory entries give paths that fit the 4096 bytes, however the
  directories are nested: neither adding nor removing a path needs more than 4096 levels.\<close>

theorem fitting_walks_end:
  assumes "names_fit fs" and "length path < IG_MAX_PATH"
  shows "(\<exists>r. ebpf_policy_add_path_recursive IG_MAX_PATH fs path msk block u = Some r)
    \<and> (\<exists>r. ebpf_policy_remove_path_recursive IG_MAX_PATH fs path u = Some r)"
  using nodes_enough(1) [OF assms, of IG_MAX_PATH True]
  by (auto simp: ebpf_policy_add_path_recursive_def ebpf_policy_remove_path_recursive_def add_is_fold remove_is_fold)

theorem fitting_walks_end_witness:
  "\<exists>r. ebpf_policy_add_path_recursive IG_MAX_PATH one_dir ''/w'' 14 1 ebpf_user_init = Some r"
proof -
  have "names_fit one_dir" by (auto simp: names_fit_def one_dir_def IG_MAX_PATH_def split: if_splits)
  then show ?thesis using fitting_walks_end [of one_dir "''/w''" 14 1 ebpf_user_init] by (simp add: IG_MAX_PATH_def)
qed

text \<open>A walk from one path visits another.\<close>

inductive visits :: "fs \<Rightarrow> string \<Rightarrow> string \<Rightarrow> bool" for fs where
  visits_here: "visits fs p p"
| visits_child: "fs_lstat fs p = Some st \<Longrightarrow> is_dir st \<Longrightarrow> fs_readdir fs p = Some names \<Longrightarrow> e \<in> set names \<Longrightarrow>
    e \<noteq> ''.'' \<Longrightarrow> e \<noteq> ''..'' \<Longrightarrow> visits fs (child_path p e) q \<Longrightarrow> visits fs p q"

lemma visits_endless: "visits fs p q \<Longrightarrow> (\<And>n. nodes n fs True q = None) \<Longrightarrow> nodes n fs True p = None"
proof (induction arbitrary: n rule: visits.induct)
  case (visits_child p st names e q)
  then show ?case by (cases n) (auto simp: node_entries_fail)
qed

text \<open>A directory whose path fills the buffer ends the process: the path of its entry is cut back to its own, so as soon as
  such a directory has an entry, the walk from any watched directory above it recurs without end, at any fuel.\<close>

theorem full_path_recurs_forever:
  assumes "visits fs path q" and "length q = IG_MAX_PATH - 1" and "fs_lstat fs q = Some st" and "is_dir st"
    and "fs_readdir fs q = Some names" and "e \<in> set names" and "e \<noteq> ''.''" and "e \<noteq> ''..''"
  shows "ebpf_policy_add_path_recursive n fs path msk block u = None \<and> ebpf_policy_remove_path_recursive n fs path u = None"
proof -
  have "nodes n fs True q = None" for n by (rule nodes_endless [OF assms(2-8)])
  then have "nodes n fs True path = None" by (rule visits_endless [OF assms(1)])
  then show ?thesis
    by (simp add: ebpf_policy_add_path_recursive_def ebpf_policy_remove_path_recursive_def add_is_fold remove_is_fold)
qed

definition deep_name :: string where
  "deep_name = replicate 4092 CHR ''d''"

definition deep_dir :: fs where
  "deep_dir = \<lparr>fs_lstat = (\<lambda>p. Some \<lparr>st_dev = 0x801, st_ino = 5, st_mode = 0x41ED, st_mtime = 0, st_size = 0\<rparr>),
     fs_readdir = (\<lambda>p. Some (if p = ''/w'' then [deep_name] else [''f'']))\<rparr>"

theorem full_path_recurs_forever_witness:
  "ebpf_policy_add_path_recursive 9 deep_dir ''/w'' 14 1 ebpf_user_init = None"
proof -
  have len: "length deep_name = 4092" by (simp add: deep_name_def)
  have "length deep_name \<noteq> length ''.''" "length deep_name \<noteq> length ''..''" unfolding len by simp_all
  then have ne: "deep_name \<noteq> ''.''" "deep_name \<noteq> ''..''" by metis+
  have st: "is_dir \<lparr>st_dev = 0x801, st_ino = 5, st_mode = 0x41ED, st_mtime = 0, st_size = 0\<rparr>" by (simp add: is_dir_def)
  let ?q = "child_path ''/w'' deep_name"
  have v: "visits deep_dir ''/w'' ?q"
    by (rule visits_child [where names = "[deep_name]", OF _ st _ _ ne visits_here]) (simp_all add: deep_dir_def)
  have q: "length ?q = IG_MAX_PATH - 1" by (simp add: child_path_def IG_MAX_PATH_def len)
  then have nw: "?q \<noteq> ''/w''" by (auto simp: IG_MAX_PATH_def)
  show ?thesis
    using full_path_recurs_forever [OF v q _ st, of "[''f'']" "''f''" 9 14 1 ebpf_user_init] nw by (simp add: deep_dir_def)
qed

section \<open>The chain of an event\<close>

lemma bpf_proc_info_wf: "proc_info_wf (bpf_proc_info e)"
  using strncpy0_field [of IG_PA_COMM_LEN "be_comm e"] strncpy0_field [of IG_PA_TTY_LEN "be_tty e"]
    strncpy0_field [of IG_PA_CMDLINE_LEN "be_cmdline e"]
  by (simp add: proc_info_wf_def bpf_proc_info_def zero_proc_info_def pa_lens has_no_nul_def [of "[]"])

lemma ebpf_look_wf:
  assumes "ebpf_look procs m fs cur = Some e"
  shows "proc_info_wf e"
proof (cases "case procs of None \<Rightarrow> None | Some ps \<Rightarrow> ps cur")
  case (Some b)
  then show ?thesis using assms by (auto simp: ebpf_look_def bpf_proc_info_wf intro!: enrich_entry_facts)
next
  case None
  then have d: "c_depth (ig_pa_resolve m fs cur) > 0" and e: "e = c_chain (ig_pa_resolve m fs cur) ! 0"
    using assms by (auto simp: ebpf_look_def Let_def split: if_splits)
  then have pos: "\<not> sint cur \<le> 0" by (auto simp: ig_pa_resolve_def zero_chain_def)
  obtain es t where w: "walk (load_proc_info m fs) pa_root pi_ppid IG_PA_MAX_DEPTH cur = (es, t)" by fastforce
  have "chain_wf (ig_pa_resolve m fs cur)" using pa_chain_shape(4) [OF w] pos w by (simp add: ig_pa_resolve_def)
  then show ?thesis unfolding e by (auto simp: chain_wf_def list_all_length pa_lens)
qed

lemma ebpf_chain_shape:
  assumes "0 < sint p" and "walk (ebpf_look procs m fs) pa_root pi_ppid IG_PA_MAX_DEPTH p = (es, trunc)"
  defines "c \<equiv> ig_ebpf_chain_collect procs m fs p"
  shows "chain_wf c \<and> c_depth c = int (length es) \<and> take (length es) (c_chain c) = es \<and> (c_truncated c \<noteq> 0 \<longleftrightarrow> trunc)"
proof -
  have len: "length es \<le> IG_PA_MAX_DEPTH" by (rule walk_length [OF assms(2)])
  have wf: "list_all proc_info_wf es"
    using walk_links [OF assms(2)]
  proof (induction es arbitrary: p)
    case (Cons e es)
    then show ?case by (auto dest: ebpf_look_wf)
  qed simp
  have c: "c = \<lparr>c_depth = int (length es), c_truncated = (if trunc then 1 else 0),
      c_chain = take IG_PA_MAX_DEPTH (es @ replicate IG_PA_MAX_DEPTH zero_proc_info)\<rparr>"
    using assms(1,2) by (simp add: c_def ig_ebpf_chain_collect_def)
  show ?thesis
    using len wf by (auto simp: c chain_wf_def list_all_iff min_def dest!: in_set_takeD)
qed

lemma ebpf_chain_wf: "chain_wf (ig_ebpf_chain_collect procs m fs p)"
proof (cases "sint p \<le> 0")
  case True
  then show ?thesis by (simp add: ig_ebpf_chain_collect_def)
next
  case False
  obtain es t where "walk (ebpf_look procs m fs) pa_root pi_ppid IG_PA_MAX_DEPTH p = (es, t)" by fastforce
  from ebpf_chain_shape [OF _ this] False show ?thesis by simp
qed

text \<open>The chain of an eBPF event is an ancestry out of two sources: each entry is what the kernel's process map, or
  failing that \<^verbatim>\<open>/proc\<close>, says of the process its predecessor names as parent; the chain is well formed, no entry before
  the last is a root, and it is marked truncated exactly when it is full or neither source knows the next process.\<close>

theorem ebpf_chain_is_ancestry:
  assumes "0 < sint p"
  shows "\<exists>es. let c = ig_ebpf_chain_collect procs m fs p in
      chain_wf c \<and> c_depth c = int (length es) \<and> take (length es) (c_chain c) = es
    \<and> links (ebpf_look procs m fs) pa_root pi_ppid p es
    \<and> (c_truncated c = 0 \<longrightarrow> es \<noteq> [] \<and> pa_root (after pi_ppid p (butlast es)) (last es))
    \<and> (c_truncated c \<noteq> 0 \<longrightarrow> length es = IG_PA_MAX_DEPTH \<or> ebpf_look procs m fs (after pi_ppid p es) = None)"
proof -
  obtain es t where w: "walk (ebpf_look procs m fs) pa_root pi_ppid IG_PA_MAX_DEPTH p = (es, t)" by fastforce
  note c = ebpf_chain_shape [OF assms w]
  have "\<not> t \<Longrightarrow> es \<noteq> [] \<and> pa_root (after pi_ppid p (butlast es)) (last es)" using walk_complete w by simp
  moreover have "t \<Longrightarrow> length es = IG_PA_MAX_DEPTH \<or> ebpf_look procs m fs (after pi_ppid p es) = None" using walk_truncated w by simp
  ultimately show ?thesis using c walk_links [OF w] by (intro exI [of _ es]) (auto simp: Let_def)
qed

definition sample_bpf_entry :: "u32 \<Rightarrow> u32 \<Rightarrow> ig_proc_entry" where
  "sample_bpf_entry p pp = \<lparr>be_pid = p, be_ppid = pp, be_uid = 0, be_euid = 0, be_sid = 7, be_comm = ''sh'', be_tty = [],
     be_start_time_ns = 0, be_cmdline = ''sh''\<rparr>"

theorem ebpf_chain_is_ancestry_witness:
  "chain_wf (ig_ebpf_chain_collect (Some [42 \<mapsto> sample_bpf_entry 42 7]) boot_meta_init
      \<lparr>pf_stat = (\<lambda>_. None), pf_status = (\<lambda>_. None), pf_exe = (\<lambda>_. None), pf_cmdline = (\<lambda>_. None)\<rparr> 42)"
  using ebpf_chain_is_ancestry [of 42 "Some [42 \<mapsto> sample_bpf_entry 42 7]" boot_meta_init
      "\<lparr>pf_stat = (\<lambda>_. None), pf_status = (\<lambda>_. None), pf_exe = (\<lambda>_. None), pf_cmdline = (\<lambda>_. None)\<rparr>"]
  by (auto simp: Let_def)

section \<open>From a call to an event\<close>

lemma audit_to_event_wf: "chain_wf chain \<Longrightarrow> event_wf (audit_to_event e path chain off)"
  using strncpy0_field [of IG_MAX_PATH path] strncpy0_field [of 16 "ae_comm e"] strncpy0_field [of 256 "base_name path"]
  by (simp add: event_wf_def audit_to_event_def zero_event_def IG_MAX_PATH_def map_source_def
      IG_SOURCE_EBPF_def IG_MON_EBPF_def has_no_nul_def [of "[]"])

lemma offset_queue: "ig_mono_to_real_offset_ns env u = (off, v) \<Longrightarrow> \<exists>c n. v = u\<lparr>eu_cached := c, eu_ctr := n\<rparr>"
  by (auto simp: ig_mono_to_real_offset_ns_def Let_def split: option.splits if_splits)
     (metis ebpf_user.surjective ebpf_user.update_convs(6))+

lemma path_get_clean: "n > 0 \<Longrightarrow> strncpy0 n (path_cache_get dev ino n c) = path_cache_get dev ino n c"
proof (rule strncpy0_short)
  assume n: "n > 0"
  let ?t = "take (n - 1) (''<ino='' @ dec (unat ino) @ ''>'')"
  have "nul \<notin> set (dec k)" for k using dec_chars [of nul k] isdigit_no_nul by blast
  moreover have "nul \<notin> set ''<ino=''" "nul \<notin> set ''>''" by (simp_all add: nul_def)
  ultimately have "nul \<notin> set ?t" by (auto dest!: in_set_takeD)
  then have t: "has_no_nul ?t" unfolding has_no_nul_def .
  have l: "length ?t < n" using n by (simp only: length_take)
  show "has_no_nul (path_cache_get dev ino n c)"
    using t strncpy0_field [OF n] unfolding path_cache_get_def by (cases "get_loop PATH_CACHE_CAP (path_cache_hash dev ino) 0 (dev, ino) c") simp_all
  show "length (path_cache_get dev ino n c) < n"
    using l strncpy0_field [OF n] unfolding path_cache_get_def by (cases "get_loop PATH_CACHE_CAP (path_cache_hash dev ino) 0 (dev, ino) c") simp_all
qed

text \<open>What handling a record that is not suppressed does.\<close>

lemma handle_new:
  assumes "\<not> fst (hook_dedup_check (ae_dev e) (ae_ino e) (ae_op_mask e) (ae_ts_ns e) (eu_dedup u))" and "eu_queue u = Some q"
    and "eu_skel u"
    and u'_def: "u' = handle_audit_event env (Some e) u" and gone_def: "gone = (ae_hook_id e = IG_HOOK_PATH_UNLINK \<and> ae_denied e = 0)"
  shows "\<exists>ev chain off. eu_queue u' = Some (ig_queue_push q ev) \<and> event_wf ev
      \<and> ev = audit_to_event e (path_cache_get (ae_dev e) (ae_ino e) IG_MAX_PATH (eu_paths u)) chain off
      \<and> pol u' = (if gone then snd (policy_map_delete (ae_dev e, ae_ino e) (pol u)) else pol u)
      \<and> bp_ring (eu_kern u') = bp_ring (eu_kern u)"
proof -
  let ?path = "path_cache_get (ae_dev e) (ae_ino e) IG_MAX_PATH (eu_paths u)"
  let ?chain = "ig_ebpf_chain_collect (Some (bp_procs (eu_kern u))) (ee_boot env) (ee_proc env) (ae_pid e)"
  obtain t where t: "hook_dedup_check (ae_dev e) (ae_ino e) (ae_op_mask e) (ae_ts_ns e) (eu_dedup u) = (False, t)"
    using assms(1) by (cases "hook_dedup_check (ae_dev e) (ae_ino e) (ae_op_mask e) (ae_ts_ns e) (eu_dedup u)") auto
  define a where "a = \<lparr>ea_outcome = (if ae_denied e \<noteq> 0 then ''DENY'' else ''AUDIT''), ea_op = op_mask_to_str (ae_op_mask e),
      ea_hook = hook_id_to_str (ae_hook_id e), ea_path = ?path, ea_pid = ae_pid e, ea_uid = ae_uid e,
      ea_comm = ae_comm e, ea_chain = ig_pa_format_full ?chain 8192\<rparr>"
  define v where "v = u\<lparr>eu_dedup := t, eu_alerts := eu_alerts u @ [a]\<rparr>"
  define w where "w = (if gone
      then (snd (remove_policy_inode (ae_dev e) (ae_ino e) v))\<lparr>eu_paths := path_cache_remove (ae_dev e) (ae_ino e) (eu_paths u)\<rparr> else v)"
  have rem: "eu_paths (snd (remove_policy_inode d i v)) = eu_paths u" "eu_queue (snd (remove_policy_inode d i v)) = Some q"
    "pol (snd (remove_policy_inode d i v)) = snd (policy_map_delete (d, i) (pol u))"
    "bp_ring (eu_kern (snd (remove_policy_inode d i v))) = bp_ring (eu_kern u)" for d i
    using assms(2,3) by (simp_all add: remove_policy_inode_def on_policy_def v_def split: prod.split)
  have wq: "eu_queue w = Some q" "pol w = (if gone then snd (policy_map_delete (ae_dev e, ae_ino e) (pol u)) else pol u)"
    "bp_ring (eu_kern w) = bp_ring (eu_kern u)"
    using rem assms(2) by (simp_all add: w_def v_def)
  obtain off x where o: "ig_mono_to_real_offset_ns env w = (off, x)" by fastforce
  obtain c n where x: "x = w\<lparr>eu_cached := c, eu_ctr := n\<rparr>" using offset_queue [OF o] by blast
  have step: "(if gone then (let y = snd (remove_policy_inode (ae_dev e) (ae_ino e) v)
        in y\<lparr>eu_paths := path_cache_remove (ae_dev e) (ae_ino e) (eu_paths y)\<rparr>) else v) = w"
    by (simp add: w_def Let_def rem)
  have "u' = x\<lparr>eu_queue := Some (ig_queue_push q (audit_to_event e ?path ?chain off))\<rparr>"
    using step wq(1) o
    unfolding u'_def handle_audit_event_def gone_def v_def a_def
    by (simp add: t assms(3) Let_def split del: if_split)
  then show ?thesis
    using wq audit_to_event_wf [OF ebpf_chain_wf] x
    by (intro exI [of _ "audit_to_event e ?path ?chain off"] exI [of _ ?chain] exI [of _ off]) simp
qed

text \<open>One turn of the poll thread that delivers the record of one call.\<close>

definition one_call :: "bpf_ctx \<Rightarrow> bpf_call \<Rightarrow> event_env \<Rightarrow> poll_turn" where
  "one_call cx call env = \<lparr>pt_calls = [(cx, call, 0)], pt_stop = False, pt_err = 1, pt_envs = [env]\<rparr>"

definition ready :: "ebpf_user \<Rightarrow> bool" where
  "ready u \<longleftrightarrow> eu_skel u \<and> eu_running u \<and> eu_queue u \<noteq> None \<and> bp_ring (eu_kern u) = []"

definition repeated :: "inode_key \<Rightarrow> u32 \<Rightarrow> bpf_ctx \<Rightarrow> ebpf_user \<Rightarrow> bool" where
  "repeated k op cx u = fst (hook_dedup_check (fst k) (snd k) op (bx_now cx) (eu_dedup u))"

lemma one_call_handled:
  assumes "ready u" and "bpf_targets call = [(k, op, hook)]" and "map_of (pol u) k = Some p" and "ip_mask p AND op \<noteq> 0"
    and "bx_room cx" and "\<not> repeated k op cx u" and u': "u' = ebpf_poll_thread [one_call cx call env] u"
  shows "\<exists>ev q. eu_queue u = Some q \<and> eu_queue u' = Some (ig_queue_push q ev) \<and> event_wf ev
      \<and> ev_dev ev = fst k \<and> ev_ino ev = snd k \<and> ev_type ev = op_to_ig_type op \<and> (ev_blocked ev \<noteq> 0 \<longleftrightarrow> ip_block p \<noteq> 0)
      \<and> ev_pid ev = ucast (drop_bit 32 (bx_pid_tgid cx))
      \<and> ev_path ev = path_cache_get (fst k) (snd k) IG_MAX_PATH (eu_paths u)
      \<and> map_of (pol u') = (if hook = IG_HOOK_PATH_UNLINK \<and> ip_block p = 0 then (map_of (pol u))(k := None) else map_of (pol u))
      \<and> bp_ring (eu_kern u') = []"
proof -
  obtain q where r: "eu_skel u" "eu_running u" "eu_queue u = Some q" "bp_ring (eu_kern u) = []"
    using assms(1) by (auto simp: ready_def)
  define s where "s = snd (bpf_check cx call 0 (eu_kern u))"
  define e where "e = audit_event_of cx k p op hook"
  have v: "bp_policy s = pol u" "bp_ring s = [e]"
    using check_verdict [of cx call "eu_kern u"] assms(2-5) r(4)
    by (simp_all add: verdict_def s_def audits_def List.map_filter_def e_def)
  define u1 where "u1 = u\<lparr>eu_kern := s\<lparr>bp_ring := []\<rparr>\<rparr>"
  have f: "ae_dev e = fst k" "ae_ino e = snd k" "ae_op_mask e = op" "ae_ts_ns e = bx_now cx" "ae_hook_id e = hook"
    "ae_denied e = (if ip_block p \<noteq> 0 then 1 else 0)" "ae_pid e = ucast (drop_bit 32 (bx_pid_tgid cx))"
    by (simp_all add: e_def audit_event_of_def)
  have u'1: "u' = handle_audit_event env (Some e) u1"
    using r v by (simp add: u' one_call_def kernel_calls_def s_def [symmetric] ring_poll_def u1_def EINTR_def)
  have n: "\<not> fst (hook_dedup_check (ae_dev e) (ae_ino e) (ae_op_mask e) (ae_ts_ns e) (eu_dedup u1))"
    using assms(6) by (simp add: f u1_def repeated_def)
  obtain ev chain off where h: "eu_queue u' = Some (ig_queue_push q ev)" "event_wf ev"
    "ev = audit_to_event e (path_cache_get (ae_dev e) (ae_ino e) IG_MAX_PATH (eu_paths u1)) chain off"
    "pol u' = (if ae_hook_id e = IG_HOOK_PATH_UNLINK \<and> ae_denied e = 0 then snd (policy_map_delete (ae_dev e, ae_ino e) (pol u1)) else pol u1)"
    "bp_ring (eu_kern u') = bp_ring (eu_kern u1)"
    using handle_new [OF n, of q u' env] r u'1 by (auto simp: u1_def)
  obtain rc m where d: "policy_map_delete k (pol u) = (rc, m)" by fastforce
  have ml: "map_of m = (map_of (pol u))(k := None)" by (rule policy_map_delete_of [OF d])
  show ?thesis
    using h(1,2,4,5) r(3) path_get_clean [of IG_MAX_PATH "fst k" "snd k" "eu_paths u"] d ml v(1)
    by (intro exI [of _ ev] exI [of _ q]) (simp add: h(3) audit_to_event_def f u1_def IG_MAX_PATH_def)
qed

text \<open>C5. What the kernel checks, the agent reports: when a call on one object with a policy is checked, with room in the
  ring and no equal record just before, the next turn of the poll thread puts one well-formed event on
  the queue, with the inode, the kind of operation, whether it was refused, the process, and the path cached for the inode.\<close>

theorem checked_call_is_reported:
  assumes "ready u" and "bpf_targets call = [(k, op, hook)]" and "map_of (pol u) k = Some p" and "ip_mask p AND op \<noteq> 0"
    and "bx_room cx" and "\<not> repeated k op cx u"
  shows "\<exists>ev q. eu_queue u = Some q \<and> eu_queue (ebpf_poll_thread [one_call cx call env] u) = Some (ig_queue_push q ev)
      \<and> event_wf ev \<and> ev_dev ev = fst k \<and> ev_ino ev = snd k \<and> ev_type ev = op_to_ig_type op
      \<and> (ev_blocked ev \<noteq> 0 \<longleftrightarrow> fst (bpf_check cx call 0 (eu_kern u)) = - EPERM)
      \<and> ev_pid ev = ucast (drop_bit 32 (bx_pid_tgid cx))
      \<and> ev_path ev = path_cache_get (fst k) (snd k) IG_MAX_PATH (eu_paths u)"
proof -
  have "fst (bpf_check cx call 0 (eu_kern u)) = - EPERM \<longleftrightarrow> ip_block p \<noteq> 0"
    using check_verdict [of cx call "eu_kern u"] assms(2-4) by (simp add: verdict_def bpf_denied_def EPERM_def)
  with one_call_handled [OF assms refl, of env] show ?thesis by metis
qed

definition sample_env_ev :: event_env where
  "sample_env_ev = \<lparr>ee_real = None, ee_mono = None, ee_boot = boot_meta_init,
     ee_proc = \<lparr>pf_stat = (\<lambda>_. None), pf_status = (\<lambda>_. None), pf_exe = (\<lambda>_. None), pf_cmdline = (\<lambda>_. None)\<rparr>\<rparr>"

definition sample_user :: "u32 \<Rightarrow> ebpf_user" where
  "sample_user block = ebpf_user_init\<lparr>eu_skel := True, eu_queue := Some (ig_queue_init zero_event),
     eu_kern := fresh_bpf\<lparr>bp_policy := [((8, 77), \<lparr>ip_mask = 14, ip_block = block\<rparr>)]\<rparr>\<rparr>"

lemma sample_user_ready: "ready (sample_user b)" "\<not> repeated k op cx (sample_user b)"
  "map_of (pol (sample_user b)) (8, 77) = Some \<lparr>ip_mask = 14, ip_block = b\<rparr>"
  by (simp_all add: ready_def sample_user_def ebpf_user_init_def fresh_bpf_def repeated_def hook_dedup_check_def
      hook_dedup_init_def Let_def)

lemma sample_covered: "ip_mask \<lparr>ip_mask = 14, ip_block = b\<rparr> AND IG_EBPF_OP_DELETE \<noteq> 0" "bx_room sample_bpf_ctx"
  by (simp_all add: ebpf_ops sample_bpf_ctx_def)

lemma sample_unlink: "bpf_targets (BPath_unlink (Some (Some (8, 77)))) = [((8, 77), IG_EBPF_OP_DELETE, IG_HOOK_PATH_UNLINK)]"
  by (simp add: object_target_def inode_key_of_def)

theorem checked_call_is_reported_witness:
  "\<exists>ev q. eu_queue (ebpf_poll_thread [one_call sample_bpf_ctx (BPath_unlink (Some (Some (8, 77)))) sample_env_ev] (sample_user 1))
       = Some (ig_queue_push q ev) \<and> ev_type ev = IG_EVENT_DELETE \<and> ev_blocked ev \<noteq> 0"
proof -
  have "fst (bpf_check sample_bpf_ctx (BPath_unlink (Some (Some (8, 77)))) 0 (eu_kern (sample_user 1))) = - EPERM"
    using check_verdict [of sample_bpf_ctx "BPath_unlink (Some (Some (8, 77)))" "eu_kern (sample_user 1)"]
    unfolding sample_unlink verdict_def by (simp add: bpf_denied_def sample_user_ready ebpf_ops)
  moreover have "op_to_ig_type IG_EBPF_OP_DELETE = IG_EVENT_DELETE" by (simp add: op_to_ig_type_def ebpf_ops)
  ultimately show ?thesis
    using checked_call_is_reported [OF sample_user_ready(1) sample_unlink sample_user_ready(3) sample_covered sample_user_ready(2),
        of 1 sample_env_ev] by metis
qed

text \<open>In audit mode a single unlink ends the audit of an inode: the hook runs before the file system decides and whatever
  other links there are, and once its record is handled the policy is gone, so that every later call on the inode
  passes without a record.\<close>

theorem unlink_ends_audit:
  assumes "ready u" and "bpf_targets call = [(k, op, IG_HOOK_PATH_UNLINK)]" and "map_of (pol u) k = Some p" and "ip_mask p AND op \<noteq> 0"
    and "bx_room cx" and "\<not> repeated k op cx u" and "ip_block p = 0"
    and "\<forall>t \<in> set (bpf_targets later). fst t = k"
    and u'_def: "u' = ebpf_poll_thread [one_call cx call env] u"
  shows "fst (bpf_check cx' later 0 (eu_kern u')) = 0 \<and> bp_ring (snd (bpf_check cx' later 0 (eu_kern u'))) = []"
proof -
  have m: "map_of (pol u') k = None" "bp_ring (eu_kern u') = []"
    using one_call_handled [OF assms(1-6) u'_def] assms(7) by auto
  have nd: "\<not> bpf_denied (pol u') t" if "fst t = k" for t using m(1) that by (simp add: bpf_denied_def)
  have "\<not> (\<exists>t \<in> set ts. bpf_denied (pol u') t)" "audits cx' (pol u') (looked_at (pol u') ts) = []" if "\<forall>t \<in> set ts. fst t = k" for ts
    using that nd m(1) by (induction ts) (auto simp: audits_def List.map_filter_def)
  then show ?thesis using check_verdict [of cx' later "eu_kern u'"] assms(8) m(2) by (auto simp: verdict_def)
qed

theorem unlink_ends_audit_witness:
  "fst (bpf_check sample_bpf_ctx (BFile_open (Some (3, Some (8, 77)))) 0
      (eu_kern (ebpf_poll_thread [one_call sample_bpf_ctx (BPath_unlink (Some (Some (8, 77)))) sample_env_ev] (sample_user 0)))) = 0"
proof -
  have t: "\<forall>t \<in> set (bpf_targets (BFile_open (Some (3, Some (8, 77))))). fst t = (8, 77)"
    by (simp add: object_target_def inode_key_of_def)
  show ?thesis
    using unlink_ends_audit [OF sample_user_ready(1) sample_unlink sample_user_ready(3) sample_covered sample_user_ready(2) _ t refl,
        of 0 sample_bpf_ctx sample_env_ev] by simp
qed

end
