(* ===== verification/Ebpf_Agent.thy ===== *)
theory Ebpf_Agent
  imports Agent_Start Ebpf_System
begin

text \<open>
  The agent over the eBPF backend: the calls the main program makes into \<^verbatim>\<open>Agent/src/ebpf/ig_trace.c\<close> when it starts and
  when it reloads its configuration, carried out on the backend.
\<close>

section \<open>Carrying out the calls\<close>

fun ebpf_exec :: "nat \<Rightarrow> fs \<Rightarrow> ebpf_cmd \<Rightarrow> ebpf_user \<Rightarrow> ebpf_user option" where
  "ebpf_exec n fs (EbpfAddPath path msk block) u = map_option snd (ebpf_policy_add_path_recursive n fs path msk block u)"
| "ebpf_exec n fs (EbpfRemovePath path) u = map_option snd (ebpf_policy_remove_path_recursive n fs path u)"

fun ebpf_exec_all :: "nat \<Rightarrow> fs \<Rightarrow> ebpf_cmd list \<Rightarrow> ebpf_user \<Rightarrow> ebpf_user option" where
  "ebpf_exec_all n fs [] u = Some u"
| "ebpf_exec_all n fs (c # cs) u = (case ebpf_exec n fs c u of None \<Rightarrow> None | Some u \<Rightarrow> ebpf_exec_all n fs cs u)"

text \<open>The nodes of all watched trees.\<close>

fun watch_nodes :: "nat \<Rightarrow> fs \<Rightarrow> ig_watch_entry list \<Rightarrow> (string \<times> inode_key) list option" where
  "watch_nodes n fs [] = Some []"
| "watch_nodes n fs (w # ws) =
     (case (nodes n fs True (w_path w), watch_nodes n fs ws) of (Some xs, Some ys) \<Rightarrow> Some (xs @ ys) | _ \<Rightarrow> None)"

lemma exec_adds:
  "watch_nodes n fs ws = Some ns \<Longrightarrow>
     ebpf_exec_all n fs (map (\<lambda>w. EbpfAddPath (w_path w) msk block) ws) u = Some (fold (add_node msk block) ns u)"
proof (induction ws arbitrary: ns u)
  case (Cons w ws)
  then obtain xs ys where x: "nodes n fs True (w_path w) = Some xs" "watch_nodes n fs ws = Some ys" "ns = xs @ ys"
    by (auto split: option.splits)
  then show ?case using Cons.IH [OF x(2)] by (simp add: ebpf_policy_add_path_recursive_def add_is_fold)
qed simp

lemma protect_mask_14: "protect_mask = 14"
  by (simp add: protect_mask_def ebpf_ops)

lemma start_cmds:
  assumes "agent_start si ht = Inr (ag, ht')" and "ag_ebpf_active ag"
  shows "ag_ebpf_cmds ag = map (\<lambda>w. EbpfAddPath (w_path w) protect_mask (ag_block ag)) (watches (ag_cfg ag))"
    and "\<not> si_ebpf_init si < 0"
proof -
  obtain env a0 where a: "(ag, ht') = start_protection si (start_transport si env (select_backend si a0)) ht" "\<not> ag_ebpf_active a0"
    using assms(1) by (rule agent_start_Inr) blast
  have act: "ag_ebpf_active (select_backend si a0)"
    using a(1) assms(2) by (auto simp: start_protection_def Let_def split: if_splits)
  then have l: "os_libbpf (si_os si) \<and> \<not> si_ebpf_init si < 0"
    using a(2) by (auto simp: select_backend_def Let_def split: if_splits prod.splits)
  show "ag_ebpf_cmds ag = map (\<lambda>w. EbpfAddPath (w_path w) protect_mask (ag_block ag)) (watches (ag_cfg ag))"
    using a(1) act l by (simp add: start_protection_def Let_def)
  show "\<not> si_ebpf_init si < 0" using l by simp
qed

section \<open>Starting protected\<close>

text \<open>C3. With eBPF the agent also runs protected: when it reaches its main loop with this backend, and the trees it watches have at most
  16384 nodes, the calls it made leave programs that refuse, in the deny mode, exactly the calls that write to, remove or change the attributes of a
  node of a watched tree; in the audit mode they refuse nothing.\<close>

theorem agent_starts_ebpf_protected:
  assumes "agent_start si ht = Inr (ag, ht')" and "ag_ebpf_active ag"
    and "ebpf_policy_init l q u = (si_ebpf_init si, u0)" and "watch_nodes n fs (watches (ag_cfg ag)) = Some ns"
    and "length ns \<le> POLICY_MAP_MAX"
  shows "\<exists>u1. ebpf_exec_all n fs (ag_ebpf_cmds ag) u0 = Some u1
    \<and> (\<forall>cx call. fst (bpf_check cx call 0 (eu_kern u1)) =
         (if ag_block ag \<noteq> 0 \<and> (\<exists>(k, op, hook) \<in> set (bpf_targets call). k \<in> snd ` set ns \<and> protect_mask AND op \<noteq> 0)
          then - EPERM else 0))"
proof -
  have i: "ebpf_policy_init l q u = (0, u0)"
    using start_cmds(2) [OF assms(1,2)] assms(3) by (auto simp: ebpf_policy_init_def Let_def split: if_splits)
  note u0 = init_state [OF i]
  define u1 where "u1 = fold (add_node protect_mask (ag_block ag)) ns u0"
  have "card (dom (map_of (pol u0)) \<union> snd ` set ns) \<le> POLICY_MAP_MAX"
    using assms(5) node_count [OF fresh_map(1), of ns] u0 by (simp add: fresh_map)
  then have m: "map_of (bp_policy (eu_kern u1))
      = (\<lambda>k. if k \<in> snd ` set ns then Some \<lparr>ip_mask = protect_mask, ip_block = ag_block ag\<rparr> else None)"
    using add_nodes [of u0 ns protect_mask "ag_block ag"] u0 fresh_map(1)
    by (simp add: u1_def fresh_map(2) fun_eq_iff del: split_paired_All)
  have "ebpf_exec_all n fs (ag_ebpf_cmds ag) u0 = Some u1"
    unfolding start_cmds(1) [OF assms(1,2)] u1_def by (rule exec_adds [OF assms(4)])
  with uniform_verdict [OF m] show ?thesis by blast
qed

definition sample_ebpf_start :: start_in where
  "sample_ebpf_start = sample_start\<lparr>si_os := (si_os sample_start)\<lparr>os_libbpf := True\<rparr>, si_ebpf_init := 0,
     si_release := Some (dec 5 @ ''.'' @ dec 15 @ ''.'' @ dec 0 @ [])\<rparr>"

lemma sample_ebpf_started:
  obtains ag ht' where "agent_start sample_ebpf_start ht = Inr (ag, ht')" "ag_ebpf_active ag"
    "ag_block ag = IG_EBPF_BLOCK_DENY" "watches (ag_cfg ag) = [watch_w ''/w'']"
proof -
  have c: "start_config sample_ebpf_start = Inr (default_options, (\<lambda>_. None), IG_CONFIG_PATH,
      Some (default_config\<lparr>watches := [watch_w ''/w'']\<rparr>))"
    by (simp add: sample_ebpf_start_def start_config_def sample_start_def default_options_def config_path_def find_system_file_def secure_open_def
        load_config_def sample_conf_load apply_options_def default_config_def IG_CONFIG_PATH_def strncpy0_def cstr_def nul_def
        IG_MAX_PATH_def)
  have k: "get_kernel_version (Some (dec 5 @ ''.'' @ dec 15 @ ''.'' @ dec 0 @ [])) \<ge> KERNEL_VER 5 8"
    using scan_release_text [of 5 15 0 "[]"] by (simp add: get_kernel_version_def KERNEL_VER_def)
  have "\<exists>ag ht'. agent_start sample_ebpf_start ht = Inr (ag, ht') \<and> ag_ebpf_active ag
    \<and> ag_block ag = IG_EBPF_BLOCK_DENY \<and> watches (ag_cfg ag) = [watch_w ''/w'']"
    unfolding agent_start_def c sum.case prod.case option.case
    using k by (simp add: sample_ebpf_start_def sample_start_def down_os_def Let_def select_backend_def initial_agent_def
        start_protection_def start_transport_def current_transport_monitor_type_def ig_enroll_needed_def default_config_def
        default_options_def ebpf_wanted_def split: prod.splits)
  with that show thesis by blast
qed

theorem agent_starts_ebpf_protected_witness:
  "\<exists>ag ht' u1. agent_start sample_ebpf_start ig_policy_init = Inr (ag, ht')
     \<and> ebpf_exec_all 2 one_dir (ag_ebpf_cmds ag) (snd (ebpf_policy_init good_load None ebpf_user_init)) = Some u1
     \<and> fst (bpf_check sample_bpf_ctx (BPath_chmod (Some (Some (0x800001, 6)))) 0 (eu_kern u1)) = - EPERM"
proof -
  obtain ag ht' where s: "agent_start sample_ebpf_start ig_policy_init = Inr (ag, ht')" "ag_ebpf_active ag"
    "ag_block ag = IG_EBPF_BLOCK_DENY" "watches (ag_cfg ag) = [watch_w ''/w'']"
    by (rule sample_ebpf_started) blast
  define u0 where "u0 = snd (ebpf_policy_init good_load None ebpf_user_init)"
  have i: "ebpf_policy_init good_load None ebpf_user_init = (si_ebpf_init sample_ebpf_start, u0)"
    by (simp add: u0_def good_init sample_ebpf_start_def)
  have w: "watch_nodes 2 one_dir (watches (ag_cfg ag)) = Some [(''/w'', (0x800001, 5)), (''/w/a'', (0x800001, 6))]"
    by (simp add: s(4) watch_w_def one_dir_nodes)
  obtain u1 where u1: "ebpf_exec_all 2 one_dir (ag_ebpf_cmds ag) u0 = Some u1"
    "\<And>cx call. fst (bpf_check cx call 0 (eu_kern u1)) =
         (if ag_block ag \<noteq> 0 \<and> (\<exists>(k, op, hook) \<in> set (bpf_targets call).
            k \<in> snd ` set [(''/w'', (0x800001, 5)), (''/w/a'', (0x800001, 6))] \<and> protect_mask AND op \<noteq> 0) then - EPERM else 0)"
    using agent_starts_ebpf_protected [OF s(1,2) i w] by (auto simp: POLICY_MAP_MAX_def)
  show ?thesis
    unfolding u0_def [symmetric]
    by (intro exI conjI, rule s(1), rule u1(1))
       (simp del: bpf_check.simps add: u1(2) s(3) IG_EBPF_BLOCK_DENY_def object_target_def inode_key_of_def protect_mask_14 ebpf_ops)
qed

section \<open>Reloading\<close>

text \<open>A watch that stays and a tree around it that goes.\<close>

lemma reload_cmds:
  assumes "reload_config os True ag ht = (ag', ht')" and "ag_ebpf_active ag" and "os_libbpf os"
    and "load_config (os_open os) (ag_config_path ag) = (0, new_cfg)"
  shows "ag_ebpf_cmds ag' = ag_ebpf_cmds ag @ ebpf_diff (ag_block ag) (ag_cfg ag) new_cfg"
proof -
  have frame: "ag_ebpf_active (reload_logging os c a) = ag_ebpf_active a" "ag_block (reload_logging os c a) = ag_block a"
    "ag_ebpf_cmds (reload_logging os c a) = ag_ebpf_cmds a" for c a
    by (simp_all add: reload_logging_def Let_def)
  show ?thesis
    using assms by (auto simp: reload_config_def Let_def frame)
qed

text \<open>A reload that drops a watched tree also takes the policies of a watch inside it that stays on the list: the removal is
  recursive and only paths new to the list are added, so the inner tree is watched by the configuration and unprotected in the kernel.\<close>

theorem reload_unprotects_inner_watch:
  assumes "reload_config os True ag ht = (ag', ht')" and "ag_ebpf_active ag" and "os_libbpf os"
    and "load_config (os_open os) (ag_config_path ag) = (0, new_cfg)"
    and "watches (ag_cfg ag) = [outer, inner]" and "watches new_cfg = [inner]" and "w_path outer \<noteq> w_path inner"
    and "eu_skel u" and "map_inv (pol u)"
    and "nodes n fs True (w_path outer) = Some outer_ns" and "nodes n fs True (w_path inner) = Some inner_ns"
    and "snd ` set inner_ns \<subseteq> snd ` set outer_ns" and "(p, k) \<in> set inner_ns"
  shows "\<exists>u'. ebpf_exec_all n fs (drop (length (ag_ebpf_cmds ag)) (ag_ebpf_cmds ag')) u = Some u' \<and> map_of (pol u') k = None
    \<and> watched (ag_cfg ag') (w_path inner)"
proof -
  have d: "drop (length (ag_ebpf_cmds ag)) (ag_ebpf_cmds ag') = [EbpfRemovePath (w_path outer)]"
    unfolding reload_cmds [OF assms(1-4)] using assms(5-7) by (simp add: ebpf_diff_def watched_def)
  have w: "watches (ag_cfg ag') = watches new_cfg"
    using assms(1,4) by (auto simp: reload_config_def Let_def)
  have "k \<in> snd ` set outer_ns" using assms(12,13) by force
  then have "map_of (pol (fold remove_node outer_ns u)) k = None" using remove_nodes [OF assms(8,9), of outer_ns] by simp
  then show ?thesis
    unfolding d
    by (intro exI [of _ "fold remove_node outer_ns u"])
       (simp add: ebpf_policy_remove_path_recursive_def remove_is_fold assms(10) watched_def w assms(6))
qed

definition nested_dirs :: fs where
  "nested_dirs = \<lparr>fs_lstat = (\<lambda>p. if p = ''/'' then Some \<lparr>st_dev = 0x801, st_ino = 2, st_mode = 0x41ED, st_mtime = 0, st_size = 0\<rparr>
       else if p = ''/w'' \<or> p = ''//w'' then Some \<lparr>st_dev = 0x801, st_ino = 5, st_mode = 0x41ED, st_mtime = 0, st_size = 0\<rparr> else None),
     fs_readdir = (\<lambda>p. if p = ''/'' then Some [''.'', ''..'', ''w''] else Some [])\<rparr>"

lemma nested_nodes:
  "nodes 2 nested_dirs True ''/'' = Some [(''/'', (0x800001, 2)), (''//w'', (0x800001, 5))]"
  "nodes 2 nested_dirs True ''/w'' = Some [(''/w'', (0x800001, 5))]"
  by (simp_all add: numeral_2_eq_2 nested_dirs_def is_dir_def child_path_def IG_MAX_PATH_def node_key_def one_dir_dev)

theorem reload_unprotects_inner_watch_witness:
  "\<exists>ag' ht' u'. reload_config (si_os sample_ebpf_start) True
       (sample_agent\<lparr>ag_ebpf_active := True, ag_cfg := default_config\<lparr>watches := [watch_w ''/'', watch_w ''/w'']\<rparr>\<rparr>) ig_policy_init = (ag', ht')
     \<and> ebpf_exec_all 2 nested_dirs (ag_ebpf_cmds ag') (sample_user 1) = Some u' \<and> watched (ag_cfg ag') ''/w''
     \<and> map_of (pol u') (0x800001, 5) = None"
proof -
  let ?ag = "sample_agent\<lparr>ag_ebpf_active := True, ag_cfg := default_config\<lparr>watches := [watch_w ''/'', watch_w ''/w'']\<rparr>\<rparr>"
  obtain ag' ht' where r: "reload_config (si_os sample_ebpf_start) True ?ag ig_policy_init = (ag', ht')" by fastforce
  have o: "ag_ebpf_active ?ag" "os_libbpf (si_os sample_ebpf_start)"
    "load_config (os_open (si_os sample_ebpf_start)) (ag_config_path ?ag) = (0, default_config\<lparr>watches := [watch_w ''/w'']\<rparr>)"
    "watches (ag_cfg ?ag) = [watch_w ''/'', watch_w ''/w'']" "watches (default_config\<lparr>watches := [watch_w ''/w'']\<rparr>) = [watch_w ''/w'']"
    "w_path (watch_w ''/'') \<noteq> w_path (watch_w ''/w'')" "eu_skel (sample_user 1)" "map_inv (pol (sample_user 1))"
    "nodes 2 nested_dirs True (w_path (watch_w ''/'')) = Some [(''/'', (0x800001, 2)), (''//w'', (0x800001, 5))]"
    "nodes 2 nested_dirs True (w_path (watch_w ''/w'')) = Some [(''/w'', (0x800001, 5))]"
    by (simp_all add: sample_ebpf_start_def sample_start_def down_os_def sample_agent_def load_config_def sample_conf_load
        sample_user_def map_inv_def POLICY_MAP_MAX_def watch_w_def nested_nodes)
  have c: "ag_ebpf_cmds ?ag = []" "w_path (watch_w ''/w'') = ''/w''" by (simp_all add: sample_agent_def watch_w_def)
  from reload_unprotects_inner_watch [OF r o, of "''/w''" "(0x800001, 5)"] show ?thesis
    unfolding c r by auto
qed

end
