(* ===== verification/Pid_Lock.thy ===== *)
theory Pid_Lock
  imports Config
begin

text \<open>
  The pid file: \<^verbatim>\<open>Agent/src/core/pid_lock.c\<close>.  The world has the names of files, their content, and the
  record locks, one process per file; a lock of a process ends when it closes any descriptor of the file
  or ends.  The stages of the two functions are definitions of their own, so that processes can be
  interleaved at the system calls.
\<close>

section \<open>Files, locks and the globals of a process\<close>

definition LOCK_PATH_MAX :: nat where "LOCK_PATH_MAX = 4096"

record lock_world =
  lw_names :: "string \<Rightarrow> nat option"
  lw_next :: nat
  lw_text :: "nat \<Rightarrow> string"
  lw_locks :: "nat \<Rightarrow> nat option"
  lw_dirs :: "string list"

text \<open>\<open>g_lock_fd\<close> (the file it is open on), \<open>g_lock_path\<close>, \<open>g_released\<close>.\<close>

record pid_lock =
  g_lock_fd :: "nat option"
  g_lock_path :: string
  g_released :: bool

definition pid_lock_init :: pid_lock where
  "pid_lock_init = \<lparr>g_lock_fd = None, g_lock_path = [], g_released = False\<rparr>"

text \<open>What the system answers: whether \<^verbatim>\<open>open\<close>, a free lock, \<^verbatim>\<open>ftruncate\<close> and \<^verbatim>\<open>write\<close> succeed.\<close>

record lock_env =
  lk_open :: bool
  lk_lock :: bool
  lk_trunc :: bool
  lk_write :: bool

section \<open>The stages\<close>

text \<open>The text before the last slash, if there is one, and \<^verbatim>\<open>mkdir\<close> of it, which does nothing when it exists.\<close>

definition parent_dir :: "string \<Rightarrow> string option" where
  "parent_dir path =
     (let dir = take (LOCK_PATH_MAX - 1) (cstr path)
      in if CHR ''/'' \<in> set dir then Some (rev (drop 1 (dropWhile (\<lambda>c. c \<noteq> CHR ''/'') (rev dir)))) else None)"

definition make_parent :: "string \<Rightarrow> lock_world \<Rightarrow> lock_world" where
  "make_parent path w =
     (case parent_dir path of
        None \<Rightarrow> w
      | Some d \<Rightarrow> if d = [] \<or> d \<in> set (lw_dirs w) then w else w\<lparr>lw_dirs := d # lw_dirs w\<rparr>)"

text \<open>\<^verbatim>\<open>open(path, O_RDWR | O_CREAT | O_CLOEXEC, 0644)\<close>\<close>

definition file_open :: "string \<Rightarrow> lock_world \<Rightarrow> nat \<times> lock_world" where
  "file_open path w =
     (case lw_names w path of
        Some i \<Rightarrow> (i, w)
      | None \<Rightarrow> (lw_next w, w\<lparr>lw_names := (lw_names w)(path \<mapsto> lw_next w), lw_next := lw_next w + 1,
                    lw_text := (lw_text w)(lw_next w := [])\<rparr>))"

text \<open>Closing the file ends the locks the process has on it.\<close>

definition file_close :: "nat \<Rightarrow> nat \<Rightarrow> lock_world \<Rightarrow> lock_world" where
  "file_close p i w = (if lw_locks w i = Some p then w\<lparr>lw_locks := (lw_locks w)(i := None)\<rparr> else w)"

definition lock_open :: "lock_env \<Rightarrow> string \<Rightarrow> pid_lock \<Rightarrow> lock_world \<Rightarrow> int \<times> pid_lock \<times> lock_world" where
  "lock_open env path g w =
     (let g = g\<lparr>g_lock_path := take (LOCK_PATH_MAX - 1) (cstr path)\<rparr>; w = make_parent path w
      in if \<not> lk_open env then (-1, g\<lparr>g_lock_fd := None\<rparr>, w)
         else (case file_open path w of (i, w) \<Rightarrow> (0, g\<lparr>g_lock_fd := Some i\<rparr>, w)))"

text \<open>\<^verbatim>\<open>fcntl(F_SETLK)\<close>, and the close when it is refused.\<close>

definition lock_take :: "lock_env \<Rightarrow> nat \<Rightarrow> pid_lock \<Rightarrow> lock_world \<Rightarrow> int \<times> pid_lock \<times> lock_world" where
  "lock_take env p g w =
     (case g_lock_fd g of
        None \<Rightarrow> (-1, g, w)
      | Some i \<Rightarrow>
          if lk_lock env \<and> (lw_locks w i = None \<or> lw_locks w i = Some p)
          then (0, g, w\<lparr>lw_locks := (lw_locks w)(i := Some p)\<rparr>)
          else (-1, g\<lparr>g_lock_fd := None\<rparr>, file_close p i w))"

definition overwrite_text :: "string \<Rightarrow> string \<Rightarrow> string" where
  "overwrite_text new old = new @ drop (length new) old"

definition lock_write :: "lock_env \<Rightarrow> nat \<Rightarrow> pid_lock \<Rightarrow> lock_world \<Rightarrow> pid_lock \<times> lock_world" where
  "lock_write env p g w =
     (case g_lock_fd g of
        None \<Rightarrow> (g, w)
      | Some i \<Rightarrow>
          let t = (if lk_trunc env then [] else lw_text w i);
              t = (if lk_write env then overwrite_text (take 15 (dec p @ [newline])) t else t)
          in (g\<lparr>g_released := False\<rparr>, w\<lparr>lw_text := (lw_text w)(i := t)\<rparr>))"

definition pid_lock_acquire :: "lock_env \<Rightarrow> nat \<Rightarrow> string \<Rightarrow> pid_lock \<Rightarrow> lock_world \<Rightarrow> int \<times> pid_lock \<times> lock_world" where
  "pid_lock_acquire env p path g w =
     (case lock_open env path g w of
        (rc, g, w) \<Rightarrow>
          if rc < 0 then (-1, g, w)
          else (case lock_take env p g w of
            (rc, g, w) \<Rightarrow>
              if rc < 0 then (-1, g, w)
              else (case lock_write env p g w of (g, w) \<Rightarrow> (0, g, w))))"

text \<open>The release: the flag and the close first, then the \<^verbatim>\<open>unlink\<close>.\<close>

definition release_close :: "nat \<Rightarrow> pid_lock \<Rightarrow> lock_world \<Rightarrow> pid_lock \<times> lock_world" where
  "release_close p g w =
     (let g = g\<lparr>g_released := True\<rparr>
      in case g_lock_fd g of None \<Rightarrow> (g, w) | Some i \<Rightarrow> (g\<lparr>g_lock_fd := None\<rparr>, file_close p i w))"

definition release_unlink :: "pid_lock \<Rightarrow> lock_world \<Rightarrow> lock_world" where
  "release_unlink g w = (if g_lock_path g \<noteq> [] then w\<lparr>lw_names := (lw_names w)(g_lock_path g := None)\<rparr> else w)"

definition pid_lock_release :: "nat \<Rightarrow> pid_lock \<Rightarrow> lock_world \<Rightarrow> pid_lock \<times> lock_world" where
  "pid_lock_release p g w =
     (if g_released g then (g, w)
      else (case release_close p g w of (g, w) \<Rightarrow> (g, release_unlink g w)))"

section \<open>Processes in turn\<close>

definition holds :: "nat \<Rightarrow> string \<Rightarrow> lock_world \<Rightarrow> bool" where
  "holds p path w \<longleftrightarrow> (\<exists>i. lw_names w path = Some i \<and> lw_locks w i = Some p)"

text \<open>When a process ends, the system closes its files.\<close>

definition process_end :: "nat \<Rightarrow> lock_world \<Rightarrow> lock_world" where
  "process_end p w = w\<lparr>lw_locks := (\<lambda>i. if lw_locks w i = Some p then None else lw_locks w i)\<rparr>"

lemma short_cstr: "has_no_nul path \<Longrightarrow> length path < LOCK_PATH_MAX \<Longrightarrow> take (LOCK_PATH_MAX - 1) (cstr path) = path"
  by (simp add: LOCK_PATH_MAX_def)

definition all_well :: "lock_env \<Rightarrow> bool" where
  "all_well env \<longleftrightarrow> lk_open env \<and> lk_lock env \<and> lk_trunc env \<and> lk_write env"

lemma acquire_free:
  assumes "all_well env" and "q < 10 ^ 14" and "\<And>i. lw_names w path = Some i \<Longrightarrow> lw_locks w i = None \<or> lw_locks w i = Some q"
    and "lw_names w path = None \<Longrightarrow> lw_locks w (lw_next w) = None"
  shows "\<exists>i w'. pid_lock_acquire env q path g w = (0, \<lparr>g_lock_fd = Some i, g_lock_path = take (LOCK_PATH_MAX - 1) (cstr path), g_released = False\<rparr>, w')
      \<and> lw_names w' path = Some i \<and> lw_locks w' i = Some q \<and> lw_text w' i = dec q @ [newline]"
proof -
  have d: "lw_names (make_parent path w) = lw_names w" "lw_locks (make_parent path w) = lw_locks w" "lw_next (make_parent path w) = lw_next w"
    by (simp_all add: make_parent_def split: option.split)
  have len: "length (dec q) \<le> 14" using dec_length [of q 13] assms(2) by simp
  obtain i w1 where o: "file_open path (make_parent path w) = (i, w1)" by fastforce
  have f: "lw_names w1 path = Some i" "lw_locks w1 i = None \<or> lw_locks w1 i = Some q"
    using o assms(3,4) by (auto simp: file_open_def d split: option.splits)
  have t: "take 15 (dec q @ [newline]) = dec q @ [newline]" using len by simp
  show ?thesis
    using assms(1) f
    by (simp add: all_well_def pid_lock_acquire_def lock_open_def o lock_take_def lock_write_def Let_def t overwrite_text_def del: take_append)
qed

text \<open>The lock keeps a second agent out and does not outlive the first: while one process holds the pid file another cannot acquire it
  and changes neither a file nor a lock; when the holder ends, however it ends, a process acquires the file it left behind, which then holds its own pid.\<close>

theorem pid_lock_exclusive:
  assumes "holds p path w" and "q \<noteq> p" and "q < 10 ^ 14"
  shows "fst (pid_lock_acquire env q path g w) = -1 \<and> snd (snd (pid_lock_acquire env q path g w)) = make_parent path w
    \<and> (all_well env \<longrightarrow> (\<exists>g' i w'. pid_lock_acquire env q path g (process_end p w) = (0, g', w')
          \<and> lw_names w' path = Some i \<and> lw_locks w' i = Some q \<and> lw_text w' i = dec q @ [newline]))"
proof -
  obtain i where i: "lw_names w path = Some i" "lw_locks w i = Some p" using assms(1) by (auto simp: holds_def)
  have d: "lw_names (make_parent path w) = lw_names w" "lw_locks (make_parent path w) = lw_locks w"
    by (simp_all add: make_parent_def split: option.split)
  have refused: "fst (pid_lock_acquire env q path g w) = -1 \<and> snd (snd (pid_lock_acquire env q path g w)) = make_parent path w"
    using i assms(2) d by (auto simp: pid_lock_acquire_def lock_open_def file_open_def lock_take_def file_close_def Let_def)
  have later: "\<exists>g' i w'. pid_lock_acquire env q path g (process_end p w) = (0, g', w')
      \<and> lw_names w' path = Some i \<and> lw_locks w' i = Some q \<and> lw_text w' i = dec q @ [newline]" if "all_well env"
    using acquire_free [OF that assms(3), of "process_end p w" path g] i by (simp add: process_end_def) blast
  show ?thesis using refused later by blast
qed

definition good_lock_env :: lock_env where
  "good_lock_env = \<lparr>lk_open = True, lk_lock = True, lk_trunc = True, lk_write = True\<rparr>"

definition empty_world :: lock_world where
  "empty_world = \<lparr>lw_names = (\<lambda>_. None), lw_next = 0, lw_text = (\<lambda>_. []), lw_locks = (\<lambda>_. None), lw_dirs = []\<rparr>"

theorem pid_lock_exclusive_witness:
  "\<exists>g w. pid_lock_acquire good_lock_env 7 ''/l'' pid_lock_init empty_world = (0, g, w)
     \<and> fst (pid_lock_acquire good_lock_env 8 ''/l'' pid_lock_init w) = -1"
proof -
  obtain i w where a: "pid_lock_acquire good_lock_env 7 ''/l'' pid_lock_init empty_world
      = (0, \<lparr>g_lock_fd = Some i, g_lock_path = take (LOCK_PATH_MAX - 1) (cstr ''/l''), g_released = False\<rparr>, w)"
    "lw_names w ''/l'' = Some i" "lw_locks w i = Some 7"
    using acquire_free [of good_lock_env 7 empty_world "''/l''" pid_lock_init]
    by (auto simp: all_well_def good_lock_env_def empty_world_def)
  have "holds 7 ''/l'' w" using a(2,3) by (auto simp: holds_def)
  from pid_lock_exclusive [OF this, of 8 good_lock_env pid_lock_init] show ?thesis
    unfolding a(1) by auto
qed

section \<open>Interleaved processes\<close>

text \<open>Where a process stands: not started, with the file open, with the lock, running with its pid written, with
  the file closed but not yet unlinked, gone.\<close>

datatype stage = Idle | Opened | Locked | Running | Closed | Gone

record lock_sys =
  ls_world :: lock_world
  ls_stage :: "nat \<Rightarrow> stage"
  ls_glob :: "nat \<Rightarrow> pid_lock"

definition lock_start :: lock_sys where
  "lock_start = \<lparr>ls_world = empty_world, ls_stage = (\<lambda>_. Idle), ls_glob = (\<lambda>_. pid_lock_init)\<rparr>"

definition moved :: "lock_sys \<Rightarrow> nat \<Rightarrow> stage \<Rightarrow> pid_lock \<Rightarrow> lock_world \<Rightarrow> lock_sys" where
  "moved s p st g w = \<lparr>ls_world = w, ls_stage = (ls_stage s)(p := st), ls_glob = (ls_glob s)(p := g)\<rparr>"

inductive lock_step :: "string \<Rightarrow> bool \<Rightarrow> lock_sys \<Rightarrow> lock_sys \<Rightarrow> bool" for path :: string and releases :: bool where
  step_open: "ls_stage s p = Idle \<Longrightarrow> lock_open env path (ls_glob s p) (ls_world s) = (rc, g, w) \<Longrightarrow>
    lock_step path releases s (moved s p (if rc < 0 then Gone else Opened) g w)"
| step_take: "ls_stage s p = Opened \<Longrightarrow> lock_take env p (ls_glob s p) (ls_world s) = (rc, g, w) \<Longrightarrow>
    lock_step path releases s (moved s p (if rc < 0 then Gone else Locked) g w)"
| step_write: "ls_stage s p = Locked \<Longrightarrow> lock_write env p (ls_glob s p) (ls_world s) = (g, w) \<Longrightarrow>
    lock_step path releases s (moved s p Running g w)"
| step_crash: "lock_step path releases s (moved s p Gone (ls_glob s p) (process_end p (ls_world s)))"
| step_close: "releases \<Longrightarrow> ls_stage s p = Running \<Longrightarrow> release_close p (ls_glob s p) (ls_world s) = (g, w) \<Longrightarrow>
    lock_step path releases s (moved s p Closed g w)"
| step_unlink: "ls_stage s p = Closed \<Longrightarrow>
    lock_step path releases s (moved s p Gone (ls_glob s p) (release_unlink (ls_glob s p) (ls_world s)))"

inductive lock_reach :: "string \<Rightarrow> bool \<Rightarrow> lock_sys \<Rightarrow> bool" for path :: string and releases :: bool where
  reach_start: "lock_reach path releases lock_start"
| reach_step: "lock_reach path releases s \<Longrightarrow> lock_step path releases s s' \<Longrightarrow> lock_reach path releases s'"

text \<open>Without a release the file keeps its identity, and whoever has the lock has it on that file.\<close>

definition lock_inv :: "string \<Rightarrow> lock_sys \<Rightarrow> bool" where
  "lock_inv path s \<longleftrightarrow>
     (\<forall>p. ls_stage s p \<noteq> Closed)
   \<and> (\<forall>p. ls_stage s p \<in> {Opened, Locked, Running} \<longrightarrow> g_lock_fd (ls_glob s p) = lw_names (ls_world s) path \<and> lw_names (ls_world s) path \<noteq> None)
   \<and> (\<forall>p i. ls_stage s p \<in> {Locked, Running} \<longrightarrow> lw_names (ls_world s) path = Some i \<longrightarrow> lw_locks (ls_world s) i = Some p)"

lemma lock_invI:
  assumes "\<And>q. ls_stage s q \<noteq> Closed"
    and "\<And>q. ls_stage s q \<in> {Opened, Locked, Running} \<Longrightarrow> \<exists>i. g_lock_fd (ls_glob s q) = Some i \<and> lw_names (ls_world s) path = Some i"
    and "\<And>q i. ls_stage s q \<in> {Locked, Running} \<Longrightarrow> lw_names (ls_world s) path = Some i \<Longrightarrow> lw_locks (ls_world s) i = Some q"
  shows "lock_inv path s"
  unfolding lock_inv_def using assms by force

lemma lock_invD:
  assumes "lock_inv path s"
  shows "ls_stage s q \<noteq> Closed"
    "ls_stage s q \<in> {Opened, Locked, Running} \<Longrightarrow> \<exists>i. g_lock_fd (ls_glob s q) = Some i \<and> lw_names (ls_world s) path = Some i"
    "ls_stage s q \<in> {Locked, Running} \<Longrightarrow> lw_names (ls_world s) path = Some i \<Longrightarrow> lw_locks (ls_world s) i = Some q"
  using assms unfolding lock_inv_def by force+

text \<open>A step of one process that keeps the names and the locks of the others.\<close>

lemma moved_inv:
  assumes "lock_inv path s" and "st \<noteq> Closed"
    and "\<And>i. lw_names (ls_world s) path = Some i \<Longrightarrow> lw_names w path = Some i"
    and "\<And>i q. q \<noteq> p \<Longrightarrow> lw_names (ls_world s) path = Some i \<Longrightarrow> lw_locks (ls_world s) i = Some q \<Longrightarrow> lw_locks w i = Some q"
    and "st \<in> {Opened, Locked, Running} \<Longrightarrow> \<exists>i. g_lock_fd g = Some i \<and> lw_names w path = Some i"
    and "\<And>i. st \<in> {Locked, Running} \<Longrightarrow> lw_names w path = Some i \<Longrightarrow> lw_locks w i = Some p"
  shows "lock_inv path (moved s p st g w)"
proof (rule lock_invI)
  fix q show "ls_stage (moved s p st g w) q \<noteq> Closed" using assms(2) lock_invD(1) [OF assms(1)] by (simp add: moved_def)
next
  fix q assume q: "ls_stage (moved s p st g w) q \<in> {Opened, Locked, Running}"
  show "\<exists>i. g_lock_fd (ls_glob (moved s p st g w) q) = Some i \<and> lw_names (ls_world (moved s p st g w)) path = Some i"
  proof (cases "q = p")
    case True
    then show ?thesis using q assms(5) by (simp add: moved_def)
  next
    case False
    then show ?thesis using q lock_invD(2) [OF assms(1), of q] assms(3) by (auto simp: moved_def)
  qed
next
  fix q i assume q: "ls_stage (moved s p st g w) q \<in> {Locked, Running}" and i: "lw_names (ls_world (moved s p st g w)) path = Some i"
  show "lw_locks (ls_world (moved s p st g w)) i = Some q"
  proof (cases "q = p")
    case True
    then show ?thesis using q i assms(6) by (simp add: moved_def)
  next
    case False
    then have st: "ls_stage s q \<in> {Locked, Running}" using q by (simp add: moved_def)
    then obtain j where j: "lw_names (ls_world s) path = Some j" using lock_invD(2) [OF assms(1), of q] by auto
    then have "j = i" using assms(3) i by (simp add: moved_def)
    then show ?thesis using assms(4) [OF False j] lock_invD(3) [OF assms(1) st j] by (simp add: moved_def)
  qed
qed

lemma lock_step_inv: "lock_step path False s s' \<Longrightarrow> lock_inv path s \<Longrightarrow> lock_inv path s'"
proof (induction rule: lock_step.induct)
  case (step_open s p env rc g w)
  show ?case
    by (rule moved_inv [OF step_open.prems])
       (use step_open.hyps(2) in \<open>auto simp: lock_open_def file_open_def make_parent_def Let_def split: if_splits option.splits prod.splits\<close>)
next
  case (step_take s p env rc g w)
  obtain j where j: "g_lock_fd (ls_glob s p) = Some j" "lw_names (ls_world s) path = Some j"
    using lock_invD(2) [OF step_take.prems, of p] step_take.hyps(1) by auto
  show ?case
    by (rule moved_inv [OF step_take.prems])
       (use step_take.hyps(2) j in \<open>auto simp: lock_take_def file_close_def split: if_splits\<close>)
next
  case (step_write s p env g w)
  obtain j where j: "g_lock_fd (ls_glob s p) = Some j" "lw_names (ls_world s) path = Some j" "lw_locks (ls_world s) j = Some p"
    using lock_invD(2,3) [OF step_write.prems, of p] step_write.hyps(1) by auto
  show ?case
    by (rule moved_inv [OF step_write.prems]) (use step_write.hyps(2) j in \<open>auto simp: lock_write_def Let_def\<close>)
next
  case (step_crash s p)
  show ?case by (rule moved_inv [OF step_crash.prems]) (auto simp: process_end_def)
next
  case (step_unlink s p)
  then show ?case using lock_invD(1) by blast
qed simp

lemma lock_reach_inv: "lock_reach path False s \<Longrightarrow> lock_inv path s"
proof (induction rule: lock_reach.induct)
  case reach_start
  show ?case by (simp add: lock_inv_def lock_start_def)
qed (rule lock_step_inv)

text \<open>C26. Until a process releases it, the pid file admits one: in every interleaving of processes that start and of processes that end
  by crashing, no two run at the same time, and the one that runs has the lock on the file the name leads to.\<close>

theorem pid_lock_admits_one:
  assumes "lock_reach path False s" and "ls_stage s p = Running"
  shows "(ls_stage s q = Running \<longrightarrow> q = p) \<and> holds p path (ls_world s)"
proof -
  note inv = lock_reach_inv [OF assms(1)]
  obtain i where i: "lw_names (ls_world s) path = Some i" using lock_invD(2) [OF inv, of p] assms(2) by auto
  have l: "lw_locks (ls_world s) i = Some p" using lock_invD(3) [OF inv _ i] assms(2) by simp
  then have "ls_stage s q = Running \<longrightarrow> q = p" using lock_invD(3) [OF inv _ i, of q] by auto
  then show ?thesis using i l by (auto simp: holds_def)
qed

text \<open>Steps in which the system grants everything.\<close>

definition IG_PID_FILE :: string where "IG_PID_FILE = ''/tmp/ig_monitor.pid''"

definition go_open :: "nat \<Rightarrow> lock_sys \<Rightarrow> lock_sys" where
  "go_open p s = (case lock_open good_lock_env IG_PID_FILE (ls_glob s p) (ls_world s) of (rc, g, w) \<Rightarrow> moved s p (if rc < 0 then Gone else Opened) g w)"

definition go_take :: "nat \<Rightarrow> lock_sys \<Rightarrow> lock_sys" where
  "go_take p s = (case lock_take good_lock_env p (ls_glob s p) (ls_world s) of (rc, g, w) \<Rightarrow> moved s p (if rc < 0 then Gone else Locked) g w)"

definition go_write :: "nat \<Rightarrow> lock_sys \<Rightarrow> lock_sys" where
  "go_write p s = (case lock_write good_lock_env p (ls_glob s p) (ls_world s) of (g, w) \<Rightarrow> moved s p Running g w)"

definition go_close :: "nat \<Rightarrow> lock_sys \<Rightarrow> lock_sys" where
  "go_close p s = (case release_close p (ls_glob s p) (ls_world s) of (g, w) \<Rightarrow> moved s p Closed g w)"

definition go_unlink :: "nat \<Rightarrow> lock_sys \<Rightarrow> lock_sys" where
  "go_unlink p s = moved s p Gone (ls_glob s p) (release_unlink (ls_glob s p) (ls_world s))"

lemma go_reach:
  "lock_reach IG_PID_FILE r s \<Longrightarrow> ls_stage s p = Idle \<Longrightarrow> lock_reach IG_PID_FILE r (go_open p s)"
  "lock_reach IG_PID_FILE r s \<Longrightarrow> ls_stage s p = Opened \<Longrightarrow> lock_reach IG_PID_FILE r (go_take p s)"
  "lock_reach IG_PID_FILE r s \<Longrightarrow> ls_stage s p = Locked \<Longrightarrow> lock_reach IG_PID_FILE r (go_write p s)"
  "lock_reach IG_PID_FILE True s \<Longrightarrow> ls_stage s p = Running \<Longrightarrow> lock_reach IG_PID_FILE True (go_close p s)"
  "lock_reach IG_PID_FILE r s \<Longrightarrow> ls_stage s p = Closed \<Longrightarrow> lock_reach IG_PID_FILE r (go_unlink p s)"
  unfolding go_open_def go_take_def go_write_def go_close_def go_unlink_def split_def
  by (erule reach_step, rule step_open step_take step_write step_close step_unlink; simp)+

definition one_runs :: lock_sys where
  "one_runs = go_write 1 (go_take 1 (go_open 1 lock_start))"

text \<open>The globals of a process that holds the lock on file \<open>i\<close>.\<close>

definition with_fd :: "nat option \<Rightarrow> bool \<Rightarrow> pid_lock" where
  "with_fd i r = \<lparr>g_lock_fd = i, g_lock_path = IG_PID_FILE, g_released = r\<rparr>"

lemma pid_file_name: "take 4095 (cstr IG_PID_FILE) = IG_PID_FILE" "IG_PID_FILE \<noteq> []"
  by (simp_all add: IG_PID_FILE_def cstr_def nul_def)

lemma go_open_step:
  "go_open p s = (case file_open IG_PID_FILE (make_parent IG_PID_FILE (ls_world s)) of (i, w) \<Rightarrow> moved s p Opened (with_fd (Some i) (g_released (ls_glob s p))) w)"
  by (cases "ls_glob s p")
     (simp add: go_open_def lock_open_def good_lock_env_def Let_def split_def LOCK_PATH_MAX_def pid_file_name with_fd_def)

lemma go_steps:
  "ls_glob s p = with_fd (Some i) r \<Longrightarrow> lw_locks (ls_world s) i = None \<Longrightarrow>
     go_take p s = moved s p Locked (with_fd (Some i) r) ((ls_world s)\<lparr>lw_locks := (lw_locks (ls_world s))(i := Some p)\<rparr>)"
  "ls_glob s p = with_fd (Some i) r \<Longrightarrow>
     go_write p s = moved s p Running (with_fd (Some i) False) ((ls_world s)\<lparr>lw_text := (lw_text (ls_world s))(i := take 15 (dec p @ [newline]))\<rparr>)"
  "ls_glob s p = with_fd (Some i) r \<Longrightarrow> go_close p s = moved s p Closed (with_fd None True) (file_close p i (ls_world s))"
  "ls_glob s p = with_fd fd r \<Longrightarrow>
     go_unlink p s = moved s p Gone (ls_glob s p) ((ls_world s)\<lparr>lw_names := (lw_names (ls_world s))(IG_PID_FILE := None)\<rparr>)"
  by (simp_all add: good_lock_env_def split_def with_fd_def pid_file_name
      go_take_def lock_take_def go_write_def lock_write_def overwrite_text_def go_close_def release_close_def go_unlink_def release_unlink_def)

lemma make_parent_simps [simp]:
  "lw_names (make_parent path w) = lw_names w" "lw_next (make_parent path w) = lw_next w" "lw_locks (make_parent path w) = lw_locks w"
  by (simp_all add: make_parent_def split: option.split)

lemma moved_simps [simp]:
  "ls_world (moved s p st g w) = w" "ls_stage (moved s p st g w) = (ls_stage s)(p := st)" "ls_glob (moved s p st g w) = (ls_glob s)(p := g)"
  by (simp_all add: moved_def)

text \<open>What matters of a state: the names and locks of the world, the stage and the globals of each process.\<close>

lemma one_runs_state:
  "lw_names (ls_world one_runs) IG_PID_FILE = Some 0" "lw_next (ls_world one_runs) = 1" "lw_locks (ls_world one_runs) = [0 \<mapsto> 1]"
  "ls_stage one_runs = (\<lambda>_. Idle)(1 := Running)" "ls_glob one_runs = (\<lambda>_. pid_lock_init)(1 := with_fd (Some 0) False)"
  by (simp_all add: one_runs_def go_open_step go_steps file_open_def lock_start_def empty_world_def)

lemma one_runs_reach: "lock_reach IG_PID_FILE r one_runs"
  unfolding one_runs_def
  by (intro go_reach reach_start) (simp_all add: go_open_step go_steps file_open_def lock_start_def empty_world_def)

theorem pid_lock_admits_one_witness:
  "holds 1 IG_PID_FILE (ls_world one_runs)"
  using pid_lock_admits_one [OF one_runs_reach, of 1] by (simp add: one_runs_state)

text \<open>The first process ends in order: the second takes its file before the name is gone, a third makes the next.\<close>

definition second_runs :: lock_sys where
  "second_runs = go_write 2 (go_take 2 (go_open 2 (go_close 1 one_runs)))"

lemma second_runs_state:
  "lw_names (ls_world second_runs) IG_PID_FILE = Some 0" "lw_next (ls_world second_runs) = 1" "lw_locks (ls_world second_runs) = [0 \<mapsto> 2]"
  "ls_stage second_runs = (\<lambda>_. Idle)(1 := Closed, 2 := Running)"
  "ls_glob second_runs = (\<lambda>_. pid_lock_init)(1 := with_fd None True, 2 := with_fd (Some 0) False)"
  by (simp_all add: second_runs_def go_open_step go_steps file_open_def file_close_def one_runs_state)

lemma second_runs_reach: "lock_reach IG_PID_FILE True second_runs"
  unfolding second_runs_def
  by (intro go_reach one_runs_reach) (simp_all add: go_open_step go_steps file_open_def file_close_def one_runs_state)

definition two_run :: lock_sys where
  "two_run = go_write 3 (go_take 3 (go_open 3 (go_unlink 1 second_runs)))"

text \<open>The release lets two agents run: it gives up the lock before it removes the name, so an agent that starts in between
  runs on a file whose name is then removed, and the next one locks a new file.\<close>

theorem release_admits_two:
  "\<exists>s p q. lock_reach IG_PID_FILE True s \<and> p \<noteq> q \<and> ls_stage s p = Running \<and> ls_stage s q = Running
     \<and> g_lock_fd (ls_glob s p) \<noteq> g_lock_fd (ls_glob s q)"
proof -
  have "lock_reach IG_PID_FILE True two_run"
    unfolding two_run_def
    by (intro go_reach second_runs_reach) (simp_all add: go_open_step go_steps file_open_def second_runs_state)
  moreover have "ls_stage two_run 2 = Running \<and> ls_stage two_run 3 = Running \<and> g_lock_fd (ls_glob two_run 2) \<noteq> g_lock_fd (ls_glob two_run 3)"
    by (simp add: two_run_def go_open_step go_steps file_open_def second_runs_state with_fd_def)
  ultimately show ?thesis by (intro exI [of _ two_run] exI [of _ "2 :: nat"] exI [of _ "3 :: nat"]) simp
qed

end
