(* ===== verification/Inotify.thy ===== *)
theory Inotify
  imports Walker Config Event_Queue "HOL-Library.Multiset"
begin

text \<open>
  The inotify backend: \<^verbatim>\<open>Agent/src/realtime/inotify_mon.c\<close>.  The kernel's side is a parameter: the descriptor or the error
  \<^verbatim>\<open>inotify_add_watch\<close> answers, the directories \<^verbatim>\<open>readdir\<close> lists.  The commands sent to the kernel are recorded in order.
  The walk over a tree has no bound in the code and takes fuel here.
\<close>

section \<open>State\<close>

definition IN_ACCESS :: u32 where "IN_ACCESS = 0x1"
definition IN_MODIFY :: u32 where "IN_MODIFY = 0x2"
definition IN_ATTRIB :: u32 where "IN_ATTRIB = 0x4"
definition IN_MOVED_FROM :: u32 where "IN_MOVED_FROM = 0x40"
definition IN_MOVED_TO :: u32 where "IN_MOVED_TO = 0x80"
definition IN_CREATE :: u32 where "IN_CREATE = 0x100"
definition IN_DELETE :: u32 where "IN_DELETE = 0x200"
definition IN_DELETE_SELF :: u32 where "IN_DELETE_SELF = 0x400"
definition IN_ISDIR :: u32 where "IN_ISDIR = 0x40000000"

lemmas in_bits = IN_ACCESS_def IN_MODIFY_def IN_ATTRIB_def IN_MOVED_FROM_def IN_MOVED_TO_def IN_CREATE_def IN_DELETE_def
  IN_DELETE_SELF_def IN_ISDIR_def

definition watch_mask :: u32 where
  "watch_mask = IN_CREATE OR IN_MODIFY OR IN_DELETE OR IN_DELETE_SELF OR IN_ATTRIB OR IN_MOVED_FROM OR IN_MOVED_TO"

datatype inotify_cmd = Add_watch string u32 | Rm_watch int

text \<open>\<open>wd_map\<close> up to \<open>wd_count\<close>.\<close>

record inotify_priv =
  ip_fd :: int
  ip_map :: "(int \<times> string) list"
  ip_cfg :: "ig_config option"
  ip_cmds :: "inotify_cmd list"

text \<open>
  The kernel: the answer to the \<open>n\<close>-th command, and the entries of a directory, each with whether it is one itself.
\<close>

record inotify_env =
  ie_add :: "nat \<Rightarrow> string \<Rightarrow> int"
  ie_dir :: "string \<Rightarrow> (string \<times> bool) list option"

section \<open>Utilities\<close>

definition inotify_mask_to_ig :: "u32 \<Rightarrow> u32" where
  "inotify_mask_to_ig m =
     (if m AND IN_CREATE \<noteq> 0 then IG_EVENT_CREATE
      else if m AND IN_MODIFY \<noteq> 0 then IG_EVENT_MODIFY
      else if m AND IN_DELETE \<noteq> 0 then IG_EVENT_DELETE
      else if m AND IN_DELETE_SELF \<noteq> 0 then IG_EVENT_DELETE
      else if m AND IN_ATTRIB \<noteq> 0 then IG_EVENT_ATTRIB
      else if m AND (IN_MOVED_FROM OR IN_MOVED_TO) \<noteq> 0 then IG_EVENT_MOVE
      else if m AND IN_ACCESS \<noteq> 0 then IG_EVENT_ACCESS
      else IG_EVENT_UNKNOWN)"

definition wd_to_path :: "inotify_priv \<Rightarrow> int \<Rightarrow> string" where
  "wd_to_path p wd = (case map_of (ip_map p) wd of Some path \<Rightarrow> path | None \<Rightarrow> ''?'')"

definition is_protected_path :: "inotify_priv \<Rightarrow> string \<Rightarrow> bool" where
  "is_protected_path p path =
     (case ip_cfg p of None \<Rightarrow> False | Some cfg \<Rightarrow> path \<in> set (map w_path (protect_paths cfg)))"

definition npath :: "string \<Rightarrow> string" where
  "npath path = cut_slashes (strncpy0 IG_MAX_PATH path)"

definition add_single_watch :: "inotify_env \<Rightarrow> string \<Rightarrow> inotify_priv \<Rightarrow> int \<times> inotify_priv" where
  "add_single_watch env path p =
     (if length (ip_map p) \<ge> IG_MAX_WATCHES then (-1, p)
      else let np = npath path
      in if np \<in> set (map snd (ip_map p)) then (0, p)
      else let wd = ie_add env (length (ip_cmds p)) np;
               p = p\<lparr>ip_cmds := ip_cmds p @ [Add_watch np watch_mask]\<rparr>
      in if wd < 0 then (-1, p) else (0, p\<lparr>ip_map := ip_map p @ [(wd, np)]\<rparr>))"

text \<open>\<^verbatim>\<open>snprintf(subpath, sizeof(subpath), "%s/%s", base, entry->d_name)\<close>\<close>

definition watch_sub_path :: "string \<Rightarrow> string \<Rightarrow> string" where
  "watch_sub_path base name = take (IG_MAX_PATH - 1) (base @ ''/'' @ name)"

fun add_recursive_watch :: "nat \<Rightarrow> inotify_env \<Rightarrow> string \<Rightarrow> inotify_priv \<Rightarrow> (int \<times> inotify_priv) option"
and add_recursive_entries :: "nat \<Rightarrow> inotify_env \<Rightarrow> string \<Rightarrow> (string \<times> bool) list \<Rightarrow> inotify_priv \<Rightarrow> inotify_priv option" where
  "add_recursive_watch 0 env base p = None"
| "add_recursive_watch (Suc n) env base p =
     (let p = snd (add_single_watch env base p)
      in case ie_dir env base of
           None \<Rightarrow> Some (-1, p)
         | Some es \<Rightarrow> map_option (\<lambda>p. (0, p)) (add_recursive_entries n env base es p))"
| "add_recursive_entries n env base [] p = Some p"
| "add_recursive_entries n env base (e # es) p =
     (if \<not> snd e \<or> fst e = ''.'' \<or> fst e = ''..'' then add_recursive_entries n env base es p
      else (case add_recursive_watch n env (watch_sub_path base (fst e)) p of
              None \<Rightarrow> None
            | Some (rc, p) \<Rightarrow> add_recursive_entries n env base es p))"

section \<open>The backend\<close>

record ig_backend =
  be_priv :: "inotify_priv option"
  be_queue :: "ig_event ig_event_queue"

definition inotify_init_be :: "bool \<Rightarrow> int \<Rightarrow> ig_config \<Rightarrow> ig_event ig_event_queue \<Rightarrow> ig_backend \<Rightarrow> int \<times> ig_backend" where
  "inotify_init_be alloc fd cfg queue be =
     (if \<not> alloc then (-1, be)
      else if fd < 0 then (-1, be)
      else (0, be\<lparr>be_priv := Some \<lparr>ip_fd = fd, ip_map = [], ip_cfg = Some cfg, ip_cmds = []\<rparr>, be_queue := queue\<rparr>))"

definition inotify_add_watch_be :: "nat \<Rightarrow> inotify_env \<Rightarrow> string \<Rightarrow> bool \<Rightarrow> inotify_priv \<Rightarrow> (int \<times> inotify_priv) option" where
  "inotify_add_watch_be n env path recursive p =
     (if recursive then add_recursive_watch n env (npath path) p else Some (add_single_watch env (npath path) p))"

text \<open>The loop of the removal at index \<open>i\<close>: the last entry takes the place of a removed one, which is then looked at again.\<close>

function remove_watch_loop :: "string \<Rightarrow> nat \<Rightarrow> inotify_priv \<Rightarrow> inotify_priv" where
  "remove_watch_loop path i p =
     (if i \<ge> length (ip_map p) then p
      else if take (length path) (snd (ip_map p ! i)) = path
      then remove_watch_loop path i (p\<lparr>ip_cmds := ip_cmds p @ [Rm_watch (fst (ip_map p ! i))],
             ip_map := butlast ((ip_map p)[i := last (ip_map p)])\<rparr>)
      else remove_watch_loop path (Suc i) p)"
  by auto

termination by (relation "measure (\<lambda>(path, i, p). 2 * length (ip_map p) - i)") auto

declare remove_watch_loop.simps [simp del]

definition inotify_remove_watch_be :: "string \<Rightarrow> inotify_priv \<Rightarrow> int \<times> inotify_priv" where
  "inotify_remove_watch_be path p = (0, remove_watch_loop (cstr path) 0 p)"

text \<open>An event in the buffer; \<open>iv_len\<close> is the length of its name field, \<open>iv_name\<close> the string in it.\<close>

record inotify_event =
  iv_wd :: int
  iv_mask :: u32
  iv_len :: nat
  iv_name :: string

definition event_path :: "string \<Rightarrow> string \<Rightarrow> string" where
  "event_path dir name = take (IG_MAX_PATH - 1) (dir @ ''/'' @ name)"

definition inotify_to_event :: "int \<Rightarrow> inotify_priv \<Rightarrow> inotify_event \<Rightarrow> ig_event" where
  "inotify_to_event now p ev =
     zero_event\<lparr>ev_type := inotify_mask_to_ig (iv_mask ev), ev_source := IG_SOURCE_INOTIFY, ev_timestamp := now,
       ev_path := event_path (wd_to_path p (iv_wd ev)) (iv_name ev), ev_filename := strncpy0 256 (iv_name ev)\<rparr>"

text \<open>The events of one read in turn; the alerts for protected paths are collected.\<close>

fun handle_events :: "nat \<Rightarrow> inotify_env \<Rightarrow> int \<Rightarrow> inotify_event list \<Rightarrow> inotify_priv \<times> ig_event ig_event_queue \<times> string list \<Rightarrow>
    (int \<times> inotify_priv \<times> ig_event ig_event_queue \<times> string list) option" where
  "handle_events n env now [] s = Some (0, s)"
| "handle_events n env now (ev # evs) (p, q, alerts) =
     (if iv_len ev = 0 then handle_events n env now evs (p, q, alerts)
      else let fe = inotify_to_event now p ev;
               alerts = (if is_protected_path p (ev_path fe) then alerts @ [ev_path fe] else alerts);
               q = ig_queue_push q fe
      in case (if iv_mask ev AND IN_CREATE \<noteq> 0 \<and> iv_mask ev AND IN_ISDIR \<noteq> 0
               then map_option snd (add_recursive_watch n env (event_path (wd_to_path p (iv_wd ev)) (iv_name ev)) p)
               else Some p) of
           None \<Rightarrow> None
         | Some p \<Rightarrow> map_option (\<lambda>(k, s). (k + 1, s)) (handle_events n env now evs (p, q, alerts)))"

text \<open>\<open>None\<close> for the events: \<^verbatim>\<open>select\<close> timed out or failed, or the read gave nothing.\<close>

definition inotify_poll_events_be :: "nat \<Rightarrow> inotify_env \<Rightarrow> int \<Rightarrow> inotify_event list option \<Rightarrow>
    inotify_priv \<times> ig_event ig_event_queue \<times> string list \<Rightarrow> (int \<times> inotify_priv \<times> ig_event ig_event_queue \<times> string list) option" where
  "inotify_poll_events_be n env now evs s = (case evs of None \<Rightarrow> Some (0, s) | Some evs \<Rightarrow> handle_events n env now evs s)"

text \<open>The commands of the cleanup; the descriptor is closed with the structure.\<close>

definition inotify_cleanup_be :: "ig_backend \<Rightarrow> inotify_cmd list \<times> ig_backend" where
  "inotify_cleanup_be be =
     (case be_priv be of
        None \<Rightarrow> ([], be)
      | Some p \<Rightarrow> (map (\<lambda>e. Rm_watch (fst e)) (ip_map p), be\<lparr>be_priv := None\<rparr>))"

section \<open>The watch table\<close>

definition watch_inv :: "inotify_priv \<Rightarrow> bool" where
  "watch_inv p \<longleftrightarrow> distinct (map snd (ip_map p)) \<and> length (ip_map p) \<le> IG_MAX_WATCHES
     \<and> (\<forall>e \<in> set (ip_map p). fst e \<ge> 0 \<and> length (snd e) < IG_MAX_PATH \<and> has_no_nul (snd e))"

lemma cut_slashes_subset: "set (cut_slashes p) \<subseteq> set p"
proof (induction p rule: cut_slashes.induct)
  case (1 p)
  show ?case
    using 1 by (subst cut_slashes.simps) (auto dest: in_set_butlastD)
qed

lemma npath_field: "length (npath path) < IG_MAX_PATH \<and> has_no_nul (npath path)"
proof -
  have "0 < IG_MAX_PATH" by (simp add: IG_MAX_PATH_def)
  then have "length (strncpy0 IG_MAX_PATH path) < IG_MAX_PATH" "has_no_nul (strncpy0 IG_MAX_PATH path)"
    by (simp_all add: length_strncpy0)
  then show ?thesis
    using length_cut_slashes [of "strncpy0 IG_MAX_PATH path"] cut_slashes_subset [of "strncpy0 IG_MAX_PATH path"]
    by (auto simp: npath_def has_no_nul_def)
qed

text \<open>Adding only appends: to the table, and commands for paths that were not in it.\<close>

definition extends :: "inotify_priv \<Rightarrow> inotify_priv \<Rightarrow> bool" where
  "extends p p' \<longleftrightarrow> (\<exists>cs ms. ip_cmds p' = ip_cmds p @ cs \<and> ip_map p' = ip_map p @ ms \<and> ip_fd p' = ip_fd p \<and> ip_cfg p' = ip_cfg p
     \<and> (\<forall>np \<in> set (map snd (ip_map p)). \<forall>m. Add_watch np m \<notin> set cs))"

lemma extends_refl [simp]: "extends p p"
  by (simp add: extends_def)

lemma extends_trans: "extends p q \<Longrightarrow> extends q r \<Longrightarrow> extends p r"
  unfolding extends_def by force

lemma add_single_step:
  "watch_inv p \<Longrightarrow> watch_inv (snd (add_single_watch env path p))"
  "extends p (snd (add_single_watch env path p))"
  using npath_field [of path]
  by (auto simp: add_single_watch_def watch_inv_def extends_def Let_def intro: rev_image_eqI)

text \<open>The directories a walk visits, in order.\<close>

fun dir_tree :: "nat \<Rightarrow> inotify_env \<Rightarrow> string \<Rightarrow> string list option"
and dir_entries :: "nat \<Rightarrow> inotify_env \<Rightarrow> string \<Rightarrow> (string \<times> bool) list \<Rightarrow> string list option" where
  "dir_tree 0 env base = None"
| "dir_tree (Suc n) env base =
     (case ie_dir env base of None \<Rightarrow> Some [base] | Some es \<Rightarrow> map_option (Cons base) (dir_entries n env base es))"
| "dir_entries n env base [] = Some []"
| "dir_entries n env base (e # es) =
     (if \<not> snd e \<or> fst e = ''.'' \<or> fst e = ''..'' then dir_entries n env base es
      else (case dir_tree n env (watch_sub_path base (fst e)) of
              None \<Rightarrow> None | Some xs \<Rightarrow> map_option ((@) xs) (dir_entries n env base es)))"

abbreviation add_all :: "inotify_env \<Rightarrow> string list \<Rightarrow> inotify_priv \<Rightarrow> inotify_priv" where
  "add_all env ds p \<equiv> fold (\<lambda>d p. snd (add_single_watch env d p)) ds p"

lemma add_recursive_is_fold:
  "add_recursive_watch n env base p
     = map_option (\<lambda>ds. (if ie_dir env base = None then -1 else 0, add_all env ds p)) (dir_tree n env base)"
  "add_recursive_entries n env base es p = map_option (\<lambda>ds. add_all env ds p) (dir_entries n env base es)"
proof (induction n env base and n env base es arbitrary: p and p rule: dir_tree_dir_entries.induct)
  case (2 n env base)
  then show ?case by (auto simp: Let_def option.map_comp o_def split: option.splits)
next
  case (4 n env base e es)
  show ?case
  proof (cases "\<not> snd e \<or> fst e = ''.'' \<or> fst e = ''..''")
    case True
    then show ?thesis using "4.IH"(1) by auto
  next
    case False
    then show ?thesis
      using "4.IH"(2,3) by (cases "dir_tree n env (watch_sub_path base (fst e))") (auto simp: option.map_comp o_def)
  qed
qed simp_all

lemma add_all_step:
  "watch_inv p \<Longrightarrow> watch_inv (add_all env ds p)" "extends p (add_all env ds p)"
proof (induction ds arbitrary: p)
  case (Cons d ds)
  { case 1 then show ?case using Cons.IH(1) add_single_step(1) by simp }
  { case 2 show ?case using extends_trans [OF add_single_step(2) Cons.IH(2)] by simp }
qed simp_all

lemma add_recursive_step:
  assumes "add_recursive_watch n env base p = Some (rc, p')"
  shows "watch_inv p \<Longrightarrow> watch_inv p'" "extends p p'"
  using assms add_all_step by (auto simp: add_recursive_is_fold)

lemma add_single_covers:
  assumes "length (ip_map p) < IG_MAX_WATCHES" and "\<And>k path. ie_add env k path \<ge> 0"
  shows "npath d \<in> set (map snd (ip_map (snd (add_single_watch env d p))))"
    "length (ip_map (snd (add_single_watch env d p))) \<le> Suc (length (ip_map p))"
  using assms(1) assms(2) [of "length (ip_cmds p)" "npath d"] by (auto simp: add_single_watch_def Let_def)

lemma add_all_covers:
  "length (ip_map p) + length ds \<le> IG_MAX_WATCHES \<Longrightarrow> (\<And>k path. ie_add env k path \<ge> 0) \<Longrightarrow> d \<in> set ds \<Longrightarrow>
     npath d \<in> set (map snd (ip_map (add_all env ds p)))"
proof (induction ds arbitrary: p)
  case (Cons x ds)
  let ?p = "snd (add_single_watch env x p)"
  have one: "npath x \<in> set (map snd (ip_map ?p))" "length (ip_map ?p) \<le> Suc (length (ip_map p))"
    using add_single_covers [of p env x] Cons.prems(1,2) by auto
  show ?case
  proof (cases "d \<in> set ds")
    case True
    then show ?thesis using Cons.IH [of ?p] Cons.prems(1,2) one(2) by simp
  next
    case False
    then have "d = x" using Cons.prems(3) by simp
    then show ?thesis using one(1) add_all_step(2) [of ?p env ds] by (auto simp: extends_def)
  qed
qed simp


definition two_level :: inotify_env where
  "two_level = \<lparr>ie_add = (\<lambda>k _. int k), ie_dir = (\<lambda>p. if p = ''/w'' then Some [(''.'', True), (''s'', True), (''f'', False)] else Some [])\<rparr>"

definition fresh_priv :: inotify_priv where
  "fresh_priv = \<lparr>ip_fd = 3, ip_map = [], ip_cfg = None, ip_cmds = []\<rparr>"

lemma w_path: "npath ''/w/'' = ''/w''" "npath ''/w'' = ''/w''" "npath ''/w/s'' = ''/w/s''"
  by (simp_all add: npath_def strncpy0_def cstr_def nul_def IG_MAX_PATH_def cut_slashes.simps)

lemma two_level_tree: "dir_tree 2 two_level ''/w'' = Some [''/w'', ''/w/s'']"
  by (simp add: numeral_2_eq_2 two_level_def watch_sub_path_def IG_MAX_PATH_def)


section \<open>Removing watches\<close>

lemma swap_remove:
  assumes "i < length xs"
  shows "add_mset (xs ! i) (mset (butlast (xs[i := last xs]))) = mset xs"
    "j < i \<Longrightarrow> butlast (xs[i := last xs]) ! j = xs ! j"
proof -
  obtain ys l where x: "xs = ys @ [l]" using assms by (cases xs rule: rev_cases) auto
  show "add_mset (xs ! i) (mset (butlast (xs[i := last xs]))) = mset xs"
    using assms by (cases "i = length ys") (auto simp: x nth_append list_update_append mset_update)
  show "j < i \<Longrightarrow> butlast (xs[i := last xs]) ! j = xs ! j"
    using assms by (cases "i = length ys") (auto simp: x nth_append list_update_append)
qed

abbreviation under :: "string \<Rightarrow> int \<times> string \<Rightarrow> bool" where
  "under path e \<equiv> take (length path) (snd e) = path"

lemma remove_loop_spec:
  "(\<forall>j < i. j < length (ip_map p) \<longrightarrow> \<not> under path (ip_map p ! j)) \<Longrightarrow>
     mset (ip_map (remove_watch_loop path i p)) = filter_mset (\<lambda>e. \<not> under path e) (mset (ip_map p))
   \<and> (\<exists>ws. ip_cmds (remove_watch_loop path i p) = ip_cmds p @ map Rm_watch ws
        \<and> mset ws = image_mset fst (filter_mset (under path) (mset (ip_map p))))"
proof (induction path i p rule: remove_watch_loop.induct)
  case (1 path i p)
  show ?case
  proof (cases "i \<ge> length (ip_map p)")
    case True
    have "\<not> under path e" if mem: "e \<in> set (ip_map p)" for e
    proof -
      obtain j where j: "j < length (ip_map p)" "e = ip_map p ! j" using mem by (metis in_set_conv_nth)
      then have "j < i" using True by simp
      then show ?thesis unfolding j(2) using "1.prems" j(1) by blast
    qed
    then have none: "filter (\<lambda>e. \<not> under path e) (ip_map p) = ip_map p" "filter (under path) (ip_map p) = []"
      unfolding filter_id_conv filter_empty_conv by blast+
    have "filter_mset (\<lambda>e. \<not> under path e) (mset (ip_map p)) = mset (ip_map p)" "filter_mset (under path) (mset (ip_map p)) = {#}"
      unfolding mset_filter [symmetric] none by simp_all
    then show ?thesis using True by (simp add: remove_watch_loop.simps [of path i p])
  next
    case False
    then have i: "i < length (ip_map p)" by simp
    show ?thesis
    proof (cases "under path (ip_map p ! i)")
      case True
      let ?q = "p\<lparr>ip_cmds := ip_cmds p @ [Rm_watch (fst (ip_map p ! i))], ip_map := butlast ((ip_map p)[i := last (ip_map p)])\<rparr>"
      have e: "remove_watch_loop path i p = remove_watch_loop path i ?q"
        using False True by (subst remove_watch_loop.simps) simp
      have pre: "\<forall>j < i. j < length (ip_map ?q) \<longrightarrow> \<not> under path (ip_map ?q ! j)"
        using "1.prems" swap_remove(2) [OF i] i by auto
      note m = swap_remove(1) [OF i, symmetric]
      from "1.IH"(1) [OF False True pre] obtain ws where
        ws: "mset (ip_map (remove_watch_loop path i ?q)) = filter_mset (\<lambda>e. \<not> under path e) (mset (ip_map ?q))"
        "ip_cmds (remove_watch_loop path i ?q) = ip_cmds ?q @ map Rm_watch ws"
        "mset ws = image_mset fst (filter_mset (under path) (mset (ip_map ?q)))" by blast
      show ?thesis
        unfolding e using ws True by (intro conjI exI [of _ "fst (ip_map p ! i) # ws"]) (simp_all add: m)
    next
      case nu: False
      have e: "remove_watch_loop path i p = remove_watch_loop path (Suc i) p"
        using False nu by (subst remove_watch_loop.simps) simp
      show ?thesis unfolding e using "1.IH"(2) [OF False nu] "1.prems" nu by (auto simp: less_Suc_eq)
    qed
  qed
qed

text \<open>Removing a watch removes, and gives back to the kernel, exactly the watches whose path begins with the text given;
  the rest stay.  That is every directory below the one named, and every sibling whose name only begins the same.\<close>

theorem remove_watch_is_by_prefix:
  assumes "inotify_remove_watch_be path p = (rc, p')"
  shows "rc = 0 \<and> mset (ip_map p') = filter_mset (\<lambda>e. \<not> under (cstr path) e) (mset (ip_map p))
    \<and> (\<exists>ws. ip_cmds p' = ip_cmds p @ map Rm_watch ws \<and> mset ws = image_mset fst (filter_mset (under (cstr path)) (mset (ip_map p))))"
  using remove_loop_spec [of 0 p "cstr path"] assms by (auto simp: inotify_remove_watch_be_def)

theorem remove_watch_is_by_prefix_witness:
  "mset (ip_map (snd (inotify_remove_watch_be ''/w/test'' (fresh_priv\<lparr>ip_map := [(1, ''/w/test''), (2, ''/w/tests''), (3, ''/w'')]\<rparr>))))
     = {#(3, ''/w'')#}"
proof -
  let ?p = "fresh_priv\<lparr>ip_map := [(1, ''/w/test''), (2, ''/w/tests''), (3, ''/w'')]\<rparr>"
  obtain rc p' where r: "inotify_remove_watch_be ''/w/test'' ?p = (rc, p')" by fastforce
  have "cstr ''/w/test'' = ''/w/test''" by (simp add: cstr_def nul_def)
  with remove_watch_is_by_prefix [OF r] show ?thesis unfolding r by simp
qed

section \<open>Polling\<close>

lemma handle_events_step:
  "handle_events n env now evs (p, q, al) = Some (k, p', q', al') \<Longrightarrow> extends p p' \<and> (watch_inv p \<longrightarrow> watch_inv p')"
proof (induction evs arbitrary: p q al k)
  case (Cons ev evs)
  show ?case
  proof (cases "iv_len ev = 0")
    case True
    then show ?thesis using Cons by simp
  next
    case False
    let ?r = "if iv_mask ev AND IN_CREATE \<noteq> 0 \<and> iv_mask ev AND IN_ISDIR \<noteq> 0
      then map_option snd (add_recursive_watch n env (event_path (wd_to_path p (iv_wd ev)) (iv_name ev)) p) else Some p"
    obtain p1 q1 al1 k1 where s: "?r = Some p1" "handle_events n env now evs (p1, q1, al1) = Some (k1, p', q', al')"
      using Cons.prems False by (auto simp: Let_def split: option.splits)
    have "extends p p1 \<and> (watch_inv p \<longrightarrow> watch_inv p1)"
      using s(1) add_recursive_step by (auto split: if_splits)
    then show ?thesis using Cons.IH [OF s(2)] extends_trans by blast
  qed
qed simp

text \<open>A directory that was watched once is never watched again: nothing the backend reads takes a path off its table, and
  for a path on the table it asks the kernel for no watch.  The kernel drops a watch with its directory, so a directory that is
  removed and made again goes unwatched, and the 64 places are used up by directories that are gone.\<close>

theorem recreated_directory_unwatched:
  assumes "inotify_poll_events_be n env now evs (p, q, al) = Some (k, p', q', al')" and "d \<in> set (map snd (ip_map p))"
  shows "d \<in> set (map snd (ip_map p')) \<and> length (ip_map p') \<ge> length (ip_map p)
    \<and> (\<exists>cs. ip_cmds p' = ip_cmds p @ cs \<and> (\<forall>m. Add_watch d m \<notin> set cs))"
proof -
  have "extends p p'"
    using assms(1) handle_events_step by (auto simp: inotify_poll_events_be_def split: option.splits)
  then show ?thesis using assms(2) by (auto simp: extends_def)
qed

definition mkdir_s :: inotify_event where
  "mkdir_s = \<lparr>iv_wd = 0, iv_mask = IN_CREATE OR IN_ISDIR, iv_len = 16, iv_name = ''s''\<rparr>"

theorem recreated_directory_unwatched_witness:
  "\<exists>k p' q' al'. inotify_poll_events_be 2 two_level 0 (Some [mkdir_s])
       (fresh_priv\<lparr>ip_map := [(0, ''/w''), (1, ''/w/s'')]\<rparr>, ig_queue_init zero_event, []) = Some (k, p', q', al')
     \<and> (\<forall>m. Add_watch ''/w/s'' m \<notin> set (ip_cmds p'))"
proof -
  let ?p = "fresh_priv\<lparr>ip_map := [(0, ''/w''), (1, ''/w/s'')]\<rparr>"
  have t: "dir_tree 2 two_level ''/w/s'' = Some [''/w/s'']" by (simp add: numeral_2_eq_2 two_level_def)
  have e: "event_path (wd_to_path ?p 0) ''s'' = ''/w/s''" by (simp add: event_path_def wd_to_path_def IG_MAX_PATH_def)
  have "IN_CREATE OR IN_ISDIR \<noteq> 0" "(IN_CREATE OR IN_ISDIR) AND IN_CREATE \<noteq> 0" "(IN_CREATE OR IN_ISDIR) AND IN_ISDIR \<noteq> 0"
    by (simp_all add: in_bits)
  then have s: "inotify_poll_events_be 2 two_level 0 (Some [mkdir_s]) (?p, ig_queue_init zero_event, []) \<noteq> None"
    by (simp add: inotify_poll_events_be_def mkdir_s_def add_recursive_is_fold e t Let_def)
  obtain k p' q' al' where r: "inotify_poll_events_be 2 two_level 0 (Some [mkdir_s]) (?p, ig_queue_init zero_event, []) = Some (k, p', q', al')"
    using s by (metis not_None_eq prod_cases4)
  have "ip_cmds ?p = []" by (simp add: fresh_priv_def)
  with recreated_directory_unwatched [OF r, of "''/w/s''"] r show ?thesis by auto
qed

end
