(* ===== verification/Event_Loop.thy ===== *)
theory Event_Loop
  imports Ig_Prelude
begin

text \<open>
  The epoll loop of the agent's core: \<^verbatim>\<open>Agent/src/core/event_loop.c\<close>.  A handler with its context is a value \<open>'h\<close>, what it does to the
  loop a parameter; the interest list of the epoll instance is part of the state, as the kernel keeps it: a
  descriptor is in it once, adding it again fails with \<^verbatim>\<open>EEXIST\<close>.
\<close>

definition EL_MAX_FDS :: int where "EL_MAX_FDS = 64"

datatype 'h el_handler = On_signal | Handler 'h

record ('h, 's) event_loop =
  el_epoll_fd :: int
  el_signal_fd :: int
  el_running :: bool
  el_slots :: "int \<Rightarrow> 'h el_handler option"
  el_reload_cb :: "('s \<Rightarrow> 's) option"
  el_interest :: "(int \<times> u32) list"
  el_pings :: nat
  el_state :: 's

section \<open>Registration\<close>

text \<open>\<open>ok\<close>: whether \<^verbatim>\<open>epoll_ctl\<close> meets no error of its own.\<close>

definition event_loop_add :: "bool \<Rightarrow> int \<Rightarrow> u32 \<Rightarrow> 'h el_handler \<Rightarrow> ('h, 's) event_loop \<Rightarrow> int \<times> ('h, 's) event_loop" where
  "event_loop_add ok fd events h l =
     (if fd < 0 \<or> fd \<ge> EL_MAX_FDS then (-1, l)
      else let l = l\<lparr>el_slots := (el_slots l)(fd \<mapsto> h)\<rparr>
      in if \<not> ok \<or> fd \<in> fst ` set (el_interest l) then (-1, l\<lparr>el_slots := (el_slots l)(fd := None)\<rparr>)
      else (0, l\<lparr>el_interest := el_interest l @ [(fd, events)]\<rparr>))"

definition event_loop_remove :: "bool \<Rightarrow> int \<Rightarrow> ('h, 's) event_loop \<Rightarrow> int \<times> ('h, 's) event_loop" where
  "event_loop_remove ok fd l =
     (if fd < 0 \<or> fd \<ge> EL_MAX_FDS then (-1, l)
      else if \<not> ok \<or> fd \<notin> fst ` set (el_interest l) then (-1, l)
      else (0, l\<lparr>el_interest := filter (\<lambda>e. fst e \<noteq> fd) (el_interest l), el_slots := (el_slots l)(fd := None)\<rparr>))"

definition event_loop_set_reload_cb :: "('s \<Rightarrow> 's) option \<Rightarrow> ('h, 's) event_loop \<Rightarrow> ('h, 's) event_loop" where
  "event_loop_set_reload_cb fn l = l\<lparr>el_reload_cb := fn\<rparr>"

section \<open>Start and end\<close>

record el_env =
  ev_epoll :: int
  ev_sigmask :: int
  ev_signalfd :: int
  ev_ctl :: bool

definition EPOLLIN :: u32 where "EPOLLIN = 1"

definition event_loop_init :: "el_env \<Rightarrow> ('h, 's) event_loop \<Rightarrow> int \<times> ('h, 's) event_loop" where
  "event_loop_init env l =
     (let l = l\<lparr>el_slots := (\<lambda>_. None), el_running := True, el_epoll_fd := ev_epoll env\<rparr>
      in if ev_epoll env < 0 then (-1, l)
      else let l = l\<lparr>el_interest := []\<rparr>
      in if ev_sigmask env < 0 then (-1, l)
      else let l = l\<lparr>el_signal_fd := ev_signalfd env\<rparr>
      in if ev_signalfd env < 0 then (-1, l)
      else (case event_loop_add (ev_ctl env) (ev_signalfd env) EPOLLIN On_signal l of
        (rc, l) \<Rightarrow> if rc < 0 then (-1, l) else (0, l)))"

definition event_loop_cleanup :: "('h, 's) event_loop \<Rightarrow> ('h, 's) event_loop" where
  "event_loop_cleanup l =
     (let l = (if el_signal_fd l \<ge> 0 then l\<lparr>el_signal_fd := -1\<rparr> else l);
          l = (if el_epoll_fd l \<ge> 0 then l\<lparr>el_epoll_fd := -1, el_interest := []\<rparr> else l)
      in l\<lparr>el_running := True\<rparr>)"

section \<open>The loop\<close>

definition SIGHUP_L :: int where "SIGHUP_L = 1"
definition SIGINT_L :: int where "SIGINT_L = 2"
definition SIGTERM_L :: int where "SIGTERM_L = 15"

text \<open>\<open>None\<close>: the read gave no whole record.\<close>

definition on_signal :: "int option \<Rightarrow> ('h, 's) event_loop \<Rightarrow> ('h, 's) event_loop" where
  "on_signal info l =
     (case info of
        None \<Rightarrow> l
      | Some signo \<Rightarrow>
          if signo = SIGTERM_L \<or> signo = SIGINT_L then l\<lparr>el_running := False\<rparr>
          else if signo = SIGHUP_L
          then (case el_reload_cb l of None \<Rightarrow> l | Some f \<Rightarrow> l\<lparr>el_state := f (el_state l)\<rparr>)
          else l)"

text \<open>A ready descriptor, its events, and what a read of the signal descriptor would give.\<close>

type_synonym el_event = "int \<times> u32 \<times> int option"

definition run_slot :: "('h \<Rightarrow> int \<Rightarrow> u32 \<Rightarrow> ('h, 's) event_loop \<Rightarrow> ('h, 's) event_loop) \<Rightarrow> el_event \<Rightarrow> ('h, 's) event_loop \<Rightarrow> ('h, 's) event_loop" where
  "run_slot run e l =
     (case e of (fd, events, info) \<Rightarrow>
        if fd < 0 \<or> fd \<ge> EL_MAX_FDS then l
        else (case el_slots l fd of
            None \<Rightarrow> l
          | Some On_signal \<Rightarrow> on_signal info l
          | Some (Handler h) \<Rightarrow> run h fd events l))"

fun dispatch :: "('h \<Rightarrow> int \<Rightarrow> u32 \<Rightarrow> ('h, 's) event_loop \<Rightarrow> ('h, 's) event_loop) \<Rightarrow> el_event list \<Rightarrow> ('h, 's) event_loop \<Rightarrow> ('h, 's) event_loop" where
  "dispatch run [] l = l"
| "dispatch run (e # es) l = (if \<not> el_running l then l else dispatch run es (run_slot run e l))"

text \<open>One \<^verbatim>\<open>epoll_wait\<close>: an error (whether it is \<^verbatim>\<open>EINTR\<close>), or the ready descriptors, none after the timeout.\<close>

datatype el_wait = Wait_error bool | Ready "el_event list"

definition watchdog_ping :: "('h, 's) event_loop \<Rightarrow> ('h, 's) event_loop" where
  "watchdog_ping l = l\<lparr>el_pings := el_pings l + 1\<rparr>"

fun event_loop_run :: "('h \<Rightarrow> int \<Rightarrow> u32 \<Rightarrow> ('h, 's) event_loop \<Rightarrow> ('h, 's) event_loop) \<Rightarrow> el_wait list \<Rightarrow> ('h, 's) event_loop \<Rightarrow> ('h, 's) event_loop" where
  "event_loop_run run [] l = l"
| "event_loop_run run (w # ws) l =
     (if \<not> el_running l then l
      else (case w of
          Wait_error intr \<Rightarrow> if intr then event_loop_run run ws l else l
        | Ready evs \<Rightarrow>
            if evs = [] then event_loop_run run ws (watchdog_ping l)
            else event_loop_run run ws (watchdog_ping (dispatch run evs l))))"

section \<open>Slots and interest\<close>

text \<open>Every descriptor the kernel watches has its handler, and no other has one.\<close>

definition el_inv :: "('h, 's) event_loop \<Rightarrow> bool" where
  "el_inv l \<longleftrightarrow> distinct (map fst (el_interest l))
     \<and> (\<forall>fd. el_slots l fd \<noteq> None \<longleftrightarrow> fd \<in> fst ` set (el_interest l))
     \<and> (\<forall>fd \<in> fst ` set (el_interest l). 0 \<le> fd \<and> fd < EL_MAX_FDS)"

text \<open>Adding and removing keep the handlers and the kernel's interest list in step, with one exception: adding a descriptor that is
  already registered fails and takes the handler it had, while the kernel goes on watching it.\<close>

theorem registration_in_step:
  assumes "el_inv l"
  shows "el_inv (snd (event_loop_remove ok fd l))
    \<and> (fd \<notin> fst ` set (el_interest l) \<longrightarrow> el_inv (snd (event_loop_add ok fd events h l)))
    \<and> (fd \<in> fst ` set (el_interest l) \<longrightarrow>
         fst (event_loop_add ok fd events h l) = -1
       \<and> el_slots (snd (event_loop_add ok fd events h l)) fd = None
       \<and> el_interest (snd (event_loop_add ok fd events h l)) = el_interest l)"
proof -
  have r: "el_inv (snd (event_loop_remove ok fd l))"
    using assms by (auto simp: el_inv_def event_loop_remove_def distinct_map inj_on_def)
  have a: "el_inv (snd (event_loop_add ok fd events h l))" if "fd \<notin> fst ` set (el_interest l)"
    using assms that by (auto simp: el_inv_def event_loop_add_def Let_def image_iff)
  have "fst (event_loop_add ok fd events h l) = -1 \<and> el_slots (snd (event_loop_add ok fd events h l)) fd = None
      \<and> el_interest (snd (event_loop_add ok fd events h l)) = el_interest l" if "fd \<in> fst ` set (el_interest l)"
    using assms that by (auto simp: el_inv_def event_loop_add_def Let_def)
  with r a show ?thesis by blast
qed

definition sample_loop :: "(nat, nat) event_loop" where
  "sample_loop = \<lparr>el_epoll_fd = 3, el_signal_fd = 4, el_running = True, el_slots = [4 \<mapsto> On_signal], el_reload_cb = None,
     el_interest = [(4, EPOLLIN)], el_pings = 0, el_state = 0\<rparr>"

theorem registration_in_step_witness:
  "el_slots (snd (event_loop_add True 4 EPOLLIN (Handler 1) sample_loop)) 4 = None"
proof -
  have "el_inv sample_loop" by (auto simp: el_inv_def sample_loop_def EL_MAX_FDS_def)
  from registration_in_step [OF this, of True 4 EPOLLIN "Handler 1"] show ?thesis by (simp add: sample_loop_def)
qed

lemma deaf_dispatch: "el_slots l fd = None \<Longrightarrow> (\<forall>e \<in> set evs. fst e = fd) \<Longrightarrow> dispatch run evs l = l"
  by (induction evs) (auto simp: run_slot_def split: prod.splits)

lemma deaf_run:
  "el_slots l fd = None \<Longrightarrow> el_running l \<Longrightarrow> (\<forall>w \<in> set ws. \<exists>evs. w = Ready evs \<and> (\<forall>e \<in> set evs. fst e = fd)) \<Longrightarrow>
     event_loop_run run ws l = l\<lparr>el_pings := el_pings l + length ws\<rparr>"
proof (induction ws arbitrary: l)
  case (Cons w ws)
  obtain evs where w: "w = Ready evs" "\<forall>e \<in> set evs. fst e = fd" using Cons.prems(3) by auto
  have "event_loop_run run (w # ws) l = event_loop_run run ws (watchdog_ping l)"
    using Cons.prems(2) deaf_dispatch [OF Cons.prems(1) w(2)] by (simp add: w(1))
  also have "\<dots> = (watchdog_ping l)\<lparr>el_pings := el_pings (watchdog_ping l) + length ws\<rparr>"
    using Cons.prems by (intro Cons.IH) (auto simp: watchdog_ping_def)
  finally show ?case by (simp add: watchdog_ping_def)
qed simp

text \<open>After a second add of a descriptor the loop spins on it: whenever it is reported ready nothing runs, yet the
  watchdog is told that all is well; if it was the signal descriptor, no SIGTERM ends the loop.\<close>

theorem second_add_deafens:
  assumes "el_inv l" and "fd \<in> fst ` set (el_interest l)" and "el_running l"
    and "\<forall>w \<in> set ws. \<exists>evs. w = Ready evs \<and> (\<forall>e \<in> set evs. fst e = fd)"
  shows "event_loop_run run ws (snd (event_loop_add ok fd events h l))
    = (snd (event_loop_add ok fd events h l))\<lparr>el_pings := el_pings l + length ws\<rparr>"
proof -
  let ?l = "snd (event_loop_add ok fd events h l)"
  have "el_slots ?l fd = None" "el_running ?l" "el_pings ?l = el_pings l"
    using assms by (auto simp: event_loop_add_def el_inv_def Let_def)
  with deaf_run [OF this(1,2) assms(4), of run] show ?thesis by simp
qed

theorem second_add_deafens_witness:
  "el_running (event_loop_run (\<lambda>_ _ _ l. l) [Ready [(4, EPOLLIN, Some SIGTERM_L)]] (snd (event_loop_add True 4 EPOLLIN (Handler 1) sample_loop)))"
proof -
  have "el_inv sample_loop" by (auto simp: el_inv_def sample_loop_def EL_MAX_FDS_def)
  from second_add_deafens [OF this, of 4 "[Ready [(4, EPOLLIN, Some SIGTERM_L)]]" "\<lambda>_ _ _ l. l" True EPOLLIN "Handler 1"] show ?thesis
    by (simp add: sample_loop_def event_loop_add_def EL_MAX_FDS_def Let_def)
qed

text \<open>A signal ends the loop in the turn that reports it: with the handler of the signal descriptor in place, after a SIGTERM
  or SIGINT nothing more of the turn is dispatched and no later turn begins.\<close>

theorem signal_ends_loop:
  assumes "el_running l" and "el_slots l fd = Some On_signal" and "0 \<le> fd" "fd < EL_MAX_FDS" and "signo = SIGTERM_L \<or> signo = SIGINT_L"
  shows "event_loop_run run (Ready ((fd, events, Some signo) # evs) # ws) l = l\<lparr>el_running := False, el_pings := el_pings l + 1\<rparr>"
proof -
  have s: "run_slot run (fd, events, Some signo) l = l\<lparr>el_running := False\<rparr>"
    using assms(2-5) by (simp add: run_slot_def on_signal_def)
  have d: "dispatch run evs (l\<lparr>el_running := False\<rparr>) = l\<lparr>el_running := False\<rparr>" by (cases evs) simp_all
  have e: "event_loop_run run ws (l\<lparr>el_running := False, el_pings := n\<rparr>) = l\<lparr>el_running := False, el_pings := n\<rparr>" for n
    by (cases ws) simp_all
  show ?thesis using assms(1) by (simp add: s d watchdog_ping_def e)
qed

theorem signal_ends_loop_witness:
  "\<not> el_running (event_loop_run (\<lambda>_ _ _ l. l) [Ready [(4, EPOLLIN, Some SIGTERM_L), (5, EPOLLIN, None)], Ready []] sample_loop)"
  using signal_ends_loop [of sample_loop 4 SIGTERM_L "\<lambda>_ _ _ l. l" EPOLLIN "[(5, EPOLLIN, None)]" "[Ready []]"]
  by (simp add: sample_loop_def EL_MAX_FDS_def)

end
