(* ===== verification/Tls_Context.thy ===== *)
theory Tls_Context
  imports Ig_Prelude
begin

text \<open>
  The TLS context of the transport: \<^verbatim>\<open>Agent/src/transport/tls_context.c\<close>.  OpenSSL is a parameter: which of the calls succeed,
  and for which peers a handshake does.  A context is the settings made on it; the contexts and sessions that are alive are counted.
\<close>

record ssl_ctx =
  sx_min_version :: nat
  sx_ca :: "string option"
  sx_verify_peer :: bool
  sx_crt :: "string option"
  sx_key :: "string option"
  sx_host :: "string option"

definition TLS1_2 :: nat where "TLS1_2 = 12"

definition new_ctx :: ssl_ctx where
  "new_ctx = \<lparr>sx_min_version = 0, sx_ca = None, sx_verify_peer = False, sx_crt = None, sx_key = None, sx_host = None\<rparr>"

record tls_lib =
  tl_new :: bool
  tl_modern :: bool
  tl_min :: bool
  tl_ca :: bool
  tl_crt :: bool
  tl_key :: bool
  tl_check :: bool

section \<open>The code\<close>

text \<open>The return value, \<open>out->ctx\<close> and the number of live contexts.\<close>

definition tls_context_init :: "tls_lib \<Rightarrow> string \<Rightarrow> string \<Rightarrow> string \<Rightarrow> ssl_ctx option \<Rightarrow> nat \<Rightarrow> int \<times> ssl_ctx option \<times> nat" where
  "tls_context_init lib ca_crt agent_crt agent_key out live =
     (if \<not> tl_new lib then (-1, out, live)
      else let ctx = new_ctx; live = live + 1
      in if tl_modern lib \<and> \<not> tl_min lib then (-1, out, live - 1)
      else let ctx = ctx\<lparr>sx_min_version := TLS1_2\<rparr>
      in if \<not> tl_ca lib then (-1, out, live - 1)
      else let ctx = ctx\<lparr>sx_ca := Some ca_crt, sx_verify_peer := True\<rparr>
      in if \<not> tl_crt lib then (-1, out, live - 1)
      else let ctx = ctx\<lparr>sx_crt := Some agent_crt\<rparr>
      in if \<not> tl_key lib then (-1, out, live - 1)
      else let ctx = ctx\<lparr>sx_key := Some agent_key\<rparr>
      in if \<not> tl_check lib then (-1, out, live - 1)
      else (0, Some ctx, live))"

text \<open>A peer: the authorities its certificate chains to, and the name in it.\<close>

record tls_peer =
  pr_chains :: "string \<Rightarrow> bool"
  pr_name :: string
  pr_version :: nat

text \<open>\<open>connect\<close> is \<^verbatim>\<open>SSL_connect\<close>; the result is the session, and the number of live sessions.\<close>

definition ig_tls_wrap :: "(ssl_ctx \<Rightarrow> tls_peer \<Rightarrow> bool) \<Rightarrow> bool \<Rightarrow> ssl_ctx option option \<Rightarrow> tls_peer \<Rightarrow> nat \<Rightarrow> (ssl_ctx \<times> tls_peer) option \<times> nat" where
  "ig_tls_wrap connect new_ok ctx peer live =
     (case ctx of
        None \<Rightarrow> (None, live)
      | Some None \<Rightarrow> (None, live)
      | Some (Some c) \<Rightarrow>
          if \<not> new_ok then (None, live)
          else let live = live + 1
          in if \<not> connect c peer then (None, live - 1) else (Some (c, peer), live))"

definition tls_context_free :: "ssl_ctx option option \<Rightarrow> nat \<Rightarrow> ssl_ctx option option \<times> nat" where
  "tls_context_free ctx live = (case ctx of Some (Some c) \<Rightarrow> (Some None, live - 1) | _ \<Rightarrow> (ctx, live))"

section \<open>What a context guarantees\<close>

text \<open>The context is all or nothing: the call succeeds exactly when every step of OpenSSL does, and then the context demands TLS 1.2,
  verifies the peer against the authority and holds the agent's certificate and key; on a failure the output is not touched and
  the context made on the way is freed; freeing a context twice frees it once.\<close>

theorem tls_context_all_or_nothing:
  "(case tls_context_init lib ca crt key out live of (rc, out', live') \<Rightarrow>
      (rc = 0 \<longleftrightarrow> tl_new lib \<and> (tl_modern lib \<longrightarrow> tl_min lib) \<and> tl_ca lib \<and> tl_crt lib \<and> tl_key lib \<and> tl_check lib)
    \<and> (rc = 0 \<longrightarrow> live' = live + 1 \<and> out' = Some \<lparr>sx_min_version = TLS1_2, sx_ca = Some ca, sx_verify_peer = True,
          sx_crt = Some crt, sx_key = Some key, sx_host = None\<rparr>
        \<and> snd (tls_context_free (fst (tls_context_free (Some out') live')) (snd (tls_context_free (Some out') live'))) = live)
    \<and> (rc \<noteq> 0 \<longrightarrow> rc = -1 \<and> out' = out \<and> live' = live))"
  by (simp add: tls_context_init_def new_ctx_def Let_def tls_context_free_def)

theorem tls_context_all_or_nothing_witness:
  "fst (tls_context_init \<lparr>tl_new = True, tl_modern = True, tl_min = True, tl_ca = True, tl_crt = False, tl_key = True, tl_check = True\<rparr>
      ''ca'' ''crt'' ''key'' None 0) = -1"
proof -
  let ?lib = "\<lparr>tl_new = True, tl_modern = True, tl_min = True, tl_ca = True, tl_crt = False, tl_key = True, tl_check = True\<rparr>"
  obtain rc out' live' where r: "tls_context_init ?lib ''ca'' ''crt'' ''key'' None 0 = (rc, out', live')" by (metis prod_cases3)
  show ?thesis
    using tls_context_all_or_nothing [where lib = ?lib and ca = "''ca''" and crt = "''crt''" and key = "''key''" and out = None and live = 0]
    unfolding r by auto
qed

text \<open>What OpenSSL documents of a handshake: without a host name set it looks at the chain and the version, not at the name.\<close>

definition ssl_documented :: "(ssl_ctx \<Rightarrow> tls_peer \<Rightarrow> bool) \<Rightarrow> bool" where
  "ssl_documented connect \<longleftrightarrow>
     (\<forall>c peer name. sx_host c = None \<longrightarrow> connect c (peer\<lparr>pr_name := name\<rparr>) = connect c peer)
   \<and> (\<forall>c peer ca. connect c peer \<longrightarrow> sx_verify_peer c \<longrightarrow> sx_ca c = Some ca \<longrightarrow> pr_chains peer ca)"

text \<open>The session authenticates the authority, not the server: a peer accepted with a context of the agent has a certificate
  of the configured authority, and the same peer under any other name, an enrolled agent for one, is accepted as well.\<close>

theorem tls_accepts_any_name:
  assumes "tls_context_init lib ca crt key None live = (0, out, live')" and "ssl_documented connect"
    and "ig_tls_wrap connect True (Some out) peer n = (Some s, n')"
  shows "pr_chains peer ca \<and> (\<forall>name. fst (ig_tls_wrap connect True (Some out) (peer\<lparr>pr_name := name\<rparr>) n) \<noteq> None)"
proof -
  let ?c = "\<lparr>sx_min_version = TLS1_2, sx_ca = Some ca, sx_verify_peer = True, sx_crt = Some crt, sx_key = Some key, sx_host = None\<rparr>"
  have o: "out = Some ?c"
    using assms(1) by (auto simp: tls_context_init_def new_ctx_def Let_def split: if_splits)
  have c: "connect ?c peer" using assms(3) by (auto simp: o ig_tls_wrap_def Let_def split: if_splits)
  then have "pr_chains peer ca" "connect ?c (peer\<lparr>pr_name := name\<rparr>)" for name
    using assms(2) unfolding ssl_documented_def by fastforce+
  then show ?thesis by (simp add: o ig_tls_wrap_def Let_def)
qed

definition sample_lib :: tls_lib where
  "sample_lib = \<lparr>tl_new = True, tl_modern = True, tl_min = True, tl_ca = True, tl_crt = True, tl_key = True, tl_check = True\<rparr>"

definition sample_connect :: "ssl_ctx \<Rightarrow> tls_peer \<Rightarrow> bool" where
  "sample_connect c peer \<longleftrightarrow>
     (sx_verify_peer c \<longrightarrow> (case sx_ca c of None \<Rightarrow> False | Some ca \<Rightarrow> pr_chains peer ca))
   \<and> (case sx_host c of None \<Rightarrow> True | Some h \<Rightarrow> pr_name peer = h) \<and> sx_min_version c \<le> pr_version peer"

lemma sample_connect_documented: "ssl_documented sample_connect"
  by (auto simp: ssl_documented_def sample_connect_def split: option.splits)

theorem tls_accepts_any_name_witness:
  "\<exists>out live'. tls_context_init sample_lib ''ca'' ''crt'' ''key'' None 0 = (0, out, live')
     \<and> fst (ig_tls_wrap sample_connect True (Some out) \<lparr>pr_chains = (\<lambda>ca. ca = ''ca''), pr_name = ''agent-7'', pr_version = 13\<rparr> 0) \<noteq> None"
proof -
  let ?p = "\<lparr>pr_chains = (\<lambda>ca. ca = ''ca''), pr_name = ''server'', pr_version = 13\<rparr>"
  obtain out live' where i: "tls_context_init sample_lib ''ca'' ''crt'' ''key'' None 0 = (0, out, live')"
    by (simp add: tls_context_init_def sample_lib_def Let_def)
  have "fst (ig_tls_wrap sample_connect True (Some out) ?p 0) \<noteq> None"
    using i by (auto simp: tls_context_init_def sample_lib_def Let_def new_ctx_def ig_tls_wrap_def sample_connect_def TLS1_2_def)
  then obtain s n' where w: "ig_tls_wrap sample_connect True (Some out) ?p 0 = (Some s, n')" by (metis not_None_eq prod.collapse)
  have "fst (ig_tls_wrap sample_connect True (Some out) (?p\<lparr>pr_name := ''agent-7''\<rparr>) 0) \<noteq> None"
    using tls_accepts_any_name [OF i sample_connect_documented w] by blast
  then show ?thesis using i by auto
qed

end
