(* ===== verification/Daemon.thy ===== *)
theory Daemon
  imports Ig_Prelude
begin

text \<open>
  The daemonisation and the signal flags of the agent's core: \<^verbatim>\<open>Agent/src/core/daemon.c\<close>.  A process has its table of
  descriptors, what each refers to; a new descriptor is the lowest free one, as POSIX says.  The process that a fork leaves behind
  ends; the definitions follow the one that goes on, or give the code with which the caller ends.
\<close>

section \<open>Descriptors\<close>

type_synonym fd_table = "nat \<Rightarrow> string option"

definition FD_LIMIT :: nat where "FD_LIMIT = 1024"

fun free_fd :: "nat \<Rightarrow> nat \<Rightarrow> fd_table \<Rightarrow> nat option" where
  "free_fd 0 k t = None"
| "free_fd (Suc n) k t = (if t k = None then Some k else free_fd n (Suc k) t)"

definition fd_open :: "string \<Rightarrow> fd_table \<Rightarrow> nat option \<times> fd_table" where
  "fd_open what t = (case free_fd FD_LIMIT 0 t of None \<Rightarrow> (None, t) | Some k \<Rightarrow> (Some k, t(k \<mapsto> what)))"

definition fd_close :: "nat \<Rightarrow> fd_table \<Rightarrow> fd_table" where
  "fd_close k t = t(k := None)"

definition fd_dup2 :: "nat \<Rightarrow> nat \<Rightarrow> fd_table \<Rightarrow> fd_table" where
  "fd_dup2 old new t = (if t old = None then t else t(new := t old))"

section \<open>The start\<close>

record daemon_proc =
  dp_fds :: fd_table
  dp_umask :: nat
  dp_cwd :: string
  dp_session :: bool
  dp_leader :: bool
  dp_log_pid :: bool

text \<open>What the calls return; \<open>de_devnull\<close> and \<open>de_syslog\<close> say whether the two files can be opened.\<close>

record daemon_env =
  de_fork1 :: int
  de_setsid :: int
  de_fork2 :: int
  de_chdir :: int
  de_devnull :: bool
  de_syslog :: bool

datatype daemon_result = Returns int daemon_proc | Exits int

definition close_inherited :: "fd_table \<Rightarrow> fd_table" where
  "close_inherited t = (\<lambda>k. if k \<ge> 3 then None else t k)"

definition null_streams :: "fd_table \<Rightarrow> fd_table option" where
  "null_streams t =
     (case fd_open ''/dev/null'' t of
        (None, t) \<Rightarrow> None
      | (Some devnull, t) \<Rightarrow>
          let t = fd_dup2 devnull 2 (fd_dup2 devnull 1 (fd_dup2 devnull 0 t))
          in Some (if devnull > 2 then fd_close devnull t else t))"

text \<open>\<^verbatim>\<open>openlog\<close> with \<^verbatim>\<open>LOG_NDELAY\<close> opens its connection at once.\<close>

definition openlog_now :: "bool \<Rightarrow> fd_table \<Rightarrow> fd_table" where
  "openlog_now ok t = (if ok then snd (fd_open ''syslog'' t) else t)"

definition daemon_start :: "bool \<Rightarrow> daemon_env \<Rightarrow> daemon_proc \<Rightarrow> daemon_result" where
  "daemon_start foreground env p =
     (let p = p\<lparr>dp_umask := 23\<rparr>
      in if foreground then Returns 0 (p\<lparr>dp_log_pid := True\<rparr>)
      else if de_fork1 env < 0 then Returns (-1) p
      else if de_fork1 env > 0 then Exits 0
      else if de_setsid env < 0 then Returns (-1) p
      else let p = p\<lparr>dp_session := True, dp_leader := True\<rparr>
      in if de_fork2 env < 0 then Exits 1
      else if de_fork2 env > 0 then Exits 0
      else let p = p\<lparr>dp_leader := False\<rparr>
      in if de_chdir env < 0 then Exits 1
      else let p = p\<lparr>dp_cwd := ''/'', dp_fds := close_inherited (dp_fds p)\<rparr>
      in if \<not> de_devnull env then Exits 1
      else (case null_streams (dp_fds p) of
              None \<Rightarrow> Exits 1
            | Some t \<Rightarrow> Returns 0 (p\<lparr>dp_fds := openlog_now (de_syslog env) t, dp_log_pid := True\<rparr>)))"

section \<open>Signals\<close>

record daemon_flags =
  df_running :: int
  df_reload :: int

definition daemon_flags_init :: daemon_flags where
  "daemon_flags_init = \<lparr>df_running = 1, df_reload = 0\<rparr>"

datatype disposition = Handle_sigterm | Handle_sighup | Handle_sigchld | Sig_ign

text \<open>\<^verbatim>\<open>SIGTERM\<close>, \<^verbatim>\<open>SIGINT\<close>, \<^verbatim>\<open>SIGHUP\<close>, \<^verbatim>\<open>SIGCHLD\<close> and \<^verbatim>\<open>SIGPIPE\<close> in the order of their registration.\<close>

definition daemon_init_signals :: "(nat \<Rightarrow> disposition option) \<Rightarrow> (nat \<Rightarrow> disposition option)" where
  "daemon_init_signals t = t(15 \<mapsto> Handle_sigterm, 2 \<mapsto> Handle_sigterm, 1 \<mapsto> Handle_sighup, 17 \<mapsto> Handle_sigchld, 13 \<mapsto> Sig_ign)"

definition handle_sigterm :: "daemon_flags \<Rightarrow> daemon_flags" where
  "handle_sigterm f = f\<lparr>df_running := 0\<rparr>"

definition handle_sighup :: "daemon_flags \<Rightarrow> daemon_flags" where
  "handle_sighup f = f\<lparr>df_reload := 1\<rparr>"

text \<open>Reaps the children that have ended: \<^verbatim>\<open>waitpid\<close> gives their pids one by one, then zero or an error.\<close>

fun handle_sigchld :: "int list \<Rightarrow> int list" where
  "handle_sigchld [] = []"
| "handle_sigchld (r # rs) = (if r > 0 then handle_sigchld rs else r # rs)"

definition deliver :: "(nat \<Rightarrow> disposition option) \<Rightarrow> nat \<Rightarrow> daemon_flags \<Rightarrow> daemon_flags" where
  "deliver t sig f =
     (case t sig of
        Some Handle_sigterm \<Rightarrow> handle_sigterm f
      | Some Handle_sighup \<Rightarrow> handle_sighup f
      | _ \<Rightarrow> f)"

definition daemon_is_running :: "daemon_flags \<Rightarrow> int" where
  "daemon_is_running f = df_running f"

text \<open>The compare and swap: the old value, and the flag reset if it was one.\<close>

definition daemon_need_reload :: "daemon_flags \<Rightarrow> int \<times> daemon_flags" where
  "daemon_need_reload f = (df_reload f, if df_reload f = 1 then f\<lparr>df_reload := 0\<rparr> else f)"

definition daemon_cleanup :: "daemon_proc \<Rightarrow> daemon_proc" where
  "daemon_cleanup p = p\<lparr>dp_log_pid := False\<rparr>"

section \<open>What the daemon starts with\<close>

lemma free_fd_low: "t 3 = None \<Longrightarrow> free_fd (Suc (Suc (Suc (Suc m)))) 0 t
    = Some (if t 0 = None then 0 else if t 1 = None then 1 else if t 2 = None then 2 else 3)"
  by (auto simp: numeral_3_eq_3 numeral_2_eq_2)

lemma fd_open_low:
  assumes "t 3 = None"
  shows "fd_open what t = (let k = (if t 0 = None then 0 else if t 1 = None then 1 else if t 2 = None then 2 else 3) in (Some k, t(k \<mapsto> what)))"
proof -
  have "FD_LIMIT = Suc (Suc (Suc (Suc 1020)))" by (simp add: FD_LIMIT_def)
  then have "free_fd FD_LIMIT 0 t = Some (if t 0 = None then 0 else if t 1 = None then 1 else if t 2 = None then 2 else 3)"
    using free_fd_low [of t 1020, OF assms] by metis
  then show ?thesis by (simp add: fd_open_def Let_def)
qed

definition null_fds :: fd_table where
  "null_fds = [0 \<mapsto> ''/dev/null'', 1 \<mapsto> ''/dev/null'', 2 \<mapsto> ''/dev/null'']"

text \<open>After the inherited descriptors are closed, the streams lead to the null device, whichever of them were open.\<close>

lemma null_streams_closed: "null_streams (close_inherited t) = Some null_fds"
proof -
  define c where "c = close_inherited t"
  have high: "c k = None" if "k \<ge> 3" for k using that by (simp add: c_def close_inherited_def)
  define d :: nat where "d = (if c 0 = None then 0 else if c 1 = None then 1 else if c 2 = None then 2 else 3)"
  have "d \<le> 3" by (simp add: d_def)
  have o: "fd_open ''/dev/null'' c = (Some d, c(d \<mapsto> ''/dev/null''))"
    using fd_open_low [of c "''/dev/null''"] high [of 3] by (simp add: d_def Let_def)
  define t2 where "t2 = fd_dup2 d 2 (fd_dup2 d 1 (fd_dup2 d 0 (c(d \<mapsto> ''/dev/null''))))"
  have t2: "t2 = (c(d \<mapsto> ''/dev/null''))(0 \<mapsto> ''/dev/null'', 1 \<mapsto> ''/dev/null'', 2 \<mapsto> ''/dev/null'')"
    by (simp add: t2_def fd_dup2_def)
  have "(if d > 2 then fd_close d t2 else t2) k = null_fds k" for k
    using high [of k] \<open>d \<le> 3\<close> by (auto simp: t2 null_fds_def fd_close_def not_le)
  then have "(if d > 2 then fd_close d t2 else t2) = null_fds" by (rule ext)
  then show ?thesis 
    unfolding null_streams_def c_def [symmetric] o option.case prod.case Let_def t2_def [symmetric] by simp
qed

lemma daemon_fds:
  assumes "daemon_start False env p = Returns 0 p'" and "de_syslog env"
  shows "dp_fds p' = null_fds(3 \<mapsto> ''syslog'')" "dp_session p'" "\<not> dp_leader p'" "dp_cwd p' = ''/''"
proof -
  have n: "null_fds 3 = None" "null_fds 0 \<noteq> None" "null_fds 1 \<noteq> None" "null_fds 2 \<noteq> None" by (simp_all add: null_fds_def)
  have "openlog_now True null_fds = null_fds(3 \<mapsto> ''syslog'')"
    using fd_open_low [of null_fds "''syslog''", OF n(1)] by (simp add: openlog_now_def Let_def n del: One_nat_def)
  then show "dp_fds p' = null_fds(3 \<mapsto> ''syslog'')" "dp_session p'" "\<not> dp_leader p'" "dp_cwd p' = ''/''"
    using assms by (auto simp: daemon_start_def Let_def null_streams_closed split: if_splits)
qed

text \<open>The daemon starts clean, and its log then closes its connection to syslog: whatever descriptors its starter left open, the process that goes on has the
  three streams on the null device, its session without leading it, the root directory, and its connection to syslog on descriptor 3,
  the number the log file had, which the agent opened before and closes after: the close takes the connection, and the log that is opened next gets its number.\<close>

theorem daemon_closes_syslog:
  assumes "dp_fds p 3 = None" and "dp_fds p 0 \<noteq> None" "dp_fds p 1 \<noteq> None" "dp_fds p 2 \<noteq> None"
    and "fd_open log (dp_fds p) = (Some k, t)" and "daemon_start False env (p\<lparr>dp_fds := t\<rparr>) = Returns 0 p'" and "de_syslog env"
  shows "dp_fds p' = [0 \<mapsto> ''/dev/null'', 1 \<mapsto> ''/dev/null'', 2 \<mapsto> ''/dev/null'', 3 \<mapsto> ''syslog'']
    \<and> dp_session p' \<and> \<not> dp_leader p' \<and> dp_cwd p' = ''/''
    \<and> k = 3 \<and> fd_open log (fd_close k (dp_fds p')) = (Some 3, [0 \<mapsto> ''/dev/null'', 1 \<mapsto> ''/dev/null'', 2 \<mapsto> ''/dev/null'', 3 \<mapsto> log])"
proof -
  have k: "k = 3" using fd_open_low [of "dp_fds p" log, OF assms(1)] assms(5) by (simp add: Let_def assms(2-4) del: One_nat_def)
  note d = daemon_fds [OF assms(6,7)]
  have c: "fd_close 3 (null_fds(3 \<mapsto> ''syslog'')) = null_fds" by (auto simp: fd_close_def null_fds_def)
  have n: "null_fds 3 = None" "null_fds 0 \<noteq> None" "null_fds 1 \<noteq> None" "null_fds 2 \<noteq> None" by (simp_all add: null_fds_def)
  have "fd_open log (fd_close k (dp_fds p')) = (Some 3, null_fds(3 \<mapsto> log))"
    using fd_open_low [of null_fds log, OF n(1)] by (simp add: k d(1) c Let_def n del: One_nat_def)
  then show ?thesis using d k by (simp add: null_fds_def)
qed

definition shell_proc :: daemon_proc where
  "shell_proc = \<lparr>dp_fds = [0 \<mapsto> ''tty'', 1 \<mapsto> ''tty'', 2 \<mapsto> ''tty''], dp_umask = 18, dp_cwd = ''/root'', dp_session = False,
     dp_leader = False, dp_log_pid = False\<rparr>"

definition grandchild :: daemon_env where
  "grandchild = \<lparr>de_fork1 = 0, de_setsid = 5, de_fork2 = 0, de_chdir = 0, de_devnull = True, de_syslog = True\<rparr>"

theorem daemon_closes_syslog_witness:
  "\<exists>k t p'. fd_open ''/var/log/ig.log'' (dp_fds shell_proc) = (Some k, t)
     \<and> daemon_start False grandchild (shell_proc\<lparr>dp_fds := t\<rparr>) = Returns 0 p' \<and> dp_fds p' k = Some ''syslog''"
proof -
  have n: "dp_fds shell_proc 3 = None" "dp_fds shell_proc 0 \<noteq> None" "dp_fds shell_proc 1 \<noteq> None" "dp_fds shell_proc 2 \<noteq> None"
    by (simp_all add: shell_proc_def)
  obtain k t where o: "fd_open ''/var/log/ig.log'' (dp_fds shell_proc) = (Some k, t)"
    using fd_open_low [of "dp_fds shell_proc" "''/var/log/ig.log''", OF n(1)] by (simp add: Let_def)
  obtain p' where s: "daemon_start False grandchild (shell_proc\<lparr>dp_fds := t\<rparr>) = Returns 0 p'"
    by (simp add: daemon_start_def grandchild_def Let_def null_streams_closed)
  have "de_syslog grandchild" by (simp add: grandchild_def)
  from daemon_closes_syslog [OF n o s this] o s show ?thesis by auto
qed

lemma deliver_all:
  assumes "t = daemon_init_signals (\<lambda>_. None)"
  shows "df_reload (fold (deliver t) sigs f) = (if 1 \<in> set sigs then 1 else df_reload f)
    \<and> df_running (fold (deliver t) sigs f) = (if 15 \<in> set sigs \<or> 2 \<in> set sigs then 0 else df_running f)"
proof (induction sigs arbitrary: f)
  case (Cons s sigs)
  have "df_reload (deliver t s f) = (if s = 1 then 1 else df_reload f)"
    "df_running (deliver t s f) = (if s = 15 \<or> s = 2 then 0 else df_running f)"
    by (simp_all add: assms deliver_def daemon_init_signals_def handle_sigterm_def handle_sighup_def)
  with Cons.IH [of "deliver t s f"] show ?case by auto
qed simp

text \<open>No reload request is lost and none is answered twice: the flag reads one exactly when a SIGHUP came since it was last read, however many
  signals of whichever kind came, and a SIGTERM or SIGINT among them stops the agent for good.\<close>

theorem reload_flag_exact:
  assumes "df_reload f = 0" and "f' = fold (deliver (daemon_init_signals (\<lambda>_. None))) sigs f"
  shows "(fst (daemon_need_reload f') = 1 \<longleftrightarrow> 1 \<in> set sigs) \<and> df_reload (snd (daemon_need_reload f')) = 0
    \<and> (daemon_is_running f' = 0 \<longleftrightarrow> daemon_is_running f = 0 \<or> 15 \<in> set sigs \<or> 2 \<in> set sigs)"
  using deliver_all [OF refl, of sigs f] assms by (auto simp: daemon_need_reload_def daemon_is_running_def)

theorem reload_flag_exact_witness:
  "fst (daemon_need_reload (fold (deliver (daemon_init_signals (\<lambda>_. None))) [1, 13, 1] daemon_flags_init)) = 1"
  using reload_flag_exact [OF _ refl, of daemon_flags_init "[1, 13, 1]"] by (simp add: daemon_flags_init_def)

end
