(* ===== verification/Agent_Session.thy ===== *)
theory Agent_Session
  imports C_Text Collector Tcp_Client Baseline
begin

text \<open>
  The collector's side of a connection: \<^verbatim>\<open>Backend/internal/collector/agent_session.go\<close>, with the names and
  the agent number of \<^verbatim>\<open>protocol.go\<close> and the identity of a certificate of \<^verbatim>\<open>tls_config.go\<close>.  The sessions share the
  map of the server; a session is a value, its connection a part of the shared state, because another session may close it.
  The stores are parameters that answer each call.  The theorems say who may write events under which name.
\<close>

section \<open>Names and numbers\<close>

definition EvtCreate :: u8 where "EvtCreate = 1"
definition EvtModify :: u8 where "EvtModify = 2"
definition EvtDelete :: u8 where "EvtDelete = 3"
definition EvtAttrib :: u8 where "EvtAttrib = 4"
definition EvtMove :: u8 where "EvtMove = 5"
definition MonLkm :: u8 where "MonLkm = 2"
definition MonEbpf :: u8 where "MonEbpf = 3"
definition MonFanotify :: u8 where "MonFanotify = 4"
definition MsgRegister :: u8 where "MsgRegister = 1"
definition MsgHeartbeat :: u8 where "MsgHeartbeat = 2"
definition MsgFileEvent :: u8 where "MsgFileEvent = 3"

definition EventTypeName :: "u8 \<Rightarrow> string" where
  "EventTypeName t =
     (if t = EvtCreate then ''CREATE''
      else if t = EvtModify then ''MODIFY''
      else if t = EvtDelete then ''DELETE''
      else if t = EvtAttrib then ''ATTRIB''
      else if t = EvtMove then ''MOVE''
      else ''UNKNOWN(0x'' @ hex_byte t @ '')'')"

definition MonitorTypeName :: "u8 \<Rightarrow> string" where
  "MonitorTypeName t =
     (if t = MonLkm then ''lkm''
      else if t = MonEbpf then ''ebpf''
      else if t = MonFanotify then ''fanotify''
      else ''unknown(0x'' @ hex_byte t @ '')'')"

fun octal :: "nat \<Rightarrow> string" where
  "octal n = (if n < 8 then [digit_char n] else octal (n div 8) @ [digit_char (n mod 8)])"

declare octal.simps [simp del]

definition PermString :: "u16 \<Rightarrow> string" where
  "PermString perm = (let s = octal (unat perm) in replicate (4 - length s) CHR ''0'' @ s)"

text \<open>
  The runes of a Go string: a \<^verbatim>\<open>range\<close> decodes UTF-8, and a byte that does not begin a shortest-form
  encoding of a code point counts as U+FFFD.
\<close>

definition cont :: "nat \<Rightarrow> bool" where
  "cont c \<longleftrightarrow> 0x80 \<le> c \<and> c \<le> 0xBF"

fun runes :: "nat list \<Rightarrow> nat list" where
  "runes [] = []"
| "runes (b # bs) =
     (if b < 0x80 then b # runes bs
      else case bs of
        c # cs \<Rightarrow>
          if 0xC2 \<le> b \<and> b \<le> 0xDF \<and> cont c then ((b - 0xC0) * 64 + (c - 0x80)) # runes cs
          else (case cs of
            d # ds \<Rightarrow>
              if 0xE0 \<le> b \<and> b \<le> 0xEF \<and> (if b = 0xE0 then 0xA0 \<le> c \<and> c \<le> 0xBF
                  else if b = 0xED then 0x80 \<le> c \<and> c \<le> 0x9F else cont c) \<and> cont d
              then ((b - 0xE0) * 4096 + (c - 0x80) * 64 + (d - 0x80)) # runes ds
              else (case ds of
                e # es \<Rightarrow>
                  if 0xF0 \<le> b \<and> b \<le> 0xF4 \<and> (if b = 0xF0 then 0x90 \<le> c \<and> c \<le> 0xBF
                      else if b = 0xF4 then 0x80 \<le> c \<and> c \<le> 0x8F else cont c) \<and> cont d \<and> cont e
                  then ((b - 0xF0) * 262144 + (c - 0x80) * 4096 + (d - 0x80) * 64 + (e - 0x80)) # runes es
                  else 0xFFFD # runes bs
              | [] \<Rightarrow> 0xFFFD # runes bs)
          | [] \<Rightarrow> 0xFFFD # runes bs)
      | [] \<Rightarrow> 0xFFFD # runes bs)"

text \<open>The agent number; \<open>ip\<close> is what \<^verbatim>\<open>To4\<close> gives for the address, \<open>None\<close> when it is no IPv4 address.\<close>

definition GenerateAgentID :: "string \<Rightarrow> u32 option \<Rightarrow> u64" where
  "GenerateAgentID hostname ip =
     (let h = foldl (\<lambda>h c. h * 31 + of_nat c) 0 (runes (map of_char hostname));
          h = (case ip of Some ip4 \<Rightarrow> h * 31 + ucast ip4 | None \<Rightarrow> h)
      in if h = 0 then 1 else h)"

text \<open>\<^verbatim>\<open>net.IP.String\<close> of an IPv4 address.\<close>

definition ip_String :: "u32 \<Rightarrow> string" where
  "ip_String ip = dec (unat (drop_bit 24 ip)) @ ''.'' @ dec (unat (drop_bit 16 ip AND 0xFF)) @ ''.''
     @ dec (unat (drop_bit 8 ip AND 0xFF)) @ ''.'' @ dec (unat (ip AND 0xFF))"

section \<open>The identity of a certificate\<close>

definition agentIdentityPrefix :: string where
  "agentIdentityPrefix = ''spiffe://kn-ig/agent/''"

definition TrimPrefix :: "string \<Rightarrow> string \<Rightarrow> string" where
  "TrimPrefix s p = (if take (length p) s = p then drop (length p) s else s)"

definition isAgentIdentity :: "string \<Rightarrow> bool" where
  "isAgentIdentity identity = (let suffix = TrimPrefix identity agentIdentityPrefix in suffix \<noteq> identity \<and> suffix \<noteq> [])"

record certificate =
  ct_URIs :: "string list"
  ct_CommonName :: string

definition peerIdentityFromCert :: "certificate option \<Rightarrow> string option" where
  "peerIdentityFromCert cert =
     (case cert of None \<Rightarrow> None
      | Some c \<Rightarrow>
          (case List.find isAgentIdentity (ct_URIs c) of
             Some identity \<Rightarrow> Some identity
           | None \<Rightarrow>
               if ct_URIs c \<noteq> [] then None
               else if isAgentIdentity (ct_CommonName c) then Some (ct_CommonName c)
               else None))"

section \<open>The connection\<close>

text \<open>
  A TLS connection of Go: the data of the record being read, the records that came with the last read of
  the socket, and what later reads of the socket will bring.  Closing it ends the reads of the socket;
  what was fetched before can still be read (\<^verbatim>\<open>crypto/tls\<close>, \<^verbatim>\<open>Conn.Read\<close> and \<^verbatim>\<open>readFromUntil\<close>).  A write to a closed
  connection fails.
\<close>

record go_conn =
  cn_cur :: bytes
  cn_raw :: "bytes list"
  cn_net :: "bytes list list"
  cn_closed :: bool
  cn_out :: bytes

definition pending :: "go_conn \<Rightarrow> bytes" where
  "pending c = cn_cur c @ concat (cn_raw c) @ (if cn_closed c then [] else concat (concat (cn_net c)))"

fun advance :: "nat \<Rightarrow> bytes \<Rightarrow> bytes list \<Rightarrow> bytes list list \<Rightarrow> bytes \<times> bytes list \<times> bytes list list" where
  "advance k cur raw net =
     (if k \<le> length cur then (drop k cur, raw, net)
      else case raw of
        r # rs \<Rightarrow> advance (k - length cur) r rs net
      | [] \<Rightarrow> (case net of
            b # bs \<Rightarrow> advance (k - length cur) [] b bs
          | [] \<Rightarrow> ([], [], [])))"

declare advance.simps [simp del]

definition conn_ReadFrame :: "go_conn \<Rightarrow> ((FrameHeader \<times> bytes) \<times> go_conn) option" where
  "conn_ReadFrame c =
     (case ReadFrame (pending c) of
        Inl _ \<Rightarrow> None
      | Inr (f, rest) \<Rightarrow>
          (case advance (length (pending c) - length rest) (cn_cur c) (cn_raw c) (cn_net c) of
             (cur, raw, net) \<Rightarrow> Some (f, c\<lparr>cn_cur := cur, cn_raw := raw, cn_net := net\<rparr>)))"

definition conn_close :: "go_conn \<Rightarrow> go_conn" where
  "conn_close c = c\<lparr>cn_closed := True\<rparr>"

definition conn_write :: "bytes \<Rightarrow> go_conn \<Rightarrow> go_conn" where
  "conn_write b c = (if cn_closed c then c else c\<lparr>cn_out := cn_out c @ b\<rparr>)"

section \<open>Sessions\<close>

record ProcessInfo =
  PI_PID :: int
  PI_PPID :: int
  PI_UID :: u32
  PI_EUID :: u32
  PI_SID :: int
  PI_TTY :: string
  PI_Comm :: string
  PI_Exe :: string
  PI_Cmdline :: string
  PI_StartTimeNS :: u64

text \<open>The ten fields \<^verbatim>\<open>Actor...\<close> of a payload and of an event are kept as one \<open>ProcessInfo\<close>.\<close>

record FileEventPayload =
  fp_AgentID :: string
  fp_EventType :: string
  fp_FilePath :: string
  fp_FileName :: string
  fp_FilePermission :: string
  fp_DetectedBy :: string
  fp_Pid :: int
  fp_Timestamp :: int
  fp_TargetDev :: u64
  fp_TargetIno :: u64
  fp_Blocked :: bool
  fp_Actor :: ProcessInfo
  fp_ChainDepth :: int
  fp_ChainTruncated :: bool
  fp_Chain :: "ProcessInfo list"

record RegisterPayload =
  rp_Hostname :: string
  rp_IP :: string
  rp_OS :: string
  rp_MonitorType :: string

record AgentCertificate =
  ac_AgentID :: string
  ac_CertSubjectHash :: string
  ac_CertFingerprint :: string
  ac_IssuedAt :: int
  ac_ExpiresAt :: int

record AgentSession =
  as_AgentID :: string
  as_agentNum :: u64
  as_certSubject :: string
  as_certSubjectHash :: string
  as_certFingerprint :: string
  as_certIssuedAt :: int
  as_certExpiresAt :: int
  as_lastSeq :: u32

text \<open>
  What the sessions of a server share: the connections by number, the map of the sessions, and the calls
  of the stores, the publisher and the engine in order.  A published event is its payload, with the timestamp as \<^verbatim>\<open>OccurredAt\<close>.
\<close>

record collector =
  co_conns :: "nat \<Rightarrow> go_conn"
  co_sessions :: "string \<Rightarrow> nat option"
  co_registered :: "(string \<times> RegisterPayload \<times> AgentCertificate) list"
  co_saved :: "FileEventPayload list"
  co_published :: "FileEventPayload list"
  co_onEvent :: "(string \<times> FileEventPayload) list"
  co_heartbeats :: "(string \<times> int) list"
  co_offline :: "string list"

datatype register_result = Registered | CertificateMismatch | CertificateRevoked | RegisterFailed

record backend =
  bk_register :: "string \<Rightarrow> RegisterPayload \<Rightarrow> AgentCertificate \<Rightarrow> register_result"
  bk_save :: "FileEventPayload list \<Rightarrow> FileEventPayload \<Rightarrow> bool"

definition co_close :: "nat \<Rightarrow> collector \<Rightarrow> collector" where
  "co_close cid g = g\<lparr>co_conns := (co_conns g)(cid := conn_close (co_conns g cid))\<rparr>"

definition co_write :: "nat \<Rightarrow> bytes \<Rightarrow> collector \<Rightarrow> collector" where
  "co_write cid b g = g\<lparr>co_conns := (co_conns g)(cid := conn_write b (co_conns g cid))\<rparr>"

definition validateAgentIdentity :: "nat \<Rightarrow> u64 \<Rightarrow> AgentSession \<Rightarrow> collector \<Rightarrow> bool \<times> collector" where
  "validateAgentIdentity cid agentNum s g =
     (if as_agentNum s = 0 \<or> as_AgentID s = [] then (False, co_close cid g)
      else if agentNum \<noteq> as_agentNum s then (False, co_close cid g)
      else (True, g))"

definition certificateIdentityMatchesAgent :: "AgentSession \<Rightarrow> bool" where
  "certificateIdentityMatchesAgent s =
     (isAgentIdentity (as_certSubject s) \<and> TrimPrefix (as_certSubject s) agentIdentityPrefix = as_AgentID s)"

definition handleRegister :: "backend \<Rightarrow> nat \<Rightarrow> FrameHeader \<Rightarrow> bytes \<Rightarrow> AgentSession \<Rightarrow> collector \<Rightarrow> AgentSession \<times> collector" where
  "handleRegister bk cid hdr payload s g =
     (if as_AgentID s \<noteq> [] then (s, co_close cid g)
      else case DecodeRegister payload of
        Inl _ \<Rightarrow> (s, g)
      | Inr (hostname, ip, monType, osName) \<Rightarrow>
          if as_certSubjectHash s = [] \<or> as_certFingerprint s = [] then (s, co_close cid g)
          else
            (let num = GenerateAgentID hostname (Some ip);
                 s = s\<lparr>as_agentNum := num, as_AgentID := dec (unat num)\<rparr>
             in if \<not> certificateIdentityMatchesAgent s then (s, co_close cid g)
             else
               (let p = \<lparr>rp_Hostname = hostname, rp_IP = ip_String ip, rp_OS = osName, rp_MonitorType = MonitorTypeName monType\<rparr>;
                    cert = \<lparr>ac_AgentID = as_AgentID s, ac_CertSubjectHash = as_certSubjectHash s,
                      ac_CertFingerprint = as_certFingerprint s, ac_IssuedAt = as_certIssuedAt s, ac_ExpiresAt = as_certExpiresAt s\<rparr>
                in case bk_register bk (as_AgentID s) p cert of
                     CertificateMismatch \<Rightarrow> (s, co_close cid g)
                   | CertificateRevoked \<Rightarrow> (s, co_close cid g)
                   | RegisterFailed \<Rightarrow> (s, g)
                   | Registered \<Rightarrow>
                       (let g = g\<lparr>co_registered := co_registered g @ [(as_AgentID s, p, cert)]\<rparr>;
                            g = (case co_sessions g (as_AgentID s) of None \<Rightarrow> g
                                 | Some old \<Rightarrow> co_close old (g\<lparr>co_sessions := (co_sessions g)(as_AgentID s := None)\<rparr>));
                            g = g\<lparr>co_sessions := (co_sessions g)(as_AgentID s := Some cid)\<rparr>
                        in (s, co_write cid (WriteFrame MsgRegister (SeqNum hdr) (EncodeRegisterResp num)) g)))))"

definition handleHeartbeat :: "nat \<Rightarrow> bytes \<Rightarrow> AgentSession \<Rightarrow> collector \<Rightarrow> collector" where
  "handleHeartbeat cid payload s g =
     (case DecodeHeartbeat payload of
        Inl _ \<Rightarrow> g
      | Inr (agentNum, status, timestamp) \<Rightarrow>
          (case validateAgentIdentity cid agentNum s g of (ok, g) \<Rightarrow>
             if \<not> ok then g
             else g\<lparr>co_heartbeats := co_heartbeats g @ [(dec (unat agentNum), uint timestamp)]\<rparr>))"

definition convertProcess :: "ProcessInfoMsg \<Rightarrow> ProcessInfo" where
  "convertProcess e = \<lparr>PI_PID = uint (p_pid e), PI_PPID = uint (p_ppid e), PI_UID = p_uid e, PI_EUID = p_euid e,
     PI_SID = uint (p_sid e), PI_TTY = p_tty e, PI_Comm = p_comm e, PI_Exe = p_exe e, PI_Cmdline = p_cmdline e,
     PI_StartTimeNS = p_start e\<rparr>"

definition convertProcessChain :: "ProcessInfoMsg list \<Rightarrow> ProcessInfo list" where
  "convertProcessChain entries = map convertProcess entries"

definition event_payload :: "FileEventMsg \<Rightarrow> FileEventPayload" where
  "event_payload ev =
     (let chain = convertProcessChain (ChainEntries ev);
          actor = \<lparr>PI_PID = uint (Pid ev), PI_PPID = 0, PI_UID = UID ev, PI_EUID = 0, PI_SID = uint (SID ev), PI_TTY = [],
            PI_Comm = Comm ev, PI_Exe = [], PI_Cmdline = [], PI_StartTimeNS = 0\<rparr>;
          actor = (case chain of [] \<Rightarrow> actor | c # _ \<Rightarrow> c)
      in \<lparr>fp_AgentID = dec (unat (AgentID ev)), fp_EventType = EventTypeName (EventType ev), fp_FilePath = FilePath ev,
          fp_FileName = FileName ev, fp_FilePermission = PermString (FilePermission ev), fp_DetectedBy = MonitorTypeName (DetectedBy ev),
          fp_Pid = uint (Pid ev), fp_Timestamp = uint (Timestamp ev), fp_TargetDev = TargetDev ev, fp_TargetIno = TargetIno ev,
          fp_Blocked = Blocked ev, fp_Actor = actor, fp_ChainDepth = uint (ChainDepth ev), fp_ChainTruncated = ChainTruncated ev,
          fp_Chain = chain\<rparr>)"

definition handleFileEvent :: "backend \<Rightarrow> nat \<Rightarrow> bytes \<Rightarrow> AgentSession \<Rightarrow> collector \<Rightarrow> collector" where
  "handleFileEvent bk cid payload s g =
     (case DecodeFileEvent payload of
        Inl _ \<Rightarrow> g
      | Inr ev \<Rightarrow>
          (case validateAgentIdentity cid (AgentID ev) s g of (ok, g) \<Rightarrow>
             if \<not> ok then g
             else
               (let p = event_payload ev
                in if \<not> bk_save bk (co_saved g) p then g
                   else g\<lparr>co_saved := co_saved g @ [p], co_published := co_published g @ [p],
                          co_onEvent := co_onEvent g @ [(fp_AgentID p, p)]\<rparr>)))"

text \<open>One turn of the loop of \<^verbatim>\<open>Run\<close>, with whether another follows, and what \<^verbatim>\<open>Run\<close> defers to its end.\<close>

definition session_turn :: "backend \<Rightarrow> nat \<Rightarrow> AgentSession \<Rightarrow> collector \<Rightarrow> bool \<times> AgentSession \<times> collector" where
  "session_turn bk cid s g =
     (case conn_ReadFrame (co_conns g cid) of
        None \<Rightarrow> (False, s, g)
      | Some ((hdr, payload), c) \<Rightarrow>
          (let g = g\<lparr>co_conns := (co_conns g)(cid := c)\<rparr>
           in if as_lastSeq s > 0 \<and> SeqNum hdr \<noteq> as_lastSeq s + 1 then (False, s, g)
              else
                (let s = s\<lparr>as_lastSeq := SeqNum hdr\<rparr>
                 in if Type hdr = MsgRegister then (True, handleRegister bk cid hdr payload s g)
                    else if Type hdr = MsgHeartbeat then (True, s, handleHeartbeat cid payload s g)
                    else if Type hdr = MsgFileEvent then (True, s, handleFileEvent bk cid payload s g)
                    else (True, s, g))))"

definition session_end :: "nat \<Rightarrow> AgentSession \<Rightarrow> collector \<Rightarrow> collector" where
  "session_end cid s g =
     (let current = as_agentNum s > 0 \<and> as_AgentID s \<noteq> [] \<and> co_sessions g (as_AgentID s) = Some cid;
          g = (if current then g\<lparr>co_sessions := (co_sessions g)(as_AgentID s := None), co_offline := co_offline g @ [as_AgentID s]\<rparr> else g)
      in co_close cid g)"

section \<open>Reading\<close>

lemma drop_beyond: "length xs < k \<Longrightarrow> drop k (xs @ ys) = drop (k - length xs) ys"
  by simp

lemma advance_all:
  assumes "advance k cur raw net = (cur', raw', net')"
  shows "cur' @ concat raw' @ concat (concat net') = drop k (cur @ concat raw @ concat (concat net))"
  using assms
proof (induction k cur raw net arbitrary: cur' raw' net' rule: advance.induct)
  case (1 k cur raw net)
  show ?case
  proof (cases "k \<le> length cur")
    case True
    then show ?thesis using "1.prems" by (simp add: advance.simps [of k])
  next
    case False
    then have d: "drop k (cur @ ys) = drop (k - length cur) ys" for ys by simp
    show ?thesis
    proof (cases raw)
      case (Cons r rs)
      with False have "advance (k - length cur) r rs net = (cur', raw', net')" using "1.prems" by (simp add: advance.simps [of k])
      from "1.IH"(2) [OF False Cons this] show ?thesis unfolding d by (simp add: Cons)
    next
      case Nil
      show ?thesis
      proof (cases net)
        case (Cons b bs)
        with False Nil have "advance (k - length cur) [] b bs = (cur', raw', net')" using "1.prems" by (simp add: advance.simps [of k])
        from "1.IH"(1) [OF False Nil Cons this] show ?thesis unfolding d by (simp add: Nil Cons)
      next
        case (Nil)
        then show ?thesis unfolding d using False "1.prems" \<open>raw = []\<close> by (simp add: advance.simps [of k])
      qed
    qed
  qed
qed

text \<open>What was fetched is read without a read of the socket.\<close>

lemma advance_fetched:
  assumes "advance k cur raw net = (cur', raw', net')" and "k \<le> length (cur @ concat raw)"
  shows "cur' @ concat raw' = drop k (cur @ concat raw)"
  using assms
proof (induction k cur raw net arbitrary: cur' raw' net' rule: advance.induct)
  case (1 k cur raw net)
  show ?case
  proof (cases "k \<le> length cur")
    case True
    then show ?thesis using "1.prems" by (simp add: advance.simps [of k])
  next
    case False
    then obtain r rs where r: "raw = r # rs" using "1.prems"(2) by (cases raw) auto
    with False have a: "advance (k - length cur) r rs net = (cur', raw', net')" using "1.prems"(1) by (simp add: advance.simps [of k])
    have "k - length cur \<le> length (r @ concat rs)" using "1.prems"(2) by (simp add: r)
    from "1.IH"(2) [OF False r a this] False show ?thesis by (simp add: r)
  qed
qed

lemma ReadFrame_suffix:
  assumes "ReadFrame s = Inr ((hdr, payload), rest)"
  shows "rest = drop (length s - length rest) s" "length rest + FrameHeaderSize \<le> length s"
proof -
  have "\<exists>k. k \<ge> FrameHeaderSize \<and> k \<le> length s \<and> rest = drop k s"
    using assms
    by (auto simp: ReadFrame_def ReadFull_def Let_def split: if_splits)
       (metis add.commute le_add1 le_diff_conv2 linorder_not_less)+
  then obtain k where "k \<ge> FrameHeaderSize" "k \<le> length s" "rest = drop k s" by blast
  then show "rest = drop (length s - length rest) s" "length rest + FrameHeaderSize \<le> length s" by simp_all
qed

lemma conn_ReadFrame_pending:
  assumes "conn_ReadFrame c = Some ((hdr, payload), c')"
  shows "ReadFrame (pending c) = Inr ((hdr, payload), pending c')" "cn_closed c' = cn_closed c" "cn_out c' = cn_out c"
    "length (pending c') < length (pending c)"
proof -
  obtain rest where r: "ReadFrame (pending c) = Inr ((hdr, payload), rest)"
    using assms by (auto simp: conn_ReadFrame_def split: sum.splits prod.splits)
  note s = ReadFrame_suffix [OF r]
  obtain cur raw net where a: "advance (length (pending c) - length rest) (cn_cur c) (cn_raw c) (cn_net c) = (cur, raw, net)"
    by (metis prod_cases3)
  have c': "c' = c\<lparr>cn_cur := cur, cn_raw := raw, cn_net := net\<rparr>"
    using assms by (simp add: conn_ReadFrame_def r a)
  have "pending c' = rest"
  proof (cases "cn_closed c")
    case True
    then have "length (pending c) - length rest \<le> length (cn_cur c @ concat (cn_raw c))" by (simp add: pending_def)
    from advance_fetched [OF a this] s(1) True show ?thesis by (simp add: c' pending_def)
  next
    case False
    with advance_all [OF a] s(1) show ?thesis by (simp add: c' pending_def)
  qed
  with r s c' show "ReadFrame (pending c) = Inr ((hdr, payload), pending c')" "cn_closed c' = cn_closed c" "cn_out c' = cn_out c"
    "length (pending c') < length (pending c)" by (simp_all add: FrameHeaderSize_def)
qed

lemma conn_ReadFrame_some:
  assumes "ReadFrame (pending c) = Inr ((hdr, payload), rest)"
  obtains c' where "conn_ReadFrame c = Some ((hdr, payload), c')" "pending c' = rest" "cn_closed c' = cn_closed c" "cn_out c' = cn_out c"
proof -
  obtain cur raw net where "advance (length (pending c) - length rest) (cn_cur c) (cn_raw c) (cn_net c) = (cur, raw, net)"
    by (metis prod_cases3)
  with assms obtain c' where c: "conn_ReadFrame c = Some ((hdr, payload), c')" by (simp add: conn_ReadFrame_def)
  from conn_ReadFrame_pending [OF c] assms that [OF c] show thesis by simp
qed

lemma frame_bytes_WriteFrame: "frame_bytes ty seq payload = WriteFrame ty seq payload"
  by (simp add: frame_bytes_def frame_header_bytes_def WriteFrame_def)

section \<open>The loop ends\<close>

text \<open>The calls of a handler leave a connection with no more to read.\<close>

definition no_more :: "collector \<Rightarrow> collector \<Rightarrow> bool" where
  "no_more g g' \<longleftrightarrow> (\<forall>c. length (pending (co_conns g' c)) \<le> length (pending (co_conns g c)))"

named_theorems co_step

lemma no_more_refl [co_step]: "no_more g g"
  by (simp add: no_more_def)

lemma no_more_trans: "no_more g g' \<Longrightarrow> no_more g' g'' \<Longrightarrow> no_more g g''"
  unfolding no_more_def using order_trans by blast

lemma no_more_conns: "co_conns g' = co_conns g \<Longrightarrow> no_more g g'"
  by (simp add: no_more_def)

lemma pending_close [simp]: "pending (conn_close c) = cn_cur c @ concat (cn_raw c)"
  by (simp add: pending_def conn_close_def)

lemma pending_write [simp]: "pending (conn_write b c) = pending c"
  by (simp add: pending_def conn_write_def)

lemma no_more_close [co_step]: "no_more g (co_close cid g)"
  by (simp add: no_more_def co_close_def) (simp add: pending_def)

lemma no_more_write [co_step]: "no_more g (co_write cid b g)"
  by (simp add: no_more_def co_write_def)

lemma handleRegister_no_more: "no_more g (snd (handleRegister bk cid hdr payload s g))"
proof -
  have "no_more g (co_write cid b ((case x of None \<Rightarrow> g\<lparr>co_registered := l\<rparr>
      | Some old \<Rightarrow> co_close old (g\<lparr>co_registered := l, co_sessions := m\<rparr>))\<lparr>co_sessions := m'\<rparr>))" for b x l m m'
  proof (rule no_more_trans [OF _ no_more_write])
    show "no_more g ((case x of None \<Rightarrow> g\<lparr>co_registered := l\<rparr>
      | Some old \<Rightarrow> co_close old (g\<lparr>co_registered := l, co_sessions := m\<rparr>))\<lparr>co_sessions := m'\<rparr>)"
      by (cases x) (auto simp: no_more_def co_close_def pending_def conn_close_def)
  qed
  then show ?thesis
    by (auto simp: handleRegister_def Let_def co_step simp del: fun_upd_apply split: sum.split register_result.split option.split)
qed

lemma handleHeartbeat_no_more: "no_more g (handleHeartbeat cid payload s g)"
  by (auto simp: handleHeartbeat_def validateAgentIdentity_def co_step no_more_conns split: sum.split)

lemma handleFileEvent_no_more: "no_more g (handleFileEvent bk cid payload s g)"
  by (auto simp: handleFileEvent_def validateAgentIdentity_def Let_def co_step no_more_conns split: sum.split)

lemma turn_shrinks:
  assumes "session_turn bk cid s g = (True, s', g')"
  shows "length (pending (co_conns g' cid)) < length (pending (co_conns g cid))"
proof -
  obtain hdr payload c where c: "conn_ReadFrame (co_conns g cid) = Some ((hdr, payload), c)"
    using assms by (auto simp: session_turn_def split: option.splits)
  let ?g = "g\<lparr>co_conns := (co_conns g)(cid := c)\<rparr>" and ?s = "s\<lparr>as_lastSeq := SeqNum hdr\<rparr>"
  have "no_more ?g g'"
    using assms c handleRegister_no_more [of ?g bk cid hdr payload ?s]
    by (auto simp: session_turn_def Let_def handleHeartbeat_no_more handleFileEvent_no_more co_step split: if_splits prod.splits)
  then have "length (pending (co_conns g' cid)) \<le> length (pending (co_conns ?g cid))" unfolding no_more_def by blast
  with conn_ReadFrame_pending(4) [OF c] show ?thesis by simp
qed

function (sequential) Run :: "backend \<Rightarrow> nat \<Rightarrow> AgentSession \<Rightarrow> collector \<Rightarrow> collector" where
  "Run bk cid s g =
     (case session_turn bk cid s g of
        (True, s', g') \<Rightarrow> Run bk cid s' g'
      | (False, s', g') \<Rightarrow> session_end cid s' g')"
  by pat_completeness auto

termination
  by (relation "measure (\<lambda>(bk, cid, s, g). length (pending (co_conns g cid)))") (auto dest: turn_shrinks [OF sym])

declare Run.simps [simp del]

section \<open>One turn\<close>

lemma turn_read:
  assumes "conn_ReadFrame (co_conns g cid) = Some ((hdr, payload), c)" and "as_lastSeq s > 0 \<Longrightarrow> SeqNum hdr = as_lastSeq s + 1"
  shows "session_turn bk cid s g =
    (let g = g\<lparr>co_conns := (co_conns g)(cid := c)\<rparr>; s = s\<lparr>as_lastSeq := SeqNum hdr\<rparr>
     in if Type hdr = MsgRegister then (True, handleRegister bk cid hdr payload s g)
        else if Type hdr = MsgHeartbeat then (True, s, handleHeartbeat cid payload s g)
        else if Type hdr = MsgFileEvent then (True, s, handleFileEvent bk cid payload s g)
        else (True, s, g))"
  using assms by (simp add: session_turn_def Let_def)

lemma msg_codes: "MsgHeartbeat \<noteq> MsgRegister" "MsgFileEvent \<noteq> MsgRegister" "MsgFileEvent \<noteq> MsgHeartbeat"
  by (simp_all add: MsgRegister_def MsgHeartbeat_def MsgFileEvent_def)

text \<open>A whole frame in the record at hand, and a frame anywhere.\<close>

lemma advance_here: "advance (length f) (f @ rest) raw net = (rest, raw, net)"
  by (simp add: advance.simps [of "length f"])

lemma read_here:
  assumes "cn_cur c = WriteFrame ty seq payload @ rest" and "length payload \<le> MaxFrameSize"
  shows "conn_ReadFrame c = Some ((\<lparr>Length = of_nat (length payload), Type = ty, SeqNum = seq\<rparr>, payload), c\<lparr>cn_cur := rest\<rparr>)"
proof -
  let ?tail = "concat (cn_raw c) @ (if cn_closed c then [] else concat (concat (cn_net c)))"
  have p: "pending c = WriteFrame ty seq payload @ (rest @ ?tail)" by (simp add: pending_def assms(1))
  have "advance (length (pending c) - length (rest @ ?tail)) (cn_cur c) (cn_raw c) (cn_net c) = (rest, cn_raw c, cn_net c)"
    by (simp add: p assms(1) advance_here)
  then show ?thesis unfolding conn_ReadFrame_def p ReadFrame_step [OF assms(2)] using p by simp
qed

lemma read_frame:
  assumes "pending c = WriteFrame ty seq payload @ rest" and "length payload \<le> MaxFrameSize"
  obtains c' where "conn_ReadFrame c = Some ((\<lparr>Length = of_nat (length payload), Type = ty, SeqNum = seq\<rparr>, payload), c')"
    "pending c' = rest" "cn_closed c' = cn_closed c" "cn_out c' = cn_out c"
  using conn_ReadFrame_some ReadFrame_step [OF assms(2)] assms(1) by metis

lemma read_end: "pending c = [] \<Longrightarrow> conn_ReadFrame c = None"
  by (simp add: conn_ReadFrame_def ReadFrame_def ReadFull_def FrameHeaderSize_def)

lemma Run_end: "pending (co_conns g cid) = [] \<Longrightarrow> Run bk cid s g = session_end cid s g"
  by (simp add: Run.simps [of bk cid s g] session_turn_def read_end)

lemma Run_turn: "session_turn bk cid s g = (True, s', g') \<Longrightarrow> Run bk cid s g = Run bk cid s' g'"
  by (simp add: Run.simps [of bk cid s g])

lemma session_end_saved [simp]:
  "co_saved (session_end cid s g) = co_saved g" "co_published (session_end cid s g) = co_published g"
  "co_onEvent (session_end cid s g) = co_onEvent g" "co_heartbeats (session_end cid s g) = co_heartbeats g"
  "cn_out (co_conns (session_end cid s g) k) = cn_out (co_conns g k)"
  by (simp_all add: session_end_def Let_def co_close_def conn_close_def)

text \<open>An event of the session's agent is saved, published and handed on.\<close>

lemma own_event:
  assumes "DecodeFileEvent payload = Inr ev" and "AgentID ev = as_agentNum s" and "as_agentNum s \<noteq> 0" and "as_AgentID s \<noteq> []"
    and "bk_save bk (co_saved g) (event_payload ev)"
  shows "handleFileEvent bk cid payload s g = g\<lparr>co_saved := co_saved g @ [event_payload ev],
    co_published := co_published g @ [event_payload ev], co_onEvent := co_onEvent g @ [(fp_AgentID (event_payload ev), event_payload ev)]\<rparr>"
  using assms by (simp add: handleFileEvent_def validateAgentIdentity_def Let_def)

lemma GenerateAgentID_pos: "GenerateAgentID h ip \<noteq> 0"
  by (simp add: GenerateAgentID_def Let_def)

lemma TrimPrefix_iff:
  assumes "p \<noteq> []"
  shows "TrimPrefix x p \<noteq> x \<and> TrimPrefix x p = a \<longleftrightarrow> x = p @ a"
proof
  assume t: "TrimPrefix x p \<noteq> x \<and> TrimPrefix x p = a"
  then have "take (length p) x = p" by (auto simp: TrimPrefix_def split: if_splits)
  with t show "x = p @ a" using append_take_drop_id [of "length p" x] by (simp add: TrimPrefix_def)
qed (use assms in \<open>simp add: TrimPrefix_def\<close>)

lemma identity_suffix:
  "certificateIdentityMatchesAgent s \<longleftrightarrow> as_certSubject s = agentIdentityPrefix @ as_AgentID s \<and> as_AgentID s \<noteq> []"
proof -
  have "agentIdentityPrefix \<noteq> []" by (simp add: agentIdentityPrefix_def)
  from TrimPrefix_iff [OF this, of "as_certSubject s" "as_AgentID s"] show ?thesis
    unfolding certificateIdentityMatchesAgent_def isAgentIdentity_def Let_def by metis
qed

section \<open>The refused session\<close>

text \<open>C16. A session that is refused still writes: the number of the host it named is kept, closing the connection does not take back what was
  fetched of it, and the loop goes on.  So a frame that came in the same record as a REGISTER under the name of another host is handled as
  that host's, whatever certificate the session has: its event is saved, published and handed to the engine under the other's name.\<close>

theorem rejected_session_forges:
  assumes "as_AgentID s = []" and "as_lastSeq s = 0" and "as_certSubjectHash s \<noteq> []" and "as_certFingerprint s \<noteq> []"
    and "cn_cur (co_conns g cid) = WriteFrame MsgRegister n reg @ WriteFrame MsgFileEvent (n + 1) evb" and "cn_raw (co_conns g cid) = []"
    and "length reg \<le> MaxFrameSize" and "length evb \<le> MaxFrameSize"
    and "DecodeRegister reg = Inr (host, ip, mt, osn)" and "DecodeFileEvent evb = Inr ev" and "AgentID ev = GenerateAgentID host (Some ip)"
    and "as_certSubject s \<noteq> agentIdentityPrefix @ dec (unat (AgentID ev))" and "bk_save bk (co_saved g) (event_payload ev)"
  shows "co_saved (Run bk cid s g) = co_saved g @ [event_payload ev]
    \<and> co_onEvent (Run bk cid s g) = co_onEvent g @ [(dec (unat (AgentID ev)), event_payload ev)]
    \<and> co_registered (Run bk cid s g) = co_registered g \<and> cn_out (co_conns (Run bk cid s g) cid) = cn_out (co_conns g cid)"
proof -
  let ?s1 = "s\<lparr>as_lastSeq := n, as_agentNum := AgentID ev, as_AgentID := dec (unat (AgentID ev))\<rparr>"
  let ?c1 = "(co_conns g cid)\<lparr>cn_cur := WriteFrame MsgFileEvent (n + 1) evb, cn_closed := True\<rparr>"
  let ?g1 = "g\<lparr>co_conns := (co_conns g)(cid := ?c1)\<rparr>"
  let ?g2 = "g\<lparr>co_conns := (co_conns g)(cid := ?c1\<lparr>cn_cur := []\<rparr>), co_saved := co_saved g @ [event_payload ev],
    co_published := co_published g @ [event_payload ev], co_onEvent := co_onEvent g @ [(fp_AgentID (event_payload ev), event_payload ev)]\<rparr>"
  have no: "\<not> certificateIdentityMatchesAgent ?s1" using assms(12) by (simp add: identity_suffix)
  have t1: "session_turn bk cid s g = (True, ?s1, ?g1)"
    using turn_read [OF read_here [OF assms(5,7)], of s bk] assms(1-4,9,11) no
    by (simp add: Let_def handleRegister_def co_close_def conn_close_def)
  have "cn_cur (co_conns ?g1 cid) = WriteFrame MsgFileEvent (n + 1) evb @ []" by simp
  from turn_read [OF read_here [OF this assms(8)], of ?s1 bk]
  have t2: "session_turn bk cid ?s1 ?g1 = (True, ?s1\<lparr>as_lastSeq := n + 1\<rparr>, ?g2)"
    using own_event [OF assms(10), of "?s1\<lparr>as_lastSeq := n + 1\<rparr>" bk "?g1\<lparr>co_conns := (co_conns g)(cid := ?c1\<lparr>cn_cur := []\<rparr>)\<rparr>" cid] assms(13)
    by (simp add: Let_def msg_codes assms(11) GenerateAgentID_pos)
  have "pending (co_conns ?g2 cid) = []" using assms(6) by (simp add: pending_def)
  then have r: "Run bk cid s g = session_end cid (?s1\<lparr>as_lastSeq := n + 1\<rparr>) ?g2"
    unfolding Run_turn [OF t1] Run_turn [OF t2] by (rule Run_end)
  have "fp_AgentID (event_payload ev) = dec (unat (AgentID ev))" by (simp add: event_payload_def Let_def)
  moreover have "co_registered (session_end cid (?s1\<lparr>as_lastSeq := n + 1\<rparr>) ?g2) = co_registered g"
    by (simp add: session_end_def Let_def co_close_def)
  ultimately show ?thesis unfolding r by simp
qed

definition plc_num :: u64 where "plc_num = GenerateAgentID ''plc'' (Some 0x0A000001)"

lemma plc_num: "plc_num = 171215610"
  by (simp add: plc_num_def GenerateAgentID_def Let_def)

definition other_session :: AgentSession where
  "other_session = \<lparr>as_AgentID = [], as_agentNum = 0, as_certSubject = agentIdentityPrefix @ ''7'', as_certSubjectHash = ''h'',
     as_certFingerprint = ''f'', as_certIssuedAt = 0, as_certExpiresAt = 9, as_lastSeq = 0\<rparr>"

definition plc_event :: ig_msg_file_event where
  "plc_event = sample_event\<lparr>fe_agent_id := plc_num\<rparr>"

lemma plc_event_decodes: "DecodeFileEvent (file_event_bytes plc_event) = Inr (event_view plc_event)"
  "length (file_event_bytes plc_event) \<le> MaxFrameSize"
proof -
  have ok: "file_event_ok plc_event" using sample_event_ok by (simp add: plc_event_def file_event_ok_def)
  then show "DecodeFileEvent (file_event_bytes plc_event) = Inr (event_view plc_event)"
    using decode_file_event_bytes [OF ok] sample_event_shape by (simp add: plc_event_def)
  show "length (file_event_bytes plc_event) \<le> MaxFrameSize"
  proof -
    let ?es = "chain_visited (fe_chain plc_event)"
    have "length (concat (map chain_entry_bytes ?es)) \<le> length ?es * 852"
      using chain_entry_need_le by (intro concat_length_le) (simp add: length_chain_entry_bytes)
    also have "\<dots> \<le> 16 * 852" by (intro mult_right_mono) (auto simp: chain_visited_def pa_lens split: option.split)
    finally show ?thesis
      unfolding length_file_event_bytes [OF ok]
      by (simp add: file_event_need_def plc_event_def sample_event_def zero_file_event_def MaxFrameSize_def)
  qed
qed

definition empty_collector :: "go_conn \<Rightarrow> collector" where
  "empty_collector c = \<lparr>co_conns = (\<lambda>_. c), co_sessions = (\<lambda>_. None), co_registered = [], co_saved = [], co_published = [],
     co_onEvent = [], co_heartbeats = [], co_offline = []\<rparr>"

definition sample_backend :: backend where
  "sample_backend = \<lparr>bk_register = (\<lambda>_ _ _. Registered), bk_save = (\<lambda>_ _. True)\<rparr>"

theorem rejected_session_forges_witness:
  "co_saved (Run sample_backend 0 other_session (empty_collector \<lparr>cn_cur = WriteFrame MsgRegister 1 (register_bytes sample_register)
      @ WriteFrame MsgFileEvent 2 (file_event_bytes plc_event), cn_raw = [], cn_net = [], cn_closed = False, cn_out = []\<rparr>))
    = [event_payload (event_view plc_event)]"
proof -
  have r: "DecodeRegister (register_bytes sample_register) = Inr (''plc'', 0x0A000001, IG_MON_LKM, ''Linux'')"
    by (rule sample_register_decodes)
  have len: "length (register_bytes sample_register) \<le> MaxFrameSize"
    by (simp add: register_bytes_def sample_register_def str_bytes_def be16_def be32_def MaxFrameSize_def)
  have id: "AgentID (event_view plc_event) = plc_num" by (simp add: event_view_def plc_event_def)
  have "dec (unat plc_num) \<noteq> ''7''"
  proof
    assume "dec (unat plc_num) = ''7''"
    then have "digits_val (dec (unat plc_num)) = digits_val ''7''" by simp
    then show False unfolding digits_val_dec plc_num by (simp add: digits_val_def digit_val_def)
  qed
  then show ?thesis
    using rejected_session_forges [OF _ _ _ _ _ _ len plc_event_decodes(2) r plc_event_decodes(1), of other_session
      "empty_collector \<lparr>cn_cur = WriteFrame MsgRegister 1 (register_bytes sample_register)
      @ WriteFrame MsgFileEvent 2 (file_event_bytes plc_event), cn_raw = [], cn_net = [], cn_closed = False, cn_out = []\<rparr>" 0 1 sample_backend] id
    by (simp add: other_session_def empty_collector_def sample_backend_def plc_num_def)
qed

section \<open>The sessions of a server\<close>

text \<open>
  \<^verbatim>\<open>handleConn\<close> of \<^verbatim>\<open>tcp_server.go\<close> makes a session from the certificate of the peer; the sessions then take turns in any
  order.  The hash of the identity and the fingerprint of the certificate are parameters.
\<close>

definition new_session :: "(string \<Rightarrow> string) \<Rightarrow> certificate option \<Rightarrow> string option \<Rightarrow> (int \<times> int) option \<Rightarrow> AgentSession option" where
  "new_session subjectHash cert fingerprint validity =
     (case peerIdentityFromCert cert of None \<Rightarrow> None
      | Some certSubject \<Rightarrow>
          (case fingerprint of None \<Rightarrow> None
           | Some certFingerprint \<Rightarrow>
               (case validity of None \<Rightarrow> None
                | Some (certIssuedAt, certExpiresAt) \<Rightarrow>
                    Some \<lparr>as_AgentID = [], as_agentNum = 0, as_certSubject = certSubject, as_certSubjectHash = subjectHash certSubject,
                      as_certFingerprint = certFingerprint, as_certIssuedAt = certIssuedAt, as_certExpiresAt = certExpiresAt,
                      as_lastSeq = 0\<rparr>)))"

record server =
  sr_next :: nat
  sr_live :: "nat \<Rightarrow> AgentSession option"
  sr_shared :: collector

definition server_init :: server where
  "server_init = \<lparr>sr_next = 0, sr_live = (\<lambda>_. None),
     sr_shared = empty_collector \<lparr>cn_cur = [], cn_raw = [], cn_net = [], cn_closed = True, cn_out = []\<rparr>\<rparr>"

inductive server_step :: "server \<Rightarrow> server \<Rightarrow> bool" where
  step_accept: "new_session subjectHash cert fingerprint validity = Some s \<Longrightarrow>
    server_step v \<lparr>sr_next = sr_next v + 1, sr_live = (sr_live v)(sr_next v := Some s),
      sr_shared = (sr_shared v)\<lparr>co_conns := (co_conns (sr_shared v))(sr_next v := c)\<rparr>\<rparr>"
| step_turn: "sr_live v cid = Some s \<Longrightarrow> session_turn bk cid s (sr_shared v) = (True, s', g') \<Longrightarrow>
    server_step v (v\<lparr>sr_live := (sr_live v)(cid := Some s'), sr_shared := g'\<rparr>)"
| step_done: "sr_live v cid = Some s \<Longrightarrow> session_turn bk cid s (sr_shared v) = (False, s', g') \<Longrightarrow>
    server_step v (v\<lparr>sr_live := (sr_live v)(cid := None), sr_shared := session_end cid s' g'\<rparr>)"

inductive server_reach :: "server \<Rightarrow> bool" where
  reach_init: "server_reach server_init"
| reach_more: "server_reach v \<Longrightarrow> server_step v v' \<Longrightarrow> server_reach v'"

text \<open>A session that is certified for the name it has taken.\<close>

definition certified :: "AgentSession \<Rightarrow> bool" where
  "certified s \<longleftrightarrow> as_certSubject s = agentIdentityPrefix @ as_AgentID s"

definition server_inv :: "server \<Rightarrow> bool" where
  "server_inv v \<longleftrightarrow>
     (\<forall>id c. co_sessions (sr_shared v) id = Some c \<longrightarrow>
        (\<exists>s. sr_live v c = Some s \<and> as_AgentID s = id \<and> as_agentNum s \<noteq> 0 \<and> id \<noteq> [] \<and> certified s))
   \<and> (\<forall>c s. sr_live v c = Some s \<longrightarrow> c < sr_next v \<and> (as_AgentID s \<noteq> [] \<longrightarrow> \<not> cn_closed (co_conns (sr_shared v) c) \<longrightarrow> certified s))
   \<and> (\<forall>c s. sr_live v c = Some s \<longrightarrow> as_AgentID s \<noteq> [] \<longrightarrow> as_AgentID s = dec (unat (as_agentNum s)) \<and> as_agentNum s \<noteq> 0)"

text \<open>What a handler may do: it closes connections and writes to them, and only a REGISTER changes the session and the map.\<close>

definition quiet :: "collector \<Rightarrow> collector \<Rightarrow> bool" where
  "quiet g g' \<longleftrightarrow> co_sessions g' = co_sessions g \<and> (\<forall>c. cn_closed (co_conns g c) \<longrightarrow> cn_closed (co_conns g' c))"

lemma quiet_refl [co_step]: "quiet g g"
  by (simp add: quiet_def)

lemma quiet_close [co_step]: "quiet g (co_close cid g)"
  by (simp add: quiet_def co_close_def conn_close_def)

lemma quiet_heartbeat: "quiet g (handleHeartbeat cid payload s g)"
  by (auto simp: handleHeartbeat_def validateAgentIdentity_def co_step quiet_def split: sum.split) (simp add: co_close_def conn_close_def)+

lemma quiet_event: "quiet g (handleFileEvent bk cid payload s g)"
  by (auto simp: handleFileEvent_def validateAgentIdentity_def Let_def quiet_def co_close_def conn_close_def split: sum.split)

lemma quiet_read: "conn_ReadFrame (co_conns g cid) = Some ((hdr, payload), c) \<Longrightarrow> quiet g (g\<lparr>co_conns := (co_conns g)(cid := c)\<rparr>)"
  using conn_ReadFrame_pending(2) by (auto simp: quiet_def)

text \<open>The cases of a REGISTER.\<close>

lemma register_cases_co:
  assumes "handleRegister bk cid hdr payload s g = (s', g')"
  obtains (same) "s' = s" "quiet g g'"
  | (refused) num where "as_AgentID s = []" "num \<noteq> 0" "s' = s\<lparr>as_agentNum := num, as_AgentID := dec (unat num)\<rparr>" "g' = co_close cid g"
  | (failed) num where "as_AgentID s = []" "num \<noteq> 0" "s' = s\<lparr>as_agentNum := num, as_AgentID := dec (unat num)\<rparr>" "g' = g" "certified s'"
  | (taken) num where "as_AgentID s = []" "num \<noteq> 0" "s' = s\<lparr>as_agentNum := num, as_AgentID := dec (unat num)\<rparr>" "certified s'"
      "co_sessions g' = (co_sessions g)(as_AgentID s' := Some cid)" "\<forall>c. cn_closed (co_conns g c) \<longrightarrow> cn_closed (co_conns g' c)"
proof -
  have w: "cn_closed (conn_write b c) = cn_closed c" for b c by (simp add: conn_write_def)
  show thesis
  proof (cases "as_AgentID s \<noteq> [] \<or> (\<exists>e. DecodeRegister payload = Inl e) \<or> as_certSubjectHash s = [] \<or> as_certFingerprint s = []")
    case True
    with assms have "s' = s \<and> quiet g g'" by (auto simp: handleRegister_def co_step split: if_splits sum.splits)
    then show thesis using same by blast
  next
    case False
    then obtain host ip mt osn where d: "DecodeRegister payload = Inr (host, ip, mt, osn)" and n: "as_AgentID s = []"
      by (metis obj_sumE prod_cases4)
    define num where "num = GenerateAgentID host (Some ip)"
    have num: "num \<noteq> 0" by (simp add: num_def GenerateAgentID_pos)
    let ?s = "s\<lparr>as_agentNum := num, as_AgentID := dec (unat num)\<rparr>"
    have s': "s' = ?s" using assms False d by (simp add: handleRegister_def Let_def num_def split: if_splits register_result.splits option.splits)
    have "g' = co_close cid g \<or> certified ?s \<and> (g' = g \<or> co_sessions g' = (co_sessions g)(as_AgentID ?s := Some cid)
        \<and> (\<forall>c. cn_closed (co_conns g c) \<longrightarrow> cn_closed (co_conns g' c)))"
      using assms False d
      by (auto simp: handleRegister_def Let_def num_def identity_suffix certified_def co_close_def conn_close_def co_write_def w
          split: if_splits register_result.splits option.splits)
    then show thesis using refused [OF n num s'] failed [OF n num s'] taken [OF n num s'] s' by auto
  qed
qed

lemma quiet_trans: "quiet g g' \<Longrightarrow> quiet g' g'' \<Longrightarrow> quiet g g''"
  by (simp add: quiet_def)

lemma turn_cases:
  assumes "session_turn bk cid s g = (b, s', g')"
  obtains (quiet) n where "s' = s\<lparr>as_lastSeq := n\<rparr>" "quiet g g'"
  | (named) n num where "b" "as_AgentID s = []" "num \<noteq> 0" "s' = s\<lparr>as_lastSeq := n, as_agentNum := num, as_AgentID := dec (unat num)\<rparr>"
      "certified s' \<or> cn_closed (co_conns g' cid)"
      "co_sessions g' = co_sessions g \<or> certified s' \<and> co_sessions g' = (co_sessions g)(as_AgentID s' := Some cid)"
      "\<forall>c. cn_closed (co_conns g c) \<longrightarrow> cn_closed (co_conns g' c)"
proof (cases "conn_ReadFrame (co_conns g cid)")
  case None
  then show thesis using assms quiet [of "as_lastSeq s"] by (simp add: session_turn_def co_step)
next
  case (Some r)
  obtain hdr payload c where c: "conn_ReadFrame (co_conns g cid) = Some ((hdr, payload), c)" using Some by (metis prod_cases3 surj_pair)
  let ?g = "g\<lparr>co_conns := (co_conns g)(cid := c)\<rparr>" and ?s = "s\<lparr>as_lastSeq := SeqNum hdr\<rparr>"
  note q = quiet_read [OF c]
  show thesis
  proof (cases "as_lastSeq s > 0 \<and> SeqNum hdr \<noteq> as_lastSeq s + 1")
    case True
    then show thesis using assms c q quiet [of "as_lastSeq s"] by (simp add: session_turn_def)
  next
    case False
    show thesis
    proof (cases "Type hdr = MsgRegister")
      case True
      with False assms c have "b" and r: "handleRegister bk cid hdr payload ?s ?g = (s', g')" by (auto simp: session_turn_def Let_def)
      from r show thesis
      proof (cases rule: register_cases_co)
        case same
        then show thesis using quiet quiet_trans [OF q] by blast
      next
        case (refused num)
        then show thesis using named [of num "SeqNum hdr"] q \<open>b\<close> by (auto simp: quiet_def co_close_def conn_close_def)
      next
        case (failed num)
        then show thesis using named [of num "SeqNum hdr"] q \<open>b\<close> by (auto simp: quiet_def)
      next
        case (taken num)
        then show thesis using named [of num "SeqNum hdr"] q \<open>b\<close> by (auto simp: quiet_def)
      qed
    next
      case no: False
      with False assms c have "s' = ?s" "quiet ?g g'"
        by (auto simp: session_turn_def Let_def quiet_heartbeat quiet_event co_step split: if_splits)
      then show thesis using quiet quiet_trans [OF q] by blast
    qed
  qed
qed

lemma server_invD:
  assumes "server_inv v"
  shows "co_sessions (sr_shared v) name = Some c \<Longrightarrow>
      \<exists>s. sr_live v c = Some s \<and> as_AgentID s = name \<and> as_agentNum s \<noteq> 0 \<and> name \<noteq> [] \<and> certified s"
    and "sr_live v c = Some s \<Longrightarrow> c < sr_next v"
    and "sr_live v c = Some s \<Longrightarrow> as_AgentID s \<noteq> [] \<Longrightarrow> \<not> cn_closed (co_conns (sr_shared v) c) \<Longrightarrow> certified s"
    and "sr_live v c = Some s \<Longrightarrow> as_AgentID s \<noteq> [] \<Longrightarrow> as_AgentID s = dec (unat (as_agentNum s)) \<and> as_agentNum s \<noteq> 0"
  using assms unfolding server_inv_def by blast+

lemma turn_inv:
  assumes "server_inv v" and "sr_live v cid = Some s" and "session_turn bk cid s (sr_shared v) = (b, s', g')"
  shows "server_inv (v\<lparr>sr_live := (sr_live v)(cid := Some s'), sr_shared := g'\<rparr>)"
proof -
  note inv = server_invD [OF assms(1)]
  from assms(3) show ?thesis
  proof (cases rule: turn_cases)
    case (quiet n)
    then show ?thesis
      unfolding server_inv_def using inv assms(2)
      by (auto simp: quiet_def certified_def) (metis option.inject)+
  next
    case (named n num)
    have free: "co_sessions (sr_shared v) name \<noteq> Some cid" for name using inv(1) [of name cid] assms(2) named(2) by auto
    show ?thesis
      unfolding server_inv_def
    proof (intro conjI allI impI)
      fix name c
      assume "co_sessions (sr_shared (v\<lparr>sr_live := (sr_live v)(cid := Some s'), sr_shared := g'\<rparr>)) name = Some c"
      then have m: "co_sessions g' name = Some c" by simp
      show "\<exists>t. sr_live (v\<lparr>sr_live := (sr_live v)(cid := Some s'), sr_shared := g'\<rparr>) c = Some t \<and> as_AgentID t = name
          \<and> as_agentNum t \<noteq> 0 \<and> name \<noteq> [] \<and> certified t"
      proof (cases "co_sessions (sr_shared v) name = Some c")
        case True
        then show ?thesis using inv(1) [OF True] free [of name] by auto
      next
        case False
        then have "c = cid" "name = as_AgentID s'" "certified s'" using named(6) m by (auto split: if_splits)
        then show ?thesis using named(3,4) by simp
      qed
    next
      fix c t
      assume t: "sr_live (v\<lparr>sr_live := (sr_live v)(cid := Some s'), sr_shared := g'\<rparr>) c = Some t"
      show "c < sr_next (v\<lparr>sr_live := (sr_live v)(cid := Some s'), sr_shared := g'\<rparr>)"
        using t inv(2) assms(2) by (auto split: if_splits)
      show "certified t" if "as_AgentID t \<noteq> []"
        "\<not> cn_closed (co_conns (sr_shared (v\<lparr>sr_live := (sr_live v)(cid := Some s'), sr_shared := g'\<rparr>)) c)"
        using t that inv(3) named(5,7) by (auto split: if_splits)
      show "as_AgentID t = dec (unat (as_agentNum t))" "as_agentNum t \<noteq> 0" if "as_AgentID t \<noteq> []"
        using t that inv(4) named(3,4) by (auto split: if_splits)
    qed
  qed
qed

lemma end_inv:
  assumes "server_inv v" and "sr_live v cid = Some s"
  shows "server_inv (v\<lparr>sr_live := (sr_live v)(cid := None), sr_shared := session_end cid s (sr_shared v)\<rparr>)"
proof -
  note inv = server_invD [OF assms(1)]
  have gone: "co_sessions (session_end cid s (sr_shared v)) name = Some c \<Longrightarrow> co_sessions (sr_shared v) name = Some c \<and> c \<noteq> cid" for name c
    using inv(1) [of name cid] assms(2) by (auto simp: session_end_def Let_def co_close_def word_gt_0 split: if_splits)
  have closed: "cn_closed (co_conns (sr_shared v) c) \<Longrightarrow> cn_closed (co_conns (session_end cid s (sr_shared v)) c)" for c
    by (simp add: session_end_def Let_def co_close_def conn_close_def)
  show ?thesis
    unfolding server_inv_def using inv gone closed by (auto split: if_splits) blast+
qed

lemma new_session_fresh: "new_session h cert fp val = Some s \<Longrightarrow> as_AgentID s = []"
  by (auto simp: new_session_def split: option.splits)

lemma server_inv_step: "server_step v v' \<Longrightarrow> server_inv v \<Longrightarrow> server_inv v'"
proof (induction rule: server_step.induct)
  case (step_accept h cert fp val s v c)
  note inv = server_invD [OF step_accept.prems] new_session_fresh [OF step_accept.hyps]
  have "sr_live v (sr_next v) = None" using inv(2) [of "sr_next v"] by (cases "sr_live v (sr_next v)") auto
  then have "co_sessions (sr_shared v) name \<noteq> Some (sr_next v)" for name using inv(1) [of name "sr_next v"] by auto
  then show ?case
    unfolding server_inv_def using inv by (auto split: if_splits) (metis less_SucI)+
next
  case (step_turn v cid s bk s' g')
  then show ?case using turn_inv by blast
next
  case (step_done v cid s bk s' g')
  from end_inv [OF turn_inv [OF step_done.prems step_done.hyps], of cid] show ?case by simp
qed

lemma server_reach_inv: "server_reach v \<Longrightarrow> server_inv v"
proof (induction rule: server_reach.induct)
  case reach_init
  show ?case by (simp add: server_inv_def server_init_def empty_collector_def)
qed (simp add: server_inv_step)


definition plc_cert :: certificate where
  "plc_cert = \<lparr>ct_URIs = [agentIdentityPrefix @ dec (unat plc_num)], ct_CommonName = []\<rparr>"

definition plc_session :: AgentSession where
  "plc_session = \<lparr>as_AgentID = [], as_agentNum = 0, as_certSubject = agentIdentityPrefix @ dec (unat plc_num), as_certSubjectHash = ''h'',
     as_certFingerprint = ''f'', as_certIssuedAt = 0, as_certExpiresAt = 9, as_lastSeq = 0\<rparr>"

lemma isAgentIdentity_id: "isAgentIdentity (agentIdentityPrefix @ dec n)"
proof -
  have "agentIdentityPrefix \<noteq> []" by (simp add: agentIdentityPrefix_def)
  then have "TrimPrefix (agentIdentityPrefix @ dec n) agentIdentityPrefix = dec n" by (simp add: TrimPrefix_def)
  then show ?thesis using \<open>agentIdentityPrefix \<noteq> []\<close> by (simp add: isAgentIdentity_def)
qed

lemma plc_accepted: "new_session (\<lambda>_. ''h'') (Some plc_cert) (Some ''f'') (Some (0, 9)) = Some plc_session"
  by (simp add: new_session_def peerIdentityFromCert_def plc_cert_def plc_session_def isAgentIdentity_id)

text \<open>A server with one connection, on which the agent has registered.\<close>

definition conn_of :: "bytes \<Rightarrow> go_conn" where
  "conn_of b = \<lparr>cn_cur = [], cn_raw = [], cn_net = [[b]], cn_closed = False, cn_out = []\<rparr>"

lemma plc_registers:
  obtains v s where "server_reach v" "sr_live v 0 = Some s" "as_AgentID s = dec (unat plc_num)" "as_agentNum s = plc_num" "as_lastSeq s = 1"
    "co_sessions (sr_shared v) (dec (unat plc_num)) = Some 0" "pending (co_conns (sr_shared v) 0) = rest"
    "\<not> cn_closed (co_conns (sr_shared v) 0)" "co_saved (sr_shared v) = []" "as_certSubject s = agentIdentityPrefix @ dec (unat plc_num)"
proof -
  let ?b = "WriteFrame MsgRegister 1 (register_bytes sample_register)"
  let ?v = "\<lparr>sr_next = 1, sr_live = (\<lambda>_. None)(0 := Some plc_session),
    sr_shared = (sr_shared server_init)\<lparr>co_conns := (co_conns (sr_shared server_init))(0 := conn_of (?b @ rest))\<rparr>\<rparr>"
  have v: "server_reach ?v"
    using reach_more [OF reach_init step_accept [OF plc_accepted, of server_init "conn_of (?b @ rest)"]] by (simp add: server_init_def)
  have p: "pending (co_conns (sr_shared ?v) 0) = ?b @ rest" by (simp add: pending_def conn_of_def)
  have "length (register_bytes sample_register) \<le> MaxFrameSize"
    by (simp add: register_bytes_def sample_register_def str_bytes_def be16_def be32_def MaxFrameSize_def)
  from read_frame [OF p this] obtain c where c: "conn_ReadFrame (co_conns (sr_shared ?v) 0)
      = Some ((\<lparr>Length = of_nat (length (register_bytes sample_register)), Type = MsgRegister, SeqNum = 1\<rparr>, register_bytes sample_register), c)"
    "pending c = rest" "\<not> cn_closed c" by (auto simp: conn_of_def)
  let ?s = "plc_session\<lparr>as_lastSeq := 1, as_agentNum := plc_num, as_AgentID := dec (unat plc_num)\<rparr>"
  have id: "certificateIdentityMatchesAgent ?s" by (simp add: identity_suffix plc_session_def)
  obtain g where t: "session_turn sample_backend 0 plc_session (sr_shared ?v) = (True, ?s, g)"
    and g: "co_sessions g (dec (unat plc_num)) = Some 0" "pending (co_conns g 0) = rest" "\<not> cn_closed (co_conns g 0)" "co_saved g = []"
    using turn_read [OF c(1), of plc_session sample_backend] id c(2,3) sample_register_decodes
    by (simp add: Let_def handleRegister_def plc_session_def sample_backend_def plc_num_def server_init_def empty_collector_def co_write_def
        conn_write_def pending_def)
  have "server_reach (?v\<lparr>sr_live := (sr_live ?v)(0 := Some ?s), sr_shared := g\<rparr>)"
    by (rule reach_more [OF v step_turn [OF _ t]]) simp
  then show thesis using that g by (simp add: plc_session_def)
qed


text \<open>Who saves what.\<close>

lemma event_saved_by:
  assumes "handleFileEvent bk cid payload s g = g'" and "co_saved g' = co_saved g @ [p]" and "as_AgentID s = dec (unat (as_agentNum s))"
  shows "fp_AgentID p = as_AgentID s"
  using assms by (auto simp: handleFileEvent_def validateAgentIdentity_def Let_def co_close_def event_payload_def split: sum.splits if_splits)

lemma register_saves_none: "co_saved (snd (handleRegister bk cid hdr payload s g)) = co_saved g"
  by (auto simp: handleRegister_def Let_def co_close_def co_write_def split: sum.split register_result.split option.split)

lemma heartbeat_saves_none: "co_saved (handleHeartbeat cid payload s g) = co_saved g"
  by (auto simp: handleHeartbeat_def validateAgentIdentity_def co_close_def split: sum.split)

lemma turn_saved_by:
  assumes "session_turn bk cid s g = (b, s', g')" and "co_saved g' = co_saved g @ [p]"
  shows "as_AgentID s \<noteq> [] \<and> (as_AgentID s = dec (unat (as_agentNum s)) \<longrightarrow> fp_AgentID p = as_AgentID s)"
proof -
  obtain hdr payload c where c: "conn_ReadFrame (co_conns g cid) = Some ((hdr, payload), c)"
    using assms by (auto simp: session_turn_def split: option.splits)
  let ?g = "g\<lparr>co_conns := (co_conns g)(cid := c)\<rparr>" and ?s = "s\<lparr>as_lastSeq := SeqNum hdr\<rparr>"
  have "co_saved (snd (handleRegister bk cid hdr payload ?s ?g)) = co_saved g" "co_saved (handleHeartbeat cid payload ?s ?g) = co_saved g"
    by (simp_all add: register_saves_none heartbeat_saves_none)
  then have e: "handleFileEvent bk cid payload ?s ?g = g'"
    using assms c by (auto simp: session_turn_def Let_def split: if_splits)
  then have "as_AgentID s \<noteq> []"
    using assms(2) by (auto simp: handleFileEvent_def validateAgentIdentity_def Let_def co_close_def split: sum.splits if_splits)
  then show ?thesis using event_saved_by [OF e, of p] assms(2) by simp
qed

text \<open>While its connection is open a session writes under its own name only: an event that the server saves in a turn of a session that has not
  been refused or replaced carries the number for which the certificate of the session was issued, whatever number the message named.\<close>

theorem open_session_writes_own_name:
  assumes "server_reach v" and "sr_live v cid = Some s" and "\<not> cn_closed (co_conns (sr_shared v) cid)"
    and "session_turn bk cid s (sr_shared v) = (b, s', g')" and "co_saved g' = co_saved (sr_shared v) @ [p]"
  shows "as_certSubject s = agentIdentityPrefix @ fp_AgentID p"
proof -
  note inv = server_invD [OF server_reach_inv [OF assms(1)]]
  note t = turn_saved_by [OF assms(4,5)]
  then have "certified s" using inv(3) [OF assms(2)] assms(3) by blast
  moreover have "fp_AgentID p = as_AgentID s" using t inv(4) [OF assms(2)] by blast
  ultimately show ?thesis by (simp add: certified_def)
qed

theorem open_session_writes_own_name_witness:
  "\<exists>(v :: server) s s' g'. session_turn sample_backend 0 s (sr_shared v) = (True, s', g') \<and> co_saved g' = [event_payload (event_view plc_event)]
     \<and> as_certSubject s = agentIdentityPrefix @ fp_AgentID (event_payload (event_view plc_event))"
proof -
  obtain v s where v: "server_reach v" "sr_live v 0 = Some s" "as_AgentID s = dec (unat plc_num)" "as_agentNum s = plc_num" "as_lastSeq s = 1"
    "pending (co_conns (sr_shared v) 0) = WriteFrame MsgFileEvent 2 (file_event_bytes plc_event) @ []"
    "\<not> cn_closed (co_conns (sr_shared v) 0)" "co_saved (sr_shared v) = []"
    by (rule plc_registers [of "WriteFrame MsgFileEvent 2 (file_event_bytes plc_event) @ []"]) blast
  from read_frame [OF v(6) plc_event_decodes(2)] obtain c where c: "conn_ReadFrame (co_conns (sr_shared v) 0)
      = Some ((\<lparr>Length = of_nat (length (file_event_bytes plc_event)), Type = MsgFileEvent, SeqNum = 2\<rparr>, file_event_bytes plc_event), c)" by metis
  have id: "AgentID (event_view plc_event) = plc_num" "plc_num \<noteq> 0" by (simp_all add: event_view_def plc_event_def plc_num)
  let ?s = "s\<lparr>as_lastSeq := 2\<rparr>" and ?g = "(sr_shared v)\<lparr>co_conns := (co_conns (sr_shared v))(0 := c)\<rparr>"
  have own: "handleFileEvent sample_backend 0 (file_event_bytes plc_event) ?s ?g = ?g\<lparr>co_saved := co_saved ?g @ [event_payload (event_view plc_event)],
      co_published := co_published ?g @ [event_payload (event_view plc_event)],
      co_onEvent := co_onEvent ?g @ [(fp_AgentID (event_payload (event_view plc_event)), event_payload (event_view plc_event))]\<rparr>"
    by (rule own_event [OF plc_event_decodes(1)]) (use v id in \<open>simp_all add: sample_backend_def\<close>)
  obtain g' where t: "session_turn sample_backend 0 s (sr_shared v) = (True, ?s, g')" and g': "co_saved g' = [event_payload (event_view plc_event)]"
    using turn_read [OF c, of s sample_backend] own v(5,8) by (simp add: Let_def msg_codes)
  have "co_saved g' = co_saved (sr_shared v) @ [event_payload (event_view plc_event)]" using g' v(8) by simp
  from open_session_writes_own_name [OF v(1,2,7) t this] t g' show ?thesis by (intro exI conjI)
qed

text \<open>One lost frame ends the session: a send that fails takes a sequence number and leaves the connection up, for the agent tries
  three times before it reconnects; but the collector ends the session at the next frame it gets, and saves nothing of it.\<close>

theorem failed_send_ends_session:
  assumes "ig_tcp_send_frame cli ty payload = (-1, cli1)" and "tc_ssl cli = Some z" and "tc_ssl cli1 = Some z1" and "s_out z1 = s_out z"
    and "tc_state cli = IG_CONN_CONNECTED" and "length payload \<le> IG_MAX_FRAME_SIZE"
    and "ig_tcp_send_frame cli1 ty' payload' = (0, cli2)" and "tc_ssl cli2 = Some z2"
    and "as_lastSeq s = tc_seq_num cli" and "0 < tc_seq_num cli" and "s_out z @ pending (co_conns g cid) = s_out z2"
  shows "\<exists>g'. session_turn bk cid s g = (False, s, g') \<and> co_saved g' = co_saved g \<and> tc_state cli2 = IG_CONN_CONNECTED"
proof -
  have one: "tc_seq_num cli1 = tc_seq_num cli + 1"
    using assms(1) by (cases rule: send_frame_cases) (use assms(2,5,6) in \<open>auto split: if_splits\<close>)
  have "s_out z2 = s_out z1 @ frame_bytes ty' (tc_seq_num cli1 + 1) payload' \<and> length payload' \<le> IG_MAX_FRAME_SIZE
      \<and> tc_state cli2 = IG_CONN_CONNECTED"
    using assms(7)
  proof (cases rule: send_frame_cases)
    case (sent t t')
    with assms(3,8) show ?thesis by auto
  qed (auto split: if_splits)
  note two = this [THEN conjunct1] this [THEN conjunct2, THEN conjunct1] this [THEN conjunct2, THEN conjunct2]
  have p: "pending (co_conns g cid) = WriteFrame ty' (tc_seq_num cli + 2) payload' @ []"
    using two assms(4,11) one by (simp add: frame_bytes_WriteFrame add.assoc)
  obtain c where c: "conn_ReadFrame (co_conns g cid)
      = Some ((\<lparr>Length = of_nat (length payload'), Type = ty', SeqNum = tc_seq_num cli + 2\<rparr>, payload'), c)"
    using read_frame [OF p] two(2) by (auto simp: IG_MAX_FRAME_SIZE_def MaxFrameSize_def)
  have "tc_seq_num cli + 2 \<noteq> tc_seq_num cli + 1" by simp
  then show ?thesis
    using c assms(9,10) two(3) by (auto simp: session_turn_def Let_def)
qed

theorem failed_send_ends_session_witness:
  "\<exists>(cli :: ig_tcp_client) g g'. tc_state cli = IG_CONN_CONNECTED
     \<and> session_turn sample_backend 0 (other_session\<lparr>as_lastSeq := 1\<rparr>) g = (False, other_session\<lparr>as_lastSeq := 1\<rparr>, g')"
proof -
  let ?c0 = "(open_client [0, 9, 9] [])\<lparr>tc_seq_num := 1\<rparr>"
  let ?f = "[0, 0, 0, 1, 2, 0, 0, 0, 3, 42] :: bytes"
  have one: "ig_tcp_send_frame ?c0 2 [42] = (-1, ?c0\<lparr>tc_seq_num := 2, tc_send_failures := 1,
      tc_ssl := Some \<lparr>s_out = [], s_wr = [9, 9], s_in = []\<rparr>\<rparr>)"
    by (simp add: open_client_def ig_tcp_init_def ig_tcp_send_frame_def next_seq_def Let_def frame_header_encode_eq
        IG_FRAME_HEADER_SIZE_def IG_MAX_FRAME_SIZE_def frame_header_bytes_def be32_def ssl_write_all_def IG_SEND_MAX_RETRIES_def)
  let ?c1 = "?c0\<lparr>tc_seq_num := 2, tc_send_failures := 1, tc_ssl := Some \<lparr>s_out = [], s_wr = [9, 9], s_in = []\<rparr>\<rparr>"
  let ?c2 = "?c0\<lparr>tc_seq_num := 3, tc_send_failures := 0, tc_ssl := Some \<lparr>s_out = ?f, s_wr = [], s_in = []\<rparr>\<rparr>"
  have two: "ig_tcp_send_frame ?c1 2 [42] = (0, ?c2)"
    by (simp add: open_client_def ig_tcp_init_def ig_tcp_send_frame_def next_seq_def Let_def frame_header_encode_eq
        IG_FRAME_HEADER_SIZE_def IG_MAX_FRAME_SIZE_def frame_header_bytes_def be32_def ssl_write_all_def)
  let ?g = "empty_collector (conn_of ?f)"
  have "pending (co_conns ?g 0) = ?f" by (simp add: pending_def conn_of_def empty_collector_def)
  then have "\<exists>g'. session_turn sample_backend 0 (other_session\<lparr>as_lastSeq := 1\<rparr>) ?g = (False, other_session\<lparr>as_lastSeq := 1\<rparr>, g')"
    using failed_send_ends_session [OF one _ _ _ _ _ two, of "\<lparr>s_out = [], s_wr = [0, 9, 9], s_in = []\<rparr>"
        "\<lparr>s_out = [], s_wr = [9, 9], s_in = []\<rparr>" "\<lparr>s_out = ?f, s_wr = [], s_in = []\<rparr>" "other_session\<lparr>as_lastSeq := 1\<rparr>" ?g 0 sample_backend]
    by (auto simp: open_client_def ig_tcp_init_def IG_MAX_FRAME_SIZE_def)
  moreover have "tc_state ?c2 = IG_CONN_CONNECTED" by (simp add: open_client_def)
  ultimately show ?thesis by blast
qed

end
