(* ===== verification/Registered_Agent.thy ===== *)
theory Registered_Agent
  imports Agent_Session
begin

text \<open>
  Both ends of a session: the client of the agent (\<^verbatim>\<open>transport/tcp_client.c\<close>) registers and sends events and
  heartbeats; the session of the collector (\<^verbatim>\<open>agent_session.go\<close>) reads what the client wrote, and the client what the session answered.
\<close>

section \<open>What an agent sends\<close>

datatype agent_msg = Ev ig_event | Beat u32

fun send_msgs :: "ig_tcp_client \<Rightarrow> agent_msg list \<Rightarrow> ig_tcp_client option" where
  "send_msgs cli [] = Some cli"
| "send_msgs cli (Ev ev # ms) =
     (case ig_tcp_send_event cli ev of (rc, cli) \<Rightarrow> if rc = 0 then send_msgs cli ms else None)"
| "send_msgs cli (Beat now # ms) =
     (case ig_heartbeat_encode \<lparr>hb_agent_id = tc_agent_id cli, hb_status = IG_STATUS_HEALTHY, hb_timestamp = now\<rparr> 13 of
        Ok buf \<Rightarrow> (case ig_tcp_send_frame cli (msg_type_code IG_MSG_HEARTBEAT) buf of (rc, cli) \<Rightarrow>
            if rc = 0 then send_msgs cli ms else None)
      | _ \<Rightarrow> None)"

definition sendable :: "ig_event \<Rightarrow> bool" where
  "sendable ev \<longleftrightarrow> length (cstr (ev_path ev)) < IG_MAX_PATH \<and> length (cstr (ev_filename ev)) < 256
     \<and> map_source (ev_source ev) \<noteq> 0 \<and> chain_shape (Some (ev_chain ev))"

definition all_sendable :: "agent_msg list \<Rightarrow> bool" where
  "all_sendable ms \<longleftrightarrow> (\<forall>ev. Ev ev \<in> set ms \<longrightarrow> sendable ev)"

fun msg_frame :: "u64 \<Rightarrow> agent_msg \<Rightarrow> u8 \<times> bytes" where
  "msg_frame aid (Ev ev) = (MsgFileEvent, file_event_bytes (event_msg aid ev))"
| "msg_frame aid (Beat now) = (MsgHeartbeat, heartbeat_bytes \<lparr>hb_agent_id = aid, hb_status = IG_STATUS_HEALTHY, hb_timestamp = now\<rparr>)"

text \<open>What the collector is to make of them.\<close>

fun saved_of :: "u64 \<Rightarrow> agent_msg list \<Rightarrow> FileEventPayload list" where
  "saved_of aid [] = []"
| "saved_of aid (Ev ev # ms) = event_payload (event_view (event_msg aid ev)) # saved_of aid ms"
| "saved_of aid (Beat now # ms) = saved_of aid ms"

fun beats_of :: "u64 \<Rightarrow> agent_msg list \<Rightarrow> (string \<times> int) list" where
  "beats_of aid [] = []"
| "beats_of aid (Ev ev # ms) = beats_of aid ms"
| "beats_of aid (Beat now # ms) = (dec (unat aid), uint now) # beats_of aid ms"

lemma sendable_fits: "sendable ev \<Longrightarrow> length (file_event_bytes (event_msg aid ev)) \<le> MaxFrameSize"
  using event_bytes_bound [of ev aid]
  by (simp add: sendable_def IG_MAX_PAYLOAD_def IG_MAX_FRAME_SIZE_def MaxFrameSize_def)

lemma sendable_decodes: "sendable ev \<Longrightarrow> DecodeFileEvent (file_event_bytes (event_msg aid ev)) = Inr (event_view (event_msg aid ev))"
  using decode_file_event_bytes [OF event_msg_ok, of aid ev] by (simp add: sendable_def event_msg_def)

lemma heartbeat_decodes:
  "DecodeHeartbeat (heartbeat_bytes m) = Inr (hb_agent_id m, hb_status m, hb_timestamp m)" "length (heartbeat_bytes m) = 13"
proof -
  show l: "length (heartbeat_bytes m) = 13" by (simp add: heartbeat_bytes_def be64_def be32_def)
  show "DecodeHeartbeat (heartbeat_bytes m) = Inr (hb_agent_id m, hb_status m, hb_timestamp m)"
    unfolding DecodeHeartbeat_def l heartbeat_bytes_def
    by (simp only: append_assoc append_Cons append_Nil go_steps prod.case) (simp add: go_steps [where rest = "[]", simplified])
qed

lemma all_sendable_Cons [simp]:
  "all_sendable (Ev ev # ms) \<longleftrightarrow> sendable ev \<and> all_sendable ms" "all_sendable (Beat now # ms) \<longleftrightarrow> all_sendable ms"
  by (auto simp: all_sendable_def)

lemma codes: "msg_type_code IG_MSG_REGISTER = MsgRegister" "msg_type_code IG_MSG_HEARTBEAT = MsgHeartbeat"
  "msg_type_code IG_MSG_FILE_EVENT = MsgFileEvent"
  by (simp_all add: MsgRegister_def MsgHeartbeat_def MsgFileEvent_def)

lemma send_msgs_stream:
  assumes "send_msgs cli ms = Some cli'" and "tc_ssl cli = Some s" and "tc_state cli = IG_CONN_CONNECTED" and "all_sendable ms"
  obtains s' where "tc_ssl cli' = Some s'" "s_out s' = s_out s @ frames_from (tc_seq_num cli) (map (msg_frame (tc_agent_id cli)) ms)"
  using assms
proof (induction ms arbitrary: cli s thesis)
  case (Cons m ms)
  obtain ty payload c1 where f: "msg_frame (tc_agent_id cli) m = (ty, payload)" and c1: "ig_tcp_send_frame cli ty payload = (0, c1)"
    and rest: "send_msgs c1 ms = Some cli'"
    using Cons.prems(2,4,5)
    by (cases m) (auto simp: send_event_eq sendable_def heartbeat_encode_eq MsgHeartbeat_def MsgFileEvent_def split: prod.splits if_splits)
  from c1 show ?case
  proof (cases rule: send_frame_cases)
    case (sent t t')
    have "all_sendable ms" using Cons.prems(5) by (cases m) simp_all
    with sent Cons.IH [OF _ rest, of t'] Cons.prems(3) obtain s'
      where "tc_ssl cli' = Some s'" "s_out s' = s_out t' @ frames_from (tc_seq_num c1) (map (msg_frame (tc_agent_id c1)) ms)" by auto
    with sent Cons.prems(3) f show ?thesis by (intro Cons.prems(1) [of s']) simp_all
  qed (auto split: if_splits)
qed simp

section \<open>What the collector makes of it\<close>

text \<open>A registered session, up to its connection, its sequence number and what the server has stored.\<close>

definition heard :: "u64 \<Rightarrow> agent_msg list \<Rightarrow> nat \<Rightarrow> collector \<Rightarrow> collector \<Rightarrow> bool" where
  "heard aid ms cid g g' \<longleftrightarrow> co_saved g' = co_saved g @ saved_of aid ms \<and> co_published g' = co_published g @ saved_of aid ms
     \<and> co_onEvent g' = co_onEvent g @ map (\<lambda>p. (fp_AgentID p, p)) (saved_of aid ms)
     \<and> co_heartbeats g' = co_heartbeats g @ beats_of aid ms \<and> co_sessions g' = co_sessions g \<and> co_offline g' = co_offline g
     \<and> co_registered g' = co_registered g \<and> cn_out (co_conns g' cid) = cn_out (co_conns g cid)"

lemma run_msgs:
  assumes "as_AgentID s = dec (unat aid)" and "as_agentNum s = aid" and "aid \<noteq> 0" and "all_sendable ms"
    and "pending (co_conns g cid) = frames_from (as_lastSeq s) (map (msg_frame aid) ms)" and "bk_save bk = (\<lambda>_ _. True)"
  shows "\<exists>s' g'. Run bk cid s g = session_end cid s' g' \<and> as_AgentID s' = dec (unat aid) \<and> as_agentNum s' = aid \<and> heard aid ms cid g g'"
  using assms
proof (induction ms arbitrary: s g)
  case Nil
  then show ?case by (intro exI [of _ s] exI [of _ g]) (simp add: Run_end heard_def)
next
  case (Cons m ms)
  obtain ty payload where f: "msg_frame aid m = (ty, payload)" by fastforce
  have p: "pending (co_conns g cid) = WriteFrame ty (as_lastSeq s + 1) payload @ frames_from (as_lastSeq s + 1) (map (msg_frame aid) ms)"
    using Cons.prems(5) by (simp add: f frame_bytes_WriteFrame)
  have fits: "length payload \<le> MaxFrameSize"
  proof -
    have "13 \<le> MaxFrameSize" by (simp add: MaxFrameSize_def)
    then show ?thesis using f Cons.prems(4) by (cases m) (auto simp: sendable_fits heartbeat_decodes(2))
  qed
  from read_frame [OF p fits] obtain c where
    c: "conn_ReadFrame (co_conns g cid) = Some ((\<lparr>Length = of_nat (length payload), Type = ty, SeqNum = as_lastSeq s + 1\<rparr>, payload), c)"
    and pc: "pending c = frames_from (as_lastSeq s + 1) (map (msg_frame aid) ms)" "cn_out c = cn_out (co_conns g cid)" by metis
  let ?s = "s\<lparr>as_lastSeq := as_lastSeq s + 1\<rparr>" and ?g = "g\<lparr>co_conns := (co_conns g)(cid := c)\<rparr>"
  obtain g1 where t: "session_turn bk cid s g = (True, ?s, g1)" "co_conns g1 = (co_conns g)(cid := c)"
    and h: "\<And>g'. heard aid ms cid g1 g' \<Longrightarrow> heard aid (m # ms) cid g g'"
  proof (cases m)
    case (Ev ev)
    let ?p = "event_payload (event_view (event_msg aid ev))"
    let ?g1 = "?g\<lparr>co_saved := co_saved g @ [?p], co_published := co_published g @ [?p], co_onEvent := co_onEvent g @ [(fp_AgentID ?p, ?p)]\<rparr>"
    have "sendable ev" using Cons.prems(4) Ev by simp
    then have dec: "DecodeFileEvent payload = Inr (event_view (event_msg aid ev))" using f Ev sendable_decodes by auto
    have "handleFileEvent bk cid payload ?s ?g = ?g1"
      using own_event [OF dec, of ?s bk ?g cid] Cons.prems by (simp add: event_view_def event_msg_def)
    then have "session_turn bk cid s g = (True, ?s, ?g1)" using turn_read [OF c, of s bk] f Ev by (simp add: Let_def msg_codes)
    then show thesis by (rule that) (auto simp: heard_def Ev pc)
  next
    case (Beat now)
    let ?g1 = "?g\<lparr>co_heartbeats := co_heartbeats g @ [(dec (unat aid), uint now)]\<rparr>"
    have "handleHeartbeat cid payload ?s ?g = ?g1"
      using f Beat Cons.prems by (auto simp: handleHeartbeat_def heartbeat_decodes validateAgentIdentity_def)
    then have "session_turn bk cid s g = (True, ?s, ?g1)" using turn_read [OF c, of s bk] f Beat by (simp add: Let_def msg_codes)
    then show thesis by (rule that) (auto simp: heard_def Beat pc)
  qed
  have "all_sendable ms" using Cons.prems(4) by (cases m) simp_all
  with Cons.IH [of ?s g1] Cons.prems t(2) pc(1) obtain s' g' where
    "Run bk cid ?s g1 = session_end cid s' g'" "as_AgentID s' = dec (unat aid)" "as_agentNum s' = aid" "heard aid ms cid g1 g'" by auto
  then show ?case using h Run_turn [OF t(1)] by auto
qed

section \<open>The registration\<close>

lemma recv_frame_keeps:
  assumes "ig_tcp_recv_frame a cli = (r, cli')" and "tc_ssl cli = Some s"
  obtains s' where "cli' = cli\<lparr>tc_ssl := Some s'\<rparr>" "s_out s' = s_out s" "s_wr s' = s_wr s"
proof -
  have out: "ssl_read_all x n = (r, y) \<Longrightarrow> s_out y = s_out x \<and> s_wr y = s_wr x" for x n r y by (auto simp: ssl_read_all_def split: prod.splits)
  obtain h s1 where h: "ssl_read_all s IG_FRAME_HEADER_SIZE = (h, s1)" by fastforce
  have "cli' = cli\<lparr>tc_ssl := tc_ssl cli'\<rparr> \<and> (\<exists>s'. tc_ssl cli' = Some s' \<and> s_out s' = s_out s \<and> s_wr s' = s_wr s)"
    using assms out [OF h]
    by (auto simp: ig_tcp_recv_frame_def h Let_def split: ig_conn_state.splits option.splits prod.splits cres.splits if_splits dest: out)
  then show thesis using that by (metis)
qed

lemma register_msg_ok: "register_ok (register_msg hn ip mt os)"
  using unat_u16_le [of "length (cstr hn)"] length_cstr_le [of hn] unat_u16_le [of "length (cstr os)"] length_cstr_le [of os]
  by (simp add: register_ok_def register_msg_def str_ok_def)

lemma str_view_whole: "length (cstr s) < 65536 \<Longrightarrow> str_view (Some s) (of_nat (length (cstr s))) = cstr s"
  by (simp add: str_view_def unat_of_nat take_bit_nat_eq_self cstr_def takeWhile_eq_take [symmetric])

text \<open>A registration that succeeds: what was written, and what becomes of the answer.\<close>

lemma register_success:
  assumes "ig_tcp_register pton True hn ips mt os cli = (0, cli1)" and "tc_ssl cli = Some z" and "pton ips = Some ip"
  obtains z1 where "tc_state cli = IG_CONN_CONNECTED" "tc_ssl cli1 = Some z1" "tc_state cli1 = IG_CONN_CONNECTED"
    "tc_seq_num cli1 = tc_seq_num cli + 1" "length (register_bytes (register_msg hn ip mt os)) \<le> 1024"
    "s_out z1 = s_out z @ frame_bytes MsgRegister (tc_seq_num cli + 1) (register_bytes (register_msg hn ip mt os))"
    "\<And>n num rest. avail (s_in z) = frame_bytes MsgRegister n (be64 num) @ rest \<Longrightarrow> tc_agent_id cli1 = num"
proof -
  let ?b = "register_bytes (register_msg hn ip mt os)"
  have st: "tc_state cli = IG_CONN_CONNECTED" using assms(1) by (auto simp: ig_tcp_register_def split: if_splits)
  have b: "length ?b \<le> 1024" "ig_register_encode (register_msg hn ip mt os) 1024 = Ok ?b"
    using assms(1,3) st by (auto simp: ig_tcp_register_def register_encode_eq [OF register_msg_ok] split: if_splits)
  obtain rc c1 where c1: "ig_tcp_send_frame cli MsgRegister ?b = (rc, c1)" by fastforce
  have reg: "(if rc < 0 then (-1 :: int, c1)
      else case ig_tcp_recv_frame True c1 of ((plen, hdr, payload), cli) \<Rightarrow>
        if plen < 8 \<or> (case hdr of None \<Rightarrow> True | Some h \<Rightarrow> fh_type h \<noteq> MsgRegister) then (-1, cli)
        else (case read_u64 payload of
            Ok (aid, _) \<Rightarrow> (0, cli\<lparr>tc_agent_id := aid, tc_reg_hostname := strncpy0 256 hn, tc_reg_ip := strncpy0 64 ips,
              tc_reg_os := strncpy0 64 os, tc_reg_monitor_type := mt, tc_reg_cached := True\<rparr>)
          | _ \<Rightarrow> (-1, cli))) = (0, cli1)"
    using assms(1) unfolding ig_tcp_register_def codes assms(3) by (simp add: st b(2) c1)
  then have "rc \<ge> 0" by (simp split: if_splits)
  from c1 show thesis
  proof (cases rule: send_frame_cases)
    case (sent t t')
    obtain plen hdr payload c2 where c2: "ig_tcp_recv_frame True c1 = ((plen, hdr, payload), c2)" by (metis prod_cases3 surj_pair)
    obtain z1 where z1: "c2 = c1\<lparr>tc_ssl := Some z1\<rparr>" "s_out z1 = s_out t'" using recv_frame_keeps [OF c2, of t'] sent by auto
    obtain aid more where aid: "read_u64 payload = Ok (aid, more)"
      and cli1: "cli1 = c2\<lparr>tc_agent_id := aid, tc_reg_hostname := strncpy0 256 hn, tc_reg_ip := strncpy0 64 ips,
        tc_reg_os := strncpy0 64 os, tc_reg_monitor_type := mt, tc_reg_cached := True\<rparr>"
      using reg sent c2 by (auto split: if_splits cres.splits prod.splits)
    have "tc_agent_id cli1 = num" if answer: "avail (s_in z) = frame_bytes MsgRegister n (be64 num) @ rest" for n num rest
    proof -
      have "length (be64 num) \<le> IG_MAX_FRAME_SIZE" by (simp add: be64_def be32_def IG_MAX_FRAME_SIZE_def)
      from recv_frame_ok [OF _ _ _ this, of c1 t' MsgRegister n rest] sent assms(2) answer c2 have "payload = be64 num" by auto
      then have "read_u64 (be64 num @ []) = Ok (aid, more)" using aid by simp
      moreover have "read_u64 (be64 num @ []) = Ok (num, [])" using reads_u64 by (auto simp only: reads_def)
      ultimately show ?thesis by (simp add: cli1)
    qed
    then show thesis using that [of z1] st sent b(1) assms(2) by (simp add: cli1 z1)
  qed (use \<open>rc \<ge> 0\<close> in \<open>auto split: if_splits\<close>)
qed

section \<open>Registered and heard\<close>

text \<open>The store takes the certificate of a session as that of an agent.\<close>

definition accepts :: "backend \<Rightarrow> AgentSession \<Rightarrow> string \<Rightarrow> bool" where
  "accepts bk s name \<longleftrightarrow> (\<forall>p. bk_register bk name p \<lparr>ac_AgentID = name, ac_CertSubjectHash = as_certSubjectHash s,
     ac_CertFingerprint = as_certFingerprint s, ac_IssuedAt = as_certIssuedAt s, ac_ExpiresAt = as_certExpiresAt s\<rparr> = Registered)"

text \<open>The session's own turn on the REGISTER of its agent.\<close>

lemma register_turn:
  assumes "pending (co_conns g cid) = WriteFrame MsgRegister n (register_bytes (register_msg hn ip mt os)) @ rest"
    and "length (register_bytes (register_msg hn ip mt os)) \<le> MaxFrameSize" and "length (cstr hn) < 65536"
    and "as_AgentID s = []" and "as_lastSeq s = 0" and "as_certSubjectHash s \<noteq> []" and "as_certFingerprint s \<noteq> []"
    and num_def: "num = GenerateAgentID (cstr hn) (Some ip)" and "as_certSubject s = agentIdentityPrefix @ dec (unat num)"
    and "accepts bk s (dec (unat num))" and "\<forall>name. co_sessions g name \<noteq> Some cid"
    and "\<not> cn_closed (co_conns g cid)"
  obtains s' g' where "session_turn bk cid s g = (True, s', g')" "as_AgentID s' = dec (unat num)" "as_agentNum s' = num" "as_lastSeq s' = n"
    "pending (co_conns g' cid) = rest" "cn_out (co_conns g' cid) = cn_out (co_conns g cid) @ WriteFrame MsgRegister n (be64 num)"
    "co_sessions g' = (co_sessions g)(dec (unat num) := Some cid)" "co_saved g' = co_saved g" "co_published g' = co_published g"
    "co_onEvent g' = co_onEvent g" "co_heartbeats g' = co_heartbeats g" "co_offline g' = co_offline g"
proof -
  let ?m = "register_msg hn ip mt os"
  from read_frame [OF assms(1,2)] obtain c where
    c: "conn_ReadFrame (co_conns g cid) = Some ((\<lparr>Length = of_nat (length (register_bytes ?m)), Type = MsgRegister, SeqNum = n\<rparr>, register_bytes ?m), c)"
    and pc: "pending c = rest" "cn_closed c = cn_closed (co_conns g cid)" "cn_out c = cn_out (co_conns g cid)" by metis
  let ?s = "s\<lparr>as_lastSeq := n\<rparr>" and ?g = "g\<lparr>co_conns := (co_conns g)(cid := c)\<rparr>"
  obtain osn where d: "DecodeRegister (register_bytes ?m) = Inr (cstr hn, ip, mt, osn)"
    using decode_register_bytes [OF register_msg_ok, of hn ip mt os] str_view_whole [OF assms(3)] by (simp add: register_msg_def)
  have matches: "certificateIdentityMatchesAgent (?s\<lparr>as_agentNum := num, as_AgentID := dec (unat num)\<rparr>)"
    using assms(9) by (simp add: identity_suffix)
  obtain s' g' where r: "handleRegister bk cid \<lparr>Length = of_nat (length (register_bytes ?m)), Type = MsgRegister, SeqNum = n\<rparr> (register_bytes ?m) ?s ?g = (s', g')"
    by fastforce
  have t: "session_turn bk cid s g = (True, s', g')" using turn_read [OF c, of s bk] assms(5) r by (simp add: Let_def)
  have old: "co_sessions g (dec (unat num)) \<noteq> Some cid" using assms(11) by blast
  have "s' = ?s\<lparr>as_agentNum := num, as_AgentID := dec (unat num)\<rparr>"
    using r d matches assms(4,6,7,10) by (simp add: handleRegister_def num_def accepts_def Let_def)
  moreover have "pending (co_conns g' cid) = rest \<and> cn_out (co_conns g' cid) = cn_out (co_conns g cid) @ WriteFrame MsgRegister n (be64 num)
      \<and> co_sessions g' = (co_sessions g)(dec (unat num) := Some cid) \<and> co_saved g' = co_saved g \<and> co_published g' = co_published g
      \<and> co_onEvent g' = co_onEvent g \<and> co_heartbeats g' = co_heartbeats g \<and> co_offline g' = co_offline g"
    using r d matches assms(4,6,7,10,12) old pc
    by (cases "co_sessions g (dec (unat num))")
      (auto simp: handleRegister_def num_def accepts_def Let_def co_close_def co_write_def conn_write_def EncodeRegisterResp_def pending_def)
  ultimately show thesis using that [OF t] by simp
qed

text \<open>A session with a name writes nothing more.\<close>

lemma named_out:
  assumes "as_AgentID s \<noteq> []"
  shows "cn_out (co_conns (Run bk cid s g) cid) = cn_out (co_conns g cid)"
  using assms
proof (induction bk cid s g rule: Run.induct)
  case (1 bk cid s g)
  obtain b s' g' where t: "session_turn bk cid s g = (b, s', g')" by (metis prod_cases3)
  have "cn_out (co_conns g' cid) = cn_out (co_conns g cid) \<and> as_AgentID s' = as_AgentID s"
    using t "1.prems"
    by (auto simp: session_turn_def Let_def handleRegister_def handleHeartbeat_def handleFileEvent_def validateAgentIdentity_def
        co_close_def conn_close_def split: option.splits if_splits sum.splits dest!: conn_ReadFrame_pending(3))
  then show ?case using "1.IH" [OF t [symmetric]] "1.prems" t by (cases b) (auto simp: Run.simps [of bk cid s g])
qed

lemma run_answers:
  assumes "session_turn bk cid s g = (True, s', g')" and "as_AgentID s' = dec n"
  shows "cn_out (co_conns (Run bk cid s g) cid) = cn_out (co_conns g' cid)"
  unfolding Run_turn [OF assms(1)] using named_out [of s' bk cid g'] assms(2) by simp

lemma saved_ids: "p \<in> set (saved_of aid ms) \<Longrightarrow> fp_AgentID p = dec (unat aid)"
  by (induction aid ms rule: saved_of.induct) (auto simp: event_payload_def Let_def event_view_def event_msg_def)

text \<open>C6. A registered agent is heard: when an agent whose certificate was issued for its host name and address registers and then sends
  events and heartbeats with success, in any order, the collector's session on the bytes it wrote, in whatever pieces they come, accepts the
  registration and answers it with the number the agent then uses; it saves, publishes and hands on exactly the agent's events, in order, under
  this number, records its heartbeats, and takes it off the map and marks it offline when the stream ends.\<close>

theorem registered_agent_is_heard:
  assumes "ig_tcp_register pton True hn ips mt os cli = (0, cli1)" and "tc_ssl cli = Some z" and "s_out z = []" and "pton ips = Some ip"
    and "send_msgs cli1 ms = Some cli2" and "tc_ssl cli2 = Some z2" and "all_sendable ms" and "length (cstr hn) < 65536"
    and "new_session subjectHash cert fingerprint validity = Some s" and "as_certSubjectHash s \<noteq> []" and "as_certFingerprint s \<noteq> []"
    and "as_certSubject s = agentIdentityPrefix @ dec (unat (GenerateAgentID (cstr hn) (Some ip)))"
    and "pending (co_conns g cid) = s_out z2" and "\<not> cn_closed (co_conns g cid)" and "cn_out (co_conns g cid) = []"
    and "\<forall>name. co_sessions g name \<noteq> Some cid" and "accepts bk s (dec (unat (GenerateAgentID (cstr hn) (Some ip))))" and "bk_save bk = (\<lambda>_ _. True)"
    and g'_def: "g' = Run bk cid s g" and "avail (s_in z) = cn_out (co_conns g' cid)"
  shows "tc_agent_id cli1 = GenerateAgentID (cstr hn) (Some ip)
    \<and> co_saved g' = co_saved g @ saved_of (tc_agent_id cli1) ms \<and> co_published g' = co_published g @ saved_of (tc_agent_id cli1) ms
    \<and> co_onEvent g' = co_onEvent g @ map (\<lambda>p. (dec (unat (tc_agent_id cli1)), p)) (saved_of (tc_agent_id cli1) ms)
    \<and> co_heartbeats g' = co_heartbeats g @ beats_of (tc_agent_id cli1) ms
    \<and> co_sessions g' = (co_sessions g)(dec (unat (tc_agent_id cli1)) := None)
    \<and> co_offline g' = co_offline g @ [dec (unat (tc_agent_id cli1))]"
proof -
  let ?num = "GenerateAgentID (cstr hn) (Some ip)" and ?m = "register_msg hn ip mt os" and ?n = "tc_seq_num cli + 1"
  from register_success [OF assms(1,2,4)] obtain z1 where z1: "tc_ssl cli1 = Some z1" "tc_state cli1 = IG_CONN_CONNECTED"
    "tc_seq_num cli1 = ?n" "length (register_bytes ?m) \<le> 1024" "s_out z1 = s_out z @ frame_bytes MsgRegister ?n (register_bytes ?m)"
    and answer: "\<And>n num rest. avail (s_in z) = frame_bytes MsgRegister n (be64 num) @ rest \<Longrightarrow> tc_agent_id cli1 = num" by metis
  let ?rest = "frames_from ?n (map (msg_frame (tc_agent_id cli1)) ms)"
  have stream: "pending (co_conns g cid) = WriteFrame MsgRegister ?n (register_bytes ?m) @ ?rest"
    using send_msgs_stream [OF assms(5) z1(1,2) assms(7)] assms(3,6,13) z1 by (auto simp: frame_bytes_WriteFrame)
  have fresh: "as_AgentID s = []" "as_lastSeq s = 0" using assms(9) by (auto simp: new_session_def split: option.splits)
  have "length (register_bytes ?m) \<le> MaxFrameSize" using z1(4) by (simp add: MaxFrameSize_def)
  from register_turn [OF stream this assms(8) fresh assms(10,11) refl assms(12,17,16,14)] obtain s1 g1 where
    t: "session_turn bk cid s g = (True, s1, g1)" and s1: "as_AgentID s1 = dec (unat ?num)" "as_agentNum s1 = ?num" "as_lastSeq s1 = ?n"
    and g1: "pending (co_conns g1 cid) = ?rest" "cn_out (co_conns g1 cid) = WriteFrame MsgRegister ?n (be64 ?num)"
      "co_sessions g1 = (co_sessions g)(dec (unat ?num) := Some cid)" "co_saved g1 = co_saved g" "co_published g1 = co_published g"
      "co_onEvent g1 = co_onEvent g" "co_heartbeats g1 = co_heartbeats g" "co_offline g1 = co_offline g"
    by (metis assms(15) append_Nil)
  have r: "g' = Run bk cid s1 g1" unfolding g'_def by (rule Run_turn [OF t])
  have out: "cn_out (co_conns g' cid) = frame_bytes MsgRegister ?n (be64 ?num) @ []"
    unfolding g'_def run_answers [OF t s1(1)] using g1(2) by (simp add: frame_bytes_WriteFrame)
  have aid: "tc_agent_id cli1 = ?num" by (rule answer [OF assms(20) [unfolded out]])
  have "pending (co_conns g1 cid) = frames_from (as_lastSeq s1) (map (msg_frame ?num) ms)" using g1(1) s1(3) aid by simp
  from run_msgs [OF s1(1,2) GenerateAgentID_pos assms(7) this assms(18)] obtain s2 g2 where
    e: "g' = session_end cid s2 g2" and s2: "as_AgentID s2 = dec (unat ?num)" "as_agentNum s2 = ?num" and h: "heard ?num ms cid g1 g2"
    unfolding r by blast
  have "0 < ?num" by (simp add: word_gt_0 GenerateAgentID_pos)
  then have "co_sessions g' = (co_sessions g)(dec (unat ?num) := None)" "co_offline g' = co_offline g @ [dec (unat ?num)]"
    using h by (simp_all add: e heard_def session_end_def s2 g1 co_close_def)
  moreover have "map (\<lambda>p. (fp_AgentID p, p)) (saved_of ?num ms) = map (\<lambda>p. (dec (unat ?num), p)) (saved_of ?num ms)"
    using saved_ids [of _ ?num ms] by simp
  ultimately show ?thesis using h by (simp add: aid e heard_def g1)
qed

definition sample_lkm_event :: ig_event where
  "sample_lkm_event = zero_event\<lparr>ev_type := IG_EVENT_MODIFY, ev_source := IG_SOURCE_LKM, ev_path := ''/etc/passwd'',
     ev_dev := 8, ev_ino := 77, ev_blocked := 1, ev_pid := 42\<rparr>"

lemma sample_lkm_event_sendable: "sendable sample_lkm_event"
  by (simp add: sendable_def sample_lkm_event_def zero_event_def cstr_def nul_def IG_MAX_PATH_def map_source_def
      IG_SOURCE_LKM_def IG_SOURCE_EBPF_def IG_MON_LKM_def chain_shape_def zero_chain_def)

text \<open>A session that takes each header and each payload whole.\<close>

lemma send_whole:
  assumes "tc_state cli = IG_CONN_CONNECTED" and "tc_ssl cli = Some \<lparr>s_out = out, s_wr = 9 # 65535 # ws, s_in = inp\<rparr>"
    and "length payload \<le> 65535" and "payload \<noteq> []"
  shows "ig_tcp_send_frame cli ty payload = (0, cli\<lparr>tc_seq_num := tc_seq_num cli + 1, tc_send_failures := 0,
    tc_ssl := Some \<lparr>s_out = out @ frame_bytes ty (tc_seq_num cli + 1) payload, s_wr = ws, s_in = inp\<rparr>\<rparr>)"
proof -
  let ?h = "\<lparr>fh_length = of_nat (length payload), fh_type = ty, fh_seq_num = tc_seq_num cli + 1\<rparr>"
  have "length (frame_header_bytes ?h) = 9" "frame_header_bytes ?h \<noteq> []" by (simp_all add: frame_header_bytes_def be32_def)
  then have h: "write_loop (9 # ks) (frame_header_bytes ?h) o1 = (True, ks, o1 @ frame_header_bytes ?h)" for ks o1
    by (cases "frame_header_bytes ?h") auto
  have p: "write_loop (65535 # ks) payload o1 = (True, ks, o1 @ payload)" for ks o1 using assms(3,4) by (cases payload) simp_all
  show ?thesis
    using assms h p by (simp add: ig_tcp_send_frame_def next_seq_def Let_def frame_header_encode_eq IG_FRAME_HEADER_SIZE_def IG_MAX_FRAME_SIZE_def
        ssl_write_all_def frame_bytes_def del: write_loop.simps)
qed

definition ack :: bytes where
  "ack = frame_bytes MsgRegister 1 (be64 plc_num)"

abbreviation "sample_cli \<equiv> open_client [9, 65535, 9, 65535, 9, 65535] [ack]"

abbreviation "sample_reg \<equiv> register_bytes (register_msg ''plc'' 0x0A000001 IG_MON_LKM ''Linux'')"

abbreviation "sample_pton \<equiv> (\<lambda>_. Some 0x0A000001 :: u32 option)"

lemma length_sample_reg: "length sample_reg = 17"
  unfolding length_register_bytes [OF register_msg_ok] by (simp add: register_msg_def cstr_def nul_def)

lemma sample_registers:
  obtains cli1 inp where "ig_tcp_register sample_pton True ''plc'' ''10.0.0.1'' IG_MON_LKM ''Linux'' sample_cli = (0, cli1)"
    "tc_ssl cli1 = Some \<lparr>s_out = frame_bytes MsgRegister 1 sample_reg, s_wr = [9, 65535, 9, 65535], s_in = inp\<rparr>"
    "tc_state cli1 = IG_CONN_CONNECTED" "tc_seq_num cli1 = 1" "tc_agent_id cli1 = plc_num"
proof -
  let ?z = "\<lparr>s_out = [], s_wr = [9, 65535, 9, 65535, 9, 65535], s_in = [ack]\<rparr>"
  have z: "tc_ssl sample_cli = Some ?z" "tc_state sample_cli = IG_CONN_CONNECTED" "tc_seq_num sample_cli = 0" by (simp_all add: open_client_def ig_tcp_init_def)
  have "sample_reg \<noteq> []" "length sample_reg \<le> 65535" using length_sample_reg by auto
  from send_whole [OF z(2,1) this(2,1), of MsgRegister] obtain c1 where c1: "ig_tcp_send_frame sample_cli MsgRegister sample_reg = (0, c1)"
    "tc_state c1 = IG_CONN_CONNECTED" "tc_seq_num c1 = 1"
    "tc_ssl c1 = Some \<lparr>s_out = frame_bytes MsgRegister 1 sample_reg, s_wr = [9, 65535, 9, 65535], s_in = [ack]\<rparr>" by (simp add: z)
  have "avail (s_in \<lparr>s_out = frame_bytes MsgRegister 1 sample_reg, s_wr = [9, 65535, 9, 65535], s_in = [ack]\<rparr>) = frame_bytes MsgRegister 1 (be64 plc_num) @ []"
    by (simp add: ack_def)
  from recv_frame_ok [OF c1(2,4) this] obtain z1 where r: "ig_tcp_recv_frame True c1 = ((8, Some \<lparr>fh_length = 8, fh_type = MsgRegister, fh_seq_num = 1\<rparr>,
      be64 plc_num), c1\<lparr>tc_ssl := Some z1\<rparr>)" by (auto simp: be64_def be32_def IG_MAX_FRAME_SIZE_def)
  obtain inp where z1: "z1 = \<lparr>s_out = frame_bytes MsgRegister 1 sample_reg, s_wr = [9, 65535, 9, 65535], s_in = inp\<rparr>"
  proof -
    obtain z' where k: "c1\<lparr>tc_ssl := Some z1\<rparr> = c1\<lparr>tc_ssl := Some z'\<rparr>" "s_out z' = frame_bytes MsgRegister 1 sample_reg"
      "s_wr z' = [9, 65535, 9, 65535]" by (rule recv_frame_keeps [OF r c1(4)]) simp
    from arg_cong [OF k(1), of tc_ssl] have "z1 = z'" by simp
    with k(2,3) show thesis by (intro that [of "s_in z1"]) (cases z1, simp)
  qed
  have num: "read_u64 (be64 plc_num) = Ok (plc_num, [])"
    using reads_u64 [of plc_num] unfolding reads_def by (metis append_Nil2)
  obtain cli1 where reg: "ig_tcp_register sample_pton True ''plc'' ''10.0.0.1'' IG_MON_LKM ''Linux'' sample_cli = (0, cli1)"
    and cli1: "tc_ssl cli1 = Some z1" "tc_state cli1 = IG_CONN_CONNECTED" "tc_seq_num cli1 = 1" "tc_agent_id cli1 = plc_num"
    using c1(1,2,3) r num length_sample_reg z(2)
    by (simp add: ig_tcp_register_def register_encode_eq [OF register_msg_ok] codes del: msg_type_code.simps)
  show thesis by (rule that [OF reg cli1(1) [unfolded z1] cli1(2-4)])
qed

lemma sample_sends:
  obtains cli1 c4 z4 rest where "ig_tcp_register sample_pton True ''plc'' ''10.0.0.1'' IG_MON_LKM ''Linux'' sample_cli = (0, cli1)"
    "tc_agent_id cli1 = plc_num" "send_msgs cli1 [Ev sample_lkm_event, Beat 5] = Some c4" "tc_ssl c4 = Some z4"
    "s_out z4 = frame_bytes MsgRegister 1 sample_reg @ rest"
proof -
  obtain cli1 inp where reg: "ig_tcp_register sample_pton True ''plc'' ''10.0.0.1'' IG_MON_LKM ''Linux'' sample_cli = (0, cli1)"
    and cli1: "tc_ssl cli1 = Some \<lparr>s_out = frame_bytes MsgRegister 1 sample_reg, s_wr = [9, 65535, 9, 65535], s_in = inp\<rparr>"
      "tc_state cli1 = IG_CONN_CONNECTED" "tc_seq_num cli1 = 1" "tc_agent_id cli1 = plc_num" by (rule sample_registers)
  note ev = sample_lkm_event_sendable
  let ?e = "file_event_bytes (event_msg plc_num sample_lkm_event)" and ?h = "heartbeat_bytes \<lparr>hb_agent_id = plc_num, hb_status = IG_STATUS_HEALTHY, hb_timestamp = 5\<rparr>"
  have e: "length ?e \<le> 65535" "?e \<noteq> []"
    using sendable_fits [OF ev, of plc_num] length_file_event_bytes [OF event_msg_ok, of plc_num sample_lkm_event]
    by (auto simp: MaxFrameSize_def file_event_need_def)
  from send_whole [OF cli1(2,1) e, of MsgFileEvent] obtain c3 where
    c3: "ig_tcp_send_frame cli1 MsgFileEvent ?e = (0, c3)" "tc_state c3 = IG_CONN_CONNECTED" "tc_agent_id c3 = plc_num"
    "tc_ssl c3 = Some \<lparr>s_out = frame_bytes MsgRegister 1 sample_reg @ frame_bytes MsgFileEvent 2 ?e, s_wr = [9, 65535], s_in = inp\<rparr>"
    by (simp add: cli1)
  have h: "length ?h \<le> 65535" "?h \<noteq> []" using heartbeat_decodes(2) by (auto simp: heartbeat_bytes_def be64_def be32_def)
  from send_whole [OF c3(2,4) h, of MsgHeartbeat] obtain c4 z4 rest where
    c4: "ig_tcp_send_frame c3 MsgHeartbeat ?h = (0, c4)" "tc_ssl c4 = Some z4" "s_out z4 = frame_bytes MsgRegister 1 sample_reg @ rest" by simp
  have sent: "send_msgs cli1 [Ev sample_lkm_event, Beat 5] = Some c4"
    using send_event_eq [of sample_lkm_event cli1] ev cli1 c3 c4
    by (simp add: sendable_def codes heartbeat_encode_eq del: msg_type_code.simps)
  show thesis by (rule that [OF reg cli1(4) sent c4(2,3)])
qed

theorem registered_agent_is_heard_witness:
  "\<exists>(g' :: collector). co_saved g' = [event_payload (event_view (event_msg plc_num sample_lkm_event))]
     \<and> co_heartbeats g' = [(dec (unat plc_num), 5)] \<and> co_offline g' = [dec (unat plc_num)]"
proof -
  let ?z = "\<lparr>s_out = [], s_wr = [9, 65535, 9, 65535, 9, 65535], s_in = [ack]\<rparr>"
  have z: "tc_ssl sample_cli = Some ?z" by (simp add: open_client_def ig_tcp_init_def)
  obtain cli1 c4 z4 rest where reg: "ig_tcp_register sample_pton True ''plc'' ''10.0.0.1'' IG_MON_LKM ''Linux'' sample_cli = (0, cli1)"
    and num: "tc_agent_id cli1 = plc_num" and sent: "send_msgs cli1 [Ev sample_lkm_event, Beat 5] = Some c4"
    and c4: "tc_ssl c4 = Some z4" "s_out z4 = frame_bytes MsgRegister 1 sample_reg @ rest" by (rule sample_sends)
  let ?g = "empty_collector (conn_of (s_out z4))"
  have p: "pending (co_conns ?g 0) = s_out z4" by (simp add: empty_collector_def conn_of_def pending_def)
  have fits: "all_sendable [Ev sample_lkm_event, Beat 5]" using sample_lkm_event_sendable by (simp add: all_sendable_def)
  have plc: "cstr ''plc'' = ''plc''" by (simp add: cstr_def nul_def)
  have subj: "as_certSubject plc_session = agentIdentityPrefix @ dec (unat (GenerateAgentID (cstr ''plc'') (Some 0x0A000001)))"
    by (simp add: plc plc_session_def plc_num_def)
  have str: "pending (co_conns ?g 0) = WriteFrame MsgRegister 1 sample_reg @ rest" using p c4(2) by (simp add: frame_bytes_WriteFrame)
  have s0: "length sample_reg \<le> MaxFrameSize" "length (cstr ''plc'') < 65536" "as_AgentID plc_session = []" "as_lastSeq plc_session = 0"
    "as_certSubjectHash plc_session \<noteq> []" "as_certFingerprint plc_session \<noteq> []"
    by (simp_all add: length_sample_reg MaxFrameSize_def plc plc_session_def)
  have g0: "accepts sample_backend plc_session (dec (unat (GenerateAgentID (cstr ''plc'') (Some 0x0A000001))))" "\<forall>name. co_sessions ?g name \<noteq> Some 0" "\<not> cn_closed (co_conns ?g 0)"
    "cn_out (co_conns ?g 0) = []" "bk_save sample_backend = (\<lambda>_ _. True)"
    by (simp_all add: accepts_def sample_backend_def empty_collector_def conn_of_def)
  obtain s1 g1 where t: "session_turn sample_backend 0 plc_session ?g = (True, s1, g1)" "as_AgentID s1 = dec (unat plc_num)"
    "cn_out (co_conns g1 0) = ack"
    by (rule register_turn [OF str s0 refl subj g0(1,2,3)]) (simp add: g0(4) plc plc_num_def ack_def frame_bytes_WriteFrame)
  have out: "avail (s_in ?z) = cn_out (co_conns (Run sample_backend 0 plc_session ?g) 0)"
    unfolding run_answers [OF t(1,2)] t(3) by (simp add: ack_def frame_bytes_WriteFrame WriteFrame_def be32_def)
  from registered_agent_is_heard [OF reg z _ refl sent c4(1) fits s0(2) plc_accepted s0(5,6) subj p g0(3,4,2,1,5) refl out]
  show ?thesis unfolding num by (intro exI [of _ "Run sample_backend 0 plc_session ?g"]) (simp add: empty_collector_def)
qed

end
