(* ===== verification/Enroll_Service.thy ===== *)
theory Enroll_Service
  imports Enroll_Server Registered_Agent
begin

text \<open>
  How an agent comes by its certificate, and what the certificate is worth: the enrollment service
  (\<^verbatim>\<open>enrollment/service.go\<close>), the certificate it issues (\<^verbatim>\<open>cert_issuer.go\<close>), and the rows of the store behind both
  (\<^verbatim>\<open>store/enrollment_store.go\<close>, \<^verbatim>\<open>agent_store.go\<close>).  A transaction is one step; whether the database answers, and takes the row (fingerprints
  are unique there), is a parameter.
\<close>

section \<open>The rows of certificates\<close>

text \<open>In the order in which they were bound, oldest first.\<close>

record cert_row =
  cr_agent :: string
  cr_subject :: string
  cr_fingerprint :: string
  cr_active :: bool

definition bind_cert :: "string \<Rightarrow> AgentCertificate \<Rightarrow> cert_row" where
  "bind_cert agentID cert = \<lparr>cr_agent = agentID, cr_subject = ac_CertSubjectHash cert, cr_fingerprint = ac_CertFingerprint cert, cr_active = True\<rparr>"

definition active_of :: "string \<Rightarrow> cert_row list \<Rightarrow> cert_row option" where
  "active_of agentID rows = List.find (\<lambda>r. cr_agent r = agentID \<and> cr_active r) (rev rows)"

definition ensureMatchingCertificate :: "string \<Rightarrow> AgentCertificate \<Rightarrow> cert_row list \<Rightarrow> register_result \<times> cert_row list" where
  "ensureMatchingCertificate agentID cert rows =
     (case List.find (\<lambda>r. cr_fingerprint r = ac_CertFingerprint cert) rows of
        Some r \<Rightarrow>
          if \<not> cr_active r then (CertificateRevoked, rows)
          else if cr_agent r \<noteq> agentID \<or> cr_subject r \<noteq> ac_CertSubjectHash cert then (CertificateMismatch, rows)
          else (Registered, rows)
      | None \<Rightarrow>
          (case active_of agentID rows of
             Some _ \<Rightarrow> (CertificateMismatch, rows)
           | None \<Rightarrow> (Registered, rows @ [bind_cert agentID cert])))"

definition rotateActiveCertificate :: "string \<Rightarrow> AgentCertificate \<Rightarrow> cert_row list \<Rightarrow> cert_row list" where
  "rotateActiveCertificate agentID cert rows =
     (case active_of agentID rows of
        Some r \<Rightarrow>
          if cr_subject r = ac_CertSubjectHash cert \<and> cr_fingerprint r = ac_CertFingerprint cert then rows
          else map (\<lambda>r. if cr_agent r = agentID \<and> cr_active r then r\<lparr>cr_active := False\<rparr> else r) rows @ [bind_cert agentID cert]
      | None \<Rightarrow> rows @ [bind_cert agentID cert])"

section \<open>Enrollments\<close>

datatype enroll_status = Pending | Issuing | Issued | Used | Revoked

text \<open>The agent of a row is the empty string where the column is NULL.\<close>

record enrollment =
  en_row :: enrollment_row
  en_status :: enroll_status
  en_expires :: int

record enroll_db =
  db_enrollments :: "string \<Rightarrow> enrollment option"
  db_certs :: "cert_row list"

definition GetPendingEnrollment :: "enroll_db \<Rightarrow> int \<Rightarrow> string \<Rightarrow> enrollment_row option" where
  "GetPendingEnrollment db now enrollmentID =
     (case db_enrollments db enrollmentID of
        None \<Rightarrow> None
      | Some e \<Rightarrow> if en_status e \<noteq> Pending then None else if \<not> now < en_expires e then None else Some (en_row e))"

definition put_enrollment :: "string \<Rightarrow> enrollment \<Rightarrow> enroll_db \<Rightarrow> enroll_db" where
  "put_enrollment enrollmentID e db = db\<lparr>db_enrollments := (db_enrollments db)(enrollmentID := Some e)\<rparr>"

definition ClaimEnrollment :: "string \<Rightarrow> string \<Rightarrow> int \<Rightarrow> enroll_db \<Rightarrow> enroll_db option" where
  "ClaimEnrollment enrollmentID agentID now db =
     (case db_enrollments db enrollmentID of
        None \<Rightarrow> None
      | Some e \<Rightarrow>
          if en_status e = Pending \<and> en_expires e > now
          then Some (put_enrollment enrollmentID (e\<lparr>en_status := Issuing, en_row := (en_row e)\<lparr>rw_AgentID := agentID\<rparr>\<rparr>) db)
          else None)"

definition ReleaseEnrollmentClaim :: "string \<Rightarrow> string \<Rightarrow> bool \<Rightarrow> enroll_db \<Rightarrow> enroll_db" where
  "ReleaseEnrollmentClaim enrollmentID agentID keepAgentID db =
     (case db_enrollments db enrollmentID of
        None \<Rightarrow> db
      | Some e \<Rightarrow>
          if en_status e = Issuing \<and> rw_AgentID (en_row e) = agentID
          then put_enrollment enrollmentID (e\<lparr>en_status := Pending,
            en_row := (if keepAgentID then en_row e else (en_row e)\<lparr>rw_AgentID := []\<rparr>)\<rparr>) db
          else db)"

definition FinalizeEnrollmentIssue :: "string \<Rightarrow> string \<Rightarrow> AgentCertificate \<Rightarrow> int \<Rightarrow> enroll_db \<Rightarrow> enroll_db option" where
  "FinalizeEnrollmentIssue enrollmentID agentID cert now db =
     (case db_enrollments db enrollmentID of
        None \<Rightarrow> None
      | Some e \<Rightarrow>
          if en_status e = Issuing \<and> rw_AgentID (en_row e) = agentID \<and> en_expires e > now
          then Some ((put_enrollment enrollmentID (e\<lparr>en_status := Issued\<rparr>) db)\<lparr>db_certs := rotateActiveCertificate agentID cert (db_certs db)\<rparr>)
          else None)"

definition MarkEnrollmentUsed :: "string \<Rightarrow> string \<Rightarrow> enroll_db \<Rightarrow> enroll_db option" where
  "MarkEnrollmentUsed enrollmentID agentID db =
     (case db_enrollments db enrollmentID of
        None \<Rightarrow> None
      | Some e \<Rightarrow>
          if en_status e = Issued \<and> rw_AgentID (en_row e) = agentID
          then Some (put_enrollment enrollmentID (e\<lparr>en_status := Used\<rparr>) db) else None)"

section \<open>The certificate\<close>

text \<open>What the Go libraries do: make and encode a key, parse an identity as a URI and print it, sign a template, encode and hash.\<close>

record cert_lib =
  cl_key :: "string option"
  cl_uri :: "string \<Rightarrow> string option"
  cl_serial :: bool
  cl_create :: "certificate \<Rightarrow> bytes option"
  cl_keypem :: bool
  cl_pem :: "bytes \<Rightarrow> string"
  cl_sha256 :: "bytes \<Rightarrow> string"

record IssuedCertificate =
  ic_CertPEM :: string
  ic_KeyPEM :: string
  ic_CertSubjectHash :: string
  ic_CertFingerprint :: string
  ic_IssuedAt :: int
  ic_ExpiresAt :: int

definition IssueAgentCertificate :: "cert_lib \<Rightarrow> int \<Rightarrow> int \<Rightarrow> string \<Rightarrow> IssuedCertificate option" where
  "IssueAgentCertificate lib now ttl agentIdentity =
     (case cl_key lib of None \<Rightarrow> None
      | Some key \<Rightarrow>
          (case cl_uri lib agentIdentity of None \<Rightarrow> None
           | Some uri \<Rightarrow>
               if \<not> cl_serial lib then None
               else (case cl_create lib \<lparr>ct_URIs = [uri], ct_CommonName = agentIdentity\<rparr> of None \<Rightarrow> None
                 | Some der \<Rightarrow>
                     if \<not> cl_keypem lib then None
                     else Some \<lparr>ic_CertPEM = cl_pem lib der, ic_KeyPEM = key, ic_CertSubjectHash = cl_sha256 lib (map byte_of_char agentIdentity),
                       ic_CertFingerprint = cl_sha256 lib der, ic_IssuedAt = now - 60, ic_ExpiresAt = now + ttl\<rparr>)))"

section \<open>The service\<close>

text \<open>\<open>se2_parse\<close> is \<^verbatim>\<open>net.ParseIP\<close>, followed by \<^verbatim>\<open>To4\<close>; the clock is read twice.\<close>

record enroll_service =
  se2_lib :: cert_lib
  se2_parse :: "string \<Rightarrow> u32 option option"
  se2_claim :: bool
  se2_finalize :: bool
  se2_release :: bool
  se2_now :: int
  se2_later :: int
  se2_ttl :: int
  se2_ca :: string

definition enroll_agent_id :: "enroll_service \<Rightarrow> Request \<Rightarrow> string option" where
  "enroll_agent_id sv req =
     (case se2_parse sv (rq2_IP req) of None \<Rightarrow> None
      | Some ip \<Rightarrow> Some (dec (unat (GenerateAgentID (rq2_Hostname req) ip))))"

definition agent_certificate :: "string \<Rightarrow> IssuedCertificate \<Rightarrow> AgentCertificate" where
  "agent_certificate agentID c = \<lparr>ac_AgentID = agentID, ac_CertSubjectHash = ic_CertSubjectHash c,
     ac_CertFingerprint = ic_CertFingerprint c, ac_IssuedAt = ic_IssuedAt c, ac_ExpiresAt = ic_ExpiresAt c\<rparr>"

text \<open>The deferred release: its own error is ignored.\<close>

definition release_claim :: "enroll_service \<Rightarrow> string \<Rightarrow> string \<Rightarrow> string \<Rightarrow> enroll_db \<Rightarrow> enroll_db" where
  "release_claim sv enrollmentID expectedAgentID agentID db =
     (if se2_release sv then ReleaseEnrollmentClaim enrollmentID agentID (expectedAgentID \<noteq> []) db else db)"

text \<open>The part after the claim: what fails there releases it.\<close>

definition issue_claimed :: "enroll_service \<Rightarrow> string \<Rightarrow> string \<Rightarrow> string \<Rightarrow> enroll_db \<Rightarrow> Response option \<times> enroll_db" where
  "issue_claimed sv enrollmentID expectedAgentID agentID db =
     (case IssueAgentCertificate (se2_lib sv) (se2_now sv) (se2_ttl sv) (agentIdentityPrefix @ agentID) of
        None \<Rightarrow> (None, release_claim sv enrollmentID expectedAgentID agentID db)
      | Some c \<Rightarrow>
          (case (if se2_finalize sv then FinalizeEnrollmentIssue enrollmentID agentID (agent_certificate agentID c) (se2_later sv) db else None) of
             None \<Rightarrow> (None, release_claim sv enrollmentID expectedAgentID agentID db)
           | Some db \<Rightarrow>
               (Some \<lparr>rs_AgentID = agentID, rs_AgentCertPEM = ic_CertPEM c, rs_AgentKeyPEM = ic_KeyPEM c, rs_CACertPEM = se2_ca sv,
                  rs_ExpiresAt = word_of_int (ic_ExpiresAt c)\<rparr>, db)))"

definition Enroll :: "enroll_service \<Rightarrow> string \<Rightarrow> string \<Rightarrow> Request \<Rightarrow> enroll_db \<Rightarrow> Response option \<times> enroll_db" where
  "Enroll sv enrollmentID expectedAgentID req db =
     (if enrollmentID = [] \<or> rq2_Hostname req = [] \<or> rq2_IP req = [] then (None, db)
      else (case enroll_agent_id sv req of
        None \<Rightarrow> (None, db)
      | Some agentID \<Rightarrow>
          if expectedAgentID \<noteq> [] \<and> expectedAgentID \<noteq> agentID then (None, db)
          else (case (if se2_claim sv then ClaimEnrollment enrollmentID agentID (se2_now sv) db else None) of
              None \<Rightarrow> (None, db)
            | Some db \<Rightarrow> issue_claimed sv enrollmentID expectedAgentID agentID db)))"

section \<open>Enrollments that run at the same time\<close>

text \<open>
  What the servers' connections do to the store, one transaction at a time and in any order: a claim, the part after a claim, the
  agent's last message, a new enrollment of the administrator, and a process that ends between its claim and what follows.
  \<open>er_claims\<close> holds the claims that are not yet settled, \<open>er_issued\<close> the answers that were given, newest first.
\<close>

record enroll_run =
  er_db :: enroll_db
  er_claims :: "(string \<times> string \<times> string) list"
  er_issued :: "(string \<times> Response) list"

definition add_issued :: "string \<Rightarrow> Response option \<Rightarrow> (string \<times> Response) list \<Rightarrow> (string \<times> Response) list" where
  "add_issued enrollmentID r log = (case r of None \<Rightarrow> log | Some resp \<Rightarrow> (enrollmentID, resp) # log)"

inductive enroll_step :: "enroll_run \<Rightarrow> enroll_run \<Rightarrow> bool" where
  step_claim: "ClaimEnrollment i a now (er_db st) = Some db' \<Longrightarrow>
    enroll_step st (st\<lparr>er_db := db', er_claims := (i, expected, a) # er_claims st\<rparr>)"
| step_issue: "(i, expected, a) \<in> set (er_claims st) \<Longrightarrow> issue_claimed sv i expected a (er_db st) = (r, db') \<Longrightarrow>
    enroll_step st (st\<lparr>er_db := db', er_claims := removeAll (i, expected, a) (er_claims st), er_issued := add_issued i r (er_issued st)\<rparr>)"
| step_used: "MarkEnrollmentUsed i a (er_db st) = Some db' \<Longrightarrow> enroll_step st (st\<lparr>er_db := db'\<rparr>)"
| step_create: "db_enrollments (er_db st) i = None \<Longrightarrow> en_status e = Pending \<Longrightarrow>
    enroll_step st (st\<lparr>er_db := put_enrollment i e (er_db st)\<rparr>)"
| step_crash: "enroll_step st (st\<lparr>er_claims := removeAll c (er_claims st)\<rparr>)"

definition claims_held :: "enroll_run \<Rightarrow> bool" where
  "claims_held st \<longleftrightarrow> distinct (map fst (er_claims st)) \<and>
     (\<forall>(i, expected, a) \<in> set (er_claims st). \<exists>e. db_enrollments (er_db st) i = Some e \<and> en_status e = Issuing)"

definition answers_final :: "enroll_run \<Rightarrow> bool" where
  "answers_final st \<longleftrightarrow> distinct (map fst (er_issued st)) \<and>
     (\<forall>(i, r) \<in> set (er_issued st). \<exists>e. db_enrollments (er_db st) i = Some e \<and> en_status e \<in> {Issued, Used} \<and> rw_AgentID (en_row e) = rs_AgentID r)"

section \<open>What an enrollment leaves\<close>

lemma Enroll_Some:
  assumes "Enroll sv enrollmentID expected req db = (Some resp, db')"
  obtains c where "enroll_agent_id sv req = Some (rs_AgentID resp)"
    "IssueAgentCertificate (se2_lib sv) (se2_now sv) (se2_ttl sv) (agentIdentityPrefix @ rs_AgentID resp) = Some c"
    "rs_AgentCertPEM resp = ic_CertPEM c"
    "db_certs db' = rotateActiveCertificate (rs_AgentID resp) (agent_certificate (rs_AgentID resp) c) (db_certs db)"
  using assms
  by (auto simp: Enroll_def issue_claimed_def ClaimEnrollment_def FinalizeEnrollmentIssue_def put_enrollment_def
      split: if_splits option.splits)

lemma active_of_Some: "active_of a rows = Some r \<Longrightarrow> r \<in> set rows"
  unfolding active_of_def by (metis find_Some_iff nth_mem set_rev)

lemma rotate_fresh:
  assumes "\<forall>r \<in> set rows. cr_fingerprint r \<noteq> ac_CertFingerprint cert"
  shows "\<exists>f. rotateActiveCertificate a cert rows = map f rows @ [bind_cert a cert]
    \<and> (\<forall>r. cr_fingerprint (f r) = cr_fingerprint r \<and> (cr_agent r = a \<longrightarrow> r \<in> set rows \<longrightarrow> \<not> cr_active (f r)) \<and> (cr_agent r \<noteq> a \<longrightarrow> f r = r))"
proof (cases "active_of a rows")
  case None
  then have "\<forall>r \<in> set rows. cr_agent r = a \<longrightarrow> \<not> cr_active r" unfolding active_of_def by (auto simp: find_None_iff)
  with None show ?thesis by (intro exI [of _ "\<lambda>r. r"]) (auto simp: rotateActiveCertificate_def)
next
  case (Some r)
  with assms active_of_Some [OF Some] show ?thesis
    by (intro exI [of _ "\<lambda>r. if cr_agent r = a \<and> cr_active r then r\<lparr>cr_active := False\<rparr> else r"]) (auto simp: rotateActiveCertificate_def)
qed

lemma find_map_same: "(\<And>r. p (f r) = p r) \<Longrightarrow> List.find p (map f rs) = map_option f (List.find p rs)"
  by (induction rs) auto

lemma find_last: "List.find p rs = None \<Longrightarrow> p x \<Longrightarrow> List.find p (rs @ [x]) = Some x"
  by (induction rs) (auto split: if_splits)

lemma find_first: "List.find p rs = Some y \<Longrightarrow> List.find p (rs @ [x]) = Some y"
  by (induction rs) (auto split: if_splits)

lemma claim_unique: "claims_held st \<Longrightarrow> (i, x) \<in> set (er_claims st) \<Longrightarrow> c \<in> set (removeAll (i, x) (er_claims st)) \<Longrightarrow> fst c \<noteq> i"
  by (cases c) (auto simp: claims_held_def dest: eq_key_imp_eq_value)

lemma distinct_removeAll: "distinct (map f xs) \<Longrightarrow> distinct (map f (removeAll x xs))"
  by (induction xs) auto

lemma issue_claimed_store:
  assumes "issue_claimed sv i expected a db = (r, db')"
  shows "j \<noteq> i \<Longrightarrow> db_enrollments db' j = db_enrollments db j"
    and "r = Some resp \<Longrightarrow> \<exists>e. db_enrollments db' i = Some e \<and> en_status e = Issued \<and> rw_AgentID (en_row e) = rs_AgentID resp"
  using assms
  by (auto simp: issue_claimed_def release_claim_def ReleaseEnrollmentClaim_def FinalizeEnrollmentIssue_def put_enrollment_def
      split: option.splits if_splits)

lemma step_keeps_claims:
  assumes "enroll_step st st'" and "claims_held st"
  shows "claims_held st'"
  using assms
proof (cases rule: enroll_step.cases)
  case (step_issue i expected a sv r db')
  have "\<exists>e. db_enrollments db' (fst c) = Some e \<and> en_status e = Issuing" if "c \<in> set (removeAll (i, expected, a) (er_claims st))" for c
    using claim_unique [OF assms(2) step_issue(2) that] issue_claimed_store(1) [OF step_issue(3)] that assms(2)
    by (cases c) (auto simp: claims_held_def)
  then show ?thesis using assms(2) distinct_removeAll unfolding step_issue(1) by (fastforce simp: claims_held_def)
qed (use distinct_removeAll in \<open>fastforce simp: claims_held_def ClaimEnrollment_def MarkEnrollmentUsed_def put_enrollment_def
    split: option.splits if_splits\<close>)+

lemma step_keeps_answers:
  assumes "enroll_step st st'" and "claims_held st" and "answers_final st"
  shows "answers_final st'"
  using assms
proof (cases rule: enroll_step.cases)
  case (step_issue i expected a sv r db')
  have "\<exists>e. db_enrollments (er_db st) i = Some e \<and> en_status e = Issuing" using assms(2) step_issue(2) by (auto simp: claims_held_def)
  then have new: "i \<notin> fst ` set (er_issued st)" using assms(3) by (force simp: answers_final_def)
  have old: "\<exists>e. db_enrollments db' j = Some e \<and> en_status e \<in> {Issued, Used} \<and> rw_AgentID (en_row e) = rs_AgentID q"
    if "(j, q) \<in> set (er_issued st)" for j q
  proof -
    have "j \<noteq> i" using new that by force
    then show ?thesis using assms(3) that issue_claimed_store(1) [OF step_issue(3)] by (auto simp: answers_final_def)
  qed
  show ?thesis
  proof (cases r)
    case None
    with old assms(3) show ?thesis unfolding step_issue(1) by (auto simp: answers_final_def add_issued_def)
  next
    case (Some q)
    with old new assms(3) issue_claimed_store(2) [OF step_issue(3) Some] show ?thesis
      unfolding step_issue(1) by (auto simp: answers_final_def add_issued_def)
  qed
qed (fastforce simp: answers_final_def ClaimEnrollment_def MarkEnrollmentUsed_def put_enrollment_def split: option.splits if_splits)+

lemma fresh_run: "claims_held \<lparr>er_db = db, er_claims = [], er_issued = []\<rparr>" "answers_final \<lparr>er_db = db, er_claims = [], er_issued = []\<rparr>"
  by (simp_all add: claims_held_def answers_final_def)

lemma run_keeps: "enroll_step\<^sup>*\<^sup>* st st' \<Longrightarrow> claims_held st \<and> answers_final st \<Longrightarrow> claims_held st' \<and> answers_final st'"
  by (induction rule: rtranclp_induct) (auto dest: step_keeps_claims step_keeps_answers)

text \<open>An undisturbed \<open>Enroll\<close> is a claim and what follows it.\<close>

lemma Enroll_steps:
  assumes "Enroll sv i expected req (er_db st) = (r, db')" and "claims_held st"
  shows "enroll_step\<^sup>*\<^sup>* st (st\<lparr>er_db := db', er_issued := add_issued i r (er_issued st)\<rparr>)"
proof (cases "\<exists>a db1. ClaimEnrollment i a (se2_now sv) (er_db st) = Some db1 \<and> issue_claimed sv i expected a db1 = (r, db')")
  case False
  then have "r = None" "db' = er_db st" using assms(1) by (auto simp: Enroll_def split: if_splits option.splits)
  then show ?thesis by (simp add: add_issued_def)
next
  case True
  then obtain a db1 where c: "ClaimEnrollment i a (se2_now sv) (er_db st) = Some db1" and r: "issue_claimed sv i expected a db1 = (r, db')" by blast
  let ?s = "st\<lparr>er_db := db1, er_claims := (i, expected, a) # er_claims st\<rparr>"
  have "(i, expected, a) \<notin> set (er_claims st)" using c assms(2) by (fastforce simp: claims_held_def ClaimEnrollment_def split: option.splits if_splits)
  then have "removeAll (i, expected, a) (er_claims ?s) = er_claims st" by simp
  with step_issue [of i expected a ?s sv r db'] r
  have "enroll_step ?s (st\<lparr>er_db := db', er_issued := add_issued i r (er_issued st)\<rparr>)" by simp
  with step_claim [OF c, of expected] show ?thesis by (meson converse_rtranclp_into_rtranclp r_into_rtranclp)
qed

lemma claim_released:
  assumes "ClaimEnrollment i a now db = Some d" and "\<And>e. db_enrollments db i = Some e \<Longrightarrow> rw_AgentID (en_row e) = expected"
    and "expected = [] \<or> expected = a"
  shows "ReleaseEnrollmentClaim i a (expected \<noteq> []) d = db"
proof -
  obtain e where e: "db_enrollments db i = Some e" "en_status e = Pending" "rw_AgentID (en_row e) = expected"
    and d: "d = put_enrollment i (e\<lparr>en_status := Issuing, en_row := (en_row e)\<lparr>rw_AgentID := a\<rparr>\<rparr>) db"
    using assms(1,2) by (auto simp: ClaimEnrollment_def split: option.splits if_splits)
  have "e\<lparr>en_status := Pending, en_row := (en_row e)\<lparr>rw_AgentID := expected\<rparr>\<rparr> = e" using e(2,3) by (cases e; cases "en_row e") auto
  then show ?thesis using assms(3) e(1) unfolding d
    by (cases db) (auto simp: ReleaseEnrollmentClaim_def put_enrollment_def fun_upd_idem)
qed

section \<open>A sample run\<close>

definition sample_cert_lib :: cert_lib where
  "sample_cert_lib = \<lparr>cl_key = Some ''key'', cl_uri = Some, cl_serial = True,
     cl_create = (\<lambda>t. if ct_URIs t = [ct_CommonName t] then Some (map byte_of_char (ct_CommonName t)) else None),
     cl_keypem = True, cl_pem = map char_of_byte, cl_sha256 = map char_of_byte\<rparr>"

definition sample_x509 :: "string \<Rightarrow> (certificate \<times> bytes) option" where
  "sample_x509 pem = Some (\<lparr>ct_URIs = [pem], ct_CommonName = pem\<rparr>, map byte_of_char pem)"

definition sample_service :: enroll_service where
  "sample_service = \<lparr>se2_lib = sample_cert_lib, se2_parse = (\<lambda>_. Some (Some 0x0A000007)), se2_claim = True, se2_finalize = True,
     se2_release = True, se2_now = 10, se2_later = 11, se2_ttl = 1000, se2_ca = ''ca''\<rparr>"

definition sample_enroll_request :: Request where
  "sample_enroll_request = \<lparr>rq2_Hostname = ''plc-7'', rq2_IP = ''10.0.0.7'', rq2_OS = ''Linux'', rq2_MonitorType = 0\<rparr>"

definition sample_agent_id :: string where
  "sample_agent_id = dec (unat (GenerateAgentID ''plc-7'' (Some 0x0A000007)))"

definition sample_enroll_row :: enrollment where
  "sample_enroll_row = \<lparr>en_row = \<lparr>rw_AgentID = [], rw_KeyCiphertext = [1], rw_KeyNonce = [2], rw_SecretHash = ''h''\<rparr>,
     en_status = Pending, en_expires = 100\<rparr>"

definition sample_db :: enroll_db where
  "sample_db = \<lparr>db_enrollments = [''e1'' \<mapsto> sample_enroll_row],
     db_certs = [\<lparr>cr_agent = sample_agent_id, cr_subject = ''subject'', cr_fingerprint = ''old'', cr_active = True\<rparr>]\<rparr>"

definition sample_issued :: IssuedCertificate where
  "sample_issued = \<lparr>ic_CertPEM = agentIdentityPrefix @ sample_agent_id, ic_KeyPEM = ''key'',
     ic_CertSubjectHash = agentIdentityPrefix @ sample_agent_id, ic_CertFingerprint = agentIdentityPrefix @ sample_agent_id,
     ic_IssuedAt = - 50, ic_ExpiresAt = 1010\<rparr>"

definition sample_enroll_answer :: Response where
  "sample_enroll_answer = \<lparr>rs_AgentID = sample_agent_id, rs_AgentCertPEM = agentIdentityPrefix @ sample_agent_id, rs_AgentKeyPEM = ''key'',
     rs_CACertPEM = ''ca'', rs_ExpiresAt = 1010\<rparr>"

lemma sample_issue: "IssueAgentCertificate sample_cert_lib 10 1000 (agentIdentityPrefix @ sample_agent_id) = Some sample_issued"
  by (simp add: IssueAgentCertificate_def sample_cert_lib_def sample_issued_def)

lemma sample_fresh: "ic_CertFingerprint sample_issued \<noteq> ''old''"
  by (simp add: sample_issued_def agentIdentityPrefix_def)

definition sample_claimed :: enroll_db where
  "sample_claimed = put_enrollment ''e1'' (sample_enroll_row\<lparr>en_status := Issuing,
     en_row := (en_row sample_enroll_row)\<lparr>rw_AgentID := sample_agent_id\<rparr>\<rparr>) sample_db"

definition sample_answered :: enroll_db where
  "sample_answered = (put_enrollment ''e1'' (sample_enroll_row\<lparr>en_status := Issued,
     en_row := (en_row sample_enroll_row)\<lparr>rw_AgentID := sample_agent_id\<rparr>\<rparr>) sample_db)
     \<lparr>db_certs := rotateActiveCertificate sample_agent_id (agent_certificate sample_agent_id sample_issued) (db_certs sample_db)\<rparr>"

lemma sample_claim: "ClaimEnrollment ''e1'' sample_agent_id 10 sample_db = Some sample_claimed"
  by (simp add: ClaimEnrollment_def sample_db_def sample_claimed_def sample_enroll_row_def)

lemma sample_settles: "issue_claimed sample_service ''e1'' [] sample_agent_id sample_claimed = (Some sample_enroll_answer, sample_answered)"
  by (simp add: issue_claimed_def sample_service_def sample_issue FinalizeEnrollmentIssue_def sample_claimed_def put_enrollment_def
      sample_answered_def sample_enroll_answer_def sample_enroll_row_def) (simp add: sample_issued_def sample_db_def)

lemma sample_enrolls: "Enroll sample_service ''e1'' [] sample_enroll_request sample_db = (Some sample_enroll_answer, sample_answered)"
  by (simp add: Enroll_def sample_enroll_request_def enroll_agent_id_def sample_settles sample_agent_id_def [symmetric])
    (simp add: sample_service_def sample_agent_id_def [symmetric] sample_claim sample_settles [unfolded sample_service_def])

section \<open>Properties\<close>



text \<open>A new certificate replaces the old: once an enrollment has issued a certificate that is not in the store, every other certificate
  of the same agent is refused as revoked, and those of other agents are judged as before.\<close>

theorem reissue_revokes_old:
  assumes "Enroll sv enrollmentID expected req db = (Some resp, db')"
    and "IssueAgentCertificate (se2_lib sv) (se2_now sv) (se2_ttl sv) (agentIdentityPrefix @ rs_AgentID resp) = Some new"
    and "\<forall>r \<in> set (db_certs db). cr_fingerprint r \<noteq> ic_CertFingerprint new" and "distinct (map cr_fingerprint (db_certs db))"
    and "r \<in> set (db_certs db)" and "ac_CertFingerprint cert = cr_fingerprint r"
  shows "fst (ensureMatchingCertificate name cert (db_certs db')) =
    (if cr_agent r = rs_AgentID resp then CertificateRevoked else fst (ensureMatchingCertificate name cert (db_certs db)))"
proof -
  let ?a = "rs_AgentID resp"
  obtain c where c: "IssueAgentCertificate (se2_lib sv) (se2_now sv) (se2_ttl sv) (agentIdentityPrefix @ ?a) = Some c"
    "db_certs db' = rotateActiveCertificate ?a (agent_certificate ?a c) (db_certs db)" by (rule Enroll_Some [OF assms(1)])
  then have "c = new" using assms(2) by simp
  then have "\<forall>r \<in> set (db_certs db). cr_fingerprint r \<noteq> ac_CertFingerprint (agent_certificate ?a c)"
    using assms(3) by (simp add: agent_certificate_def)
  from rotate_fresh [OF this, of ?a] obtain f where f: "db_certs db' = map f (db_certs db) @ [bind_cert ?a (agent_certificate ?a c)]"
    "\<And>r. cr_fingerprint (f r) = cr_fingerprint r" "\<And>r. cr_agent r = ?a \<Longrightarrow> r \<in> set (db_certs db) \<Longrightarrow> \<not> cr_active (f r)"
    "\<And>r. cr_agent r \<noteq> ?a \<Longrightarrow> f r = r" using c(2) by auto
  let ?p = "\<lambda>x. cr_fingerprint x = ac_CertFingerprint cert"
  have here: "List.find ?p (db_certs db) = Some r"
    using find_key_member [OF assms(4,5)] assms(6) by simp
  have "List.find ?p (map f (db_certs db)) = Some (f r)" using find_map_same [of ?p f] f(2) here by simp
  from find_first [OF this] have "List.find ?p (db_certs db') = Some (f r)" by (simp add: f(1))
  then show ?thesis using here f(3) [OF _ assms(5)] f(4) by (auto simp: ensureMatchingCertificate_def)
qed

lemma reissue_revokes_old_witness:
  "fst (ensureMatchingCertificate sample_agent_id \<lparr>ac_AgentID = sample_agent_id, ac_CertSubjectHash = ''subject'', ac_CertFingerprint = ''old'',
     ac_IssuedAt = 0, ac_ExpiresAt = 99\<rparr> (db_certs sample_answered)) = CertificateRevoked"
  using reissue_revokes_old [OF sample_enrolls, where new = sample_issued and name = sample_agent_id
      and r = "\<lparr>cr_agent = sample_agent_id, cr_subject = ''subject'', cr_fingerprint = ''old'', cr_active = True\<rparr>"
      and cert = "\<lparr>ac_AgentID = sample_agent_id, ac_CertSubjectHash = ''subject'', ac_CertFingerprint = ''old'',
        ac_IssuedAt = 0, ac_ExpiresAt = 99\<rparr>"]
  by (simp add: sample_enroll_answer_def sample_service_def sample_issue sample_db_def not_sym [OF sample_fresh])

text \<open>C15. An enrollment is answered once: however the connections that use it interleave, and whatever fails or stops between their
  transactions, at most one of them is given a certificate; from then on the row is issued or used, names that answer's agent,
  and can be claimed by nobody.\<close>

theorem enrollment_answered_once:
  assumes "enroll_step\<^sup>*\<^sup>* \<lparr>er_db = db, er_claims = [], er_issued = []\<rparr> st"
  shows "length (filter (\<lambda>x. fst x = i) (er_issued st)) \<le> 1
    \<and> ((i, resp) \<in> set (er_issued st) \<longrightarrow> (\<exists>e. db_enrollments (er_db st) i = Some e \<and> rw_AgentID (en_row e) = rs_AgentID resp)
        \<and> (\<forall>a now. ClaimEnrollment i a now (er_db st) = None))"
proof -
  have inv: "answers_final st" using run_keeps [OF assms] fresh_run by blast
  then have "distinct (filter (\<lambda>j. j = i) (map fst (er_issued st)))" by (simp add: answers_final_def)
  moreover have "length xs \<le> 1" if "distinct xs" "\<forall>j \<in> set xs. j = i" for xs
    using that by (cases xs; cases "tl xs") auto
  ultimately have "length (filter (\<lambda>j. j = i) (map fst (er_issued st))) \<le> 1" by (metis (mono_tags, lifting) mem_Collect_eq set_filter)
  then have "length (filter (\<lambda>x. fst x = i) (er_issued st)) \<le> 1" by (simp add: filter_map o_def)
  then show ?thesis using inv by (auto simp: answers_final_def ClaimEnrollment_def split: option.splits)
qed

lemma enrollment_answered_once_witness:
  "\<exists>(st :: enroll_run). er_issued st = [(''e1'', sample_enroll_answer)] \<and> length (filter (\<lambda>x. fst x = ''e1'') (er_issued st)) \<le> 1
    \<and> ClaimEnrollment ''e1'' sample_agent_id 12 (er_db st) = None"
proof -
  let ?s = "\<lparr>er_db = sample_db, er_claims = [], er_issued = []\<rparr> :: enroll_run"
  have a: "enroll_step ?s \<lparr>er_db = sample_claimed, er_claims = [(''e1'', [], sample_agent_id)], er_issued = []\<rparr>"
    using step_claim [of "''e1''" sample_agent_id 10 ?s sample_claimed "[]"] by (simp add: sample_claim)
  have b: "enroll_step \<lparr>er_db = sample_claimed, er_claims = [(''e1'', [], sample_agent_id)], er_issued = []\<rparr>
      \<lparr>er_db = sample_answered, er_claims = [], er_issued = [(''e1'', sample_enroll_answer)]\<rparr>"
    using step_issue [where st = "\<lparr>er_db = sample_claimed, er_claims = [(''e1'', [], sample_agent_id)], er_issued = []\<rparr>" and i = "''e1''"
      and expected = "[]" and a = sample_agent_id and sv = sample_service and r = "Some sample_enroll_answer" and db' = sample_answered]
    by (simp add: add_issued_def sample_settles)
  from a b have "enroll_step\<^sup>*\<^sup>* ?s \<lparr>er_db = sample_answered, er_claims = [], er_issued = [(''e1'', sample_enroll_answer)]\<rparr>" by simp
  from enrollment_answered_once [OF this, of "''e1''" sample_enroll_answer] show ?thesis
    by (intro exI [of _ "\<lparr>er_db = sample_answered, er_claims = [], er_issued = [(''e1'', sample_enroll_answer)]\<rparr>"]) simp
qed

text \<open>A failed enrollment can be tried again: if the request's service fails (before the claim, in the issuing of the certificate, or
  in the final transaction) and the release works, the store is as it was, the connection having taken the expected agent from the row.\<close>

theorem failed_enrollment_leaves_store:
  assumes "Enroll sv i expected req db = (None, db')" and "se2_release sv"
    and "\<And>e. db_enrollments db i = Some e \<Longrightarrow> rw_AgentID (en_row e) = expected"
  shows "db' = db"
  using assms claim_released [of i _ "se2_now sv" db _ expected]
  by (auto simp: Enroll_def issue_claimed_def release_claim_def split: option.splits if_splits)

lemma failed_enrollment_leaves_store_witness:
  "Enroll (sample_service\<lparr>se2_finalize := False\<rparr>) ''e1'' [] sample_enroll_request sample_db = (None, sample_db)"
proof -
  obtain r db' where e: "Enroll (sample_service\<lparr>se2_finalize := False\<rparr>) ''e1'' [] sample_enroll_request sample_db = (r, db')" by fastforce
  then have "r = None" by (auto simp: Enroll_def issue_claimed_def sample_service_def split: option.splits if_splits)
  with failed_enrollment_leaves_store [of "sample_service\<lparr>se2_finalize := False\<rparr>" "''e1''" "[]" sample_enroll_request sample_db db'] e
  show ?thesis by (simp add: sample_service_def sample_db_def sample_enroll_row_def split: if_splits)
qed

end
