(* ===== verification/Client_Threads.thy ===== *)
theory Client_Threads
  imports Agent_Main Registered_Agent
begin

text \<open>
  Two threads on one connection: the main thread, which sends events (\<^verbatim>\<open>send_event_with_reconnect\<close> of \<^verbatim>\<open>main.c\<close>),
  and the heartbeat thread (\<^verbatim>\<open>transport/heartbeat.c\<close>).  The operations of \<^verbatim>\<open>tcp_client.c\<close> hold \<^verbatim>\<open>conn_lock\<close>
  from their first to their last action and are one step each; what a thread reads before it takes the lock (the
  state, the number of the agent) is a step of its own.  Any interleaving of the steps can happen.
\<close>

section \<open>The threads\<close>

text \<open>The first half of \<^verbatim>\<open>ig_tcp_send_event\<close>, which runs without the lock, and the heartbeat's message.\<close>

definition event_buf :: "ig_tcp_client \<Rightarrow> ig_event \<Rightarrow> bytes option" where
  "event_buf cli ev =
     (if tc_state cli \<noteq> IG_CONN_CONNECTED then None
      else let msg = event_msg (tc_agent_id cli) ev
      in if fe_detected_by msg = 0 then None
      else (case ig_file_event_encode msg IG_MAX_PAYLOAD of Ok buf \<Rightarrow> Some buf | _ \<Rightarrow> None))"

definition beat_buf :: "ig_tcp_client \<Rightarrow> u32 \<Rightarrow> bytes option" where
  "beat_buf cli now =
     (case ig_heartbeat_encode \<lparr>hb_agent_id = tc_agent_id cli, hb_status = IG_STATUS_HEALTHY, hb_timestamp = now\<rparr> 13 of
        Ok buf \<Rightarrow> Some buf | _ \<Rightarrow> None)"

text \<open>Where a thread stands: \<open>MSend\<close> says whether this is the attempt after a reconnection.\<close>

datatype main_pc = MIdle | MSend bool ig_event bytes | MReconnect ig_event | MResend ig_event

datatype hb_pc = HIdle | HSend bytes | HReconnect | HGone

text \<open>
  \<open>cr_ok\<close> is what the main thread tests before an event, \<^verbatim>\<open>g_transport_ok\<close> with an agent number.  Two fields are
  not of the program: \<open>cr_base\<close> is the output and the sequence number when the session began, \<open>cr_frames\<close> what was sent
  in it, \<open>None\<close> once a send has failed.
\<close>

record client_run =
  cr_cli :: ig_tcp_client
  cr_ok :: bool
  cr_main :: main_pc
  cr_hb :: hb_pc
  cr_base :: "bytes \<times> u32"
  cr_frames :: "(u8 \<times> bytes) list option"

definition session_base :: "ig_tcp_client \<Rightarrow> bytes \<times> u32" where
  "session_base cli = (case tc_ssl cli of None \<Rightarrow> [] | Some z \<Rightarrow> s_out z, tc_seq_num cli)"

definition note_sent :: "int \<Rightarrow> u8 \<Rightarrow> bytes \<Rightarrow> (u8 \<times> bytes) list option \<Rightarrow> (u8 \<times> bytes) list option" where
  "note_sent rc ty buf frames = (if rc = 0 then map_option (\<lambda>fs. fs @ [(ty, buf)]) frames else None)"

abbreviation "event_type \<equiv> msg_type_code IG_MSG_FILE_EVENT"
abbreviation "beat_type \<equiv> msg_type_code IG_MSG_HEARTBEAT"

inductive client_step :: "client_run \<Rightarrow> client_run \<Rightarrow> bool" where
  m_drop: "cr_main st = MIdle \<Longrightarrow> \<not> cr_ok st \<or> event_buf (cr_cli st) ev = None \<Longrightarrow> client_step st st"
| m_take: "cr_main st = MIdle \<Longrightarrow> cr_ok st \<Longrightarrow> event_buf (cr_cli st) ev = Some buf \<Longrightarrow>
    client_step st (st\<lparr>cr_main := MSend False ev buf\<rparr>)"
| m_send: "cr_main st = MSend again ev buf \<Longrightarrow> ig_tcp_send_frame (cr_cli st) event_type buf = (rc, cli) \<Longrightarrow>
    lost = (\<not> again \<and> rc = -2) \<Longrightarrow>
    client_step st (st\<lparr>cr_cli := cli, cr_ok := cr_ok st \<and> \<not> lost, cr_main := (if lost then MReconnect ev else MIdle),
      cr_frames := note_sent rc event_type buf (cr_frames st)\<rparr>)"
| m_reconnect: "cr_main st = MReconnect ev \<Longrightarrow> ig_tcp_reconnect inet_pton envs (cr_cli st) = (rc, cli, waits) \<Longrightarrow>
    client_step st (st\<lparr>cr_cli := cli, cr_ok := (rc = 0), cr_main := (if rc = 0 then MResend ev else MIdle),
      cr_base := session_base cli, cr_frames := Some []\<rparr>)"
| m_resend: "cr_main st = MResend ev \<Longrightarrow>
    client_step st (st\<lparr>cr_main := (case event_buf (cr_cli st) ev of Some buf \<Rightarrow> MSend True ev buf | None \<Rightarrow> MIdle)\<rparr>)"
| h_wake: "cr_hb st = HIdle \<Longrightarrow> beat_buf (cr_cli st) now = Some buf \<Longrightarrow> client_step st (st\<lparr>cr_hb := HSend buf\<rparr>)"
| h_send: "cr_hb st = HSend buf \<Longrightarrow> ig_tcp_send_frame (cr_cli st) beat_type buf = (rc, cli) \<Longrightarrow>
    client_step st (st\<lparr>cr_cli := cli, cr_hb := (if rc = -2 then HReconnect else HIdle),
      cr_frames := note_sent rc beat_type buf (cr_frames st)\<rparr>)"
| h_reconnect: "cr_hb st = HReconnect \<Longrightarrow> ig_tcp_reconnect inet_pton envs (cr_cli st) = (rc, cli, waits) \<Longrightarrow>
    client_step st (st\<lparr>cr_cli := cli, cr_hb := (if rc < 0 then HGone else HIdle),
      cr_base := session_base cli, cr_frames := Some []\<rparr>)"
| h_stop: "cr_hb st = HIdle \<Longrightarrow> client_step st (st\<lparr>cr_hb := HGone\<rparr>)"

definition run_start :: "ig_tcp_client \<Rightarrow> client_run" where
  "run_start cli = \<lparr>cr_cli = cli, cr_ok = True, cr_main = MIdle, cr_hb = HIdle, cr_base = session_base cli, cr_frames = Some []\<rparr>"

section \<open>One event, undisturbed\<close>

lemma send_event_buf:
  "ig_tcp_send_event cli ev =
     (case event_buf cli ev of Some buf \<Rightarrow> ig_tcp_send_frame cli event_type buf
      | None \<Rightarrow> (if tc_state cli = IG_CONN_CONNECTED \<and> fe_detected_by (event_msg (tc_agent_id cli) ev) = 0 then 0 else -1, cli))"
  by (auto simp: ig_tcp_send_event_def event_buf_def Let_def split: cres.splits)

lemma step_then: "client_step a b \<Longrightarrow> client_step\<^sup>*\<^sup>* b c \<Longrightarrow> client_step\<^sup>*\<^sup>* a c"
  by (rule converse_rtranclp_into_rtranclp)

text \<open>What the steps of one resent event come to.\<close>

lemma resend_steps:
  assumes "cr_main st = MResend ev"
  obtains st' where "client_step\<^sup>*\<^sup>* st st'" "cr_cli st' = snd (ig_tcp_send_event (cr_cli st) ev)" "cr_ok st' = cr_ok st"
    "cr_main st' = MIdle" "cr_hb st' = cr_hb st"
proof (cases "event_buf (cr_cli st) ev")
  case None
  with m_resend [OF assms] have "client_step\<^sup>*\<^sup>* st (st\<lparr>cr_main := MIdle\<rparr>)" by simp
  then show thesis by (rule that) (simp_all add: send_event_buf None)
next
  case (Some buf)
  obtain rc cli where f: "ig_tcp_send_frame (cr_cli st) event_type buf = (rc, cli)" by fastforce
  have a: "client_step st (st\<lparr>cr_main := MSend True ev buf\<rparr>)" using m_resend [OF assms] Some by simp
  have b: "client_step (st\<lparr>cr_main := MSend True ev buf\<rparr>) (st\<lparr>cr_cli := cli, cr_main := MIdle, cr_frames := note_sent rc event_type buf (cr_frames st)\<rparr>)"
    using m_send [of "st\<lparr>cr_main := MSend True ev buf\<rparr>" True ev buf rc cli False] f by simp
  from a b f show thesis by (intro that [of "st\<lparr>cr_cli := cli, cr_main := MIdle, cr_frames := note_sent rc event_type buf (cr_frames st)\<rparr>"])
    (auto simp: send_event_buf Some f)
qed

text \<open>The steps of the main thread on one event, when the heartbeat does not come in between, are the function that \<open>Agent_Main\<close> has for it.\<close>

lemma event_steps:
  assumes "cr_main st = MIdle" and "cr_cli st = ag_tcp ag" and "cr_ok st \<longleftrightarrow> ag_transport_ok ag \<and> ag_agent_id ag \<noteq> []"
  obtains st' where "client_step\<^sup>*\<^sup>* st st'" "cr_cli st' = ag_tcp (send_event_with_reconnect os ev ag)" "cr_main st' = MIdle"
    "cr_hb st' = cr_hb st" "cr_ok st' \<longleftrightarrow> ag_transport_ok (send_event_with_reconnect os ev ag) \<and> ag_agent_id (send_event_with_reconnect os ev ag) \<noteq> []"
proof (cases "cr_ok st \<and> event_buf (cr_cli st) ev \<noteq> None")
  case False
  then show thesis
    using assms by (intro that [of st]) (auto simp: send_event_with_reconnect_def send_event_buf)
next
  case True
  then obtain buf where buf: "event_buf (ag_tcp ag) ev = Some buf" and ok: "cr_ok st" "ag_transport_ok ag" "ag_agent_id ag \<noteq> []"
    using assms by auto
  obtain rc cli where f: "ig_tcp_send_frame (ag_tcp ag) event_type buf = (rc, cli)" by fastforce
  let ?s1 = "st\<lparr>cr_main := MSend False ev buf\<rparr>"
  let ?s2 = "st\<lparr>cr_cli := cli, cr_ok := (rc \<noteq> -2), cr_main := (if rc = -2 then MReconnect ev else MIdle),
    cr_frames := note_sent rc event_type buf (cr_frames st)\<rparr>"
  have a: "client_step st ?s1" using m_take [OF assms(1) ok(1)] buf assms(2) by simp
  have b: "client_step ?s1 ?s2" using m_send [of ?s1 False ev buf rc cli "rc = -2"] f assms(2) ok(1) by simp
  have ab: "client_step\<^sup>*\<^sup>* st ?s2" using a b by simp
  show thesis
  proof (cases "rc = -2")
    case False
    with ab show thesis using ok buf f by (intro that [of ?s2]) (auto simp: send_event_with_reconnect_def send_event_buf)
  next
    case lost: True
    obtain rc2 c2 w where r: "ig_tcp_reconnect (os_inet_pton os) (os_conn os) cli = (rc2, c2, w)" by (metis prod_cases3)
    let ?s3 = "?s2\<lparr>cr_cli := c2, cr_ok := (rc2 = 0), cr_main := (if rc2 = 0 then MResend ev else MIdle), cr_base := session_base c2, cr_frames := Some []\<rparr>"
    have "client_step ?s2 ?s3" using m_reconnect [of ?s2 ev "os_inet_pton os" "os_conn os" rc2 c2 w] lost r by simp
    with ab have abc: "client_step\<^sup>*\<^sup>* st ?s3" by (rule rtranclp.rtrancl_into_rtrancl)
    show thesis
    proof (cases "rc2 = 0")
      case False
      with abc lost show thesis using ok buf f r
        by (intro that [of ?s3]) (auto simp: send_event_with_reconnect_def send_event_buf Let_def)
    next
      case True
      then obtain s4 where s4: "client_step\<^sup>*\<^sup>* ?s3 s4" "cr_cli s4 = snd (ig_tcp_send_event c2 ev)" "cr_ok s4" "cr_main s4 = MIdle" "cr_hb s4 = cr_hb st"
        using resend_steps [of ?s3 ev] by auto
      from rtranclp_trans [OF abc s4(1)] show thesis using s4(2-5) True lost ok buf f r
        by (intro that [of s4]) (simp_all add: send_event_with_reconnect_def send_event_buf Let_def agent_id_text_def)
    qed
  qed
qed

section \<open>A lost connection\<close>

definition reconnecting :: "client_run \<Rightarrow> bool" where
  "reconnecting st \<longleftrightarrow> (\<exists>ev. cr_main st = MReconnect ev) \<or> cr_hb st = HReconnect"

lemma refused_frame: "tc_state cli \<noteq> IG_CONN_CONNECTED \<Longrightarrow> ig_tcp_send_frame cli ty buf = (-1, cli)"
  by (auto simp: ig_tcp_send_frame_def split: ig_conn_state.splits option.splits)

lemma lost_step:
  assumes "client_step st st'" and "tc_state (cr_cli st) \<noteq> IG_CONN_CONNECTED" and "\<not> reconnecting st"
  shows "cr_cli st' = cr_cli st \<and> \<not> reconnecting st'"
  using assms by (cases rule: client_step.cases) (auto simp: reconnecting_def refused_frame split: option.splits)

lemma lost_run:
  "client_step\<^sup>*\<^sup>* st st' \<Longrightarrow> tc_state (cr_cli st) \<noteq> IG_CONN_CONNECTED \<Longrightarrow> \<not> reconnecting st \<Longrightarrow> cr_cli st' = cr_cli st \<and> \<not> reconnecting st'"
  by (induction rule: rtranclp_induct) (auto dest: lost_step)

section \<open>The stream\<close>

lemma frames_from_append: "frames_from n (fs @ [(ty, buf)]) = frames_from n fs @ frame_bytes ty (n + of_nat (length fs) + 1) buf"
  by (induction fs arbitrary: n) (auto simp: add.commute add.left_commute)

definition made_frame :: "u8 \<times> bytes \<Rightarrow> bool" where
  "made_frame m = (case m of (ty, buf) \<Rightarrow>
     ty = event_type \<and> (\<exists>cli ev. event_buf cli ev = Some buf) \<or> ty = beat_type \<and> (\<exists>cli now. beat_buf cli now = Some buf))"

text \<open>What the session holds, and what the threads are about to add.\<close>

definition stream_ok :: "client_run \<Rightarrow> bool" where
  "stream_ok st \<longleftrightarrow>
     (\<forall>fs. cr_frames st = Some fs \<longrightarrow> Ball (set fs) made_frame \<and>
       session_base (cr_cli st) = (fst (cr_base st) @ frames_from (snd (cr_base st)) fs, snd (cr_base st) + of_nat (length fs)))
   \<and> (\<forall>again ev buf. cr_main st = MSend again ev buf \<longrightarrow> made_frame (event_type, buf))
   \<and> (\<forall>buf. cr_hb st = HSend buf \<longrightarrow> made_frame (beat_type, buf))"

lemma stream_start: "stream_ok (run_start cli)"
  by (simp add: stream_ok_def run_start_def)

lemma send_frame_stream:
  assumes "ig_tcp_send_frame cli ty buf = (rc, cli')" and "note_sent rc ty buf frames = Some fs'"
  obtains fs where "frames = Some fs" "fs' = fs @ [(ty, buf)]"
    "session_base cli' = (fst (session_base cli) @ frame_bytes ty (tc_seq_num cli + 1) buf, snd (session_base cli) + 1)"
proof -
  have rc: "rc = 0" using assms(2) by (simp add: note_sent_def split: if_splits)
  obtain fs where fs: "frames = Some fs" "fs' = fs @ [(ty, buf)]" using assms(2) rc by (auto simp: note_sent_def)
  from assms(1) show thesis
  proof (cases rule: send_frame_cases)
    case (sent s s')
    then show thesis by (intro that [OF fs]) (simp add: session_base_def)
  qed (use rc in \<open>auto split: if_splits\<close>)
qed

lemma stream_sent:
  assumes "ig_tcp_send_frame (cr_cli st) ty buf = (rc, cli)" and "stream_ok st" and "made_frame (ty, buf)"
    and "note_sent rc ty buf (cr_frames st) = Some fs'"
  shows "Ball (set fs') made_frame \<and>
    session_base cli = (fst (cr_base st) @ frames_from (snd (cr_base st)) fs', snd (cr_base st) + of_nat (length fs'))"
proof -
  obtain fs where fs: "cr_frames st = Some fs" "fs' = fs @ [(ty, buf)]"
    and b: "session_base cli = (fst (session_base (cr_cli st)) @ frame_bytes ty (tc_seq_num (cr_cli st) + 1) buf, snd (session_base (cr_cli st)) + 1)"
    by (rule send_frame_stream [OF assms(1,4)])
  have "session_base (cr_cli st) = (fst (cr_base st) @ frames_from (snd (cr_base st)) fs, snd (cr_base st) + of_nat (length fs))" "Ball (set fs) made_frame"
    using assms(2) fs(1) by (simp_all add: stream_ok_def)
  moreover have "tc_seq_num (cr_cli st) = snd (session_base (cr_cli st))" by (simp add: session_base_def)
  ultimately show ?thesis using assms(3) by (simp add: b fs(2) frames_from_append)
qed

lemma stream_step:
  assumes "client_step st st'" and "stream_ok st"
  shows "stream_ok st'"
  using assms
proof (cases rule: client_step.cases)
  case (m_send again ev buf rc cli lost)
  have "made_frame (event_type, buf)" using assms(2) m_send(2) unfolding stream_ok_def by blast
  from stream_sent [OF m_send(3) assms(2) this] assms(2) show ?thesis unfolding m_send(1) stream_ok_def by simp
next
  case (h_send buf rc cli)
  have "made_frame (beat_type, buf)" using assms(2) h_send(2) unfolding stream_ok_def by blast
  from stream_sent [OF h_send(3) assms(2) this] assms(2) show ?thesis unfolding h_send(1) stream_ok_def by simp
qed (auto simp: stream_ok_def made_frame_def session_base_def split: option.splits)

section \<open>Properties\<close>

text \<open>C35. The threads do not get into each other's frames: in every interleaving, while no send of the session has failed, what the session has put on the
  stream since it began are whole frames of events and heartbeats, one after the other and numbered consecutively.\<close>

theorem client_threads_whole_frames:
  assumes "client_step\<^sup>*\<^sup>* (run_start cli) st" and "cr_frames st = Some fs" and "tc_ssl (cr_cli st) = Some z"
  shows "s_out z = fst (cr_base st) @ frames_from (snd (cr_base st)) fs \<and> tc_seq_num (cr_cli st) = snd (cr_base st) + of_nat (length fs)
    \<and> (\<forall>m \<in> set fs. made_frame m)"
proof -
  from assms(1) have "stream_ok st" by (induction rule: rtranclp_induct) (auto simp: stream_start dest: stream_step)
  then have "session_base (cr_cli st) = (fst (cr_base st) @ frames_from (snd (cr_base st)) fs, snd (cr_base st) + of_nat (length fs))"
    "\<forall>m \<in> set fs. made_frame m" using assms(2) by (simp_all add: stream_ok_def)
  then show ?thesis using assms(3) by (simp add: session_base_def)
qed

theorem client_threads_whole_frames_witness:
  "\<exists>(st :: client_run) z. client_step\<^sup>*\<^sup>* (run_start (open_client [9, 65535] [])) st \<and> cr_hb st = HIdle \<and> tc_ssl (cr_cli st) = Some z
     \<and> s_out z = frames_from 0 [(beat_type, heartbeat_bytes \<lparr>hb_agent_id = 0, hb_status = IG_STATUS_HEALTHY, hb_timestamp = 5\<rparr>)]"
proof -
  let ?c = "open_client [9, 65535] []" and ?b = "heartbeat_bytes \<lparr>hb_agent_id = 0, hb_status = IG_STATUS_HEALTHY, hb_timestamp = 5\<rparr>"
  have c: "tc_state ?c = IG_CONN_CONNECTED" "tc_ssl ?c = Some \<lparr>s_out = [], s_wr = [9, 65535], s_in = []\<rparr>" "tc_seq_num ?c = 0" "tc_agent_id ?c = 0"
    by (simp_all add: open_client_def ig_tcp_init_def)
  have b: "length ?b \<le> 65535" "?b \<noteq> []" using heartbeat_decodes(2) by (auto simp: heartbeat_bytes_def be64_def be32_def)
  obtain c1 z where f: "ig_tcp_send_frame ?c beat_type ?b = (0, c1)" "tc_ssl c1 = Some z" using send_whole [OF c(1,2) b, of beat_type] by simp
  let ?s = "(run_start ?c)\<lparr>cr_hb := HSend ?b\<rparr>"
  have "beat_buf ?c 5 = Some ?b" by (simp add: beat_buf_def c heartbeat_encode_eq)
  then have "client_step (run_start ?c) ?s" by (intro h_wake [where now = 5]) (simp_all add: run_start_def)
  moreover have "client_step ?s (?s\<lparr>cr_cli := c1, cr_hb := HIdle, cr_frames := Some [(beat_type, ?b)]\<rparr>)"
    using h_send [of ?s ?b 0 c1] f by (simp add: run_start_def note_sent_def)
  ultimately have r: "client_step\<^sup>*\<^sup>* (run_start ?c) (?s\<lparr>cr_cli := c1, cr_hb := HIdle, cr_frames := Some [(beat_type, ?b)]\<rparr>)" by simp
  have "s_out z = frames_from 0 [(beat_type, ?b)]"
    using client_threads_whole_frames [OF r, of "[(beat_type, ?b)]" z] f by (simp add: run_start_def session_base_def c)
  with r f show ?thesis
    by (intro exI [of _ "?s\<lparr>cr_cli := c1, cr_hb := HIdle, cr_frames := Some [(beat_type, ?b)]\<rparr>"] exI [of _ z] conjI) (assumption | simp)+
qed



end
