(* ===== verification/Spec2Isabelle.thy ===== *)
theory Spec2Isabelle
  imports Protocol Collector Event_Queue Lkm_Policy_Race Lkm_Proc_Cache Lkm_Events
    Hooks_Syscall Hooks_Direct Hooks_Lsm Walker Baseline Lkm_Client Tcp_Client
    Pid_Cache Config Enroll_Server Agent_Start Event_Path Ebpf_Agent
    Pid_Lock Inotify Event_Loop Tls_Context Daemon Registered_Agent Enroll_Service Client_Threads
begin

text \<open>
  KN-IG is a file integrity guard for Linux.  An agent (C, \<^verbatim>\<open>Agent/src\<close>) scans the directories of its
  configuration, records the hash of every file, and has eBPF programs or a kernel module refuse or report accesses to
  those files; the events travel to a collector (Go, \<^verbatim>\<open>Backend/internal\<close>) over TLS.  This development
  models the agent, the module and the Go ends of its protocols with the sessions and certificates behind them, and proves what makes them correct.

  How the parts interact.  \<^verbatim>\<open>main\<close> reads the configuration, chooses a backend, scans the watches into the
  baseline, clears the module's policy table and injects one policy per file of the baseline by
  ioctl, or with eBPF puts one on every inode of the watched trees.  From then on a hook looks the inode of each access up in that table, captures
  an event with the ancestry of the process into a FIFO and refuses the access when the
  policy says so.  A thread of the agent reads the events from the device into the event queue; the main loop
  takes them from the queue, judges them against the baseline and sends them in frames to the
  collector, reconnecting when the session fails.  Before all this, once, the agent enrolls with
  the backend and stores the certificates it is issued.

  Theories, in the order of the code:
  \<^item> \<open>Ig_Prelude\<close>, \<open>C_Text\<close>: bytes, C strings, bounded copies, big-endian fields, C numbers and
    \<^verbatim>\<open>fgets\<close>; \<open>Ancestry\<close>: the walk from a process to its root that the kernel cache, the live task list and
    the \<^verbatim>\<open>/proc\<close> resolver share; \<open>Queue_Interface\<close>, \<open>Policy_Interface\<close>: the locales for a bounded FIFO and
    a policy store, with the lemmas every client of one has.
  \<^item> \<open>Proc_Types\<close> (\<^verbatim>\<open>scanner/pid_ancestry.h\<close>), \<open>Monitor\<close> (\<^verbatim>\<open>realtime/monitor.h\<close>), \<open>Config\<close>
    (\<^verbatim>\<open>ig_config.c\<close>), \<open>Event_Queue\<close> (\<^verbatim>\<open>ig_queue.c\<close>): the data of the agent.
  \<^item> \<open>Protocol\<close> (\<^verbatim>\<open>transport/protocol.c\<close>), \<open>Tcp_Client\<close> (\<^verbatim>\<open>tcp_client.c\<close>, \<^verbatim>\<open>heartbeat.c\<close>), \<open>Collector\<close>
    (\<^verbatim>\<open>collector/protocol.go\<close>): the wire format, written and read, and the connection.
  \<^item> \<open>Lkm_Policy\<close> (\<^verbatim>\<open>lkm/ig_lkm_policy.c\<close> and the ioctl of \<^verbatim>\<open>ig_lkm_chardev.c\<close>), with \<open>Lkm_Policy_Race\<close> for
    the steps of concurrent adders; \<open>Lkm_Proc_Cache\<close> (\<^verbatim>\<open>ig_lkm_proc_cache.c\<close>); \<open>Lkm_Events\<close>
    (\<^verbatim>\<open>ig_lkm_events.c\<close>, the device, load and unload); \<open>Hook_Core\<close>, \<open>Hooks_Syscall\<close>, \<open>Hooks_Direct\<close>,
    \<open>Hooks_Lsm\<close> (\<^verbatim>\<open>lkm/hooks\<close>): the module.
  \<^item> \<open>Lkm_Client\<close> (\<^verbatim>\<open>lkm/lkm_client.c\<close>), \<open>Walker\<close> and \<open>Baseline\<close> (\<^verbatim>\<open>scanner/walker.c\<close>, \<^verbatim>\<open>baseline.c\<close>),
    \<open>Pid_Ancestry\<close> and \<open>Pid_Cache\<close> (\<^verbatim>\<open>scanner/pid_ancestry.c\<close>): the services of the agent.
  \<^item> \<open>Enroll\<close> (\<^verbatim>\<open>enroll/enroll.c\<close>) and \<open>Enroll_Server\<close> (\<^verbatim>\<open>enrollment/protocol.go\<close>, \<^verbatim>\<open>xor_crypto.go\<close>,
    \<^verbatim>\<open>server.go\<close>): the enrollment, both ends.
  \<^item> \<open>Agent_Env\<close>, \<open>Agent_Main\<close>, \<open>Agent_Start\<close> (\<^verbatim>\<open>main.c\<close>): options and environment; the receiving thread,
    event processing, reload and main loop; start, enrollment mode and shutdown.
  \<^item> \<open>Ebpf_Kernel\<close> (\<^verbatim>\<open>ebpf/ig_trace.bpf.c\<close>), \<open>Ebpf_Paths\<close> and \<open>Ebpf_User\<close> (\<^verbatim>\<open>ebpf/ig_trace.c\<close>): the programs and maps of
    the eBPF backend, its two tables, and its policies and events; \<open>Ebpf_System\<close> and \<open>Ebpf_Agent\<close>: both halves
    together, and what the main program's calls make of them.
  \<^item> \<open>Inotify\<close> (\<^verbatim>\<open>realtime/inotify_mon.c\<close>): the watch table of the third backend and the translation of its events.
  \<^item> \<open>Pid_Lock\<close> (\<^verbatim>\<open>core/pid_lock.c\<close>), \<open>Daemon\<close> (\<^verbatim>\<open>daemon.c\<close>), \<open>Event_Loop\<close> (\<^verbatim>\<open>event_loop.c\<close>): one agent at a time, with
    its interleavings as a step relation; the descriptors and signals of the daemon; the loop over epoll.  \<open>Tls_Context\<close>
    (\<^verbatim>\<open>transport/tls_context.c\<close>): what a session of the agent demands of its peer.
  \<^item> \<open>Agent_Session\<close> (\<^verbatim>\<open>collector/agent_session.go\<close>, \<^verbatim>\<open>tls_config.go\<close>, \<^verbatim>\<open>tcp_server.go\<close>): a session of the collector and
    all sessions of a server as a step relation; \<open>Registered_Agent\<close>: the agent at the other end of one.
    \<open>Enroll_Service\<close> (\<^verbatim>\<open>enrollment/service.go\<close>, \<^verbatim>\<open>cert_issuer.go\<close>, \<^verbatim>\<open>store/enrollment_store.go\<close>, \<^verbatim>\<open>agent_store.go\<close>): how
    certificates are issued and bound, with concurrent enrollments and crashes as steps.
  \<^item> \<open>Client_Threads\<close>: the main thread and the heartbeat on one connection (\<^verbatim>\<open>tcp_client.c\<close>, \<^verbatim>\<open>heartbeat.c\<close>, \<^verbatim>\<open>main.c\<close>), with
    what each does under the lock as one step.
  \<^item> \<open>Event_Path\<close> and this theory: what the components guarantee together.

  How the code is modelled.  A struct is a record, the state an operation changes is passed through it,
  a machine integer that can wrap is a word.  A loop over data is a recursion on it, a loop that
  waits consumes a list of what happens while it waits.  Whatever the operating system, OpenSSL or
  another process decides is an argument: the file system, \<^verbatim>\<open>/proc\<close>, allocation, hash functions, the pieces a socket
  reads and writes, the clock.  Failing branches and early exits are values.  Where the code
  bounds a recursion the model has the same bound (sixteen ancestors, 64 directory levels, 8192
  processes).  The eBPF backend walks a watched tree without a bound: its walk takes fuel and \<open>None\<close> means
  that it ran out; 4096 levels are enough when the names fit the path buffer, and when they do not there are
  trees for which no fuel is enough (\<open>Ebpf_System\<close>).  Every definition is total.

  What the lemmas show.  Each component has its invariant and the proof that every operation keeps it:
  the queue ring, the policy hash table (a finite map for every hash function), the kernel's process cache
  (bounded, one entry per pid), the LRU lists, the connection.  The parsers and codecs are exact: what one
  end writes the other reads, the decoders stay inside their input, no process name can forge a field
  of \<^verbatim>\<open>/proc\<close>.  The hooks refuse exactly the denied accesses and let everything else run unchanged, in all
  three implementations of the module and in the eBPF programs; the path cache of the eBPF backend is a finite map while
  its slots last.  Processes that start and crash in any order leave one agent running.  Composed: a file under a watch is protected once the agent has started in
  lock mode, with the module and with eBPF, a captured access is known to the collector with its whole ancestry, queued events are
  all processed, an enrollment completes, writes nothing unauthenticated and is answered once, its certificate makes the
  agent accepted as what it enrolled as and nothing else, and a registered agent's events and heartbeats are saved under its name.  Where the code does not do
  what it means to, a theorem says what it does instead (a symbolic link on the way to a protected
  file, two concurrent adders, a clock set back, a reload with a new watch list, a configuration file
  that fails its check, a reconnection that fails, a release of the lock file while another agent starts, a refused session whose
  frames are still handled, a heartbeat thread that gives up,
  an unlink that fails, a directory whose path fills the buffer).

  Not modelled.  The text of log lines and the interleaving of the agent's threads beyond the policy
  table, the queue and the connection.  The generated skeleton and \<^verbatim>\<open>vmlinux.h\<close> hold no logic of the program; \<^verbatim>\<open>transport/test_transport.c\<close>
  is a test.  The epoll loop is modelled as it is written; the main program has a loop of its own.
  Of the backend the web API, the anomaly engine, the key vault and the queries of the store that only read are not modelled.
  The C ends of OpenSSL and libbpf, the kernel behind the hooks, the key vault, the keys and signatures
  of the backend's certificates and its database are parameters.  The rest of the backend, the report scripts, the desktop
  frontend and the deployment scripts are other programs in other languages.
\<close>

section \<open>From the baseline to a refused system call\<close>

lemma table_entry_denied:
  assumes "\<forall>k p. map_of (rev (map (apsnd stored) (baseline_policies stat IG_BLOCK_DENY (sr_entries db)))) k = Some p
      \<longrightarrow> ht_pol (he_bkt h) ht k = Some p"
    and "en \<in> set (sr_entries db)" and "stat (se_path en) = Some st" and "baseline_mask AND op \<noteq> 0"
  shows "denied (lkm_pol h (base\<lparr>lk_table := ht\<rparr>)) (stat_dev_to_kernel (st_dev st), st_ino st) op"
proof -
  obtain p where p: "map_of (rev (map (apsnd stored) (baseline_policies stat IG_BLOCK_DENY (sr_entries db))))
      (stat_dev_to_kernel (st_dev st), st_ino st) = Some p" "pol_mask p = baseline_mask" "pol_block p = IG_BLOCK_DENY"
    using injected_protected [where stat = stat and en = en and ens = "sr_entries db"] assms(2,3) by metis
  with assms(1) have "ht_pol (he_bkt h) ht (stat_dev_to_kernel (st_dev st), st_ino st) = Some p" by blast
  with p assms(4) show ?thesis by (simp add: denied_def lkm_pol_def)
qed

text \<open>A hooked call with a denied target among its targets.\<close>

lemma denied_call_refused:
  assumes "denied (lkm_pol h (base\<lparr>lk_table := ht\<rparr>)) k op" and "(k, op) \<in> set (call_targets h w n regs)"
    and "hooked_call h orig n regs (base\<lparr>lk_table := ht\<rparr>) w = (rc, s', w')"
  shows "rc = - EPERM \<and> w' = w \<and> lk_table s' = ht"
proof -
  let ?s = "base\<lparr>lk_table := ht\<rparr>" and ?ts = "call_targets h w n regs"
  have den: "some_denied (lkm_pol h ?s) ?ts"
    unfolding some_denied_def by (intro bexI [of _ "(k, op)"]) (use assms(1,2) in simp_all)
  obtain c where "enforces h ?ts ?s c" "rc_or_orig c (orig n regs) w = (rc, s', w')"
    using hooked_call_checks [of h w n regs ?s orig] assms(3) by auto
  from rc_or_orig_enforces [OF this] den show ?thesis by auto
qed

lemma guarded_ops: "op \<in> {IG_OP_WRITE, IG_OP_DELETE, IG_OP_RENAME} \<Longrightarrow> baseline_mask AND op \<noteq> 0"
  by (auto simp: baseline_mask_def ig_op_codes)



section \<open>From the start of the agent to a refused system call\<close>



section \<open>From the agent's events to the collector\<close>

text \<open>Sending a list of events, all with success, and the collector's reading of the byte stream.\<close>

fun send_events :: "ig_tcp_client \<Rightarrow> ig_event list \<Rightarrow> ig_tcp_client option" where
  "send_events cli [] = Some cli"
| "send_events cli (ev # evs) =
     (case ig_tcp_send_event cli ev of (rc, cli) \<Rightarrow> if rc = 0 then send_events cli evs else None)"

fun collect :: "nat \<Rightarrow> bytes \<Rightarrow> (go_error + (u32 \<times> FileEventMsg)) list" where
  "collect 0 stream = []"
| "collect (Suc n) stream =
     (case ReadFrame stream of
        Inl e \<Rightarrow> [Inl e]
      | Inr ((hdr, payload), stream) \<Rightarrow>
          gbind (DecodeFileEvent payload) (\<lambda>msg. Inr (SeqNum hdr, msg)) # collect n stream)"

fun event_stream :: "u64 \<Rightarrow> u32 \<Rightarrow> ig_event list \<Rightarrow> bytes" where
  "event_stream aid seq [] = []"
| "event_stream aid seq (ev # evs) =
     frame_bytes 3 (seq + 1) (file_event_bytes (event_msg aid ev)) @ event_stream aid (seq + 1) evs"

lemma collect_stream:
  assumes "\<forall>ev \<in> set evs. sendable ev"
  shows "collect (length evs) (event_stream aid seq evs @ rest)
    = map (\<lambda>(i, ev). Inr (seq + of_nat i, event_view (event_msg aid ev))) (enumerate 1 evs)"
  using assms
proof (induction evs arbitrary: seq)
  case (Cons ev evs)
  have ev: "sendable ev" using Cons.prems by simp
  let ?b = "file_event_bytes (event_msg aid ev)"
  have "length ?b \<le> MaxFrameSize"
    using event_bytes_bound [of ev aid] ev
    by (simp add: sendable_def IG_MAX_PAYLOAD_def IG_MAX_FRAME_SIZE_def MaxFrameSize_def)
  note frame = ReadFrame_step [OF this, of 3 "seq + 1"]
  have dec: "DecodeFileEvent ?b = Inr (event_view (event_msg aid ev))"
    using decode_file_event_bytes [OF event_msg_ok, of aid ev] ev by (simp add: sendable_def event_msg_def)
  have "map (\<lambda>(i, e). Inr (seq + of_nat i, event_view (event_msg aid e)) :: go_error + (u32 \<times> FileEventMsg)) (enumerate 2 evs)
      = map (\<lambda>(i, e). Inr (seq + 1 + of_nat i, event_view (event_msg aid e))) (enumerate 1 evs)"
    by (rule nth_equalityI) (auto simp: nth_enumerate_eq)
  with Cons.IH [of "seq + 1"] Cons.prems show ?case
    by (simp add: frame_bytes_WriteFrame frame dec numeral_2_eq_2)
qed simp

lemma send_events_stream:
  assumes "send_events cli evs = Some cli'" and "tc_ssl cli = Some s" and "tc_state cli = IG_CONN_CONNECTED"
    and "\<forall>ev \<in> set evs. sendable ev"
  obtains s' where "tc_ssl cli' = Some s'" "s_out s' = s_out s @ event_stream (tc_agent_id cli) (tc_seq_num cli) evs"
  using assms
proof (induction evs arbitrary: cli s thesis)
  case (Cons ev evs)
  have ev: "sendable ev" using Cons.prems(5) by simp
  obtain c1 where c1: "ig_tcp_send_event cli ev = (0, c1)" "send_events c1 evs = Some cli'"
    using Cons.prems(2) by (auto split: prod.splits if_splits)
  have "ig_tcp_send_frame cli (msg_type_code IG_MSG_FILE_EVENT) (file_event_bytes (event_msg (tc_agent_id cli) ev)) = (0, c1)"
    using send_event_eq [of ev cli] c1(1) ev Cons.prems(4) by (simp add: sendable_def)
  then show ?case
  proof (cases rule: send_frame_cases)
    case (sent t t')
    with Cons.prems(3) have t: "tc_ssl c1 = Some t'" "tc_state c1 = IG_CONN_CONNECTED"
      "tc_agent_id c1 = tc_agent_id cli" "tc_seq_num c1 = tc_seq_num cli + 1"
      "s_out t' = s_out s @ frame_bytes 3 (tc_seq_num cli + 1) (file_event_bytes (event_msg (tc_agent_id cli) ev))"
      by auto
    from Cons.IH [OF _ c1(2) t(1,2)] Cons.prems(5) obtain s'
      where "tc_ssl cli' = Some s'" "s_out s' = s_out t' @ event_stream (tc_agent_id c1) (tc_seq_num c1) evs" by auto
    with t show ?thesis by (intro Cons.prems(1) [of s']) simp_all
  qed (auto split: if_splits)
qed simp

text \<open>Events reach the collector: when a connected agent has sent a list of events with success,
  the collector that reads the bytes the session accepted recovers exactly these events, in order,
  under consecutive sequence numbers, with the process chain of each.\<close>

theorem events_reach_collector:
  assumes "send_events cli evs = Some cli'" and "tc_state cli = IG_CONN_CONNECTED" and "tc_ssl cli = Some s"
    and "tc_ssl cli' = Some s'" and "\<forall>ev \<in> set evs. sendable ev" and "s_out s @ stream = s_out s' @ rest"
  shows "collect (length evs) stream
    = map (\<lambda>(i, ev). Inr (tc_seq_num cli + of_nat i, event_view (event_msg (tc_agent_id cli) ev))) (enumerate 1 evs)"
proof -
  have "stream = event_stream (tc_agent_id cli) (tc_seq_num cli) evs @ rest"
    using send_events_stream [OF assms(1,3,2,5)] assms(4,6) by (metis append_assoc option.inject same_append_eq)
  then show ?thesis using collect_stream [OF assms(5)] by simp
qed

text \<open>A session that takes a header and then a whole payload.\<close>

lemma sample_send:
  assumes "sendable ev"
  obtains cli' s' where "ig_tcp_send_event (open_client [9, 65535] []) ev = (0, cli')" "tc_ssl cli' = Some s'"
    "s_out s' = event_stream 0 0 [ev]"
proof -
  let ?cli = "open_client [9, 65535] []" and ?p = "file_event_bytes (event_msg 0 ev)"
  have ok: "length (cstr (ev_path ev)) < IG_MAX_PATH" "length (cstr (ev_filename ev)) < 256" "map_source (ev_source ev) \<noteq> 0"
    using assms by (simp_all add: sendable_def)
  have conn: "tc_state ?cli = IG_CONN_CONNECTED" "tc_ssl ?cli = Some \<lparr>s_out = [], s_wr = [9, 65535], s_in = []\<rparr>"
    by (simp_all add: open_client_def)
  have len: "length ?p \<le> 65535" "?p \<noteq> []"
    using event_bytes_bound [OF ok(1,2), of 0] length_file_event_bytes [OF event_msg_ok, of 0 ev]
    by (auto simp: IG_MAX_PAYLOAD_def IG_MAX_FRAME_SIZE_def file_event_need_def)
  have eq: "ig_tcp_send_event ?cli ev = ig_tcp_send_frame ?cli 3 ?p"
    using send_event_eq [OF ok(1,2) conn(1) ok(3)] by (simp add: open_client_def ig_tcp_init_def)
  have whole: "write_loop [65535] ?p out = (True, [], out @ ?p)" for out using len by (cases ?p) simp_all
  have "fst (ig_tcp_send_event ?cli ev) = 0"
    unfolding eq using len whole
    by (simp add: open_client_def ig_tcp_init_def ig_tcp_send_frame_def next_seq_def Let_def frame_header_encode_eq
        IG_FRAME_HEADER_SIZE_def IG_MAX_FRAME_SIZE_def frame_header_bytes_def be32_def ssl_write_all_def)
  then obtain cli' where send: "ig_tcp_send_event ?cli ev = (0, cli')" by (cases "ig_tcp_send_event ?cli ev") simp
  then have all: "send_events ?cli [ev] = Some cli'" by simp
  have "\<forall>e \<in> set [ev]. sendable e" using assms by (simp only: list.set ball_simps)
  from send_events_stream [OF all conn(2,1) this] obtain s' where "tc_ssl cli' = Some s'" "s_out s' = event_stream 0 0 [ev]"
    by (auto simp: open_client_def ig_tcp_init_def simp del: event_stream.simps)
  with send that show thesis by blast
qed

theorem events_reach_collector_witness:
  "collect 1 (event_stream 0 0 [sample_lkm_event]) = [Inr (1, event_view (event_msg 0 sample_lkm_event))]"
proof -
  note sample_lkm_event_sendable
  then obtain cli' s' where send: "ig_tcp_send_event (open_client [9, 65535] []) sample_lkm_event = (0, cli')"
    and s': "tc_ssl cli' = Some s'" "s_out s' = event_stream 0 0 [sample_lkm_event]" and fits: "\<forall>e \<in> set [sample_lkm_event]. sendable e"
    using sample_send by (metis empty_iff empty_set set_ConsD)
  have all: "send_events (open_client [9, 65535] []) [sample_lkm_event] = Some cli'" by (simp add: send)
  have conn: "tc_state (open_client [9, 65535] []) = IG_CONN_CONNECTED"
    "tc_ssl (open_client [9, 65535] []) = Some \<lparr>s_out = [], s_wr = [9, 65535], s_in = []\<rparr>" by (simp_all add: open_client_def)
  from events_reach_collector [OF all conn s'(1) fits, of "event_stream 0 0 [sample_lkm_event]" "[]"] s'(2)
  show ?thesis by (simp add: open_client_def ig_tcp_init_def)
qed

section \<open>From a refused access to the collector\<close>

lemma event_wf_sendable: "event_wf ev \<Longrightarrow> sendable ev"
  by (simp add: event_wf_def sendable_def chain_shape_def chain_wf_def)

text \<open>C4. The collector learns what happened: the event the module captures for a write, delete or rename of
  a watched inode, once the agent has received it and sent it with success, is read by the collector
  from the bytes of the session with the same device, inode, operation, outcome, process, user and path, and with the whole
  ancestry of the process, in order, as the module saw it.\<close>

theorem captured_event_reaches_collector:
  assumes "ig_collect_chain cx c = ((es, trunc), c')" and "op \<in> {IG_OP_WRITE, IG_OP_DELETE, IG_OP_RENAME}"
    and "ev = lkm_to_event fs (make_event bkt cx ht dev ino op blocked (es, trunc))"
    and "tc_state cli = IG_CONN_CONNECTED" and "tc_ssl cli = Some s" and "ig_tcp_send_event cli ev = (0, cli')"
    and "tc_ssl cli' = Some s'" and "s_out s @ stream = s_out s' @ rest"
  shows "\<exists>v. collect 1 stream = [Inr (tc_seq_num cli + 1, v)] \<and> AgentID v = tc_agent_id cli
    \<and> tells cx (strncpy0 IG_MAX_LKM_PATH (inode_policy_path bkt ht dev ino)) dev ino op blocked es trunc v"
proof -
  let ?v = "event_view (event_msg (tc_agent_id cli) ev)"
  have ok: "\<forall>e \<in> set [ev]. sendable e"
    unfolding assms(3) using event_wf_sendable [OF lkm_to_event_wf [OF captured_chain(1,2) [OF assms(1)]]]
    by (simp only: list.set ball_simps)
  have "send_events cli [ev] = Some cli'" by (simp add: assms(6))
  then have str: "stream = event_stream (tc_agent_id cli) (tc_seq_num cli) [ev] @ rest"
    by (rule send_events_stream [OF _ assms(5,4) ok]) (use assms(7,8) in simp_all)
  have "collect (length [ev]) stream
      = map (\<lambda>(i, e). Inr (tc_seq_num cli + of_nat i, event_view (event_msg (tc_agent_id cli) e))) (enumerate 1 [ev])"
    unfolding str by (rule collect_stream [OF ok])
  then have "collect 1 stream = [Inr (tc_seq_num cli + 1, ?v)]" by (simp del: collect.simps)
  moreover have "AgentID ?v = tc_agent_id cli" by (simp add: event_view_def event_msg_def)
  ultimately show ?thesis using captured_view [OF assms(1,2)] assms(3) by blast
qed

theorem captured_event_reaches_collector_witness:
  "\<exists>es trunc stream v. collect 1 stream = [Inr (1, v)]
     \<and> tells sample_ctx [] 8 77 IG_OP_DELETE 1 es trunc v"
proof -
  obtain es trunc c' where c: "ig_collect_chain sample_ctx (empty_cache 0) = ((es, trunc), c')" by (metis prod_cases3 surj_pair)
  let ?ev = "lkm_to_event sample_proc (make_event (\<lambda>_ _. 0) sample_ctx ig_policy_init 8 77 IG_OP_DELETE 1 (es, trunc))"
  have "sendable ?ev" by (rule event_wf_sendable [OF lkm_to_event_wf [OF captured_chain(1,2) [OF c]]])
  then obtain cli' s' where send: "ig_tcp_send_event (open_client [9, 65535] []) ?ev = (0, cli')" "tc_ssl cli' = Some s'"
    by (rule sample_send)
  have conn: "tc_state (open_client [9, 65535] []) = IG_CONN_CONNECTED"
    "tc_ssl (open_client [9, 65535] []) = Some \<lparr>s_out = [], s_wr = [9, 65535], s_in = []\<rparr>"
    "tc_seq_num (open_client [9, 65535] []) = 0" by (simp_all add: open_client_def ig_tcp_init_def)
  have op: "IG_OP_DELETE \<in> {IG_OP_WRITE, IG_OP_DELETE, IG_OP_RENAME}" by simp
  have path: "strncpy0 IG_MAX_LKM_PATH (inode_policy_path (\<lambda>_ _. 0) ig_policy_init 8 77) = []"
    by (simp add: inode_policy_path_def ig_policy_init_def find_entry_def strncpy0_def cstr_def)
  from captured_event_reaches_collector [OF c op refl conn(1,2) send, of "s_out s'" "[]"] show ?thesis
    unfolding path conn(3) by (auto simp: simp del: collect.simps)
qed

end
